(* ===== verification/Prelude.thy ===== *)
theory Prelude
  imports Complex_Main "HOL-Library.Word" "HOL-Library.AList" "HOL-Library.Multiset"
begin

text \<open>
  The vocabulary every component shares: machine integers, the ways a run of the engine can
  stop early, the state-and-error computations the operations are written in, and the
  generic facts about lists, association lists and 64-bit words their proofs use.

  An operation of the engine is a function from a state to either an error or a result with
  the next state. The macro \<^verbatim>\<open>ERROR(...)\<close> of \<^verbatim>\<open>logger.hh\<close> prints and then calls
  \<^verbatim>\<open>exit(1)\<close> unless the logger was told otherwise (\<^verbatim>\<open>exitOnErrors\<close> starts as true), so
  in the default configuration an \<^verbatim>\<open>ERROR\<close> ends the run: it is the value
  \<open>Inl (ErrorExit f)\<close>, where \<open>f\<close> names the C++ function that reported it. A C++
  exception that nothing on the way catches is \<open>Uncaught\<close>, an execution the C++ standard
  gives no meaning to (division by zero, \<^verbatim>\<open>front()\<close> of an empty container, a null pointer
  dereference) is \<open>Undefined\<close>, and \<open>OutOfFuel\<close> marks a loop that was cut by the model.
\<close>

section \<open>Types and collections of rules\<close>

type_synonym u64 = "64 word"
type_synonym u32 = "32 word"

datatype atp_error =
    ErrorExit string
  | Uncaught string
  | Undefined string
  | OutOfFuel

type_synonym 'a res = "atp_error + 'a"

type_synonym ('s, 'a) comp = "'s \<Rightarrow> ('a \<times> 's) res"

named_theorems keeps_rules "how a relation between states passes through the combinators"
named_theorems atp_simps "defining equations the evaluation of concrete runs unfolds"

section \<open>Results\<close>

definition bindR :: "'a res \<Rightarrow> ('a \<Rightarrow> 'b res) \<Rightarrow> 'b res" where
  "bindR m f = (case m of Inl e \<Rightarrow> Inl e | Inr x \<Rightarrow> f x)"

definition ensure :: "bool \<Rightarrow> atp_error \<Rightarrow> unit res" where
  "ensure b e = (if b then Inr () else Inl e)"

lemma bindR_Inr [simp]: "bindR (Inr x) f = f x"
  and bindR_Inl [simp]: "bindR (Inl e) f = Inl e"
  by (simp_all add: bindR_def)

lemma bindR_eq_Inr: "bindR m f = Inr y \<longleftrightarrow> (\<exists>x. m = Inr x \<and> f x = Inr y)"
  by (cases m) auto

lemma bindRE:
  assumes "bindR m f = Inr y"
  obtains x where "m = Inr x" and "f x = Inr y"
  using assms by (auto simp: bindR_eq_Inr)

lemma ensure_True [simp]: "ensure True e = Inr ()"
  and ensure_False [simp]: "ensure False e = Inl e"
  by (simp_all add: ensure_def)

lemma ensure_eq_Inr [simp]: "ensure b e = Inr u \<longleftrightarrow> b"
  by (simp add: ensure_def)

fun foldR :: "('a \<Rightarrow> 's \<Rightarrow> 's res) \<Rightarrow> 'a list \<Rightarrow> 's \<Rightarrow> 's res" where
  "foldR f [] s = Inr s"
| "foldR f (x # xs) s = bindR (f x s) (foldR f xs)"

section \<open>Computations\<close>

definition returnS :: "'a \<Rightarrow> ('s, 'a) comp" where
  "returnS x s = Inr (x, s)"

definition bindS :: "('s, 'a) comp \<Rightarrow> ('a \<Rightarrow> ('s, 'b) comp) \<Rightarrow> ('s, 'b) comp" where
  "bindS m f s = (case m s of Inl e \<Rightarrow> Inl e | Inr (x, s') \<Rightarrow> f x s')"

definition thenS :: "('s, 'a) comp \<Rightarrow> ('s, 'b) comp \<Rightarrow> ('s, 'b) comp" where
  "thenS m n = bindS m (\<lambda>_. n)"

definition failS :: "atp_error \<Rightarrow> ('s, 'a) comp" where
  "failS e s = Inl e"

definition getS :: "('s, 's) comp" where
  "getS s = Inr (s, s)"

definition readS :: "('s \<Rightarrow> 'a) \<Rightarrow> ('s, 'a) comp" where
  "readS f s = Inr (f s, s)"

definition modifyS :: "('s \<Rightarrow> 's) \<Rightarrow> ('s, unit) comp" where
  "modifyS f s = Inr ((), f s)"

definition liftS :: "'a res \<Rightarrow> ('s, 'a) comp" where
  "liftS r s = (case r of Inl e \<Rightarrow> Inl e | Inr x \<Rightarrow> Inr (x, s))"

definition whenS :: "bool \<Rightarrow> ('s, unit) comp \<Rightarrow> ('s, unit) comp" where
  "whenS b m = (if b then m else returnS ())"

fun eachS :: "('a \<Rightarrow> ('s, unit) comp) \<Rightarrow> 'a list \<Rightarrow> ('s, unit) comp" where
  "eachS f [] = returnS ()"
| "eachS f (x # xs) = thenS (f x) (eachS f xs)"

lemmas comp_defs = returnS_def bindS_def thenS_def failS_def getS_def readS_def
  modifyS_def liftS_def whenS_def

lemma returnS_run [simp]: "returnS x s = Inr (x, s)"
  and failS_run [simp]: "failS e s = Inl e"
  and getS_run [simp]: "getS s = Inr (s, s)"
  and readS_run [simp]: "readS g s = Inr (g s, s)"
  and modifyS_run [simp]: "modifyS h s = Inr ((), h s)"
  and liftS_Inr [simp]: "liftS (Inr x) s = Inr (x, s)"
  and liftS_Inl [simp]: "liftS (Inl e) s = Inl e"
  by (simp_all add: comp_defs)

lemma whenS_True [simp]: "whenS True m = m"
  and whenS_False [simp]: "whenS False m = returnS ()"
  by (simp_all add: whenS_def)

lemma bindS_return [simp]: "bindS (returnS x) f = f x"
  by (rule ext) (simp add: bindS_def)

lemma bindS_eq_Inr:
  "bindS m f s = Inr r \<longleftrightarrow> (\<exists>x s'. m s = Inr (x, s') \<and> f x s' = Inr r)"
  by (auto simp: bindS_def split: sum.splits)

lemma bindS_run: "m s = Inr (x, s') \<Longrightarrow> bindS m f s = f x s'"
  by (simp add: bindS_def)

lemma bindS_fails: "m s = Inl e \<Longrightarrow> bindS m f s = Inl e"
  by (simp add: bindS_def)

lemma thenS_eq_Inr:
  "thenS m n s = Inr r \<longleftrightarrow> (\<exists>x s'. m s = Inr (x, s') \<and> n s' = Inr r)"
  by (simp add: thenS_def bindS_eq_Inr)

lemma thenS_run: "m s = Inr (x, s') \<Longrightarrow> thenS m n s = n s'"
  by (simp add: thenS_def bindS_run)

lemma liftS_eq_Inr: "liftS r s = Inr (x, s') \<longleftrightarrow> r = Inr x \<and> s' = s"
  by (cases r) auto

section \<open>Relations that computations respect\<close>

text \<open>
  \<open>keeps R m\<close>: whenever \<open>m\<close> returns, the state before and the state after are related by
  \<open>R\<close>. For a reflexive and transitive \<open>R\<close> the combinators pass it on, which is how a fact
  about one field (the clock never goes back, a table only grows, an invariant is kept) is
  carried from the primitive operations to the handlers built from them.
\<close>

definition keeps :: "('s \<Rightarrow> 's \<Rightarrow> bool) \<Rightarrow> ('s, 'a) comp \<Rightarrow> bool" where
  "keeps R m \<longleftrightarrow> (\<forall>s x s'. m s = Inr (x, s') \<longrightarrow> R s s')"

lemma keepsI: "(\<And>s x s'. m s = Inr (x, s') \<Longrightarrow> R s s') \<Longrightarrow> keeps R m"
  by (auto simp: keeps_def)

lemma keepsD: "keeps R m \<Longrightarrow> m s = Inr (x, s') \<Longrightarrow> R s s'"
  by (auto simp: keeps_def)

locale step_relation =
  fixes R :: "'s \<Rightarrow> 's \<Rightarrow> bool"
  assumes R_refl: "R s s"
    and R_trans: "R s t \<Longrightarrow> R t u \<Longrightarrow> R s u"
begin

lemma keeps_return: "keeps R (returnS x)"
  by (auto simp: keeps_def R_refl)

lemma keeps_fail: "keeps R (failS e)"
  by (auto simp: keeps_def)

lemma keeps_get: "keeps R getS"
  by (auto simp: keeps_def R_refl)

lemma keeps_read: "keeps R (readS g)"
  by (auto simp: keeps_def R_refl)

lemma keeps_lift: "keeps R (liftS r)"
  by (auto simp: keeps_def R_refl liftS_eq_Inr)

lemma keeps_modify: "(\<And>s. R s (h s)) \<Longrightarrow> keeps R (modifyS h)"
  by (auto simp: keeps_def)

lemma keeps_bind:
  assumes "keeps R m" and "\<And>x. keeps R (f x)"
  shows "keeps R (bindS m f)"
proof (rule keepsI)
  fix s x s'
  assume "bindS m f s = Inr (x, s')"
  then obtain y t where "m s = Inr (y, t)" and "f y t = Inr (x, s')"
    by (auto simp: bindS_eq_Inr)
  with assms show "R s s'" by (blast intro: R_trans dest: keepsD)
qed

lemma keeps_then: "keeps R m \<Longrightarrow> keeps R n \<Longrightarrow> keeps R (thenS m n)"
  unfolding thenS_def by (rule keeps_bind)

lemma keeps_when: "(b \<Longrightarrow> keeps R m) \<Longrightarrow> keeps R (whenS b m)"
  by (cases b) (simp_all add: keeps_return)

lemma keeps_if: "(b \<Longrightarrow> keeps R m) \<Longrightarrow> (\<not> b \<Longrightarrow> keeps R n) \<Longrightarrow> keeps R (if b then m else n)"
  by simp

lemma keeps_option:
  "keeps R m \<Longrightarrow> (\<And>x. keeps R (f x)) \<Longrightarrow> keeps R (case v of None \<Rightarrow> m | Some x \<Rightarrow> f x)"
  by (cases v) simp_all

lemma keeps_prod: "(\<And>x y. keeps R (f x y)) \<Longrightarrow> keeps R (case p of (x, y) \<Rightarrow> f x y)"
  by (cases p) simp

lemma keeps_each: "(\<And>x. x \<in> set xs \<Longrightarrow> keeps R (f x)) \<Longrightarrow> keeps R (eachS f xs)"
  by (induction xs) (auto intro: keeps_return keeps_then)

lemmas keeps_all = keeps_return keeps_fail keeps_get keeps_read keeps_lift keeps_bind
  keeps_then keeps_when keeps_if keeps_option keeps_prod keeps_each

end

section \<open>Machine words\<close>

lemma unat_u64_lt: "unat (x :: u64) < 18446744073709551616"
  using unsigned_less [of x, where ?'a = nat] by simp

lemma unat_add_no_overflow:
  "unat (a :: u64) + unat b < 18446744073709551616 \<Longrightarrow> unat (a + b) = unat a + unat b"
  by (simp add: unat_word_ariths)

lemma unat_sub_le: "b \<le> a \<Longrightarrow> unat (a - b :: u64) = unat a - unat b"
  by (simp add: unat_sub)

lemma unat_of_nat_u64: "n < 18446744073709551616 \<Longrightarrow> unat (of_nat n :: u64) = n"
  by (simp add: unat_of_nat take_bit_nat_eq_self)

lemma unat_of_nat_le: "n \<le> unat (c :: u64) \<Longrightarrow> unat (of_nat n :: u64) = n"
  by (rule unat_of_nat_u64) (rule order.strict_trans1 [OF _ unat_u64_lt])

lemma unat_sub_of_nat: "n \<le> unat (c :: u64) \<Longrightarrow> unat (c - of_nat n) = unat c - n"
  by (simp add: unat_sub_le word_le_nat_alt unat_of_nat_le)

lemma unat_sub_1: "0 < unat (c :: u64) \<Longrightarrow> unat (c - 1) = unat c - 1"
  using unat_sub_of_nat [of 1 c] by simp

lemma unat_min: "unat (min a b :: u64) = min (unat a) (unat b)"
  by (auto simp: min_def word_le_nat_alt)

lemma of_nat_div_u64:
  "a < 18446744073709551616 \<Longrightarrow> b < 18446744073709551616 \<Longrightarrow>
    (of_nat a :: u64) div of_nat b = of_nat (a div b)"
  by (simp add: word_unat_eq_iff unat_div unat_of_nat_u64 le_less_trans [OF div_le_dividend])

lemma of_nat_less_u64:
  "a < 18446744073709551616 \<Longrightarrow> b < 18446744073709551616 \<Longrightarrow> (of_nat a :: u64) < of_nat b \<longleftrightarrow> a < b"
  by (simp add: word_less_nat_alt unat_of_nat_u64)

lemma of_nat_le_u64:
  "a < 18446744073709551616 \<Longrightarrow> b < 18446744073709551616 \<Longrightarrow> (of_nat a :: u64) \<le> of_nat b \<longleftrightarrow> a \<le> b"
  by (simp add: word_le_nat_alt unat_of_nat_u64)

text \<open>Unsigned subtraction of a part of the minuend never wraps.\<close>

lemma word_minus_le: "(b :: u64) \<le> a \<Longrightarrow> a - b \<le> a"
  by (simp add: word_le_nat_alt unat_sub_le)

section \<open>Lists and association lists\<close>

lemma map_of_delete [simp]: "map_of (AList.delete k al) = (map_of al)(k := None)"
  by (simp add: delete_conv')

lemma map_of_update [simp]: "map_of (AList.update k v al) = (map_of al)(k \<mapsto> v)"
  by (simp add: update_conv')

lemma sorted_wrt_append_Cons:
  "sorted_wrt P (xs @ y # ys) \<longleftrightarrow>
    sorted_wrt P (xs @ ys) \<and> (\<forall>x \<in> set xs. P x y) \<and> (\<forall>z \<in> set ys. P y z)"
  by (auto simp: sorted_wrt_append)

section \<open>Systems of guarded operations\<close>

text \<open>
  A component as its client sees it: operations that may be refused or fail, an admissibility
  condition on the operations, and an invariant that admissible operations keep. The invariant
  then holds after every run of admissible operations.
\<close>

fun admissible_run :: "('o \<Rightarrow> 's \<Rightarrow> bool) \<Rightarrow> ('o \<Rightarrow> 's \<Rightarrow> 's res) \<Rightarrow> 'o list \<Rightarrow> 's \<Rightarrow> bool" where
  "admissible_run adm step [] s = True"
| "admissible_run adm step (x # xs) s \<longleftrightarrow>
    adm x s \<and> (case step x s of Inl e \<Rightarrow> True | Inr s' \<Rightarrow> admissible_run adm step xs s')"

locale guarded_system =
  fixes step :: "'o \<Rightarrow> 's \<Rightarrow> 's res"
    and adm :: "'o \<Rightarrow> 's \<Rightarrow> bool"
    and inv :: "'s \<Rightarrow> bool"
  assumes step_inv: "inv s \<Longrightarrow> adm x s \<Longrightarrow> step x s = Inr s' \<Longrightarrow> inv s'"
begin

lemma run_inv: "inv s \<Longrightarrow> admissible_run adm step xs s \<Longrightarrow> foldR step xs s = Inr s' \<Longrightarrow> inv s'"
proof (induction xs arbitrary: s)
  case (Cons x xs)
  then obtain t where t: "step x s = Inr t" "foldR step xs t = Inr s'" by (auto simp: bindR_eq_Inr)
  with Cons.prems have "inv t" using step_inv by auto
  with t Cons show ?case by auto
qed simp

end

text \<open>When admissible operations do not fail either, every admissible run returns.\<close>

locale live_system = guarded_system +
  assumes step_live: "inv s \<Longrightarrow> adm x s \<Longrightarrow> \<exists>s'. step x s = Inr s'"
begin

lemma run_live: "inv s \<Longrightarrow> admissible_run adm step xs s \<Longrightarrow> \<exists>s'. foldR step xs s = Inr s' \<and> inv s'"
proof (induction xs arbitrary: s)
  case (Cons x xs)
  then obtain t where t: "step x s = Inr t" "inv t" using step_live step_inv by fastforce
  with Cons show ?case by auto
qed simp

end

end
