(* ===== verification/Events.thy ===== *)
theory Events
  imports Prelude
begin

text \<open>
  Events (\<^verbatim>\<open>event.hh\<close>, \<^verbatim>\<open>event.cc\<close>): types, categories, the equality that ignores action
  and time, and the parser of \<^verbatim>\<open>wait_for\<close> strings. \<open>NO_EVENT\<close> stands for \<^verbatim>\<open>Event::NONE\<close>.
\<close>

section \<open>Event types and categories\<close>

datatype ecat = NO_CATEGORY | PROFILE | FIFO_LEVEL | SEND_STATUS | PACKET | CLOCK

datatype etype =
    NO_EVENT | ACTIVATION | TERMINATION | FIFO_EMPTY | FIFO_FULL | FIFO_NOT_EMPTY
  | FIFO_NOT_FULL | PROFILE_LOCKED | PROFILE_UNLOCKED | PACKET_REQUEST_RETRY | TICK

datatype action = AWAITED | TRIGGERED

fun etype_code :: "etype \<Rightarrow> nat" where
  "etype_code NO_EVENT = 0"
| "etype_code ACTIVATION = 1"
| "etype_code TERMINATION = 2"
| "etype_code FIFO_EMPTY = 3"
| "etype_code FIFO_FULL = 4"
| "etype_code FIFO_NOT_EMPTY = 5"
| "etype_code FIFO_NOT_FULL = 6"
| "etype_code PROFILE_LOCKED = 7"
| "etype_code PROFILE_UNLOCKED = 8"
| "etype_code PACKET_REQUEST_RETRY = 9"
| "etype_code TICK = 10"

text \<open>The enumerators in the order of their values, and the order they induce.\<close>

definition all_etypes :: "etype list" where
  "all_etypes = [NO_EVENT, ACTIVATION, TERMINATION, FIFO_EMPTY, FIFO_FULL, FIFO_NOT_EMPTY,
     FIFO_NOT_FULL, PROFILE_LOCKED, PROFILE_UNLOCKED, PACKET_REQUEST_RETRY, TICK]"

lemma etype_code_inj: "etype_code t = etype_code u \<Longrightarrow> t = u"
  by (cases t; cases u) simp_all

instantiation etype :: linorder
begin

definition less_eq_etype :: "etype \<Rightarrow> etype \<Rightarrow> bool" where
  "less_eq_etype t u \<longleftrightarrow> etype_code t \<le> etype_code u"

definition less_etype :: "etype \<Rightarrow> etype \<Rightarrow> bool" where
  "less_etype t u \<longleftrightarrow> etype_code t < etype_code u"

instance
  by standard (auto simp: less_eq_etype_def less_etype_def intro: etype_code_inj)

end

lemma set_all_etypes: "t \<in> set all_etypes"
  by (cases t) (simp_all add: all_etypes_def)

lemma sorted_all_etypes: "sorted all_etypes" "distinct all_etypes"
  by (simp_all add: all_etypes_def less_eq_etype_def)

fun event_text :: "etype \<Rightarrow> string" where
  "event_text NO_EVENT = ''NONE''"
| "event_text ACTIVATION = ''ACTIVATION''"
| "event_text TERMINATION = ''TERMINATION''"
| "event_text FIFO_EMPTY = ''FIFO_EMPTY''"
| "event_text FIFO_FULL = ''FIFO_FULL''"
| "event_text FIFO_NOT_EMPTY = ''FIFO_NOT_EMPTY''"
| "event_text FIFO_NOT_FULL = ''FIFO_NOT_FULL''"
| "event_text PROFILE_LOCKED = ''PROFILE_LOCKED''"
| "event_text PROFILE_UNLOCKED = ''PROFILE_UNLOCKED''"
| "event_text PACKET_REQUEST_RETRY = ''PACKET_REQUEST_RETRY''"
| "event_text TICK = ''TICK''"

fun category :: "etype \<Rightarrow> ecat" where
  "category NO_EVENT = NO_CATEGORY"
| "category ACTIVATION = PROFILE"
| "category TERMINATION = PROFILE"
| "category FIFO_EMPTY = FIFO_LEVEL"
| "category FIFO_FULL = FIFO_LEVEL"
| "category FIFO_NOT_EMPTY = FIFO_LEVEL"
| "category FIFO_NOT_FULL = FIFO_LEVEL"
| "category PROFILE_LOCKED = SEND_STATUS"
| "category PROFILE_UNLOCKED = SEND_STATUS"
| "category PACKET_REQUEST_RETRY = PACKET"
| "category TICK = CLOCK"

fun allowConcurrency :: "ecat \<Rightarrow> bool" where
  "allowConcurrency NO_CATEGORY = True"
| "allowConcurrency PROFILE = True"
| "allowConcurrency FIFO_LEVEL = False"
| "allowConcurrency SEND_STATUS = False"
| "allowConcurrency PACKET = True"
| "allowConcurrency CLOCK = False"

section \<open>Events and their equality\<close>

record event =
  ev_type :: etype
  ev_action :: action
  ev_id :: u64
  ev_time :: u64

text \<open>
  Two events are equal when their types and ids are, so the sets and maps of the code that
  hold events are keyed by the pair of both.
\<close>

type_synonym ekey = "etype \<times> u64"

definition ekey :: "event \<Rightarrow> ekey" where
  "ekey e = (ev_type e, ev_id e)"

definition event_eq :: "event \<Rightarrow> event \<Rightarrow> bool" where
  "event_eq e f \<longleftrightarrow> ev_type e = ev_type f \<and> ev_id e = ev_id f"

definition event_hash :: "event \<Rightarrow> u64" where
  "event_hash e = (of_nat (etype_code (ev_type e)) + 1) * ev_id e"

definition mk_event :: "etype \<Rightarrow> action \<Rightarrow> u64 \<Rightarrow> u64 \<Rightarrow> event" where
  "mk_event ty a i t = \<lparr>ev_type = ty, ev_action = a, ev_id = i, ev_time = t\<rparr>"

lemma mk_event_simps [simp]:
  "ev_type (mk_event ty a i t) = ty" "ev_action (mk_event ty a i t) = a"
  "ev_id (mk_event ty a i t) = i" "ev_time (mk_event ty a i t) = t"
  "ekey (mk_event ty a i t) = (ty, i)"
  by (simp_all add: mk_event_def ekey_def)

lemma event_eq_key: "event_eq e f \<longleftrightarrow> ekey e = ekey f"
  by (simp add: event_eq_def ekey_def)

text \<open>The hash agrees with the equality, as an unordered container requires.\<close>

lemma event_eq_hash: "event_eq e f \<Longrightarrow> event_hash e = event_hash f"
  by (simp add: event_eq_def event_hash_def)

section \<open>Parsing\<close>

text \<open>
  \<^verbatim>\<open>Event::parse(t, profile, in)\<close>: the result flag, the type (left as it was when nothing
  matches) and the profile name. The first blank separates the two parts.
\<close>

fun find_etype :: "string \<Rightarrow> etype list \<Rightarrow> etype option" where
  "find_etype s [] = None"
| "find_etype s (t # ts) = (if event_text t = s then Some t else find_etype s ts)"

definition event_parse :: "etype \<Rightarrow> string \<Rightarrow> bool \<times> etype \<times> string" where
  "event_parse t0 inp =
    (let profile = takeWhile (\<lambda>c. c \<noteq> CHR '' '') inp
     in if CHR '' '' \<in> set inp then
          (case find_etype (drop (length profile + 1) inp) all_etypes of
             Some t \<Rightarrow> (True, t, profile)
           | None \<Rightarrow> (False, t0, profile))
        else (True, TERMINATION, profile))"

lemma find_etype_text: "find_etype (event_text t) all_etypes = Some t"
  by (cases t) (simp_all add: all_etypes_def)

lemma find_etype_Some: "find_etype s ts = Some t \<Longrightarrow> s = event_text t"
  by (induction ts) (auto split: if_splits)

lemma takeWhile_blank: "CHR '' '' \<notin> set p \<Longrightarrow> takeWhile (\<lambda>c. c \<noteq> CHR '' '') (p @ CHR '' '' # r) = p"
  by (induction p) auto

lemma event_parse_typed:
  assumes "CHR '' '' \<notin> set p"
  shows "event_parse t0 (p @ '' '' @ event_text t) = (True, t, p)"
  using assms by (simp add: event_parse_def takeWhile_blank find_etype_text)

lemma event_parse_untyped:
  assumes "CHR '' '' \<notin> set p"
  shows "event_parse t0 p = (True, TERMINATION, p)"
  using assms by (auto simp: event_parse_def takeWhile_eq_all_conv)

lemma event_parse_inverse:
  assumes blank: "CHR '' '' \<in> set s" and parsed: "event_parse t0 s = (True, t, q)"
  shows "s = q @ '' '' @ event_text t"
proof -
  from parsed blank have q: "q = takeWhile (\<lambda>c. c \<noteq> CHR '' '') s"
    and rest: "drop (length q + 1) s = event_text t"
    by (auto simp: event_parse_def Let_def dest!: find_etype_Some split: option.splits)
  obtain p r where s: "s = p @ CHR '' '' # r" "CHR '' '' \<notin> set p"
    using blank by (meson split_list_first)
  with q have "q = p" by (simp add: takeWhile_blank)
  with s rest show ?thesis by simp
qed

text \<open>
  C40. Parsing a wait-for string undoes printing it: a profile name without blanks, a blank
  and the text of an event type give back that name and type, and the name alone means its
  TERMINATION. Conversely a successful parse of a string with a blank determines the string.
\<close>

theorem event_parse_roundtrip:
  assumes "CHR '' '' \<notin> set p"
  shows "event_parse t0 (p @ '' '' @ event_text t) = (True, t, p)
    \<and> event_parse t0 p = (True, TERMINATION, p)
    \<and> (CHR '' '' \<in> set s \<and> event_parse t0 s = (True, u, q) \<longrightarrow> s = q @ '' '' @ event_text u)"
  using event_parse_typed [OF assms] event_parse_untyped [OF assms] event_parse_inverse by blast

theorem event_parse_roundtrip_witness:
  "CHR '' '' \<notin> set ''cpu0''
   \<and> event_parse NO_EVENT ''cpu0 FIFO_FULL'' = (True, FIFO_FULL, ''cpu0'')
   \<and> event_parse NO_EVENT ''cpu0'' = (True, TERMINATION, ''cpu0'')"
proof -
  have h: "CHR '' '' \<notin> set ''cpu0''" by simp
  show ?thesis using event_parse_roundtrip [OF h, of NO_EVENT FIFO_FULL] by simp
qed

end
