(* ===== verification/Event_Manager.thy ===== *)
theory Event_Manager
  imports Events
begin

text \<open>
  The event manager every profile and every FIFO inherits (\<^verbatim>\<open>event_manager.hh\<close>,
  \<^verbatim>\<open>event_manager.cc\<close>): what it waits for, how many events per category, and the last event
  it emitted per category. The calls it makes to the manager object (\<^verbatim>\<open>tpm->subscribe\<close>,
  \<^verbatim>\<open>tpm->event\<close>) are returned to the caller: \<open>em_emit\<close> returns the event to broadcast, and
  the events \<open>em_wait\<close> adds are subscribed by the operations of theory \<open>Tpm_Events\<close>.
\<close>

section \<open>State\<close>

text \<open>
  \<^verbatim>\<open>waited\<close> is a map from event ids to sets of events with that id; events compare by type
  and id, so it is kept as the list of the keys it holds. The time stored in a waited event
  is never read.
\<close>

record em =
  em_eventId :: u64
  em_sent :: "ecat \<Rightarrow> etype \<times> u64"
  em_waited :: "ekey list"
  em_waitedCount :: "ecat \<Rightarrow> u64"
  em_retained :: "ekey list"

definition em_new :: "u64 \<Rightarrow> em" where
  "em_new i = \<lparr>em_eventId = i, em_sent = (\<lambda>_. (NO_EVENT, 0)), em_waited = [],
     em_waitedCount = (\<lambda>_. 0), em_retained = []\<rparr>"

section \<open>Operations\<close>

definition bump_count :: "ecat \<Rightarrow> em \<Rightarrow> em" where
  "bump_count c m = m\<lparr>em_waitedCount := (em_waitedCount m)(c := em_waitedCount m c + 1)\<rparr>"

definition drop_count :: "ecat \<Rightarrow> em \<Rightarrow> em" where
  "drop_count c m = m\<lparr>em_waitedCount := (em_waitedCount m)(c := em_waitedCount m c - 1)\<rparr>"

definition em_wait :: "etype \<Rightarrow> u64 \<Rightarrow> bool \<Rightarrow> em \<Rightarrow> em" where
  "em_wait t i retain m =
    (if t = NO_EVENT then m
     else let m1 = m\<lparr>em_waited := List.insert (t, i) (em_waited m)\<rparr>;
              m2 = bump_count (category t) m1
          in if retain then m2\<lparr>em_retained := em_retained m2 @ [(t, i)]\<rparr> else m2)"

definition em_reset :: "em \<Rightarrow> em" where
  "em_reset m =
    (let m1 = m\<lparr>em_waited := [], em_waitedCount := (\<lambda>_. 0), em_sent := (\<lambda>_. (NO_EVENT, 0))\<rparr>
     in fold (\<lambda>(t, i). em_wait t i False) (em_retained m) m1)"

definition em_emit :: "etype \<Rightarrow> u64 \<Rightarrow> em \<Rightarrow> em \<times> event option" where
  "em_emit t now m =
    (if t = NO_EVENT then (m, None)
     else let cat = category t; sentCat = em_sent m cat
          in if fst sentCat = NO_EVENT
                \<or> (fst sentCat \<noteq> t \<and> (snd sentCat < now \<or> allowConcurrency cat))
             then (m\<lparr>em_sent := (em_sent m)(cat := (t, now))\<rparr>,
                   Some (mk_event t TRIGGERED (em_eventId m) now))
             else (m, None))"

definition em_take :: "event \<Rightarrow> em \<Rightarrow> em" where
  "em_take e m =
    (if ekey e \<in> set (em_waited m)
     then drop_count (category (ev_type e)) (m\<lparr>em_waited := remove1 (ekey e) (em_waited m)\<rparr>)
     else m)"

definition em_release_id :: "u64 \<Rightarrow> em \<Rightarrow> em" where
  "em_release_id i m =
    (fold (\<lambda>k. drop_count (category (fst k))) (filter (\<lambda>k. snd k = i) (em_waited m)) m)
      \<lparr>em_waited := filter (\<lambda>k. snd k \<noteq> i) (em_waited m)\<rparr>"

definition em_receive :: "event \<Rightarrow> em \<Rightarrow> (bool \<times> em) res" where
  "em_receive e m =
    bindR (ensure (ev_action e = TRIGGERED) (ErrorExit ''EventManager::receiveEvent'')) (\<lambda>_.
    let m1 = em_take e m
    in Inr (ekey e \<in> set (em_waited m),
            if ev_type e = TERMINATION then em_release_id (ev_id e) m1 else m1))"

definition em_waiting :: "em \<Rightarrow> bool" where
  "em_waiting m \<longleftrightarrow> em_waited m \<noteq> []"

definition getWaitedCount :: "ecat \<Rightarrow> em \<Rightarrow> u64" where
  "getWaitedCount c m = em_waitedCount m c"

section \<open>The counters agree with the set\<close>

definition waits_in :: "ecat \<Rightarrow> ekey list \<Rightarrow> nat" where
  "waits_in c ks = length (filter (\<lambda>k. category (fst k) = c) ks)"

definition em_wf :: "em \<Rightarrow> bool" where
  "em_wf m \<longleftrightarrow> distinct (em_waited m) \<and> NO_EVENT \<notin> fst ` set (em_waited m)
     \<and> (\<forall>c. em_waitedCount m c = of_nat (waits_in c (em_waited m)))"

lemma waits_in_Nil [simp]: "waits_in c [] = 0"
  and waits_in_Cons: "waits_in c (k # ks) = (if category (fst k) = c then 1 else 0) + waits_in c ks"
  by (simp_all add: waits_in_def)

lemma waits_in_remove1:
  "k \<in> set ks \<Longrightarrow> waits_in c ks = (if category (fst k) = c then 1 else 0) + waits_in c (remove1 k ks)"
  by (induction ks) (auto simp: waits_in_Cons)

lemma waits_in_split:
  "waits_in c ks = waits_in c (filter P ks) + waits_in c (filter (\<lambda>k. \<not> P k) ks)"
  by (induction ks) (auto simp: waits_in_Cons)

lemma count_simps [simp]:
  "em_waited (bump_count c m) = em_waited m" "em_waited (drop_count c m) = em_waited m"
  "em_eventId (bump_count c m) = em_eventId m" "em_eventId (drop_count c m) = em_eventId m"
  "em_sent (bump_count c m) = em_sent m" "em_sent (drop_count c m) = em_sent m"
  "em_retained (bump_count c m) = em_retained m" "em_retained (drop_count c m) = em_retained m"
  by (simp_all add: bump_count_def drop_count_def)

lemma fold_drop_count:
  "em_waitedCount (fold (\<lambda>k. drop_count (category (fst k))) ks m) c
     = em_waitedCount m c - of_nat (waits_in c ks)"
  by (induction ks arbitrary: m) (auto simp: waits_in_Cons drop_count_def algebra_simps)

lemma fold_drop_other [simp]:
  "em_waited (fold (\<lambda>k. drop_count (category (fst k))) ks m) = em_waited m"
  "em_sent (fold (\<lambda>k. drop_count (category (fst k))) ks m) = em_sent m"
  "em_eventId (fold (\<lambda>k. drop_count (category (fst k))) ks m) = em_eventId m"
  "em_retained (fold (\<lambda>k. drop_count (category (fst k))) ks m) = em_retained m"
  by (induction ks arbitrary: m) simp_all

lemma em_wf_new: "em_wf (em_new i)"
  by (simp add: em_wf_def em_new_def)

lemma em_wf_wait:
  assumes "em_wf m" and "(t, i) \<notin> set (em_waited m)"
  shows "em_wf (em_wait t i r m)"
  using assms by (auto simp: em_wf_def em_wait_def bump_count_def waits_in_Cons Let_def)

lemma em_wf_emit: "em_wf m \<Longrightarrow> em_wf (fst (em_emit t now m))"
  by (auto simp: em_wf_def em_emit_def Let_def)

section \<open>Receiving releases exactly the events it should\<close>

definition released :: "event \<Rightarrow> ekey \<Rightarrow> bool" where
  "released e k \<longleftrightarrow> k = ekey e \<or> (ev_type e = TERMINATION \<and> snd k = ev_id e)"

lemma em_receive_triggered:
  "em_receive e m = Inr r \<Longrightarrow> ev_action e = TRIGGERED"
  by (cases "ev_action e") (simp_all add: em_receive_def)

lemma em_receive_total:
  "ev_action e = TRIGGERED \<Longrightarrow> \<exists>ok m'. em_receive e m = Inr (ok, m')"
  by (simp add: em_receive_def Let_def)

lemma em_receive_ok: "em_receive e m = Inr (ok, m') \<Longrightarrow> ok \<longleftrightarrow> ekey e \<in> set (em_waited m)"
  by (auto simp: em_receive_def bindR_eq_Inr Let_def)

lemma em_take_other [simp]:
  "em_sent (em_take e m) = em_sent m" "em_eventId (em_take e m) = em_eventId m"
  "em_retained (em_take e m) = em_retained m"
  by (simp_all add: em_take_def)

lemma em_release_id_other [simp]:
  "em_sent (em_release_id i m) = em_sent m" "em_eventId (em_release_id i m) = em_eventId m"
  "em_retained (em_release_id i m) = em_retained m"
  "em_waited (em_release_id i m) = filter (\<lambda>k. snd k \<noteq> i) (em_waited m)"
  by (simp_all add: em_release_id_def)

lemma em_receive_eq:
  "em_receive e m = Inr (ok, m') \<longleftrightarrow>
    ev_action e = TRIGGERED \<and> ok = (ekey e \<in> set (em_waited m))
    \<and> m' = (if ev_type e = TERMINATION then em_release_id (ev_id e) (em_take e m) else em_take e m)"
  by (auto simp: em_receive_def bindR_eq_Inr Let_def)

lemma em_receive_frame:
  "em_receive e m = Inr (ok, m') \<Longrightarrow>
    em_sent m' = em_sent m \<and> em_eventId m' = em_eventId m \<and> em_retained m' = em_retained m"
  by (simp add: em_receive_eq)

lemma em_take_waited: "em_wf m \<Longrightarrow> em_waited (em_take e m) = filter (\<lambda>k. k \<noteq> ekey e) (em_waited m)"
  by (auto simp: em_take_def em_wf_def distinct_remove1_removeAll removeAll_filter_not_eq
      neq_commute intro!: filter_cong filter_True [symmetric])

lemma em_receive_waited:
  assumes "em_wf m" and "em_receive e m = Inr (ok, m')"
  shows "em_waited m' = filter (\<lambda>k. \<not> released e k) (em_waited m)"
  using assms
  by (auto simp: em_receive_eq em_take_waited released_def ekey_def intro!: filter_cong)

lemma em_wf_take: "em_wf m \<Longrightarrow> em_wf (em_take e m)"
proof (cases "ekey e \<in> set (em_waited m)")
  case True
  assume wf: "em_wf m"
  have "em_waitedCount (em_take e m) c = of_nat (waits_in c (em_waited (em_take e m)))" for c
  proof -
    have "em_waitedCount m c = of_nat (waits_in c (em_waited m))" using wf by (simp add: em_wf_def)
    then show ?thesis using True waits_in_remove1 [OF True, of c]
      by (cases "category (ev_type e) = c") (auto simp: em_take_def drop_count_def ekey_def)
  qed
  then show ?thesis using wf em_take_waited [OF wf, of e] by (auto simp: em_wf_def)
qed (simp add: em_take_def)

lemma em_wf_release_id:
  assumes wf: "em_wf m"
  shows "em_wf (em_release_id i m)"
proof -
  have "em_waitedCount (em_release_id i m) c = of_nat (waits_in c (em_waited (em_release_id i m)))" for c
    using wf waits_in_split [of c "em_waited m" "\<lambda>k. snd k = i"]
    by (simp add: em_release_id_def fold_drop_count em_wf_def)
  then show ?thesis using wf by (auto simp: em_wf_def)
qed

lemma em_wf_receive: "em_wf m \<Longrightarrow> em_receive e m = Inr (ok, m') \<Longrightarrow> em_wf m'"
  by (simp add: em_receive_eq em_wf_take em_wf_release_id)

section \<open>The interface of a set of waits\<close>

text \<open>
  What a profile relies on: receiving an event removes exactly the waits it releases. The
  client lemma follows a whole sequence of events; it is what makes a profile runnable once
  everything it waits for has happened.
\<close>

definition receive_all :: "(event \<Rightarrow> 'w \<Rightarrow> (bool \<times> 'w) res) \<Rightarrow> event list \<Rightarrow> 'w \<Rightarrow> 'w res" where
  "receive_all rc es w = foldR (\<lambda>e w. bindR (rc e w) (\<lambda>(_, w'). Inr w')) es w"

locale wait_set =
  fixes waits :: "'w \<Rightarrow> ekey set"
    and receive :: "event \<Rightarrow> 'w \<Rightarrow> (bool \<times> 'w) res"
    and inv :: "'w \<Rightarrow> bool"
  assumes receive_total: "ev_action e = TRIGGERED \<Longrightarrow> \<exists>b w'. receive e w = Inr (b, w')"
    and receive_inv: "inv w \<Longrightarrow> receive e w = Inr (b, w') \<Longrightarrow> inv w'"
    and receive_waits:
      "inv w \<Longrightarrow> receive e w = Inr (b, w') \<Longrightarrow> waits w' = {k \<in> waits w. \<not> released e k}"
begin

lemma receive_all_waits:
  assumes "inv w" and "\<forall>e \<in> set es. ev_action e = TRIGGERED"
  shows "\<exists>w'. receive_all receive es w = Inr w' \<and> inv w'
    \<and> waits w' = {k \<in> waits w. \<forall>e \<in> set es. \<not> released e k}"
  using assms
proof (induction es arbitrary: w)
  case Nil
  then show ?case by (simp add: receive_all_def)
next
  case (Cons e es)
  then obtain b w1 where w1: "receive e w = Inr (b, w1)" using receive_total by fastforce
  with Cons.prems have "inv w1" "waits w1 = {k \<in> waits w. \<not> released e k}"
    using receive_inv receive_waits by blast+
  moreover obtain w' where "receive_all receive es w1 = Inr w'" "inv w'"
    "waits w' = {k \<in> waits w1. \<forall>e \<in> set es. \<not> released e k}"
    using Cons.IH [OF \<open>inv w1\<close>] Cons.prems by auto
  ultimately show ?case using w1 by (auto simp: receive_all_def)
qed

lemma receive_all_frees:
  assumes "inv w" and "\<forall>e \<in> set es. ev_action e = TRIGGERED"
    and "\<forall>k \<in> waits w. \<exists>e \<in> set es. released e k"
  shows "\<exists>w'. receive_all receive es w = Inr w' \<and> inv w' \<and> waits w' = {}"
  using receive_all_waits [OF assms(1,2)] assms(3) by auto

end

interpretation emw: wait_set "\<lambda>m. set (em_waited m)" em_receive em_wf
proof
  fix e m
  show "ev_action e = TRIGGERED \<Longrightarrow> \<exists>b w'. em_receive e m = Inr (b, w')"
    by (rule em_receive_total)
next
  fix m e b m'
  assume "em_wf m" "em_receive e m = Inr (b, m')"
  then show "em_wf m'" by (rule em_wf_receive)
next
  fix m e b m'
  assume "em_wf m" "em_receive e m = Inr (b, m')"
  then show "set (em_waited m') = {k \<in> set (em_waited m). \<not> released e k}"
    by (simp add: em_receive_waited)
qed

section \<open>Properties\<close>

text \<open>
  C12. Receiving a triggered event always succeeds, reports whether the event was waited for,
  drops exactly the waits the event releases (the event itself and, for a TERMINATION, every
  wait on the terminated id), and keeps the per-category counters equal to the number of
  waited events of the category. An event that is not TRIGGERED is an error.
\<close>

theorem receiveEvent_releases:
  assumes "em_wf m"
  shows "(if ev_action e = TRIGGERED
      then \<exists>m'. em_receive e m = Inr (ekey e \<in> set (em_waited m), m') \<and> em_wf m'
             \<and> em_waited m' = filter (\<lambda>k. \<not> released e k) (em_waited m)
      else em_receive e m = Inl (ErrorExit ''EventManager::receiveEvent''))"
proof (cases "ev_action e = TRIGGERED")
  case True
  then obtain ok m' where r: "em_receive e m = Inr (ok, m')" using em_receive_total by blast
  with True assms show ?thesis
    using em_receive_ok [OF r] em_wf_receive [OF assms r] em_receive_waited [OF assms r] by auto
qed (simp add: em_receive_def)

theorem receiveEvent_releases_witness:
  "em_wf (em_wait TERMINATION 3 False (em_wait FIFO_FULL 3 False (em_new 7)))
   \<and> (\<exists>m'. em_receive (mk_event TERMINATION TRIGGERED 3 9)
            (em_wait TERMINATION 3 False (em_wait FIFO_FULL 3 False (em_new 7))) = Inr (True, m')
        \<and> em_waited m' = [])"
proof -
  let ?m = "em_wait TERMINATION 3 False (em_wait FIFO_FULL 3 False (em_new 7))"
  have w: "em_waited ?m = [(TERMINATION, 3), (FIFO_FULL, 3)]"
    by (simp add: em_wait_def em_new_def Let_def List.insert_def)
  have h: "em_wf ?m"
    by (intro em_wf_wait em_wf_new) (simp_all add: em_wait_def em_new_def Let_def)
  show ?thesis using receiveEvent_releases [OF h, of "mk_event TERMINATION TRIGGERED 3 9"] h
    by (auto simp: w released_def)
qed

text \<open>
  A wait that is asked for again enters the counter of its category and not the set. Whatever the
  counters are ahead of the set, they stay ahead by the same amount.
\<close>

definition ahead :: "(ecat \<Rightarrow> u64) \<Rightarrow> em \<Rightarrow> em" where
  "ahead x m = m\<lparr>em_waitedCount := (\<lambda>c. em_waitedCount m c + x c)\<rparr>"

lemma ahead_waited [simp]: "em_waited (ahead x m) = em_waited m"
  and ahead_count [simp]: "em_waitedCount (ahead x m) c = em_waitedCount m c + x c"
  by (simp_all add: ahead_def)

lemma drop_count_ahead: "drop_count c (ahead x m) = ahead x (drop_count c m)"
  by (simp add: drop_count_def ahead_def fun_eq_iff)

lemma fold_drop_ahead:
  "fold (\<lambda>k. drop_count (category (fst k))) ks (ahead x m) = ahead x (fold (\<lambda>k. drop_count (category (fst k))) ks m)"
  by (induction ks arbitrary: m) (simp_all add: drop_count_ahead)

lemma em_take_ahead: "em_take e (ahead x m) = ahead x (em_take e m)"
  by (simp add: em_take_def drop_count_def ahead_def fun_eq_iff)

lemma em_release_id_ahead: "em_release_id i (ahead x m) = ahead x (em_release_id i m)"
  by (simp add: em_release_id_def fold_drop_ahead) (simp add: ahead_def)

lemma em_receive_ahead:
  "em_receive e m = Inr (b, m') \<Longrightarrow> em_receive e (ahead x m) = Inr (b, ahead x m')"
  by (simp add: em_receive_eq em_take_ahead em_release_id_ahead)

lemma receive_all_ahead:
  "receive_all em_receive es m = Inr m' \<Longrightarrow> receive_all em_receive es (ahead x m) = Inr (ahead x m')"
proof (induction es arbitrary: m)
  case (Cons e es)
  then obtain b m1 where "em_receive e m = Inr (b, m1)" "receive_all em_receive es m1 = Inr m'"
    by (auto simp: receive_all_def bindR_eq_Inr)
  with Cons.IH em_receive_ahead show ?case by (simp add: receive_all_def)
qed (simp add: receive_all_def)

text \<open>The manager after a list of waits.\<close>

lemma waits_from_new:
  assumes "NO_EVENT \<notin> fst ` set ks" and "m = fold (\<lambda>(t, i). em_wait t i r) ks (em_new me)"
  shows "distinct (em_waited m) \<and> set (em_waited m) = set ks \<and> em_waitedCount m = (\<lambda>c. of_nat (waits_in c ks))"
  using assms(1) unfolding assms(2)
proof (induction ks rule: rev_induct)
  case (snoc k ks)
  then show ?case
    by (cases k) (auto simp: em_wait_def bump_count_def Let_def fun_eq_iff waits_in_def)
qed (simp add: em_new_def fun_eq_iff)

lemma waits_in_distinct:
  assumes "distinct ws" and "set ws = set ks"
  shows "waits_in c ws = card (set (filter (\<lambda>k. category (fst k) = c) ks))"
proof -
  have "set (filter (\<lambda>k. category (fst k) = c) ks) = set (filter (\<lambda>k. category (fst k) = c) ws)" using assms(2) by auto
  then show ?thesis using assms(1) by (simp only: waits_in_def) (simp add: distinct_card del: set_filter)
qed

text \<open>
  C18. Liveness of waiting. A new manager that is told to wait for a list of events, and then receives
  triggered events that release every one of them (for instance the TERMINATION of every awaited id),
  waits for nothing. The counter of a category, which is what locks a profile, is then the number of
  requests that repeated an earlier one: it is zero exactly when no event of the category was asked for
  twice, and a profile whose \<^verbatim>\<open>wait_for\<close> names an event twice stays locked.
\<close>

theorem waits_all_released:
  assumes "NO_EVENT \<notin> fst ` set ks" and "length ks < 2 ^ 64"
    and "\<forall>e \<in> set es. ev_action e = TRIGGERED" and "\<forall>k \<in> set ks. \<exists>e \<in> set es. released e k"
  shows "\<exists>m'. receive_all em_receive es (fold (\<lambda>(t, i). em_wait t i r) ks (em_new me)) = Inr m' \<and> \<not> em_waiting m'
    \<and> (\<forall>c. let own = filter (\<lambda>k. category (fst k) = c) ks in
         unat (getWaitedCount c m') = length own - card (set own) \<and> (getWaitedCount c m' = 0 \<longleftrightarrow> distinct own))"
proof -
  define m where "m = fold (\<lambda>(t, i). em_wait t i r) ks (em_new me)"
  define base where "base = m\<lparr>em_waitedCount := (\<lambda>c. of_nat (waits_in c (em_waited m)))\<rparr>"
  define x where "x c = (of_nat (waits_in c ks - waits_in c (em_waited m)) :: u64)" for c
  note w = waits_from_new [OF assms(1) m_def]
  have n: "waits_in c (em_waited m) = card (set (filter (\<lambda>k. category (fst k) = c) ks))" for c
    using w by (intro waits_in_distinct) simp_all
  have le: "waits_in c (em_waited m) \<le> waits_in c ks" for c
    by (simp only: n) (simp only: waits_in_def card_length)
  have "m = ahead x base"
    using w le by (simp add: ahead_def base_def x_def fun_eq_iff of_nat_diff)
  moreover have "em_wf base" using w assms(1) by (auto simp: em_wf_def base_def)
  then obtain m' where m': "receive_all em_receive es base = Inr m'" "em_wf m'" "em_waited m' = []"
    using emw.receive_all_frees [of base es] assms(3,4) w by (auto simp: base_def)
  ultimately have run: "receive_all em_receive es m = Inr (ahead x m')" by (simp add: receive_all_ahead)
  have count: "unat (getWaitedCount c (ahead x m')) = waits_in c ks - waits_in c (em_waited m)" for c
  proof -
    have "waits_in c ks \<le> length ks" by (simp add: waits_in_def)
    then have "unat (x c) = waits_in c ks - waits_in c (em_waited m)"
      unfolding x_def by (intro unat_of_nat_u64) (use assms(2) in simp)
    then show ?thesis using m'(2,3) by (simp add: getWaitedCount_def em_wf_def)
  qed
  have own: "let own = filter (\<lambda>k. category (fst k) = c) ks in
      unat (getWaitedCount c (ahead x m')) = length own - card (set own)
      \<and> (getWaitedCount c (ahead x m') = 0 \<longleftrightarrow> distinct own)" for c
  proof -
    let ?own = "filter (\<lambda>k. category (fst k) = c) ks"
    have u: "unat (getWaitedCount c (ahead x m')) = length ?own - card (set ?own)"
      using count [of c] by (simp only: n) (simp only: waits_in_def)
    moreover have "card (set ?own) \<le> length ?own" by (rule card_length)
    ultimately have "getWaitedCount c (ahead x m') = 0 \<longleftrightarrow> distinct ?own" using card_distinct [of ?own] distinct_card [of ?own]
      by (metis diff_is_0_eq diff_self_eq_0 le_antisym unat_0 unat_eq_0)
    with u show ?thesis by (simp only: Let_def)
  qed
  have "\<not> em_waiting (ahead x m')" using m'(3) by (simp add: em_waiting_def)
  with run own show ?thesis unfolding m_def [symmetric] by blast
qed

theorem waits_all_released_witness:
  "\<exists>m'. receive_all em_receive [mk_event TERMINATION TRIGGERED 3 9]
        (fold (\<lambda>(t, i). em_wait t i True) [(FIFO_FULL, 3), (TERMINATION, 3), (TERMINATION, 3)] (em_new 7)) = Inr m'
     \<and> \<not> em_waiting m' \<and> getWaitedCount (category FIFO_FULL) m' = 0 \<and> getWaitedCount (category TERMINATION) m' \<noteq> 0"
proof -
  have "category FIFO_FULL \<noteq> category TERMINATION" by simp
  then show ?thesis
    using waits_all_released [of "[(FIFO_FULL, 3), (TERMINATION, 3), (TERMINATION, 3)]" "[mk_event TERMINATION TRIGGERED 3 9]" True 7]
    by (auto simp: released_def Let_def)
qed

text \<open>
  Emission is limited: an event goes out with the manager's id and the current time
  only if it differs from the last one of its category; a second request for the same type
  emits nothing, and in a category without concurrency no second event leaves at the same
  time, whatever its type.
\<close>

theorem emitEvent_limited:
  assumes "em_emit t now m = (m', Some e)"
  shows "e = mk_event t TRIGGERED (em_eventId m) now \<and> em_sent m' (category t) = (t, now)
    \<and> fst (em_sent m (category t)) \<noteq> t
    \<and> (\<forall>now'. em_emit t now' m' = (m', None))
    \<and> (\<forall>u. category u = category t \<and> \<not> allowConcurrency (category t) \<longrightarrow> em_emit u now m' = (m', None))"
proof -
  have t: "t \<noteq> NO_EVENT" and e: "e = mk_event t TRIGGERED (em_eventId m) now"
    and m': "m' = m\<lparr>em_sent := (em_sent m)(category t := (t, now))\<rparr>"
    and ne: "fst (em_sent m (category t)) \<noteq> t"
    using assms by (auto simp: em_emit_def Let_def split: if_splits)
  show ?thesis using t e m' ne by (auto simp: em_emit_def Let_def)
qed

theorem emitEvent_limited_witness:
  "em_emit FIFO_EMPTY 5 (em_new 2)
     = (fst (em_emit FIFO_EMPTY 5 (em_new 2)), Some (mk_event FIFO_EMPTY TRIGGERED 2 5))
   \<and> em_emit FIFO_FULL 5 (fst (em_emit FIFO_EMPTY 5 (em_new 2)))
     = (fst (em_emit FIFO_EMPTY 5 (em_new 2)), None)"
proof -
  have h: "em_emit FIFO_EMPTY 5 (em_new 2)
      = (fst (em_emit FIFO_EMPTY 5 (em_new 2)), Some (mk_event FIFO_EMPTY TRIGGERED 2 5))"
    by (simp add: em_emit_def em_new_def)
  show ?thesis using emitEvent_limited [OF h] h by simp
qed

text \<open>
  A wait that is requested twice is never undone: the set of waited events absorbs the
  duplicate but the counter does not, so after the event is received the manager waits for
  nothing while the counter of the category stays at one. A profile whose \<^verbatim>\<open>wait_for\<close> names
  the same profile twice therefore stays locked.
\<close>

theorem duplicate_wait_stays_locked:
  assumes "t \<noteq> NO_EVENT"
  shows "\<exists>m'. em_receive (mk_event t TRIGGERED i now) (em_wait t i r (em_wait t i r (em_new me)))
      = Inr (True, m') \<and> \<not> em_waiting m' \<and> getWaitedCount (category t) m' = 1"
proof -
  let ?m = "em_wait t i r (em_wait t i r (em_new me))"
  let ?e = "mk_event t TRIGGERED i now"
  have w: "em_waited ?m = [(t, i)]" and c: "em_waitedCount ?m (category t) = 2"
    using assms by (simp_all add: em_wait_def em_new_def Let_def bump_count_def)
  have w': "em_waited (em_take ?e ?m) = []" and c': "em_waitedCount (em_take ?e ?m) (category t) = 1"
    by (simp_all add: em_take_def w c drop_count_def)
  have c'': "em_waitedCount (em_release_id i (em_take ?e ?m)) (category t) = 1"
    by (simp add: em_release_id_def fold_drop_count w' c')
  show ?thesis
    by (cases "t = TERMINATION"; use w w' c' c'' in
        \<open>force simp: em_receive_eq em_waiting_def getWaitedCount_def\<close>)
qed

theorem duplicate_wait_stays_locked_witness:
  "\<exists>m'. em_receive (mk_event TERMINATION TRIGGERED 4 0)
       (em_wait TERMINATION 4 True (em_wait TERMINATION 4 True (em_new 1)))
      = Inr (True, m') \<and> \<not> em_waiting m' \<and> getWaitedCount PROFILE m' = 1"
  using duplicate_wait_stays_locked [of TERMINATION 4 0 True 1] by simp

end
