(* ===== verification/Kronos_Laws.thy ===== *)
theory Kronos_Laws
  imports Kronos
begin

text \<open>
  The calendar queue of theory \<open>Kronos\<close> refines a multiset of events: scheduling adds one,
  \<open>get\<close> takes out the due ones in time order, \<open>next\<close> is the least time. The laws hold while
  no event lies behind the position of the calendar; the last section shows that scheduling
  behind the position, which the code does not prevent, makes \<open>next\<close> skip an event.
\<close>

section \<open>Buckets\<close>

abbreviation due :: "u64 \<Rightarrow> event \<Rightarrow> bool" where
  "due now e \<equiv> ev_time e \<le> now"

lemma time_sorted_Cons:
  "time_sorted (e # es) \<longleftrightarrow> (\<forall>f \<in> set es. ev_time e \<le> ev_time f) \<and> time_sorted es"
  by (auto simp: time_sorted_def)

lemma time_sorted_Nil [simp]: "time_sorted []"
  by (simp add: time_sorted_def)

lemma time_sorted_append:
  "time_sorted (xs @ ys) \<longleftrightarrow>
    time_sorted xs \<and> time_sorted ys \<and> (\<forall>x \<in> set xs. \<forall>y \<in> set ys. ev_time x \<le> ev_time y)"
  by (simp add: time_sorted_def sorted_append)

lemma mset_cal_insert [simp]: "mset (cal_insert ev es) = add_mset ev (mset es)"
  by (induction es) auto

lemma set_cal_insert [simp]: "set (cal_insert ev es) = insert ev (set es)"
  by (induction es) auto

lemma time_sorted_cal_insert: "time_sorted es \<Longrightarrow> time_sorted (cal_insert ev es)"
  by (induction es) (auto simp: time_sorted_Cons)

lemma takeWhile_due:
  "time_sorted es \<Longrightarrow> takeWhile (due now) es = filter (due now) es"
  by (induction es) (fastforce simp: time_sorted_Cons intro!: filter_False [symmetric])+

lemma dropWhile_due:
  "time_sorted es \<Longrightarrow> dropWhile (due now) es = filter (\<lambda>e. \<not> due now e) es"
  by (induction es) (fastforce simp: time_sorted_Cons intro!: filter_True [symmetric])+

lemma time_sorted_filter: "time_sorted es \<Longrightarrow> time_sorted (filter P es)"
  by (induction es) (auto simp: time_sorted_Cons)

section \<open>Draining without the counter\<close>

fun drain_pure :: "u64 \<Rightarrow> nat list \<Rightarrow> event list list \<Rightarrow> event list \<times> event list list" where
  "drain_pure now [] cal = ([], cal)"
| "drain_pure now (i # js) cal =
    (let b = i mod length cal;
         (q, cal') = drain_pure now js (cal[b := dropWhile (due now) (cal ! b)])
     in (takeWhile (due now) (cal ! b) @ q, cal'))"

lemma drain_pure_Cons:
  "fst (drain_pure now (i # js) cal) = takeWhile (due now) (cal ! (i mod length cal))
     @ fst (drain_pure now js (cal[i mod length cal := dropWhile (due now) (cal ! (i mod length cal))]))"
  "snd (drain_pure now (i # js) cal)
     = snd (drain_pure now js (cal[i mod length cal := dropWhile (due now) (cal ! (i mod length cal))]))"
  by (simp_all add: Let_def split: prod.split)

lemma drain_bucket_pure:
  "length (takeWhile (due now) es) \<le> unat c \<Longrightarrow>
    drain_bucket now es c = Inr (takeWhile (due now) es, dropWhile (due now) es,
      c - of_nat (length (takeWhile (due now) es)))"
proof (induction es arbitrary: c)
  case (Cons e es)
  show ?case
  proof (cases "due now e")
    case True
    with Cons.prems have "0 < unat c" and "length (takeWhile (due now) es) \<le> unat c - 1" by auto
    then have "0 < c" and "unat (c - 1) = unat c - 1"
      by (simp_all add: word_less_nat_alt unat_sub_1)
    with True Cons \<open>length _ \<le> unat c - 1\<close> show ?thesis by (simp add: algebra_simps)
  qed simp
qed simp

lemma length_concat_update:
  "b < length cal \<Longrightarrow> length (concat (cal[b := r])) + length (cal ! b) = length (concat cal) + length r"
proof (induction cal arbitrary: b)
  case (Cons x cal)
  then show ?case by (cases b) auto
qed simp

lemma mset_concat_update:
  "b < length cal \<Longrightarrow> mset (concat (cal[b := r])) + mset (cal ! b) = mset (concat cal) + mset r"
proof (induction cal arbitrary: b)
  case (Cons x cal)
  then show ?case by (cases b) (auto simp: ac_simps)
qed simp

lemma drain_range_pure:
  assumes "cal \<noteq> []" and "length (concat cal) \<le> unat c"
  shows "drain_range now js cal c = (let (q, cal') = drain_pure now js cal
      in Inr (q, cal', c - of_nat (length q)))
    \<and> length (fst (drain_pure now js cal)) + length (concat (snd (drain_pure now js cal)))
        = length (concat cal)"
  using assms
proof (induction js arbitrary: cal c)
  case (Cons i js)
  let ?b = "i mod length cal"
  let ?p = "takeWhile (due now) (cal ! ?b)" and ?r = "dropWhile (due now) (cal ! ?b)"
  have b: "?b < length cal" using Cons.prems(1) by simp
  have len: "length ?p + length ?r = length (cal ! ?b)"
    by (metis length_append takeWhile_dropWhile_id)
  then have upd: "length (concat (cal[?b := ?r])) + length ?p = length (concat cal)"
    using length_concat_update [OF b, of ?r] by simp
  then have p: "length ?p \<le> unat c" using Cons.prems(2) by simp
  then have c': "unat (c - of_nat (length ?p)) = unat c - length ?p" by (rule unat_sub_of_nat)
  obtain q cal' where dp: "drain_pure now js (cal[?b := ?r]) = (q, cal')"
    by (cases "drain_pure now js (cal[?b := ?r])")
  have "drain_range now js (cal[?b := ?r]) (c - of_nat (length ?p))
      = Inr (q, cal', c - of_nat (length ?p) - of_nat (length q))"
    and "length q + length (concat cal') = length (concat (cal[?b := ?r]))"
    using Cons.IH [of "cal[?b := ?r]" "c - of_nat (length ?p)"] Cons.prems upd c' dp
    by auto
  then show ?case using dp upd
    by (simp add: Let_def drain_bucket_pure [OF p] algebra_simps)
qed simp

lemma drain_pure_length [simp]: "length (snd (drain_pure now js cal)) = length cal"
  by (induction js arbitrary: cal) (simp_all only: drain_pure_Cons, simp_all)

lemma drain_pure_mset:
  "cal \<noteq> [] \<Longrightarrow>
    mset (fst (drain_pure now js cal)) + mset (concat (snd (drain_pure now js cal))) = mset (concat cal)"
proof (induction js arbitrary: cal)
  case (Cons i js)
  let ?b = "i mod length cal" and ?r = "dropWhile (due now) (cal ! (i mod length cal))"
  have b: "?b < length cal" using Cons.prems by simp
  let ?P = "mset (takeWhile (due now) (cal ! ?b))" and ?U = "mset (concat (cal[?b := ?r]))"
  have split: "mset (cal ! ?b) = ?P + mset ?r"
    by (metis mset_append takeWhile_dropWhile_id)
  have "(?U + ?P) + mset ?r = mset (concat cal) + mset ?r"
    using mset_concat_update [OF b, of ?r] unfolding split by (simp only: ac_simps)
  then have upd: "mset (concat cal) = ?U + ?P" by simp
  have "mset (fst (drain_pure now js (cal[?b := ?r])))
      + mset (concat (snd (drain_pure now js (cal[?b := ?r])))) = ?U"
    using Cons by simp
  then show ?case unfolding drain_pure_Cons mset_append upd by (simp only: ac_simps)
qed simp

lemma drain_pure_nth:
  "b < length cal \<Longrightarrow> snd (drain_pure now js cal) ! b
    = (if \<exists>i \<in> set js. i mod length cal = b then dropWhile (due now) (cal ! b) else cal ! b)"
proof (induction js arbitrary: cal)
  case (Cons i js)
  have idem: "dropWhile P (dropWhile P xs) = dropWhile P xs" for P and xs :: "event list"
    by (induction xs) auto
  let ?a = "i mod length cal"
  let ?r = "dropWhile (due now) (cal ! ?a)"
  have "snd (drain_pure now js (cal[?a := ?r])) ! b
    = (if \<exists>i \<in> set js. i mod length cal = b then dropWhile (due now) (cal[?a := ?r] ! b)
       else cal[?a := ?r] ! b)"
    using Cons by simp
  moreover have "cal[?a := ?r] ! b = (if b = ?a then ?r else cal ! b)"
    using Cons.prems by (simp add: nth_list_update)
  ultimately show ?case by (simp only: drain_pure_Cons) (auto simp: idem)
qed simp

lemma drain_pure_due: "e \<in> set (fst (drain_pure now js cal)) \<Longrightarrow> due now e"
proof (induction js arbitrary: cal)
  case (Cons i js)
  then show ?case unfolding drain_pure_Cons by (auto dest: set_takeWhileD)
qed simp

text \<open>
  Scanning consecutive buckets of a calendar whose due events lie less than one round
  ahead delivers them in time order: the key of an event is the index its bucket has in the
  scan.
\<close>

lemma mod_window_unique:
  assumes "(k :: nat) mod n = m mod n" and "m \<le> k" and "k < m + n"
  shows "k = m"
proof -
  have "n dvd k - m" using assms(1,2) by (metis mod_eq_dvd_iff_nat)
  moreover have "k - m < n" using assms(2,3) by simp
  ultimately have "k - m = 0" by (metis dvd_imp_le gr_zeroI not_less)
  with assms(2) show ?thesis by simp
qed

lemma drain_pure_sorted:
  assumes mono: "\<And>e f. ev_time e \<le> ev_time f \<Longrightarrow> key e \<le> (key f :: nat)"
    and "cal \<noteq> []" and "\<forall>b < length cal. time_sorted (cal ! b)"
    and "\<forall>b < length cal. \<forall>e \<in> set (cal ! b).
      due now e \<longrightarrow> key e mod length cal = b \<and> m \<le> key e \<and> key e < m + length cal"
  shows "time_sorted (fst (drain_pure now [m ..< m + len] cal))
    \<and> (\<forall>e \<in> set (fst (drain_pure now [m ..< m + len] cal)). m \<le> key e)"
  using assms(2-)
proof (induction len arbitrary: m cal)
  case (Suc len)
  let ?n = "length cal" and ?b = "m mod length cal"
  let ?cal = "cal[?b := dropWhile (due now) (cal ! ?b)]"
  have b: "?b < ?n" using Suc.prems(1) by simp
  have srt: "time_sorted (cal ! ?b)" using Suc.prems(2) b by blast
  have first: "\<forall>e \<in> set (takeWhile (due now) (cal ! ?b)). key e = m"
    using Suc.prems(3) b by (auto dest!: set_takeWhileD intro: mod_window_unique)
  have "time_sorted (?cal ! c)" if "c < ?n" for c
  proof (cases "c = ?b")
    case True
    with that srt show ?thesis by (simp add: dropWhile_due time_sorted_filter)
  next
    case False
    with that Suc.prems(2) show ?thesis by simp
  qed
  moreover have "due now e \<longrightarrow> key e mod length ?cal = c \<and> Suc m \<le> key e \<and> key e < Suc m + length ?cal"
    if c: "c < ?n" and e: "e \<in> set (?cal ! c)" for c e
  proof (cases "c = ?b")
    case True
    with e b srt show ?thesis by (simp add: dropWhile_due)
  next
    case False
    with e c Suc.prems(3) have k: "due now e \<longrightarrow> key e mod ?n = c \<and> m \<le> key e \<and> key e < m + ?n"
      by simp
    with False show ?thesis by (auto simp: Suc_le_eq le_less)
  qed
  ultimately have IH: "time_sorted (fst (drain_pure now [Suc m ..< Suc m + len] ?cal))"
    "\<forall>e \<in> set (fst (drain_pure now [Suc m ..< Suc m + len] ?cal)). Suc m \<le> key e"
    using Suc.IH [of ?cal "Suc m"] Suc.prems(1) by auto
  have "ev_time e \<le> ev_time f"
    if "e \<in> set (takeWhile (due now) (cal ! ?b))"
      "f \<in> set (fst (drain_pure now [Suc m ..< Suc m + len] ?cal))" for e f
  proof (rule ccontr)
    assume "\<not> ev_time e \<le> ev_time f"
    then have "key f \<le> key e" by (intro mono) simp
    moreover have "key e = m" and "Suc m \<le> key f" using first IH(2) that by blast+
    ultimately show False by simp
  qed
  moreover have "time_sorted (takeWhile (due now) (cal ! ?b))"
    using srt by (simp add: takeWhile_due time_sorted_filter)
  moreover have "[m ..< m + Suc len] = m # [Suc m ..< Suc m + len]" by (simp add: upt_rec)
  ultimately show ?case using IH first
    by (auto simp only: drain_pure_Cons time_sorted_append set_append)
qed simp

section \<open>The range of the scan\<close>

lemma quantum_mod:
  "k_bucketWidth k \<noteq> 0 \<Longrightarrow> length (k_calendar k) < 2 ^ 62 \<Longrightarrow>
    unat ((t div k_bucketWidth k) mod cal_size k) = quantum k t mod length (k_calendar k)"
  by (simp add: quantum_def cal_size_def unat_mod unat_div unat_of_nat_u64)

lemma quantum_div:
  "k_bucketWidth k \<noteq> 0 \<Longrightarrow> length (k_calendar k) < 2 ^ 62 \<Longrightarrow>
    unat ((t div k_bucketWidth k) div cal_size k) = quantum k t div length (k_calendar k)"
  by (simp add: quantum_def cal_size_def unat_div unat_of_nat_u64)

lemma quantum_mono: "t \<le> u \<Longrightarrow> quantum k t \<le> quantum k u"
  by (simp add: quantum_def word_le_nat_alt div_le_mono)

lemma sint_word_diff:
  assumes "unat (a :: u64) < 2 ^ 62" and "unat b < 2 ^ 62"
  shows "sint (a - b) = int (unat a) - int (unat b)"
proof -
  have "int (unat a) < 2 ^ 62" and "int (unat b) < 2 ^ 62"
    using assms by (metis of_nat_less_iff of_nat_numeral of_nat_power)+
  moreover have "(2 :: int) ^ 63 = 2 * 2 ^ 62" by simp
  ultimately have "- (2 ^ 63) \<le> int (unat a) - int (unat b)"
    and "int (unat a) - int (unat b) < 2 ^ 63" by linarith+
  then have "signed_take_bit 63 (int (unat a) - int (unat b)) = int (unat a) - int (unat b)"
    by (rule signed_take_bit_int_eq_self)
  moreover have "a - b = of_int (int (unat a) - int (unat b))" by simp
  then have "sint (a - b) = signed_take_bit 63 (int (unat a) - int (unat b))"
    by (simp only: signed_of_int) simp
  ultimately show ?thesis by (rule trans [rotated])
qed

lemma scan_stop_eq:
  assumes "unat (k_bucket k) < length (k_calendar k)" and "length (k_calendar k) < 2 ^ 62"
    and "unat tb < length (k_calendar k)"
  shows "unat (scan_stop k tb) = (if unat (k_bucket k) < unat tb then unat tb
    else unat (k_bucket k) + length (k_calendar k) + (unat (k_bucket k) - unat tb))"
proof -
  let ?b = "k_bucket k" and ?n = "length (k_calendar k)"
  have d: "0 < sint (tb - ?b) \<longleftrightarrow> unat ?b < unat tb"
    using assms sint_word_diff [of tb ?b] by (simp only: of_nat_less_iff diff_gt_0_iff_gt)
  have n: "unat (cal_size k) = ?n" using assms(2) by (simp add: cal_size_def unat_of_nat_u64)
  show ?thesis
  proof (cases "unat ?b < unat tb")
    case True
    then show ?thesis using d by (simp add: scan_stop_def Let_def)
  next
    case False
    then have s: "unat (?b - tb) = unat ?b - unat tb" by (simp add: unat_sub_le word_le_nat_alt)
    have "unat (cal_size k + (?b - tb)) = ?n + (unat ?b - unat tb)"
      using assms n s by (subst unat_add_no_overflow) auto
    moreover from this have "unat (?b + (cal_size k + (?b - tb))) = unat ?b + (?n + (unat ?b - unat tb))"
      using assms by (subst unat_add_no_overflow) auto
    moreover have "scan_stop k tb = ?b + (cal_size k + (?b - tb))"
      using False d by (simp add: scan_stop_def Let_def algebra_simps)
    ultimately show ?thesis using False by simp
  qed
qed

section \<open>Skipping empty buckets\<close>

lemma skip_empty_result:
  assumes "unat b < length cal" and "length cal < 2 ^ 62" and "0 < c" and "d \<le> fuel"
    and "cal ! ((unat b + d) mod length cal) \<noteq> []"
    and "\<forall>d' < d. cal ! ((unat b + d') mod length cal) = []"
  shows "skip_empty fuel cal c ep b
    = Inr (ep + of_nat ((unat b + d) div length cal), of_nat ((unat b + d) mod length cal))"
  using assms
proof (induction d arbitrary: b ep fuel)
  case 0
  then show ?case by simp
next
  case (Suc d)
  obtain m where m: "fuel = Suc m" using Suc.prems(4) by (cases fuel) auto
  have empty: "cal ! unat b = []" using Suc.prems(1) Suc.prems(6) [rule_format, of 0] by simp
  have b1: "unat (b + 1) = unat b + 1"
    using Suc.prems(1,2) by (subst unat_add_no_overflow) auto
  have last: "of_nat (length cal) \<le> b + 1 \<longleftrightarrow> length cal = unat b + 1"
    using Suc.prems(1,2) b1 by (simp add: word_le_nat_alt unat_of_nat_u64) linarith
  show ?case
  proof (cases "length cal = unat b + 1")
    case True
    have shift: "(unat b + Suc j) mod length cal = j mod length cal"
      "(unat b + Suc j) div length cal = 1 + j div length cal" for j
      using True by (metis add.assoc add.commute mod_add_self1 plus_1_eq_Suc)
        (metis True add.assoc add.commute div_add_self1 nat.simps(3) plus_1_eq_Suc)
    have "skip_empty m cal c (ep + 1) 0
        = Inr (ep + 1 + of_nat ((unat (0 :: u64) + d) div length cal),
            of_nat ((unat (0 :: u64) + d) mod length cal))"
      using Suc.prems m True shift by (intro Suc.IH) auto
    then show ?thesis using m empty last True \<open>0 < c\<close> shift [of d] by simp
  next
    case False
    have shift: "unat (b + 1) + j = unat b + Suc j" for j using b1 by simp
    have "skip_empty m cal c ep (b + 1)
        = Inr (ep + of_nat ((unat (b + 1) + d) div length cal),
            of_nat ((unat (b + 1) + d) mod length cal))"
      using Suc.prems m False b1 by (intro Suc.IH) (auto simp: shift)
    then show ?thesis using m empty last False \<open>0 < c\<close> shift [of d] by simp
  qed
qed

declare skip_empty.simps [simp del]

lemma skip_empty_none: "skip_empty fuel cal 0 ep b = Inr (ep, b)"
  by (simp add: skip_empty.simps)

section \<open>The drain of get\<close>

text \<open>
  \<open>get\<close> sees every due event when the new time is less than one round ahead of the position,
  or when nothing pending is older than the new time.
\<close>

definition get_window :: "u64 \<Rightarrow> kronos \<Rightarrow> bool" where
  "get_window now k \<longleftrightarrow> quantum k now < position k + length (k_calendar k)
     \<or> (\<forall>e \<in># kronos_events k. now \<le> ev_time e)"

definition target :: "u64 \<Rightarrow> kronos \<Rightarrow> u64" where
  "target now k = (now div k_bucketWidth k) mod cal_size k"

lemma wfD:
  assumes "kronos_wf k"
  shows "k_initialized k" "k_bucketWidth k \<noteq> 0" "0 < length (k_calendar k)" "k_calendar k \<noteq> []"
    "length (k_calendar k) < 2 ^ 62" "unat (k_bucket k) < length (k_calendar k)"
    "unat (k_counter k) = size (kronos_events k)" "cal_ok k (k_calendar k)"
    "cal_size k \<noteq> 0" "unat (cal_size k) = length (k_calendar k)"
proof -
  from assms show len: "length (k_calendar k) < 2 ^ 62" and pos: "0 < length (k_calendar k)"
    by (auto simp: kronos_wf_def)
  then show sz: "unat (cal_size k) = length (k_calendar k)"
    by (simp add: cal_size_def unat_of_nat_u64)
  with pos show "cal_size k \<noteq> 0" by auto
qed (use assms in \<open>auto simp: kronos_wf_def\<close>)

lemma unat_target: "kronos_wf k \<Longrightarrow> unat (target now k) = quantum k now mod length (k_calendar k)"
  unfolding target_def by (rule quantum_mod) (rule wfD; assumption)+

lemma in_kronos_events:
  "e \<in># kronos_events k \<longleftrightarrow> (\<exists>b < length (k_calendar k). e \<in> set (k_calendar k ! b))"
  unfolding kronos_events_def set_mset_mset set_concat UN_iff
  by (metis in_set_conv_nth)

lemma bucket_of:
  assumes "kronos_wf k" and "e \<in># kronos_events k"
  shows "e \<in> set (k_calendar k ! (quantum k (ev_time e) mod length (k_calendar k)))"
  using assms by (auto simp: in_kronos_events kronos_wf_def cal_ok_def)

lemma window_bucket:
  fixes p q key b n :: nat
  assumes "p mod n = b" and "0 < n" and "p \<le> key" and "key \<le> q" and "q < p + n" and "b < q mod n"
  shows "b \<le> key mod n \<and> key mod n \<le> q mod n"
proof -
  define i where "i = q - p"
  define j where "j = key - p"
  have ij: "q = p + i" "key = p + j" "j \<le> i" "i < n" using assms by (auto simp: i_def j_def)
  have b: "b < n" using assms(1,2) by auto
  have q: "q mod n = (b + i) mod n" and k: "key mod n = (b + j) mod n"
    using ij assms(1) by (metis mod_add_left_eq)+
  have "b + i < n"
  proof (rule ccontr)
    assume "\<not> b + i < n"
    then have "(b + i) mod n = b + i - n" using b ij(4) by (simp add: le_mod_geq)
    with q ij(4) assms(6) \<open>\<not> b + i < n\<close> show False by linarith
  qed
  with q k ij show ?thesis by simp
qed

definition scan :: "u64 \<Rightarrow> kronos \<Rightarrow> nat list" where
  "scan now k = [unat (k_bucket k) ..< Suc (unat (scan_stop k (target now k)))]"

lemma scan_covers:
  assumes wf: "kronos_wf k" and ah: "ahead k" and win: "get_window now k"
    and e: "e \<in># kronos_events k" and due: "due now e"
  shows "\<exists>i \<in> set (scan now k). i mod length (k_calendar k)
    = quantum k (ev_time e) mod length (k_calendar k)"
proof -
  let ?n = "length (k_calendar k)" and ?b = "unat (k_bucket k)" and ?t = "unat (target now k)"
  let ?key = "quantum k (ev_time e)"
  note W = wfD [OF wf]
  have t: "?t = quantum k now mod ?n" "?t < ?n" using wf W(3) by (simp_all add: unat_target)
  have stop: "unat (scan_stop k (target now k)) = (if ?b < ?t then ?t else ?b + ?n + (?b - ?t))"
    using W t by (intro scan_stop_eq) auto
  show ?thesis
  proof (cases "?b < ?t")
    case True
    have "?b \<le> ?key mod ?n \<and> ?key mod ?n \<le> ?t"
    proof (cases "quantum k now < position k + ?n")
      case True
      have "position k \<le> ?key" "?key \<le> quantum k now"
        using ah e due quantum_mono by (auto simp: ahead_def)
      then show ?thesis unfolding t(1)
        using True \<open>?b < ?t\<close> W(3) t mod_less [OF W(6)]
        by (intro window_bucket [where p = "position k"]) (auto simp: position_def)
    next
      case False
      with win e due have "ev_time e = now" by (auto simp: get_window_def)
      with True t show ?thesis by simp
    qed
    with True stop have "?key mod ?n \<in> set (scan now k)" by (auto simp: scan_def)
    then show ?thesis using W(3) by (intro bexI [of _ "?key mod ?n"]) auto
  next
    case False
    let ?i = "if ?b \<le> ?key mod ?n then ?key mod ?n else ?key mod ?n + ?n"
    have "?key mod ?n < ?n" using W(3) by simp
    then have "?i \<in> set (scan now k)" using False stop W(6) by (auto simp: scan_def)
    then show ?thesis by (intro bexI [of _ ?i]) auto
  qed
qed

definition drained :: "u64 \<Rightarrow> kronos \<Rightarrow> event list" where
  "drained now k = fst (drain_pure now (scan now k) (k_calendar k))"

definition undrained :: "u64 \<Rightarrow> kronos \<Rightarrow> event list list" where
  "undrained now k = snd (drain_pure now (scan now k) (k_calendar k))"

lemma undrained_nth:
  assumes "kronos_wf k" "ahead k" "get_window now k" and b: "b < length (k_calendar k)"
  shows "undrained now k ! b = filter (\<lambda>e. \<not> due now e) (k_calendar k ! b)"
proof -
  have srt: "time_sorted (k_calendar k ! b)"
    and key: "\<forall>e \<in> set (k_calendar k ! b). quantum k (ev_time e) mod length (k_calendar k) = b"
    using wfD(8) [OF assms(1)] b by (auto simp: cal_ok_def)
  show ?thesis
  proof (cases "\<exists>i \<in> set (scan now k). i mod length (k_calendar k) = b")
    case True
    then show ?thesis using b srt by (simp add: undrained_def drain_pure_nth dropWhile_due)
  next
    case False
    have "\<forall>e \<in> set (k_calendar k ! b). \<not> due now e"
    proof (intro ballI notI)
      fix e assume e: "e \<in> set (k_calendar k ! b)" and "due now e"
      moreover from e b have "e \<in># kronos_events k" by (auto simp: in_kronos_events)
      ultimately show False using scan_covers [OF assms(1-3)] key False by metis
    qed
    with False b show ?thesis by (simp add: undrained_def drain_pure_nth)
  qed
qed

lemma undrained_length [simp]: "length (undrained now k) = length (k_calendar k)"
  by (simp add: undrained_def)

lemma in_undrained:
  assumes "kronos_wf k" "ahead k" "get_window now k"
  shows "e \<in># mset (concat (undrained now k)) \<Longrightarrow> \<not> due now e"
  using undrained_nth [OF assms]
  by (auto simp: set_conv_nth [of "undrained now k"])

lemma drained_events:
  assumes "kronos_wf k" "ahead k" "get_window now k"
  shows "mset (drained now k) = filter_mset (due now) (kronos_events k)"
    and "mset (concat (undrained now k)) = filter_mset (\<lambda>e. \<not> due now e) (kronos_events k)"
proof -
  have sum: "kronos_events k = mset (drained now k) + mset (concat (undrained now k))"
    using wfD(4) [OF assms(1)] by (simp add: drained_def undrained_def kronos_events_def drain_pure_mset)
  have part: "filter_mset P M = M \<and> filter_mset (\<lambda>e. \<not> P e) M = {#}"
    if "\<And>e. e \<in># M \<Longrightarrow> P e" for P and M :: "event multiset"
    using that by (induction M) auto
  have d: "filter_mset (due now) (mset (drained now k)) = mset (drained now k)"
    "filter_mset (\<lambda>e. \<not> due now e) (mset (drained now k)) = {#}"
    using part [of "mset (drained now k)" "due now"] by (auto simp: drained_def drain_pure_due)
  have u: "filter_mset (due now) (mset (concat (undrained now k))) = {#}"
    "filter_mset (\<lambda>e. \<not> due now e) (mset (concat (undrained now k))) = mset (concat (undrained now k))"
    using part [of "mset (concat (undrained now k))" "\<lambda>e. \<not> due now e"] in_undrained [OF assms]
    by simp_all
  show "mset (drained now k) = filter_mset (due now) (kronos_events k)"
    "mset (concat (undrained now k)) = filter_mset (\<lambda>e. \<not> due now e) (kronos_events k)"
    unfolding sum filter_union_mset d u by simp_all
qed

lemma drained_sorted:
  assumes wf: "kronos_wf k" and ah: "ahead k" and win: "get_window now k"
  shows "time_sorted (drained now k)"
proof (cases "quantum k now < position k + length (k_calendar k)")
  case True
  let ?n = "length (k_calendar k)" and ?p = "position k" and ?b = "unat (k_bucket k)"
  note W = wfD [OF wf]
  define off where "off = unat (k_epoch k) * ?n"
  have p: "?p = off + ?b" by (simp add: position_def off_def)
  define key where "key e = quantum k (ev_time e) - off" for e :: event
  have mono: "ev_time e \<le> ev_time f \<Longrightarrow> key e \<le> key f" for e f :: event
    by (simp add: key_def quantum_mono diff_le_mono)
  have "key e mod ?n = b \<and> ?b \<le> key e \<and> key e < ?b + ?n"
    if b: "b < ?n" and e: "e \<in> set (k_calendar k ! b)" and "due now e" for b e
  proof -
    have "?p \<le> quantum k (ev_time e)" using ah b e by (auto simp: ahead_def in_kronos_events)
    moreover have "quantum k (ev_time e) \<le> quantum k now" using \<open>due now e\<close> by (rule quantum_mono)
    moreover have "quantum k (ev_time e) mod ?n = b" using W(8) b e by (auto simp: cal_ok_def)
    moreover have "quantum k (ev_time e) mod ?n = key e mod ?n"
      using \<open>?p \<le> _\<close> p by (metis add_leD1 key_def le_add_diff_inverse mod_mult_self3 off_def)
    ultimately show ?thesis using True p by (auto simp: key_def)
  qed
  moreover have "\<forall>b < ?n. time_sorted (k_calendar k ! b)" using W(8) by (simp add: cal_ok_def)
  ultimately have "time_sorted (fst (drain_pure now [?b ..< ?b + len] (k_calendar k)))" for len
    using drain_pure_sorted [where key = key and m = ?b, OF mono W(4)] by blast
  moreover have "scan now k = [?b ..< ?b + (Suc (unat (scan_stop k (target now k))) - ?b)]"
    by (cases "?b \<le> Suc (unat (scan_stop k (target now k)))") (simp_all add: scan_def)
  ultimately show ?thesis by (simp only: drained_def)
next
  case False
  have "ev_time e = now" if "e \<in> set (drained now k)" for e
  proof -
    from that have "e \<in># filter_mset (due now) (kronos_events k)"
      using drained_events(1) [OF assms] by (metis set_mset_mset)
    with win False show ?thesis by (auto simp: get_window_def)
  qed
  then show ?thesis
    by (simp add: time_sorted_def) (induction "drained now k"; simp add: sorted_map sorted_wrt_iff_nth_less)
qed

section \<open>The position after get\<close>

lemma skip_position:
  assumes "0 < n" and "d < n" and "unat (ep :: u64) = q div n"
    and "q < 18446744073709551616" and "n < 2 ^ 62"
  shows "unat (ep + of_nat ((q mod n + d) div n)) * n + unat (of_nat ((q mod n + d) mod n) :: u64)
    = q + d"
proof -
  let ?c = "(q mod n + d) div n"
  have small: "q div n + ?c < 18446744073709551616"
  proof (cases "n = 1")
    case False
    then have "2 \<le> n" using assms(1) by simp
    then have "q div n \<le> q div 2" by (simp add: div_le_mono2)
    moreover have "q mod n + d < 2 * n" using assms(1,2) by (simp add: add_less_le_mono less_imp_le mult_2)
    then have "?c < 2" by (simp add: less_mult_imp_div_less)
    ultimately show ?thesis using assms(4) by simp
  qed (use assms in auto)
  have c: "unat (of_nat ?c :: u64) = ?c" by (rule unat_of_nat_u64) (use small in simp)
  have ep: "unat (ep + of_nat ?c) = q div n + ?c"
    using small c assms(3) by (subst unat_add_no_overflow) simp_all
  have m: "unat (of_nat ((q mod n + d) mod n) :: u64) = (q mod n + d) mod n"
    by (rule unat_of_nat_u64) (rule order.strict_trans [OF mod_less_divisor], use assms in auto)
  have "(q div n + ?c) * n + (q mod n + d) mod n = q div n * n + (?c * n + (q mod n + d) mod n)"
    by (simp add: add_mult_distrib)
  also have "\<dots> = q div n * n + (q mod n + d)" by (simp only: div_mult_mod_eq)
  also have "\<dots> = (q div n * n + q mod n) + d" by simp
  also have "\<dots> = q + d" by (simp only: div_mult_mod_eq)
  finally show ?thesis using ep m by simp
qed

text \<open>An event that is kept lies at or ahead of the present bucket, where the skip finds its bucket.\<close>

lemma kept_bucket:
  assumes wf: "kronos_wf k" and ah: "ahead k" and win: "get_window now k"
    and ok: "cal_ok k (undrained now k)" and e: "e \<in> set (concat (undrained now k))"
  shows "\<exists>j. quantum k (ev_time e) = quantum k now + j
    \<and> undrained now k ! ((unat (target now k) + j) mod length (k_calendar k)) \<noteq> []"
proof -
  let ?n = "length (k_calendar k)" and ?q = "quantum k now"
  from e have "?q \<le> quantum k (ev_time e)"
    using in_undrained [OF wf ah win] by (intro quantum_mono) (metis linear set_mset_mset)
  then obtain j where j: "quantum k (ev_time e) = ?q + j" by (metis le_add_diff_inverse)
  obtain es where "es \<in> set (undrained now k)" "e \<in> set es" using e by auto
  then obtain b where b: "b < ?n" "e \<in> set (undrained now k ! b)"
    by (auto simp: in_set_conv_nth [of es])
  then have "quantum k (ev_time e) mod ?n = b" using ok by (simp add: cal_ok_def)
  then have "b = (?q + j) mod ?n" using j by simp
  with b j unat_target [OF wf, of now] show ?thesis by (metis empty_iff list.set(1) mod_add_left_eq)
qed

lemma first_nonempty_bucket:
  assumes "0 < (n :: nat)" and "f (j mod n) \<noteq> []"
  shows "\<exists>d < n. f d \<noteq> [] \<and> (\<forall>d' < d. f d' = [])"
proof -
  define d where "d = (LEAST d. f d \<noteq> [])"
  have "f d \<noteq> []" unfolding d_def using assms(2) by (rule LeastI)
  moreover have "d \<le> j mod n" unfolding d_def using assms(2) by (rule Least_le)
  moreover have "\<forall>d' < d. f d' = []" unfolding d_def by (auto dest: not_less_Least)
  moreover have "j mod n < n" using assms(1) by simp
  ultimately show ?thesis by (metis le_less_trans)
qed

text \<open>After the scan the position moves on to the next event, if there is one.\<close>

lemma skip_to_next:
  fixes now :: u64 and k :: kronos
  defines "n \<equiv> length (k_calendar k)" and "cal \<equiv> undrained now k"
    and "c \<equiv> k_counter k - of_nat (length (drained now k))" and "t \<equiv> target now k"
    and "ep \<equiv> (now div k_bucketWidth k) div cal_size k"
  assumes wf: "kronos_wf k" and ah: "ahead k" and win: "get_window now k"
    and ok: "cal_ok k cal" and c: "unat c = length (concat cal)"
  shows "\<exists>ep' b. skip_empty n cal c ep t = Inr (ep', b) \<and> unat b < n
    \<and> (\<forall>e \<in> set (concat cal). unat ep' * n + unat b \<le> quantum k (ev_time e))"
proof (cases "concat cal = []")
  case True
  then have "c = 0" using c by (metis list.size(3) unat_eq_zero)
  with True unat_target [OF wf, of now] wfD(3) [OF wf] show ?thesis
    by (simp add: skip_empty_none n_def t_def del: concat_eq_Nil_conv)
next
  case False
  note W = wfD [OF wf]
  let ?q = "quantum k now"
  have ep: "unat ep = ?q div n" using W by (simp add: quantum_div ep_def n_def)
  have t: "unat t = ?q mod n" unfolding t_def n_def using wf by (rule unat_target)
  have q: "?q < 18446744073709551616"
    unfolding quantum_def by (rule le_less_trans [OF div_le_dividend unat_u64_lt])
  have key: "\<exists>j. quantum k (ev_time e) = ?q + j \<and> cal ! ((unat t + j) mod n) \<noteq> []" if "e \<in> set (concat cal)" for e
    using kept_bucket [OF wf ah win] ok that unfolding cal_def t_def n_def by blast
  obtain e j where "e \<in> set (concat cal)" and j: "cal ! ((unat t + j) mod n) \<noteq> []"
    using key False by (meson last_in_set)
  obtain d where d: "cal ! ((unat t + d) mod n) \<noteq> []" "d < n" "\<forall>d' < d. cal ! ((unat t + d') mod n) = []"
    using first_nonempty_bucket [of n "\<lambda>d. cal ! ((unat t + d) mod n)" j] j W(3)
    by (auto simp: mod_add_right_eq n_def)
  have "0 < c" using c False by (simp add: word_less_nat_alt)
  then have "skip_empty n cal c ep t = Inr (ep + of_nat ((unat t + d) div n), of_nat ((unat t + d) mod n))"
    using skip_empty_result [of t cal c d n ep] d W(3,5) t by (simp add: n_def cal_def)
  moreover have "unat (ep + of_nat ((unat t + d) div n)) * n + unat (of_nat ((unat t + d) mod n) :: u64) = ?q + d"
    unfolding t using W(3,5) d(2) ep q by (intro skip_position) (auto simp: n_def)
  moreover have "?q + d \<le> quantum k (ev_time e)" if "e \<in> set (concat cal)" for e
    using key [OF that] d(3) by (metis add_le_cancel_left not_less)
  moreover have "unat (of_nat ((unat t + d) mod n) :: u64) < n"
    using W(3,5) by (subst unat_of_nat_u64) (auto simp: n_def intro: order.strict_trans [OF mod_less_divisor])
  ultimately show ?thesis by auto
qed

lemma kronos_get_result:
  assumes wf: "kronos_wf k" and ah: "ahead k" and win: "get_window now k"
  shows "\<exists>k'. kronos_get now k = Inr (drained now k, k')
    \<and> kronos_events k' = filter_mset (\<lambda>e. \<not> due now e) (kronos_events k)
    \<and> kronos_wf k' \<and> ahead k' \<and> k_bucketWidth k' = k_bucketWidth k"
proof -
  let ?n = "length (k_calendar k)" and ?cal = "undrained now k"
  let ?c = "k_counter k - of_nat (length (drained now k))"
  note W = wfD [OF wf] and D = drained_events [OF assms]
  have len: "length (concat (k_calendar k)) = unat (k_counter k)"
    using W(7) by (simp add: kronos_events_def)
  have dr: "drain_range now (scan now k) (k_calendar k) (k_counter k) = Inr (drained now k, ?cal, ?c)"
    and cnt: "length (drained now k) + length (concat ?cal) = length (concat (k_calendar k))"
    using drain_range_pure [OF W(4) eq_refl [OF len], of now "scan now k"]
    by (simp_all add: drained_def undrained_def Let_def split: prod.splits)
  have c: "unat ?c = length (concat ?cal)" using cnt len by (simp add: unat_sub_of_nat)
  have ok: "cal_ok k ?cal"
    unfolding cal_ok_def using W(8) undrained_nth [OF assms]
    by (simp add: cal_ok_def time_sorted_filter)
  obtain ep b where sk: "skip_empty ?n ?cal ?c ((now div k_bucketWidth k) div cal_size k) (target now k)
      = Inr (ep, b)" "unat b < ?n"
    and pos: "\<forall>e \<in> set (concat ?cal). unat ep * ?n + unat b \<le> quantum k (ev_time e)"
    using skip_to_next [OF assms ok c] by blast
  let ?k = "k\<lparr>k_calendar := ?cal, k_counter := ?c, k_epoch := ep, k_bucket := b\<rparr>"
  have ev: "kronos_events ?k = mset (concat ?cal)" by (simp add: kronos_events_def)
  have qk: "quantum ?k = quantum k" by (simp add: fun_eq_iff quantum_def)
  have "kronos_get now k = Inr (drained now k, ?k)"
    using W(1,2,9) dr sk(1) by (simp add: kronos_get_def Let_def scan_def target_def)
  moreover have "kronos_wf ?k"
    using W sk(2) c ok unfolding kronos_wf_def ev by (simp add: cal_ok_def qk)
  moreover have "ahead ?k" using pos unfolding ahead_def ev by (simp add: position_def qk)
  ultimately show ?thesis using ev D(2) by auto
qed

section \<open>The scan of next\<close>

definition hit :: "kronos \<Rightarrow> nat \<Rightarrow> u64 \<Rightarrow> bool" where
  "hit k i t \<longleftrightarrow> (case k_calendar k ! (i mod length (k_calendar k)) of [] \<Rightarrow> False
    | e # _ \<Rightarrow> (ev_time e div k_bucketWidth k) div cal_size k = k_epoch k \<and> t = ev_time e)"

definition head_times :: "kronos \<Rightarrow> nat \<Rightarrow> u64 list" where
  "head_times k i = map ev_time (take 1 (k_calendar k ! (i mod length (k_calendar k))))"

lemma next_scan_Some:
  "next_scan k js acc = (Some t, ts) \<Longrightarrow>
    \<exists>ys i zs. js = ys @ i # zs \<and> hit k i t \<and> (\<forall>y \<in> set ys. \<forall>u. \<not> hit k y u)"
proof (induction js arbitrary: acc)
  case (Cons i js)
  show ?case
  proof (cases "\<exists>u. hit k i u")
    case True
    with Cons.prems have "hit k i t" by (auto simp: hit_def split: list.splits if_splits)
    then show ?thesis by (intro exI [of _ "[]"]) auto
  next
    case False
    with Cons.prems have "\<exists>acc'. next_scan k js acc' = (Some t, ts)"
      by (auto simp: hit_def split: list.splits if_splits)
    with Cons.IH obtain ys j zs where "js = ys @ j # zs" "hit k j t" "\<forall>y \<in> set ys. \<forall>u. \<not> hit k y u"
      by blast
    with False show ?thesis by (intro exI [of _ "i # ys"]) auto
  qed
qed simp

lemma next_scan_None:
  "next_scan k js acc = (None, ts) \<Longrightarrow> ts = acc @ concat (map (head_times k) js)"
proof (induction js arbitrary: acc)
  case (Cons i js)
  then obtain acc' where "next_scan k js acc' = (None, ts)" and "acc' = acc @ head_times k i"
    by (auto simp: head_times_def split: list.splits if_splits)
  with Cons.IH [of acc'] show ?case by simp
qed simp

lemma upt_split:
  assumes "[m ..< n] = ys @ i # zs"
  shows "m \<le> i \<and> i < n \<and> ys = [m ..< i]"
proof -
  have len: "length ys < n - m"
    using arg_cong [OF assms, of length] by simp
  then have "i = m + length ys"
    using arg_cong [OF assms, of "\<lambda>xs. xs ! length ys"] by simp
  moreover have "ys = take (length ys) [m ..< n]" unfolding assms by simp
  ultimately show ?thesis using len by (simp add: take_upt)
qed

definition next_time :: "event multiset \<Rightarrow> u64" where
  "next_time M = (if M = {#} then 0 else Min (ev_time ` set_mset M))"

lemma next_time_eqI:
  "e \<in># M \<Longrightarrow> t = ev_time e \<Longrightarrow> (\<And>f. f \<in># M \<Longrightarrow> t \<le> ev_time f) \<Longrightarrow> next_time M = t"
  by (auto simp: next_time_def intro!: Min_eqI)

lemma quantum_less: "quantum k t < quantum k u \<Longrightarrow> t \<le> u"
  by (meson leD linear quantum_mono)

lemma hit_quantum:
  assumes wf: "kronos_wf k" and "hit k i t"
  shows "\<exists>e es. k_calendar k ! (i mod length (k_calendar k)) = e # es \<and> t = ev_time e
    \<and> quantum k t = unat (k_epoch k) * length (k_calendar k) + i mod length (k_calendar k)"
proof -
  note W = wfD [OF wf]
  let ?n = "length (k_calendar k)"
  from assms obtain e es where e: "k_calendar k ! (i mod ?n) = e # es" "t = ev_time e"
    "(t div k_bucketWidth k) div cal_size k = k_epoch k"
    by (auto simp: hit_def split: list.splits)
  have "quantum k t div ?n = unat (k_epoch k)" using quantum_div [OF W(2,5), of t] e(3) by simp
  moreover have "quantum k t mod ?n = i mod ?n" using W(3,8) e(1,2) by (simp add: cal_ok_def)
  ultimately have "quantum k t = unat (k_epoch k) * ?n + i mod ?n" by (metis div_mult_mod_eq)
  with e show ?thesis by blast
qed

lemma ahead_quantum:
  "ahead k \<Longrightarrow> e \<in># kronos_events k
    \<Longrightarrow> unat (k_epoch k) * length (k_calendar k) + unat (k_bucket k) \<le> quantum k (ev_time e)"
  by (simp add: ahead_def position_def)

text \<open>The bucket of an event starts with one that is not later.\<close>

lemma bucket_head:
  assumes wf: "kronos_wf k" and e: "e \<in># kronos_events k"
  shows "\<exists>h \<in># kronos_events k. \<exists>hs. k_calendar k ! (quantum k (ev_time e) mod length (k_calendar k)) = h # hs
    \<and> ev_time h \<le> ev_time e"
proof -
  let ?m = "quantum k (ev_time e) mod length (k_calendar k)"
  have m: "?m < length (k_calendar k)" using wfD(3) [OF wf] by simp
  moreover from this have "time_sorted (k_calendar k ! ?m)" using wfD(8) [OF wf] by (simp add: cal_ok_def)
  ultimately show ?thesis using bucket_of [OF wf e]
    by (cases "k_calendar k ! ?m") (auto simp: in_kronos_events time_sorted_Cons intro!: exI [of _ ?m])
qed

text \<open>The first bucket whose head is of the present epoch has the least time of all.\<close>

lemma first_hit_position:
  assumes wf: "kronos_wf k" and ah: "ahead k" and hit: "hit k i t"
    and i: "i < unat (k_bucket k) + length (k_calendar k)"
  shows "\<exists>e \<in># kronos_events k. \<exists>es. t = ev_time e \<and> k_calendar k ! i = e # es \<and> i < length (k_calendar k)
    \<and> quantum k t = unat (k_epoch k) * length (k_calendar k) + i"
proof -
  let ?n = "length (k_calendar k)"
  note W = wfD [OF wf]
  obtain e es where e: "k_calendar k ! (i mod ?n) = e # es" "t = ev_time e"
    and qt: "quantum k t = unat (k_epoch k) * ?n + i mod ?n"
    using hit_quantum [OF wf hit] by blast
  have mem: "e \<in># kronos_events k"
    using e(1) W(3) by (auto simp: in_kronos_events intro!: exI [of _ "i mod ?n"])
  have "unat (k_bucket k) \<le> i mod ?n" using ahead_quantum [OF ah mem] qt e(2) by simp
  then have "i < ?n" using W(6) i by (cases "i < ?n") (simp_all add: le_mod_geq)
  then show ?thesis using mem e qt by auto
qed

lemma present_head_hits:
  assumes wf: "kronos_wf k" and ah: "ahead k" and h: "h \<in># kronos_events k" "k_calendar k ! j = h # hs"
    and j: "j < length (k_calendar k)" "quantum k (ev_time h) \<le> unat (k_epoch k) * length (k_calendar k) + j"
  shows "hit k j (ev_time h)"
proof -
  let ?n = "length (k_calendar k)"
  have "quantum k (ev_time h) div ?n = unat (k_epoch k)"
    using j ahead_quantum [OF ah h(1)] by (intro div_nat_eqI) (auto simp: mult.commute)
  then have "unat ((ev_time h div k_bucketWidth k) div cal_size k) = unat (k_epoch k)"
    using quantum_div wfD(2,5) [OF wf] by simp
  then have "(ev_time h div k_bucketWidth k) div cal_size k = k_epoch k" by (simp add: word_unat_eq_iff)
  then show ?thesis using h(2) j(1) by (simp add: hit_def)
qed

lemma first_hit_is_least:
  assumes wf: "kronos_wf k" and ah: "ahead k" and hit: "hit k i t"
    and i: "i < unat (k_bucket k) + length (k_calendar k)"
    and first: "\<forall>y \<in> {unat (k_bucket k) ..< i}. \<forall>u. \<not> hit k y u" and f: "f \<in># kronos_events k"
  shows "t \<le> ev_time f"
proof -
  let ?n = "length (k_calendar k)" and ?off = "unat (k_epoch k) * length (k_calendar k)"
  obtain e es where e: "t = ev_time e" "k_calendar k ! i = e # es" "i < ?n" and qt: "quantum k t = ?off + i"
    using first_hit_position [OF wf ah hit i] by auto
  show ?thesis
  proof (cases "quantum k t < quantum k (ev_time f)")
    case True
    then show ?thesis by (rule quantum_less)
  next
    case False
    define j where "j = quantum k (ev_time f) - ?off"
    have j: "quantum k (ev_time f) = ?off + j" "unat (k_bucket k) \<le> j" "j \<le> i"
      using ahead_quantum [OF ah f] False qt by (auto simp: j_def)
    then have jm: "quantum k (ev_time f) mod ?n = j" using e(3) by simp
    obtain h hs where h: "h \<in># kronos_events k" "k_calendar k ! j = h # hs" "ev_time h \<le> ev_time f"
      using bucket_head [OF wf f] jm by auto
    have "hit k j (ev_time h)"
      using j e(3) quantum_mono [OF h(3), of k] by (intro present_head_hits [OF wf ah h(1,2)]) simp_all
    then have "\<not> j < i" using first j(2) by auto
    with j(3) h e show ?thesis by simp
  qed
qed

text \<open>Without such a bucket the heads of all buckets are compared.\<close>

lemma head_times_cover:
  assumes wf: "kronos_wf k" and f: "f \<in># kronos_events k"
    and ts: "ts = concat (map (head_times k) [unat (k_bucket k) ..< unat (k_bucket k) + length (k_calendar k)])"
  shows "\<exists>t \<in> set ts. t \<le> ev_time f"
proof -
  let ?n = "length (k_calendar k)" and ?b = "unat (k_bucket k)"
  let ?m = "quantum k (ev_time f) mod ?n"
  let ?i = "if ?b \<le> ?m then ?m else ?m + ?n"
  obtain h hs where h: "k_calendar k ! ?m = h # hs" "ev_time h \<le> ev_time f"
    using bucket_head [OF wf f] by auto
  have "?m < ?n" using wfD(3) [OF wf] by simp
  then have "?i \<in> set [?b ..< ?b + ?n]" and "?i mod ?n = ?m" using wfD(6) [OF wf] by auto
  then have "ev_time h \<in> set ts" using h(1) by (auto simp: ts head_times_def intro!: bexI [of _ ?i])
  with h(2) show ?thesis by blast
qed

lemma head_times_are_times:
  assumes wf: "kronos_wf k" and t: "t \<in> set (concat (map (head_times k) js))"
  shows "\<exists>e \<in># kronos_events k. t = ev_time e"
proof -
  let ?n = "length (k_calendar k)"
  from t obtain i where "t \<in> ev_time ` set (take 1 (k_calendar k ! (i mod ?n)))"
    by (auto simp: head_times_def)
  then obtain e where e: "e \<in> set (k_calendar k ! (i mod ?n))" "t = ev_time e"
    by (auto dest: in_set_takeD)
  have "i mod ?n < ?n" using wfD(3) [OF wf] by simp
  with e(1) have "e \<in># kronos_events k" by (auto simp: in_kronos_events)
  with e(2) show ?thesis by blast
qed

lemma sort_Cons_least:
  assumes "sort ts = t # us"
  shows "t \<in> set ts" and "\<forall>u \<in> set ts. t \<le> u"
proof -
  have "sorted (t # us)" by (metis assms sorted_sort)
  then show "\<forall>u \<in> set ts. t \<le> u" by (metis set_sort set_ConsD sorted_simps(2) order_refl assms)
  show "t \<in> set ts" by (metis set_sort assms list.set_intros(1))
qed

lemma kronos_next_result:
  assumes wf: "kronos_wf k" and ah: "ahead k"
  shows "kronos_next k = Inr (next_time (kronos_events k))"
proof (cases "kronos_events k = {#}")
  case True
  then have "k_counter k = 0" using wfD(7) [OF wf] by (simp add: unat_eq_zero)
  with True wfD(1) [OF wf] show ?thesis by (simp add: kronos_next_def next_time_def)
next
  case False
  let ?js = "[unat (k_bucket k) ..< unat (k_bucket k) + length (k_calendar k)]"
  note W = wfD [OF wf]
  from False W(7) have "0 < unat (k_counter k)" by (simp add: nonempty_has_size)
  then have c: "0 < k_counter k" by (simp add: word_less_nat_alt)
  obtain r ts where scan: "next_scan k ?js [] = (r, ts)" by (cases "next_scan k ?js []")
  show ?thesis
  proof (cases r)
    case (Some t)
    then obtain ys i zs where js: "?js = ys @ i # zs" and hit: "hit k i t"
      and first: "\<forall>y \<in> set ys. \<forall>u. \<not> hit k y u"
      using next_scan_Some scan by blast
    have i: "i < unat (k_bucket k) + length (k_calendar k)" "ys = [unat (k_bucket k) ..< i]"
      using upt_split [OF js] by auto
    obtain e where "e \<in># kronos_events k" "t = ev_time e"
      using first_hit_position [OF wf ah hit i(1)] by blast
    moreover have "t \<le> ev_time f" if "f \<in># kronos_events k" for f
      using first_hit_is_least [OF wf ah hit i(1) _ that] first i(2) by simp
    ultimately have "next_time (kronos_events k) = t" by (rule next_time_eqI)
    with Some scan c W(1) show ?thesis by (simp add: kronos_next_def)
  next
    case None
    then have ts: "ts = concat (map (head_times k) ?js)" using next_scan_None scan by fastforce
    from False obtain f where "f \<in># kronos_events k" by auto
    then obtain u where "u \<in> set (sort ts)" using head_times_cover [OF wf _ ts] by fastforce
    then obtain t us where st: "sort ts = t # us" by (cases "sort ts") auto
    then obtain e where "e \<in># kronos_events k" "t = ev_time e"
      using head_times_are_times [OF wf] sort_Cons_least(1) [OF st] unfolding ts by blast
    moreover have "t \<le> ev_time f" if "f \<in># kronos_events k" for f
      using head_times_cover [OF wf that ts] sort_Cons_least(2) [OF st] by (blast intro: order_trans)
    ultimately have "next_time (kronos_events k) = t" by (rule next_time_eqI)
    with None scan c W(1) st show ?thesis by (simp add: kronos_next_def)
  qed
qed

section \<open>Scheduling\<close>

lemma kronos_schedule_result:
  assumes wf: "kronos_wf k" and room: "size (kronos_events k) + 1 < 2 ^ 64"
  shows "\<exists>k'. kronos_schedule ev k = Inr k' \<and> kronos_events k' = add_mset ev (kronos_events k)
    \<and> kronos_wf k' \<and> position k' = position k \<and> quantum k' = quantum k"
proof -
  let ?n = "length (k_calendar k)" and ?q = "quantum k (ev_time ev)"
  let ?b = "unat ((ev_time ev div k_bucketWidth k) mod cal_size k)"
  note W = wfD [OF wf]
  let ?cal = "(k_calendar k)[?b := cal_insert ev (k_calendar k ! ?b)]"
  let ?k = "k\<lparr>k_calendar := ?cal, k_counter := k_counter k + 1\<rparr>"
  have b: "?b = ?q mod ?n" "?b < ?n" using W(2,3,5) by (simp_all add: quantum_mod)
  have run: "kronos_schedule ev k = Inr ?k"
    using W(1,2,9) by (simp add: kronos_schedule_def Let_def)
  have "mset (concat ?cal) + mset (k_calendar k ! ?b)
      = add_mset ev (kronos_events k) + mset (k_calendar k ! ?b)"
    using mset_concat_update [OF b(2)] by (simp add: kronos_events_def)
  then have ev: "kronos_events ?k = add_mset ev (kronos_events k)"
    unfolding add_right_cancel by (simp add: kronos_events_def)
  have qk: "quantum ?k = quantum k" by (simp add: fun_eq_iff quantum_def)
  have "time_sorted (?cal ! c) \<and> (\<forall>e \<in> set (?cal ! c). quantum k (ev_time e) mod ?n = c)"
    if "c < ?n" for c
    using that W(8) b by (cases "c = ?b") (simp_all add: cal_ok_def time_sorted_cal_insert)
  then have ok: "cal_ok ?k ?cal" unfolding cal_ok_def qk by simp
  have "unat (k_counter k + 1) = size (kronos_events k) + 1"
    using W(7) room by (subst unat_add_no_overflow) simp_all
  then have "kronos_wf ?k" using W(1-6) ok unfolding kronos_wf_def ev by simp
  with run ev qk show ?thesis by (auto simp: position_def)
qed

section \<open>The interface of a future event list\<close>

text \<open>
  What a simulation loop needs: an event may be scheduled when \<open>admits\<close> holds, \<open>next\<close> is
  the least pending time, and \<open>get\<close> at a time no pending event precedes takes the due events
  out. \<open>run_queue\<close> is the loop of \<^verbatim>\<open>TrafficProfileManager::loop\<close> seen from the event list:
  advance to the next time, take what is due, until nothing is left.
\<close>

fun run_queue :: "('k \<Rightarrow> u64 res) \<Rightarrow> (u64 \<Rightarrow> 'k \<Rightarrow> (event list \<times> 'k) res) \<Rightarrow> ('k \<Rightarrow> bool)
    \<Rightarrow> nat \<Rightarrow> 'k \<Rightarrow> (event list \<times> 'k) res" where
  "run_queue nxt get pending 0 k = (if pending k then Inl OutOfFuel else Inr ([], k))"
| "run_queue nxt get pending (Suc n) k =
    (if pending k then
       bindR (nxt k) (\<lambda>t.
       bindR (get t k) (\<lambda>(es, k').
       bindR (run_queue nxt get pending n k') (\<lambda>(fs, k''). Inr (es @ fs, k''))))
     else Inr ([], k))"

locale future_event_list =
  fixes ok :: "'k \<Rightarrow> bool"
    and events :: "'k \<Rightarrow> event multiset"
    and admits :: "event \<Rightarrow> 'k \<Rightarrow> bool"
    and sched :: "event \<Rightarrow> 'k \<Rightarrow> 'k res"
    and get :: "u64 \<Rightarrow> 'k \<Rightarrow> (event list \<times> 'k) res"
    and nxt :: "'k \<Rightarrow> u64 res"
    and pending :: "'k \<Rightarrow> bool"
  assumes sched: "ok k \<Longrightarrow> admits ev k \<Longrightarrow>
      \<exists>k'. sched ev k = Inr k' \<and> events k' = add_mset ev (events k) \<and> ok k'"
    and get: "ok k \<Longrightarrow> (\<forall>e \<in># events k. now \<le> ev_time e) \<Longrightarrow>
      \<exists>es k'. get now k = Inr (es, k') \<and> mset es = filter_mset (due now) (events k) \<and> time_sorted es
        \<and> events k' = filter_mset (\<lambda>e. \<not> due now e) (events k) \<and> ok k'"
    and nxt: "ok k \<Longrightarrow> nxt k = Inr (next_time (events k))"
    and pending: "ok k \<Longrightarrow> pending k \<longleftrightarrow> events k \<noteq> {#}"
begin

lemma least_due:
  assumes "events k \<noteq> {#}"
  shows "\<forall>e \<in># events k. next_time (events k) \<le> ev_time e"
    and "\<exists>e \<in># events k. ev_time e = next_time (events k)"
proof -
  have S: "finite (ev_time ` set_mset (events k))" "ev_time ` set_mset (events k) \<noteq> {}"
    using assms by auto
  have t: "next_time (events k) = Min (ev_time ` set_mset (events k))"
    using assms by (simp add: next_time_def)
  show "\<forall>e \<in># events k. next_time (events k) \<le> ev_time e" unfolding t using S(1) by simp
  show "\<exists>e \<in># events k. ev_time e = next_time (events k)"
    using Min_in [OF S] unfolding t image_iff by metis
qed

lemma step_shrinks:
  assumes "events k \<noteq> {#}"
  shows "size (filter_mset (\<lambda>e. \<not> due (next_time (events k)) e) (events k)) < size (events k)"
proof -
  obtain e where "e \<in># events k" "ev_time e = next_time (events k)" using least_due(2) [OF assms] by blast
  then have "filter_mset (\<lambda>e. \<not> due (next_time (events k)) e) (events k) \<noteq> events k"
    by (metis filter_mset_eq_conv order_refl)
  then show ?thesis by (metis mset_subset_size multiset_filter_subset subset_mset.le_less)
qed

lemma run_queue_sorts:
  "ok k \<Longrightarrow> size (events k) \<le> n \<Longrightarrow>
    \<exists>es k'. run_queue nxt get pending n k = Inr (es, k') \<and> mset es = events k \<and> time_sorted es
      \<and> events k' = {#} \<and> ok k'"
proof (induction n arbitrary: k)
  case 0
  then show ?case by (simp add: pending)
next
  case (Suc n)
  show ?case
  proof (cases "events k = {#}")
    case True
    with Suc.prems show ?thesis by (simp add: pending)
  next
    case False
    let ?t = "next_time (events k)"
    obtain es k' where g: "get ?t k = Inr (es, k')" "mset es = filter_mset (due ?t) (events k)"
      "time_sorted es" "events k' = filter_mset (\<lambda>e. \<not> due ?t e) (events k)" "ok k'"
      using get [OF Suc.prems(1) least_due(1) [OF False]] by blast
    have "size (events k') \<le> n" using step_shrinks [OF False] g(4) Suc.prems(2) by simp
    then obtain fs k'' where r: "run_queue nxt get pending n k' = Inr (fs, k'')"
      "mset fs = events k'" "time_sorted fs" "events k'' = {#}" "ok k''"
      using Suc.IH [OF g(5)] by blast
    have "due ?t e" if "e \<in> set es" for e
      using that g(2) by (metis (no_types, lifting) mem_Collect_eq set_mset_filter set_mset_mset)
    moreover have "\<not> due ?t f" if "f \<in> set fs" for f
      using that r(2) g(4) by (metis (no_types, lifting) mem_Collect_eq set_mset_filter set_mset_mset)
    ultimately have "time_sorted (es @ fs)"
      unfolding time_sorted_append using g(3) r(3) by (meson linear order_trans)
    moreover have "mset (es @ fs) = events k" using g(2,4) r(2) by simp
    ultimately show ?thesis
      using False Suc.prems(1) g(1) r(1,4,5) by (auto simp: pending nxt)
  qed
qed

end

definition kronos_ok :: "kronos \<Rightarrow> bool" where
  "kronos_ok k \<longleftrightarrow> kronos_wf k \<and> ahead k"

definition kronos_admits :: "event \<Rightarrow> kronos \<Rightarrow> bool" where
  "kronos_admits ev k \<longleftrightarrow> position k \<le> quantum k (ev_time ev) \<and> size (kronos_events k) + 1 < 2 ^ 64"

definition kronos_pending :: "kronos \<Rightarrow> bool" where
  "kronos_pending k \<longleftrightarrow> getCounter k \<noteq> 0"

interpretation kq: future_event_list kronos_ok kronos_events kronos_admits kronos_schedule
  kronos_get kronos_next kronos_pending
proof
  fix k ev
  assume "kronos_ok k" and "kronos_admits ev k"
  then show "\<exists>k'. kronos_schedule ev k = Inr k' \<and> kronos_events k' = add_mset ev (kronos_events k)
      \<and> kronos_ok k'"
    using kronos_schedule_result [of k ev]
    by (auto simp: kronos_ok_def kronos_admits_def ahead_def)
next
  fix k now
  assume "kronos_ok k" and "\<forall>e \<in># kronos_events k. now \<le> ev_time e"
  then show "\<exists>es k'. kronos_get now k = Inr (es, k') \<and> mset es = filter_mset (due now) (kronos_events k)
      \<and> time_sorted es \<and> kronos_events k' = filter_mset (\<lambda>e. \<not> due now e) (kronos_events k)
      \<and> kronos_ok k'"
    using kronos_get_result [of k now] drained_events(1) [of k now] drained_sorted [of k now]
    by (auto simp: kronos_ok_def get_window_def)
next
  fix k
  assume "kronos_ok k"
  then show "kronos_next k = Inr (next_time (kronos_events k))"
    by (simp add: kronos_ok_def kronos_next_result)
next
  fix k
  assume "kronos_ok k"
  then show "kronos_pending k \<longleftrightarrow> kronos_events k \<noteq> {#}"
    using wfD(7) [of k] unat_eq_zero [of "k_counter k"]
    by (auto simp: kronos_ok_def kronos_pending_def getCounter_def)
qed

section \<open>A fresh calendar\<close>

lemma kronos_init_ok:
  assumes "w \<noteq> 0" and "0 < sz div w" and "sz div w < 2 ^ 62"
  shows "\<exists>k. kronos_init (w, sz) kronos_new = Inr k \<and> kronos_wf k \<and> kronos_events k = {#}
    \<and> position k = 0"
proof -
  let ?n = "unat (sz div w)"
  let ?k = "\<lparr>k_bucketWidth = w, k_calendar = replicate ?n [], k_epoch = 0, k_bucket = 0,
    k_counter = 0, k_initialized = True\<rparr>"
  have n: "0 < ?n" "?n < 2 ^ 62" using assms by (simp_all add: word_less_nat_alt unat_gt_0)
  have ev: "kronos_events ?k = {#}" by (simp add: kronos_events_def concat_replicate_trivial)
  have "kronos_init (w, sz) kronos_new = Inr ?k"
    using assms(1) by (simp add: kronos_init_def kronos_new_def resize_calendar_def)
  moreover have "kronos_wf ?k" using assms(1) n unfolding kronos_wf_def ev by (simp add: cal_ok_def)
  ultimately show ?thesis using ev by (auto simp: position_def)
qed

lemma schedule_all_ok:
  "kronos_wf k \<Longrightarrow> position k = 0 \<Longrightarrow> size (kronos_events k) + length evs < 2 ^ 64 \<Longrightarrow>
    \<exists>k'. foldR kronos_schedule evs k = Inr k' \<and> kronos_ok k'
      \<and> kronos_events k' = kronos_events k + mset evs"
proof (induction evs arbitrary: k)
  case Nil
  then show ?case by (simp add: kronos_ok_def ahead_def)
next
  case (Cons ev evs)
  then obtain k1 where "kronos_schedule ev k = Inr k1" "kronos_events k1 = add_mset ev (kronos_events k)"
    "kronos_wf k1" "position k1 = 0"
    using kronos_schedule_result [of k ev] by auto
  with Cons.IH [of k1] Cons.prems(3) show ?case by auto
qed

section \<open>Properties\<close>

text \<open>
  C3. The event list is a priority queue: initialise Kronos, schedule any events in any
  order, then repeat \<open>next\<close> and \<open>get\<close> until the counter is zero. Every scheduled event comes
  out exactly once, in non-decreasing time, within as many rounds as there are events.
\<close>

theorem kronos_delivers_in_time_order:
  assumes "w \<noteq> 0" and "0 < sz div w" and "sz div w < 2 ^ 62" and "length evs < 2 ^ 64"
  shows "\<exists>k es k'. bindR (kronos_init (w, sz) kronos_new) (foldR kronos_schedule evs) = Inr k
    \<and> run_queue kronos_next kronos_get kronos_pending (length evs) k = Inr (es, k')
    \<and> mset es = mset evs \<and> time_sorted es \<and> getCounter k' = 0"
proof -
  obtain k0 where "kronos_init (w, sz) kronos_new = Inr k0" "kronos_wf k0" "kronos_events k0 = {#}"
    "position k0 = 0" using kronos_init_ok [OF assms(1-3)] by blast
  moreover from this obtain k where "foldR kronos_schedule evs k0 = Inr k" "kronos_ok k"
    "kronos_events k = mset evs" using schedule_all_ok [of k0 evs] assms(4) by auto
  moreover from this obtain es k' where "run_queue kronos_next kronos_get kronos_pending (length evs) k
      = Inr (es, k')" "mset es = mset evs" "time_sorted es" "kronos_events k' = {#}" "kronos_ok k'"
    using kq.run_queue_sorts [of k "length evs"] by auto
  moreover from this have "getCounter k' = 0"
    using kq.pending [of k'] by (simp add: kronos_pending_def)
  ultimately show ?thesis by auto
qed

theorem kronos_delivers_in_time_order_witness:
  "let evs = [mk_event TICK TRIGGERED 1 9, mk_event TICK TRIGGERED 2 4, mk_event TICK TRIGGERED 3 30]
   in \<exists>k es k'. bindR (kronos_init (2, 8) kronos_new) (foldR kronos_schedule evs) = Inr k
    \<and> run_queue kronos_next kronos_get kronos_pending (length evs) k = Inr (es, k')
    \<and> mset es = mset evs \<and> time_sorted es \<and> getCounter k' = 0"
  unfolding Let_def by (rule kronos_delivers_in_time_order) simp_all

text \<open>
  C16. \<open>get\<close> in any state of the invariant: when no event lies behind the position and the new
  time is less than a calendar round away (or no event is overdue), it returns precisely the
  due events, sorted by time, leaves the others, and restores the invariant, the position
  now being that of the earliest event left.
\<close>

theorem kronos_get_delivers_due:
  assumes "kronos_wf k" and "ahead k" and "get_window now k"
  shows "\<exists>es k'. kronos_get now k = Inr (es, k') \<and> time_sorted es
    \<and> mset es = filter_mset (\<lambda>e. ev_time e \<le> now) (kronos_events k)
    \<and> kronos_events k' = filter_mset (\<lambda>e. now < ev_time e) (kronos_events k)
    \<and> kronos_wf k' \<and> ahead k'"
  using kronos_get_result [OF assms] drained_events(1) [OF assms] drained_sorted [OF assms]
  by (auto simp: not_le)

definition two_events :: kronos where
  "two_events = \<lparr>k_bucketWidth = 1,
     k_calendar = [[mk_event TICK TRIGGERED 1 4], [], [mk_event TICK TRIGGERED 2 2], []],
     k_epoch = 0, k_bucket = 2, k_counter = 2, k_initialized = True\<rparr>"

lemma all_less_4: "(\<forall>b < Suc (Suc (Suc (Suc 0))). P b) \<longleftrightarrow> P 0 \<and> P 1 \<and> P 2 \<and> P 3"
  by (auto simp: numeral_eq_Suc less_Suc_eq)

lemma two_events_wf: "kronos_wf two_events"
  by (simp add: two_events_def kronos_wf_def kronos_events_def cal_ok_def all_less_4 quantum_def
      time_sorted_def)

lemma two_events_ahead: "ahead two_events" "get_window 3 two_events"
  by (simp_all add: two_events_def ahead_def get_window_def kronos_events_def quantum_def position_def)

theorem kronos_get_delivers_due_witness:
  "\<exists>es k'. kronos_get 3 two_events = Inr (es, k') \<and> mset es = {#mk_event TICK TRIGGERED 2 2#}
    \<and> kronos_events k' = {#mk_event TICK TRIGGERED 1 4#} \<and> kronos_wf k' \<and> ahead k'"
  using kronos_get_delivers_due [OF two_events_wf two_events_ahead]
  by (auto simp: kronos_events_def two_events_def)

text \<open>
  \<open>next\<close> is the least pending time, and zero when nothing is pending, as long as no event
  lies behind the position of the calendar.
\<close>

theorem kronos_next_is_least:
  assumes "kronos_wf k" and "ahead k"
  shows "kronos_next k = Inr (if kronos_events k = {#} then 0 else Min (ev_time ` set_mset (kronos_events k)))"
  using kronos_next_result [OF assms] by (simp add: next_time_def)

theorem kronos_next_is_least_witness: "kronos_next two_events = Inr 2"
  using kronos_next_is_least [OF two_events_wf two_events_ahead(1)]
  by (simp add: kronos_events_def two_events_def)

text \<open>
  That condition is needed and the code does not maintain it: \<open>get\<close> moves the position to
  the next non-empty bucket, and \<open>schedule\<close> accepts an event between the current time and
  that position. Here \<open>get\<close> at time 1 moves on to the event at time 4, an event is then
  scheduled at time 2, and \<open>next\<close> answers 4.
\<close>

theorem schedule_behind_position_is_skipped:
  "\<exists>k. bindR (kronos_init (1, 4) kronos_new) (\<lambda>k0.
     bindR (kronos_schedule (mk_event TICK TRIGGERED 1 4) k0) (\<lambda>k1.
     bindR (kronos_get 1 k1) (\<lambda>(es, k2).
     bindR (kronos_schedule (mk_event TICK TRIGGERED 2 2) k2) (\<lambda>k3.
     bindR (kronos_next k3) (\<lambda>t. Inr (k3, t)))))) = Inr (k, 4)
   \<and> kronos_wf k \<and> image_mset ev_time (kronos_events k) = {#2, 4#}"
proof -
  let ?k = "two_events\<lparr>k_epoch := 1, k_bucket := 0\<rparr>"
  have "bindR (kronos_init (1, 4) kronos_new) (\<lambda>k0.
     bindR (kronos_schedule (mk_event TICK TRIGGERED 1 4) k0) (\<lambda>k1.
     bindR (kronos_get 1 k1) (\<lambda>(es, k2).
     bindR (kronos_schedule (mk_event TICK TRIGGERED 2 2) k2) (\<lambda>k3.
     bindR (kronos_next k3) (\<lambda>t. Inr (k3, t)))))) = Inr (?k, 4)"
    by code_simp
  moreover have "kronos_wf ?k"
    by (simp add: two_events_def kronos_wf_def kronos_events_def cal_ok_def all_less_4 quantum_def
        time_sorted_def)
  moreover have "image_mset ev_time (kronos_events ?k) = {#2, 4#}"
    by (simp add: two_events_def kronos_events_def)
  ultimately show ?thesis by blast
qed

end
