(* ===== verification/Doubles.thy ===== *)
theory Doubles
  imports Prelude
begin

text \<open>
  The \<^verbatim>\<open>double\<close> of the C++ code: IEEE 754 binary64 with round-to-nearest, ties to even.
  A finite double is the rational number it stands for, and an operation is the exact
  rational operation followed by \<open>rnd64\<close>. Operands in this program are converted 64-bit
  integers, quotients and products of a few of them, so no result comes near \<open>2 ^ 1024\<close>;
  infinities and NaNs arise from a division by zero only, which \<open>fl_div\<close> reports as None.
  The grid of subnormal numbers is included (the exponent is never below -1074).
\<close>

type_synonym double = rat

section \<open>Rounding\<close>

function flog2_up :: "rat \<Rightarrow> int" where
  "flog2_up x = (if 2 \<le> x then 1 + flog2_up (x / 2) else 0)"
  by pat_completeness auto
termination
proof (relation "measure (\<lambda>x. nat \<lfloor>x\<rfloor>)", goal_cases)
  case (2 x)
  then have "\<lfloor>x / 2\<rfloor> < \<lfloor>x\<rfloor>" by linarith
  moreover have "0 < \<lfloor>x\<rfloor>" using 2 by linarith
  ultimately show ?case by simp
qed simp

function flog2_dn :: "rat \<Rightarrow> int" where
  "flog2_dn x = (if 0 < x \<and> x < 1 then flog2_dn (2 * x) - 1 else 0)"
  by pat_completeness auto
termination
proof (relation "measure (\<lambda>x. nat \<lfloor>1 / x\<rfloor>)", goal_cases)
  case (2 x)
  define y where "y = 1 / x"
  from 2 have "1 < y" by (simp add: y_def)
  then have pos: "1 \<le> \<lfloor>y\<rfloor>" by simp
  then have "\<lfloor>y / 2\<rfloor> < \<lfloor>y\<rfloor>" by linarith
  moreover have "1 / (2 * x) = y / 2" "1 / x = y" by (simp_all add: y_def)
  ultimately show ?case using pos unfolding in_measure prod.case by (simp only: nat_less_eq_zless)
qed simp

declare flog2_up.simps [simp del] flog2_dn.simps [simp del]

definition flog2 :: "rat \<Rightarrow> int" where
  "flog2 x = (if 1 \<le> x then flog2_up x else flog2_dn x)"

definition round_even :: "rat \<Rightarrow> int" where
  "round_even y =
    (let f = \<lfloor>y\<rfloor>; d = y - of_int f
     in if d < 1 / 2 then f
        else if 1 / 2 < d then f + 1
        else if even f then f else f + 1)"

definition ulp_exp :: "rat \<Rightarrow> int" where
  "ulp_exp x = max (flog2 x - 52) (- 1074)"

definition rnd_pos :: "rat \<Rightarrow> rat" where
  "rnd_pos x = of_int (round_even (x / 2 powi ulp_exp x)) * 2 powi ulp_exp x"

definition rnd64 :: "rat \<Rightarrow> double" where
  "rnd64 x = (if x = 0 then 0 else if 0 < x then rnd_pos x else - rnd_pos (- x))"

section \<open>The operations the engine uses\<close>

definition fl_add :: "double \<Rightarrow> double \<Rightarrow> double" where "fl_add x y = rnd64 (x + y)"
definition fl_sub :: "double \<Rightarrow> double \<Rightarrow> double" where "fl_sub x y = rnd64 (x - y)"
definition fl_mul :: "double \<Rightarrow> double \<Rightarrow> double" where "fl_mul x y = rnd64 (x * y)"

definition fl_div :: "double \<Rightarrow> double \<Rightarrow> double option" where
  "fl_div x y = (if y = 0 then None else Some (rnd64 (x / y)))"

definition fl_floor :: "double \<Rightarrow> double" where "fl_floor x = of_int \<lfloor>x\<rfloor>"

definition fl_of_u64 :: "u64 \<Rightarrow> double" where "fl_of_u64 w = rnd64 (of_nat (unat w))"

text \<open>
  The conversion of a double to \<^verbatim>\<open>uint64_t\<close> truncates; it has no meaning when the truncated
  value does not fit.
\<close>

definition fl_to_u64 :: "double \<Rightarrow> u64 option" where
  "fl_to_u64 x =
    (if -1 < x \<and> x < 18446744073709551616 then Some (of_int (if x < 0 then 0 else \<lfloor>x\<rfloor>))
     else None)"

section \<open>Rounding respects powers of two and the integers below them\<close>

lemma flog2_up_bounds: "1 \<le> x \<Longrightarrow> 2 powi flog2_up x \<le> x \<and> x < 2 powi (flog2_up x + 1)"
proof (induction x rule: flog2_up.induct)
  case (1 x)
  show ?case
  proof (cases "2 \<le> x")
    case True
    with 1 have "2 powi flog2_up (x / 2) \<le> x / 2" "x / 2 < 2 powi (flog2_up (x / 2) + 1)"
      by simp_all
    with True show ?thesis
      by (simp add: flog2_up.simps [of x] power_int_add)
  next
    case False
    with 1 show ?thesis by (simp add: flog2_up.simps [of x])
  qed
qed

lemma flog2_dn_bounds:
  "0 < x \<Longrightarrow> x < 2 \<Longrightarrow> 2 powi flog2_dn x \<le> x \<and> x < 2 powi (flog2_dn x + 1)"
proof (induction x rule: flog2_dn.induct)
  case (1 x)
  show ?case
  proof (cases "x < 1")
    case True
    with 1 have "2 powi flog2_dn (2 * x) \<le> 2 * x" "2 * x < 2 powi (flog2_dn (2 * x) + 1)"
      by simp_all
    moreover have "(2::rat) powi (flog2_dn (2 * x) - 1) = 2 powi flog2_dn (2 * x) / 2"
      by (simp add: power_int_diff)
    moreover have "(2::rat) powi (flog2_dn (2 * x) + 1) = 2 powi flog2_dn (2 * x) * 2"
      by (simp add: power_int_add)
    ultimately show ?thesis using True 1 by (simp add: flog2_dn.simps [of x])
  next
    case False
    with 1 show ?thesis by (simp add: flog2_dn.simps [of x])
  qed
qed

lemma flog2_bounds: "0 < x \<Longrightarrow> 2 powi flog2 x \<le> x \<and> x < 2 powi (flog2 x + 1)"
  by (auto simp: flog2_def flog2_up_bounds flog2_dn_bounds)

lemma flog2_less: "0 < x \<Longrightarrow> x < 2 powi k \<Longrightarrow> flog2 x < k"
proof (rule ccontr)
  assume "0 < x" "x < 2 powi k" "\<not> flog2 x < k"
  then have "(2::rat) powi k \<le> 2 powi flog2 x" by (intro power_int_increasing) auto
  with flog2_bounds [OF \<open>0 < x\<close>] \<open>x < 2 powi k\<close> show False by simp
qed

lemma flog2_ge: "2 powi k \<le> x \<Longrightarrow> k \<le> flog2 x"
proof (rule ccontr)
  assume x: "2 powi k \<le> x" and "\<not> k \<le> flog2 x"
  have "0 < x" using x by (rule less_le_trans [rotated]) simp
  from \<open>\<not> k \<le> flog2 x\<close> have "(2::rat) powi (flog2 x + 1) \<le> 2 powi k"
    by (intro power_int_increasing) auto
  with flog2_bounds [OF \<open>0 < x\<close>] x show False by simp
qed

lemma round_even_le: "y \<le> of_int n \<Longrightarrow> round_even y \<le> n"
  by (auto simp: round_even_def Let_def) linarith+

lemma round_even_ge: "of_int n \<le> y \<Longrightarrow> n \<le> round_even y"
  by (auto simp: round_even_def Let_def) linarith+

lemma round_even_int [simp]: "round_even (of_int n) = n"
  by (simp add: round_even_def Let_def)

text \<open>
  The three facts the FIFO model needs: rounding does not cross a power of two, it is
  exact on the integers up to \<open>2 ^ 53\<close>, and it is idempotent on integers.
\<close>

lemma scaled_le_pow:
  assumes "- 1074 \<le> k" and "ulp_exp x \<le> k" and "x \<le> 2 powi k"
  shows "rnd_pos x \<le> 2 powi k"
proof -
  let ?e = "ulp_exp x"
  obtain n where k: "k = ?e + int n" using assms(2) by (metis zle_iff_zadd)
  have p: "(2::rat) powi k = 2 ^ n * 2 powi ?e" by (simp add: k power_int_add)
  have "x / 2 powi ?e \<le> of_int (2 ^ n)" using assms(3) by (simp add: p field_simps)
  then have "round_even (x / 2 powi ?e) \<le> 2 ^ n" by (rule round_even_le)
  then have "rat_of_int (round_even (x / 2 powi ?e)) \<le> of_int (2 ^ n)" by (rule of_int_le_iff [THEN iffD2])
  then show ?thesis by (simp add: rnd_pos_def p mult_right_mono)
qed

lemma scaled_ge_pow:
  assumes "ulp_exp x \<le> k" and "2 powi k \<le> x"
  shows "2 powi k \<le> rnd_pos x"
proof -
  let ?e = "ulp_exp x"
  obtain n where k: "k = ?e + int n" using assms(1) by (metis zle_iff_zadd)
  have p: "(2::rat) powi k = 2 ^ n * 2 powi ?e" by (simp add: k power_int_add)
  have "of_int (2 ^ n) \<le> x / 2 powi ?e" using assms(2) by (simp add: p field_simps)
  then have "2 ^ n \<le> round_even (x / 2 powi ?e)" by (rule round_even_ge)
  then have "rat_of_int (2 ^ n) \<le> of_int (round_even (x / 2 powi ?e))" by (rule of_int_le_iff [THEN iffD2])
  then show ?thesis by (simp add: rnd_pos_def p mult_right_mono)
qed

lemma rnd_pos_nonneg: "0 \<le> x \<Longrightarrow> 0 \<le> rnd_pos x"
  unfolding rnd_pos_def
  by (intro mult_nonneg_nonneg) (auto intro!: round_even_ge [of 0, simplified])

lemma rnd64_nonneg: "0 \<le> x \<Longrightarrow> 0 \<le> rnd64 x"
  by (auto simp: rnd64_def rnd_pos_nonneg)

lemma ulp_exp_le: "0 < x \<Longrightarrow> x \<le> 2 powi k \<Longrightarrow> - 1074 \<le> k \<Longrightarrow> ulp_exp x \<le> k"
  using flog2_less [of x "k + 1"] by (auto simp: ulp_exp_def power_int_add)

lemma rnd64_le_pow: "0 \<le> x \<Longrightarrow> x \<le> 2 powi k \<Longrightarrow> - 1074 \<le> k \<Longrightarrow> rnd64 x \<le> 2 powi k"
  by (auto simp: rnd64_def intro!: scaled_le_pow ulp_exp_le)

lemma rnd64_le_1: "0 \<le> x \<Longrightarrow> x \<le> 1 \<Longrightarrow> rnd64 x \<le> 1"
  using rnd64_le_pow [of x 0] by simp

lemma rnd64_le_2: "0 \<le> x \<Longrightarrow> x \<le> 2 \<Longrightarrow> rnd64 x \<le> 2"
  using rnd64_le_pow [of x 1] by simp

text \<open>An integer with at most 53 significant bits is on the grid.\<close>

lemma rnd_pos_grid:
  assumes "x = of_int m * 2 powi e" and "ulp_exp x \<le> e"
  shows "rnd_pos x = x"
proof -
  obtain n where e: "e = ulp_exp x + int n" using assms(2) by (metis zle_iff_zadd)
  have "x / 2 powi ulp_exp x = of_int (m * 2 ^ n)"
    using assms(1) by (simp add: e power_int_add field_simps)
  then have "round_even (x / 2 powi ulp_exp x) = m * 2 ^ n" by (simp only: round_even_int)
  then have "rnd_pos x = of_int (m * 2 ^ n) * 2 powi ulp_exp x" by (simp only: rnd_pos_def)
  also have "\<dots> = of_int m * 2 powi e" by (simp add: e power_int_add)
  finally show ?thesis by (simp only: assms(1))
qed

lemma rnd64_int:
  assumes "0 \<le> n" and "n \<le> 2 ^ 53"
  shows "rnd64 (of_int n) = of_int n"
proof (cases "n = 0 \<or> n = 2 ^ 53")
  case False
  with assms have "0 < n" "n < 2 ^ 53" by auto
  then have "rat_of_int n < of_int (2 ^ 53)" by (subst of_int_less_iff) simp
  then have "rat_of_int n < 2 powi 53" by simp
  then have "flog2 (of_int n) < 53" using \<open>0 < n\<close> by (intro flog2_less) auto
  then have "ulp_exp (of_int n) \<le> 0" by (simp add: ulp_exp_def)
  then have "rnd_pos (of_int n) = of_int n" by (intro rnd_pos_grid [where m = n and e = 0]) simp_all
  with \<open>0 < n\<close> show ?thesis by (simp add: rnd64_def)
next
  case True
  have "flog2 (2 ^ 53) < 54" by (rule flog2_less) (simp_all add: power_int_def)
  then have "ulp_exp (2 ^ 53) \<le> 53" by (simp add: ulp_exp_def)
  then have "rnd_pos (2 ^ 53) = 2 ^ 53"
    by (intro rnd_pos_grid [where m = 1 and e = 53]) (simp_all add: power_int_def)
  with True show ?thesis by (auto simp: rnd64_def)
qed


text \<open>Truncating a double gives a double again.\<close>

lemma rnd_pos_grid_pow:
  assumes "x = 2 powi k" and "- 1022 \<le> k"
  shows "rnd_pos x = x"
proof -
  have "flog2 x < k + 1" by (rule flog2_less) (simp_all add: assms(1) power_int_add)
  then have "ulp_exp x \<le> k" using assms(2) by (simp add: ulp_exp_def)
  then show ?thesis by (intro rnd_pos_grid [where m = 1 and e = k]) (simp_all add: assms(1))
qed

lemma rnd64_floor_grid:
  assumes m: "0 < m" and x: "x = rat_of_int m * 2 powi e" and e: "- 1074 \<le> e"
    and le: "x \<le> 2 powi (e + 53)"
  shows "rnd64 (of_int \<lfloor>x\<rfloor>) = of_int \<lfloor>x\<rfloor>"
proof (cases "0 \<le> e")
  case True
  then have "x = of_int (m * 2 ^ nat e)" by (simp add: x power_int_def)
  then have int: "of_int \<lfloor>x\<rfloor> = x" and pos: "0 < x" using m by auto
  show ?thesis
  proof (cases "x = 2 powi (e + 53)")
    case True
    then have "rnd_pos x = x" using e by (intro rnd_pos_grid_pow) auto
    then have "rnd64 x = x" using pos by (simp add: rnd64_def)
    then show ?thesis by (simp only: int)
  next
    case False
    with le have "flog2 x < e + 53" by (intro flog2_less pos) simp
    then have "ulp_exp x \<le> e" using e by (simp add: ulp_exp_def)
    then have "rnd_pos x = x" by (intro rnd_pos_grid [OF x])
    then have "rnd64 x = x" using pos by (simp add: rnd64_def)
    then show ?thesis by (simp only: int)
  qed
next
  case False
  then have "(2::rat) powi (e + 53) \<le> 2 powi 52" by (intro power_int_increasing) auto
  with le have "x \<le> 2 powi 52" by simp
  then have "x \<le> of_int (2 ^ 52)" by simp
  then have "\<lfloor>x\<rfloor> \<le> 2 ^ 52" by (simp add: floor_le_iff)
  moreover have "0 \<le> x" using m by (simp add: x)
  ultimately show ?thesis by (intro rnd64_int) (auto intro: order_trans)
qed

lemma rnd64_floor:
  assumes "0 \<le> x"
  shows "rnd64 (of_int \<lfloor>rnd64 x\<rfloor>) = of_int \<lfloor>rnd64 x\<rfloor>"
proof -
  let ?e = "ulp_exp x" and ?m = "round_even (x / 2 powi ulp_exp x)"
  have "0 \<le> ?m" using assms by (intro round_even_ge) simp
  then consider "x = 0" | "0 < x" "?m = 0" | "0 < x" "0 < ?m" using assms by fastforce
  then show ?thesis
  proof cases
    case 3
    have "flog2 x + 1 \<le> ?e + 53" by (simp add: ulp_exp_def)
    then have "(2::rat) powi (flog2 x + 1) \<le> 2 powi (?e + 53)" by (intro power_int_increasing) auto
    with flog2_bounds [OF 3(1)] have "x \<le> 2 powi (?e + 53)" by simp
    then have "rnd_pos x \<le> 2 powi (?e + 53)"
      by (intro scaled_le_pow) (auto simp: ulp_exp_def)
    moreover have "rnd64 x = rnd_pos x" using 3 by (simp add: rnd64_def)
    ultimately show ?thesis using 3
      by (intro rnd64_floor_grid [where m = ?m and e = ?e]) (auto simp: rnd_pos_def ulp_exp_def)
  qed (simp_all add: rnd64_def rnd_pos_def)
qed

lemma rnd64_frac:
  assumes "0 \<le> x"
  shows "0 \<le> rnd64 x - rnd64 (of_int \<lfloor>rnd64 x\<rfloor>)" "rnd64 x - rnd64 (of_int \<lfloor>rnd64 x\<rfloor>) < 1"
  unfolding rnd64_floor [OF assms] by linarith+

text \<open>A bound on the grid of doubles stays a bound after rounding.\<close>

lemma rnd64_le_grid:
  assumes x: "0 \<le> x" "x \<le> of_int m * 2 powi k" and k: "- 1022 \<le> k" and m: "m \<le> 2 ^ 53"
  shows "rnd64 x \<le> of_int m * 2 powi k"
proof (cases "x = 0")
  case True
  with x show ?thesis by (simp add: rnd64_def)
next
  case False
  with x(1) have pos: "0 < x" by simp
  let ?e = "ulp_exp x"
  show ?thesis
  proof (cases "?e \<le> k")
    case True
    then obtain n where n: "k = ?e + int n" by (metis zle_iff_zadd)
    have p: "(2::rat) powi k = 2 ^ n * 2 powi ?e" by (simp add: n power_int_add)
    have "x / 2 powi ?e \<le> of_int (m * 2 ^ n)" using x(2) by (simp add: p field_simps)
    then have "round_even (x / 2 powi ?e) \<le> m * 2 ^ n" by (rule round_even_le)
    then have "rat_of_int (round_even (x / 2 powi ?e)) \<le> of_int (m * 2 ^ n)"
      by (rule of_int_le_iff [THEN iffD2])
    then have "rat_of_int (round_even (x / 2 powi ?e)) * 2 powi ?e \<le> of_int (m * 2 ^ n) * 2 powi ?e"
      by (rule mult_right_mono) simp
    then show ?thesis using pos by (simp add: rnd64_def rnd_pos_def p mult.assoc)
  next
    case False
    then have fl: "k + 53 \<le> flog2 x" using k by (simp add: ulp_exp_def)
    have "(2::rat) powi (k + 53) \<le> 2 powi flog2 x" using fl by (intro power_int_increasing) auto
    then have lo: "2 powi (k + 53) \<le> x" using flog2_bounds [OF pos] by simp
    have "rat_of_int m \<le> of_int (2 ^ 53)" using m by (rule of_int_le_iff [THEN iffD2])
    then have "of_int m * 2 powi k \<le> (2 ^ 53 :: rat) * 2 powi k" by (intro mult_right_mono) auto
    also have "(2 ^ 53 :: rat) * 2 powi k = 2 powi (k + 53)" by (simp add: power_int_add)
    finally have eq: "x = 2 powi (k + 53)" "of_int m * 2 powi k = (2 :: rat) powi (k + 53)"
      using lo x(2) by linarith+
    show ?thesis unfolding eq using eq(1) k by (intro rnd64_le_pow) auto
  qed
qed

lemma rnd64_le_int: "0 \<le> x \<Longrightarrow> x \<le> of_int m \<Longrightarrow> m \<le> 2 ^ 53 \<Longrightarrow> rnd64 x \<le> of_int m"
  using rnd64_le_grid [of x m 0] by simp

lemma rnd64_le_half: "0 \<le> x \<Longrightarrow> x \<le> of_int m / 2 \<Longrightarrow> m \<le> 2 ^ 53 \<Longrightarrow> rnd64 x \<le> of_int m / 2"
  using rnd64_le_grid [of x m "- 1"] by simp

end
