(* ===== verification/Utilities.thy ===== *)
theory Utilities
  imports Doubles
begin

text \<open>
  Parsing and formatting (\<^verbatim>\<open>utilities.hh\<close>, \<^verbatim>\<open>utilities.cc\<close>): trimming, units, rates, times,
  fractions. The function templates are used at \<^verbatim>\<open>uint64_t\<close> and \<^verbatim>\<open>double\<close>, so the ones
  used at both have two definitions. Exceptions of \<^verbatim>\<open>stoll\<close> are the value None; the callers
  turn them into an \<^verbatim>\<open>ERROR\<close>.
\<close>

section \<open>Characters and trimming\<close>

definition is_digit :: "char \<Rightarrow> bool" where
  "is_digit c \<longleftrightarrow> 48 \<le> (of_char c :: nat) \<and> (of_char c :: nat) \<le> 57"

definition is_space :: "char \<Rightarrow> bool" where
  "is_space c \<longleftrightarrow> (of_char c :: nat) = 32 \<or> (9 \<le> (of_char c :: nat) \<and> (of_char c :: nat) \<le> 13)"

definition isNumber :: "string \<Rightarrow> bool" where
  "isNumber s \<longleftrightarrow> s \<noteq> [] \<and> list_all (\<lambda>c. is_digit c \<or> c = CHR ''.'' \<or> c = CHR ''-'') s"

definition trimLeft :: "string \<Rightarrow> string" where
  "trimLeft s = dropWhile is_space s"

definition trimRight :: "string \<Rightarrow> string" where
  "trimRight s = rev (dropWhile is_space (rev s))"

definition trimOuter :: "string \<Rightarrow> string" where
  "trimOuter s = trimRight (trimLeft s)"

definition trim :: "string \<Rightarrow> string" where
  "trim s = filter (\<lambda>c. \<not> is_space c) s"

definition extractHead :: "string \<Rightarrow> string" where
  "extractHead s = takeWhile (\<lambda>c. c \<noteq> CHR '' '') (trimOuter s)"

text \<open>
  \<^verbatim>\<open>substr(find_first_not_of(...))\<close> would raise \<^verbatim>\<open>out_of_range\<close> if only blanks followed the
  separator; the trimmed string never ends in a blank.
\<close>

definition extractTail :: "string \<Rightarrow> string" where
  "extractTail s = dropWhile (\<lambda>c. c = CHR '' '') (dropWhile (\<lambda>c. c \<noteq> CHR '' '') (trimOuter s))"

definition lower_char :: "char \<Rightarrow> char" where
  "lower_char c = (if 65 \<le> (of_char c :: nat) \<and> (of_char c :: nat) \<le> 90
     then char_of ((of_char c :: nat) + 32) else c)"

definition toLower :: "string \<Rightarrow> string" where
  "toLower s = map lower_char s"

section \<open>Searching\<close>

fun find_at :: "string \<Rightarrow> nat \<Rightarrow> string \<Rightarrow> nat option" where
  "find_at pat i [] = (if pat = [] then Some i else None)"
| "find_at pat i (c # cs) =
    (if take (length pat) (c # cs) = pat then Some i else find_at pat (Suc i) cs)"

text \<open>\<^verbatim>\<open>s.find(pat, pos)\<close>, with None for \<^verbatim>\<open>npos\<close>.\<close>

definition str_find :: "string \<Rightarrow> nat \<Rightarrow> string \<Rightarrow> nat option" where
  "str_find pat pos s = (if length s < pos then None else find_at pat pos (drop pos s))"

section \<open>Units\<close>

text \<open>The unit maps, in the order of their keys, which is the order of iteration.\<close>

definition frequencyUnits :: "(string \<times> u64) list" where
  "frequencyUnits = [(''m'', 1000), (''n'', 1000000000), (''p'', 1000000000000), (''s'', 1),
     (''u'', 1000000)]"

definition byteUnits :: "(string \<times> u64) list" where
  "byteUnits =
    [(''B'', 1), (''GB'', 1000000000), (''Gb'', 125000000), (''GiB'', 1073741824),
     (''Gib'', 134217728), (''KiB'', 1024), (''Kib'', 128), (''MB'', 1000000), (''Mb'', 125000),
     (''MiB'', 1048576), (''Mib'', 131072), (''TB'', 1000000000000), (''Tb'', 125000000000),
     (''TiB'', 1099511627776), (''Tib'', 137438953472), (''kB'', 1000), (''kb'', 125)]"

text \<open>
  \<^verbatim>\<open>parseUnits\<close> multiplies the factors of all units that occur at or after the start
  position and gives the position of the first occurrence; the factor is 0 when none occurs.
\<close>

fun parse_units_loop :: "nat \<Rightarrow> string \<Rightarrow> (string \<times> u64) list \<Rightarrow> nat option \<Rightarrow> u64
    \<Rightarrow> nat option \<times> u64" where
  "parse_units_loop pos s [] best ret = (best, ret)"
| "parse_units_loop pos s ((u, f) # us) best ret =
    (case str_find u pos s of
       None \<Rightarrow> parse_units_loop pos s us best ret
     | Some i \<Rightarrow> parse_units_loop pos s us
         (case best of None \<Rightarrow> Some i | Some j \<Rightarrow> if i < j then Some i else Some j)
         (if ret = 0 then f else ret * f))"

definition parseUnits :: "nat \<Rightarrow> string \<Rightarrow> (string \<times> u64) list \<Rightarrow> nat option \<times> u64" where
  "parseUnits pos s units = parse_units_loop pos s units None 0"

section \<open>Numbers\<close>

definition digit_value :: "char \<Rightarrow> int" where
  "digit_value c = int (of_char c) - 48"

fun dec_value :: "int \<Rightarrow> string \<Rightarrow> int" where
  "dec_value acc [] = acc"
| "dec_value acc (c # cs) = dec_value (acc * 10 + digit_value c) cs"

text \<open>
  \<^verbatim>\<open>stoll\<close>: leading white space, an optional sign, the longest run of digits. None when there
  is no digit (\<^verbatim>\<open>invalid_argument\<close>) or the value does not fit (\<^verbatim>\<open>out_of_range\<close>).
\<close>

definition stoll :: "string \<Rightarrow> int option" where
  "stoll s =
    (let t = trimLeft s;
         neg = (t \<noteq> [] \<and> hd t = CHR ''-'');
         u = (if t \<noteq> [] \<and> (hd t = CHR ''-'' \<or> hd t = CHR ''+'') then tl t else t);
         ds = takeWhile is_digit u;
         v = (if neg then - dec_value 0 ds else dec_value 0 ds)
     in if ds = [] \<or> v < - 9223372036854775808 \<or> 9223372036854775807 < v then None else Some v)"

definition int_part :: "string \<Rightarrow> string" where
  "int_part s = takeWhile (\<lambda>c. c \<noteq> CHR ''.'') s"

definition decimals :: "string \<Rightarrow> string" where
  "decimals s = drop (Suc (length (int_part s))) s"

definition toUnsignedWithScale :: "string \<Rightarrow> (u64 \<times> u64) option" where
  "toUnsignedWithScale s = map_option
     (\<lambda>n. fold (\<lambda>c (num, scale). (num * 10 + of_int (digit_value c), scale * 10))
       (decimals s) (of_int n, 1)) (stoll (int_part s))"

definition toUnsignedWithScale_fl :: "string \<Rightarrow> (double \<times> double) option" where
  "toUnsignedWithScale_fl s = map_option
     (\<lambda>n. fold (\<lambda>c (num, scale). (fl_add (fl_mul num 10) (of_int (digit_value c)), fl_mul scale 10))
       (decimals s) (rnd64 (of_int n), 1)) (stoll (int_part s))"

fun dec_digits :: "nat \<Rightarrow> string \<Rightarrow> string" where
  "dec_digits n acc =
    (if n < 10 then char_of (n + 48) # acc
     else dec_digits (n div 10) (char_of (n mod 10 + 48) # acc))"

declare dec_digits.simps [simp del]

definition to_string :: "u64 \<Rightarrow> string" where
  "to_string w = dec_digits (unat w) []"

section \<open>Fractions\<close>

text \<open>
  \<^verbatim>\<open>GCD\<close> takes the remainder with \<^verbatim>\<open>fmod\<close>, hence on doubles: the arguments are rounded
  to 53 bits, the remainder of the rounded values is exact. The recursion is cut after
  \<open>gcd_fuel\<close> steps; \<open>GCD_is_gcd\<close> shows that this is enough below \<open>2 ^ 53\<close>.
\<close>

definition fmod_u64 :: "u64 \<Rightarrow> u64 \<Rightarrow> u64 option" where
  "fmod_u64 a b = (let x = fl_of_u64 a; y = fl_of_u64 b in fl_to_u64 (x - y * of_int \<lfloor>x / y\<rfloor>))"

fun GCD_loop :: "nat \<Rightarrow> u64 \<Rightarrow> u64 \<Rightarrow> u64 res" where
  "GCD_loop n a b =
    (if b = 0 then Inr a
     else case n of 0 \<Rightarrow> Inl OutOfFuel
       | Suc m \<Rightarrow> (case fmod_u64 a b of None \<Rightarrow> Inl (Undefined ''Utilities::GCD'')
           | Some r \<Rightarrow> GCD_loop m b r))"

declare GCD_loop.simps [simp del]

definition gcd_fuel :: nat where
  "gcd_fuel = 130"

definition GCD_u64 :: "u64 \<Rightarrow> u64 \<Rightarrow> u64 res" where
  "GCD_u64 a b = GCD_loop gcd_fuel a b"

definition reduce_fraction :: "u64 \<Rightarrow> u64 \<Rightarrow> (u64 \<times> u64) res" where
  "reduce_fraction num den =
    bindR (GCD_u64 num den) (\<lambda>g.
    bindR (ensure (g \<noteq> 0) (Undefined ''Utilities::reduce'')) (\<lambda>_.
    Inr (num div g, den div g)))"

section \<open>Rates, times and sizes\<close>

definition catch_stoll :: "string \<Rightarrow> 'a option \<Rightarrow> 'a res" where
  "catch_stoll f v = (case v of None \<Rightarrow> Inl (ErrorExit f) | Some x \<Rightarrow> Inr x)"

definition before :: "nat option \<Rightarrow> string \<Rightarrow> string" where
  "before pos s = (case pos of None \<Rightarrow> s | Some i \<Rightarrow> take i s)"

definition timeToHz :: "string \<Rightarrow> double res" where
  "timeToHz t =
    (let (pos, mult) = parseUnits 0 t frequencyUnits
     in bindR (ensure (\<not> (pos = None \<and> \<not> isNumber t)) (ErrorExit ''Utilities::timeToHz'')) (\<lambda>_.
        bindR (if pos = Some 0 then Inr (1, 1)
               else catch_stoll ''Utilities::timeToHz'' (toUnsignedWithScale_fl (trim (before pos t))))
          (\<lambda>(time, scale).
        Inr (if 0 < time then fl_mul (fl_mul (rnd64 (1 / time)) (fl_of_u64 mult)) scale else 0))))"

definition toBytes :: "string \<Rightarrow> u64 res" where
  "toBytes s =
    (let (pos, mult0) = parseUnits 0 s byteUnits;
         mult = (if pos = None then 1 else mult0)
     in bindR (ensure (\<not> (pos = None \<and> \<not> isNumber s)) (ErrorExit ''Utilities::toBytes'')) (\<lambda>_.
        bindR (catch_stoll ''Utilities::toBytes'' (toUnsignedWithScale (trim (before pos s)))) (\<lambda>(b, scale).
        bindR (ensure (scale \<noteq> 0) (Undefined ''Utilities::toBytes'')) (\<lambda>_.
        Inr (b * mult div scale)))))"

definition toBytes_fl :: "string \<Rightarrow> double res" where
  "toBytes_fl s =
    (let (pos, mult0) = parseUnits 0 s byteUnits;
         mult = (if pos = None then 1 else fl_of_u64 mult0)
     in bindR (ensure (\<not> (pos = None \<and> \<not> isNumber s)) (ErrorExit ''Utilities::toBytes'')) (\<lambda>_.
        bindR (catch_stoll ''Utilities::toBytes'' (toUnsignedWithScale_fl (trim (before pos s)))) (\<lambda>(b, scale).
        case fl_div (fl_mul b mult) scale of
          None \<Rightarrow> Inl (Undefined ''Utilities::toBytes'')
        | Some x \<Rightarrow> Inr x)))"

definition rateSeparators :: "string list" where
  "rateSeparators = [''/'', ''p'', ''@'']"

fun find_separator :: "string list \<Rightarrow> string \<Rightarrow> nat option" where
  "find_separator [] s = None"
| "find_separator (sep # seps) s =
    (case str_find sep 0 s of Some i \<Rightarrow> Some (i + length sep) | None \<Rightarrow> find_separator seps s)"

text \<open>
  The unit part of \<^verbatim>\<open>toRate\<close>: with a separator, the position of the byte unit and the
  product of the byte and time factors; without, a pure number.
\<close>

definition rate_units :: "string \<Rightarrow> (nat option \<times> u64) res" where
  "rate_units s =
    (case find_separator rateSeparators s of
       Some sep_pos \<Rightarrow>
         (let (pos, m1) = parseUnits 0 s byteUnits;
              (tpos, m2) = parseUnits sep_pos s frequencyUnits
          in bindR (ensure (pos \<noteq> None) (ErrorExit ''Utilities::toBps'')) (\<lambda>_.
             bindR (ensure (tpos \<noteq> None) (ErrorExit ''Utilities::toBps'')) (\<lambda>_.
             Inr (pos, m1 * m2))))
     | None \<Rightarrow> bindR (ensure (isNumber s) (ErrorExit ''Utilities::toBps'')) (\<lambda>_. Inr (None, 0)))"

definition toRate :: "string \<Rightarrow> (u64 \<times> u64) res" where
  "toRate s =
    bindR (rate_units s) (\<lambda>(pos, mult).
    bindR (catch_stoll ''Utilities::toBps'' (toUnsignedWithScale (trim (before pos s)))) (\<lambda>(rate, scale).
    bindR (reduce_fraction scale mult) (\<lambda>(scale', mult').
    bindR (ensure (\<not> 1 < scale') (ErrorExit ''Utilities::toBps'')) (\<lambda>_.
    Inr (rate, mult')))))"

section \<open>Powers of two, hexadecimal, paths\<close>

fun shift_count :: "nat \<Rightarrow> nat \<Rightarrow> nat" where
  "shift_count i n = (if n div 2 = 0 then i else shift_count (Suc i) (n div 2))"

declare shift_count.simps [simp del]

text \<open>
  \<^verbatim>\<open>1<<i\<close> is a shift of a 32-bit \<^verbatim>\<open>int\<close>: at 31 it gives the least int (on the compilers
  the engine supports), which the conversion to \<^verbatim>\<open>uint64_t\<close> extends by sign, and beyond that
  it has no meaning.
\<close>

definition nextPowerTwo :: "u64 \<Rightarrow> u64 res" where
  "nextPowerTwo n =
    (let i = shift_count 0 (unat n)
     in if i < 31 then Inr (2 ^ i)
        else if i = 31 then Inr (18446744071562067968)
        else Inl (Undefined ''Utilities::nextPowerTwo''))"

definition hex_char :: "nat \<Rightarrow> char" where
  "hex_char d = char_of (if d < 10 then d + 48 else d + 87)"

fun hex_digits :: "nat \<Rightarrow> string \<Rightarrow> string" where
  "hex_digits n acc =
    (if n < 16 then hex_char n # acc else hex_digits (n div 16) (hex_char (n mod 16) # acc))"

declare hex_digits.simps [simp del]

definition toHex :: "u64 \<Rightarrow> string" where
  "toHex n = ''0x'' @ hex_digits (unat n) []"

fun build_path :: "string list \<Rightarrow> string \<Rightarrow> string" where
  "build_path [] path = (if 1 < length path then butlast path else path)"
| "build_path (sp # sps) path =
    (if sp = [] \<or> sp = '' '' then build_path sps path
     else let subpos = (if path \<noteq> [] \<and> hd sp = CHR ''/'' \<and> 1 < length sp then 1 else 0);
              p = path @ drop subpos sp
          in build_path sps (if last p = CHR ''/'' then p else p @ ''/''))"

definition buildPath :: "string list \<Rightarrow> string" where
  "buildPath sps = build_path sps []"

section \<open>Decimal numbers\<close>

lemma is_digit_char [simp]: "d < 10 \<Longrightarrow> is_digit (char_of (d + 48 :: nat))"
  by (simp add: is_digit_def)

lemma digit_value_char [simp]: "d < 10 \<Longrightarrow> digit_value (char_of (d + 48 :: nat)) = int d"
  by (simp add: digit_value_def)

lemma dec_value_append: "dec_value a (xs @ ys) = dec_value (dec_value a xs) ys"
  by (induction xs arbitrary: a) simp_all

lemma dec_digits_append: "dec_digits n acc = dec_digits n [] @ acc"
proof (induction n arbitrary: acc rule: less_induct)
  case (less n)
  show ?case
  proof (cases "n < 10")
    case False
    then have "n div 10 < n" by simp
    from less [OF this] have "dec_digits (n div 10) (c # acc) = dec_digits (n div 10) [c] @ acc" for c
      by (metis append_Cons append_Nil append_assoc)
    then show ?thesis using False by (simp add: dec_digits.simps [of n])
  qed (simp add: dec_digits.simps [of n])
qed

lemma dec_digits_step:
  "dec_digits n [] = (if n < 10 then [char_of (n + 48)]
    else dec_digits (n div 10) [] @ [char_of (n mod 10 + 48)])"
  using dec_digits_append [of "n div 10" "[char_of (n mod 10 + 48)]"] by (simp add: dec_digits.simps [of n])

lemma dec_digits_props:
  "dec_digits n [] \<noteq> [] \<and> list_all is_digit (dec_digits n []) \<and> dec_value 0 (dec_digits n []) = int n"
proof (induction n rule: less_induct)
  case (less n)
  show ?case
  proof (cases "n < 10")
    case True
    then show ?thesis by (simp add: dec_digits_step [of n])
  next
    case False
    then have "n div 10 < n" by simp
    moreover have "int (n div 10) * 10 + int (n mod 10) = int n"
      by (metis of_nat_add of_nat_mult of_nat_numeral div_mult_mod_eq)
    ultimately show ?thesis using less [of "n div 10"] False
      by (simp add: dec_digits_step [of n] dec_value_append)
  qed
qed

lemma digit_class:
  assumes "is_digit c"
  shows "\<not> is_space c" "c \<noteq> CHR ''.''" "c \<noteq> CHR ''-''" "c \<noteq> CHR ''+''" "c \<noteq> CHR ''/''"
    "c \<noteq> CHR ''p''" "c \<noteq> CHR ''@''" "c \<noteq> CHR ''$''" "c \<noteq> CHR '' ''"
  using assms by (auto simp: is_digit_def is_space_def)

lemma to_string_digits: "to_string w \<noteq> []" "list_all is_digit (to_string w)"
    "dec_value 0 (to_string w) = int (unat w)"
  using dec_digits_props [of "unat w"] by (simp_all add: to_string_def)

lemma to_string_inj: "to_string v = to_string w \<Longrightarrow> v = w"
  by (metis to_string_digits(3) of_nat_eq_iff word_unat_eq_iff)

lemma stoll_digits:
  assumes "ds \<noteq> []" and "list_all is_digit ds" and "0 \<le> dec_value 0 ds"
    and "dec_value 0 ds \<le> 9223372036854775807"
  shows "stoll ds = Some (dec_value 0 ds)"
proof -
  obtain c cs where ds: "ds = c # cs" using assms(1) by (cases ds) auto
  have c: "is_digit c" using assms(2) ds by simp
  have "trimLeft ds = ds" using digit_class(1) [OF c] by (simp add: trimLeft_def ds)
  then show ?thesis using assms c digit_class(3,4) [OF c]
    by (simp add: stoll_def ds Let_def list_all_iff takeWhile_eq_all_conv [THEN iffD2])
qed

lemma int_part_digits: "list_all is_digit ds \<Longrightarrow> int_part ds = ds \<and> decimals ds = []"
proof -
  assume "list_all is_digit ds"
  then have "int_part ds = ds"
    unfolding int_part_def takeWhile_eq_all_conv list_all_iff using digit_class(2) by blast
  then show ?thesis by (simp add: decimals_def)
qed

lemma toUnsigned_to_string:
  assumes "unat w \<le> 9223372036854775807"
  shows "toUnsignedWithScale (to_string w) = Some (w, 1)"
proof -
  have "int (unat w) \<le> 9223372036854775807" using assms by linarith
  then have "stoll (to_string w) = Some (int (unat w))"
    using stoll_digits [of "to_string w"] to_string_digits [of w] by simp
  then show ?thesis using int_part_digits [OF to_string_digits(2), of w]
    by (simp add: toUnsignedWithScale_def)
qed

lemma trim_digits: "list_all is_digit ds \<Longrightarrow> trim ds = ds"
  by (induction ds) (auto simp: trim_def dest: digit_class)

section \<open>The greatest common divisor below 2 to the 53\<close>

lemma rnd64_nat: "n \<le> 2 ^ 53 \<Longrightarrow> rnd64 (of_nat n) = of_nat n"
  using rnd64_int [of "int n"] by simp

lemma fl_of_u64_exact: "unat w \<le> 2 ^ 53 \<Longrightarrow> fl_of_u64 w = of_nat (unat w)"
  unfolding fl_of_u64_def by (rule rnd64_nat)

lemma fl_to_u64_nat: "m < 18446744073709551616 \<Longrightarrow> fl_to_u64 (of_nat m) = Some (of_nat m)"
proof -
  assume "m < 18446744073709551616"
  then have "rat_of_nat m < of_nat 18446744073709551616" by (rule of_nat_less_iff [THEN iffD2])
  moreover have "- 1 < rat_of_nat m" by (rule less_le_trans [of _ 0]) simp_all
  ultimately show ?thesis by (simp add: fl_to_u64_def)
qed

lemma fmod_u64_mod:
  assumes "unat a \<le> 2 ^ 53" and "unat b \<le> 2 ^ 53" and "b \<noteq> 0"
  shows "fmod_u64 a b = Some (a mod b)"
proof -
  let ?x = "rat_of_nat (unat a)" and ?y = "rat_of_nat (unat b)"
  have fl: "\<lfloor>?x / ?y\<rfloor> = int (unat a div unat b)" by (rule floor_divide_of_nat_eq)
  have "?x = ?y * of_nat (unat a div unat b) + of_nat (unat a mod unat b)"
    by (metis mult_div_mod_eq of_nat_add of_nat_mult)
  then have eq: "?x - ?y * of_int (int (unat a div unat b)) = of_nat (unat a mod unat b)"
    by (simp only: of_int_of_nat_eq)
  have "unat a mod unat b < 18446744073709551616" using unat_u64_lt [of "a mod b"] by (simp only: unat_mod)
  then have "fl_to_u64 (of_nat (unat a mod unat b)) = Some (of_nat (unat a mod unat b))"
    by (rule fl_to_u64_nat)
  moreover have "of_nat (unat a mod unat b) = a mod b"
    unfolding unat_mod [symmetric] by simp
  ultimately show ?thesis
    unfolding fmod_u64_def Let_def fl_of_u64_exact [OF assms(1)] fl_of_u64_exact [OF assms(2)] fl eq
    by (simp only:)
qed

lemma mod_halves: "(0 :: nat) < r \<Longrightarrow> r < b \<Longrightarrow> b < 2 * m \<Longrightarrow> b mod r < m"
proof -
  assume r: "0 < r" "r < b" and b: "b < 2 * m"
  have "b mod r \<le> b - r" using r by (metis le_mod_geq less_imp_le mod_less_eq_dividend)
  moreover have "b mod r < r" using r by simp
  ultimately show ?thesis using b by linarith
qed

lemma GCD_loop_gcd:
  "unat a \<le> 2 ^ 53 \<Longrightarrow> unat b \<le> 2 ^ 53 \<Longrightarrow> unat b < 2 ^ k \<Longrightarrow> 2 * k \<le> n \<Longrightarrow>
    \<exists>g. GCD_loop n a b = Inr g \<and> unat g = gcd (unat a) (unat b)"
proof (induction k arbitrary: a b n)
  case 0
  then show ?case by (simp add: GCD_loop.simps unat_eq_zero)
next
  case (Suc k)
  obtain m where n: "n = Suc (Suc m)" "2 * k \<le> m"
    using Suc.prems(4) by (cases n; cases "n - 1") auto
  show ?case
  proof (cases "b = 0")
    case True
    then show ?thesis by (simp add: GCD_loop.simps)
  next
    case False
    let ?r = "a mod b"
    have b: "0 < unat b" using False by (simp add: unat_gt_0)
    have r: "unat ?r < unat b" "unat ?r = unat a mod unat b" using b by (simp_all add: unat_mod)
    have step: "GCD_loop n a b = GCD_loop (Suc m) b ?r"
      using False fmod_u64_mod [OF Suc.prems(1,2) False] unfolding n(1)
      by (simp add: GCD_loop.simps [of "Suc (Suc m)"])
    have g1: "gcd (unat a) (unat b) = gcd (unat b) (unat ?r)" by (simp add: r(2) gcd_red_nat [symmetric])
    show ?thesis
    proof (cases "?r = 0")
      case True
      then show ?thesis using g1 step by (simp add: GCD_loop.simps [of "Suc m"])
    next
      case False
      let ?s = "b mod ?r"
      have r0: "0 < unat ?r" using False by (simp add: unat_gt_0)
      have r53: "unat ?r \<le> 2 ^ 53" using r(1) Suc.prems(2) by simp
      have s: "unat ?s = unat b mod unat ?r" by (simp add: unat_mod)
      have "unat ?s < 2 ^ k" unfolding s using mod_halves [OF r0 r(1), of "2 ^ k"] Suc.prems(3) by simp
      moreover have "unat ?s \<le> 2 ^ 53" using mod_less_divisor [OF r0, of "unat b"] r53 unfolding s by linarith
      ultimately obtain g where "GCD_loop m ?r ?s = Inr g" "unat g = gcd (unat ?r) (unat ?s)"
        using Suc.IH [OF r53] n(2) by blast
      moreover have "GCD_loop (Suc m) b ?r = GCD_loop m ?r ?s"
        using False fmod_u64_mod [OF Suc.prems(2) r53 False] by (simp add: GCD_loop.simps [of "Suc m"])
      moreover have "gcd (unat b) (unat ?r) = gcd (unat ?r) (unat ?s)" by (simp add: s gcd_red_nat [symmetric])
      ultimately show ?thesis using step g1 by simp
    qed
  qed
qed

lemma GCD_is_gcd:
  assumes "unat a \<le> 2 ^ 53" and "unat b \<le> 2 ^ 53"
  shows "\<exists>g. GCD_u64 a b = Inr g \<and> unat g = gcd (unat a) (unat b)"
proof -
  have "unat b < 2 ^ 54" by (rule le_less_trans [OF assms(2)]) simp
  then show ?thesis unfolding GCD_u64_def gcd_fuel_def
    using GCD_loop_gcd [OF assms, of 54 130] by simp
qed

lemma reduce_fraction_ok:
  assumes "unat a \<le> 2 ^ 53" and "unat b \<le> 2 ^ 53" and "a \<noteq> 0 \<or> b \<noteq> 0"
  shows "\<exists>p q. reduce_fraction a b = Inr (p, q) \<and> unat p = unat a div gcd (unat a) (unat b)
    \<and> unat q = unat b div gcd (unat a) (unat b)"
proof -
  obtain g where g: "GCD_u64 a b = Inr g" "unat g = gcd (unat a) (unat b)"
    using GCD_is_gcd [OF assms(1,2)] by blast
  then have "g \<noteq> 0" using assms(3) by (metis gcd_eq_0_iff unat_0 unat_eq_zero)
  with g show ?thesis by (simp add: reduce_fraction_def unat_div)
qed

section \<open>Properties\<close>

text \<open>
  \<open>reduce\<close> gives the lowest terms: for arguments up to \<open>2 ^ 53\<close>, not both zero, the
  recursion of \<open>GCD\<close> ends within its fuel, and the result is coprime and has the ratio of the
  arguments.
\<close>

theorem reduce_lowest_terms:
  assumes "unat a \<le> 2 ^ 53" and "unat b \<le> 2 ^ 53" and "a \<noteq> 0 \<or> b \<noteq> 0"
  shows "\<exists>p q. reduce_fraction a b = Inr (p, q) \<and> coprime (unat p) (unat q)
    \<and> unat a * unat q = unat b * unat p"
proof -
  let ?g = "gcd (unat a) (unat b)"
  obtain p q where pq: "reduce_fraction a b = Inr (p, q)" "unat p = unat a div ?g" "unat q = unat b div ?g"
    using reduce_fraction_ok [OF assms] by blast
  have g: "?g \<noteq> 0" using assms(3) by (simp add: unat_eq_zero)
  then have "coprime (unat p) (unat q)" using div_gcd_coprime [of "unat a" "unat b"] pq(2,3) by auto
  have cross: "m * q' = n * p'" if "m = g * p'" "n = g * q'" for m n g p' q' :: nat
    using that by simp
  have "unat a * unat q = unat b * unat p"
    by (rule cross [where g = ?g]) (simp_all only: pq(2,3) dvd_mult_div_cancel gcd_dvd1 gcd_dvd2)
  with \<open>coprime _ _\<close> show ?thesis using pq(1) by blast
qed

theorem reduce_lowest_terms_witness:
  "\<exists>p q. reduce_fraction 24 1000 = Inr (p, q) \<and> coprime (unat p) (unat q) \<and> 24 * unat q = 1000 * unat p"
  using reduce_lowest_terms [of 24 1000] by simp

lemma fl_of_u64_53_bits: "fl_of_u64 9007199254740993 = 9007199254740992"
proof -
  let ?x = "9007199254740993 :: rat"
  have "flog2 ?x < 54" by (rule flog2_less) (simp_all add: power_int_def)
  moreover have "53 \<le> flog2 ?x" by (rule flog2_ge) (simp add: power_int_def)
  ultimately have u: "ulp_exp ?x = 1" by (simp add: ulp_exp_def)
  have "\<lfloor>?x / 2\<rfloor> = 4503599627370496" by (rule floor_unique) simp_all
  then have "round_even (?x / 2) = 4503599627370496" by (simp add: round_even_def Let_def)
  then have "rnd_pos ?x = 9007199254740992" by (simp add: rnd_pos_def u)
  then show ?thesis by (simp add: fl_of_u64_def rnd64_def)
qed

text \<open>
  Above \<open>2 ^ 53\<close> the remainder on doubles is not the remainder of the integers: the common
  divisor of \<open>2 ^ 53 + 1\<close> and 2 is computed as 2, and \<open>reduce\<close> then halves an odd number.
\<close>

theorem GCD_wrong_above_53_bits:
  "GCD_u64 9007199254740993 2 = Inr 2 \<and> gcd (9007199254740993 :: nat) 2 = 1
   \<and> reduce_fraction 9007199254740993 2 = Inr (4503599627370496, 1)"
proof -
  have "fl_of_u64 2 = 2" using fl_of_u64_exact [of 2] by simp
  then have "fmod_u64 9007199254740993 2 = Some 0"
    by (simp add: fmod_u64_def fl_of_u64_53_bits Let_def fl_to_u64_def)
  then have "GCD_u64 9007199254740993 2 = Inr 2"
    by (simp add: GCD_u64_def gcd_fuel_def GCD_loop.simps)
  then show ?thesis by (simp add: reduce_fraction_def gcd_red_nat [of 9007199254740993 2])
qed

lemma isNumber_digits: "ds \<noteq> [] \<Longrightarrow> list_all is_digit ds \<Longrightarrow> isNumber ds"
  by (auto simp: isNumber_def list_all_iff)

lemma find_at_absent: "c \<notin> set s \<Longrightarrow> find_at [c] i s = None"
  by (induction s arbitrary: i) auto

lemma no_separator: "list_all is_digit ds \<Longrightarrow> find_separator rateSeparators ds = None"
proof -
  assume "list_all is_digit ds"
  then have "CHR ''/'' \<notin> set ds" "CHR ''p'' \<notin> set ds" "CHR ''@'' \<notin> set ds"
    unfolding list_all_iff using digit_class(5-7) by metis+
  then show ?thesis by (simp add: rateSeparators_def str_find_def find_at_absent)
qed

text \<open>
  Numbers survive printing and parsing: the decimal text of a number below \<open>2 ^ 63\<close> is a
  number to \<open>isNumber\<close>, \<open>toUnsignedWithScale\<close> reads it back, and as a rate it is that number of
  bytes with multiplier zero, which marks a rate without units. Distinct numbers print
  differently.
\<close>

theorem decimal_roundtrip:
  assumes "unat w \<le> 9223372036854775807"
  shows "isNumber (to_string w) \<and> toUnsignedWithScale (to_string w) = Some (w, 1)
    \<and> toRate (to_string w) = Inr (w, 0) \<and> (to_string v = to_string w \<longrightarrow> v = w)"
proof -
  note D = to_string_digits [of w]
  have "reduce_fraction 1 0 = Inr (1, 0)" by (simp add: reduce_fraction_def GCD_u64_def GCD_loop.simps)
  then have "toRate (to_string w) = Inr (w, 0)"
    using toUnsigned_to_string [OF assms] isNumber_digits [OF D(1,2)]
    by (simp add: toRate_def rate_units_def no_separator [OF D(2)] before_def trim_digits [OF D(2)]
        catch_stoll_def)
  then show ?thesis using toUnsigned_to_string [OF assms] isNumber_digits [OF D(1,2)] to_string_inj by blast
qed

theorem decimal_roundtrip_witness:
  "toRate ''640'' = Inr (640, 0)"
proof -
  have "to_string 640 = ''640''" by code_simp
  moreover have "toRate (to_string 640) = Inr (640, 0)" using decimal_roundtrip [of 640] by simp
  ultimately show ?thesis by simp
qed

lemma shift_count_bounds: "0 < n \<Longrightarrow> 2 ^ shift_count i n \<le> n * 2 ^ i \<and> n * 2 ^ i < 2 * 2 ^ shift_count i n"
proof (induction n arbitrary: i rule: less_induct)
  case (less n)
  show ?case
  proof (cases "n div 2 = 0")
    case True
    then have "n = 1" using less.prems by linarith
    then show ?thesis by (simp add: shift_count.simps)
  next
    case False
    let ?h = "n div 2"
    have "2 ^ shift_count (Suc i) ?h \<le> ?h * 2 ^ Suc i \<and> ?h * 2 ^ Suc i < 2 * 2 ^ shift_count (Suc i) ?h"
      using less.IH [of ?h "Suc i"] False by simp
    moreover have "shift_count i n = shift_count (Suc i) ?h" using False by (simp add: shift_count.simps [of i])
    moreover have "?h * 2 ^ Suc i \<le> n * 2 ^ i" by simp
    moreover have "n * 2 ^ i < 2 * 2 ^ shift_count (Suc i) ?h"
      if "?h * 2 ^ Suc i < 2 * 2 ^ shift_count (Suc i) ?h"
    proof -
      define d where "d = shift_count (Suc i) ?h"
      have di: "Suc i \<le> d"
      proof -
        have "i \<le> shift_count i m" for i m
          by (induction i m rule: shift_count.induct) (metis Suc_leD order_refl shift_count.simps)
        then show ?thesis by (simp add: d_def)
      qed
      then obtain e where e: "d = Suc i + e" by (metis le_add_diff_inverse)
      have "?h * 2 ^ Suc i < (2 * 2 ^ e) * 2 ^ Suc i" using that unfolding d_def [symmetric] e
        by (simp add: power_add)
      then have "?h < 2 * 2 ^ e" by simp
      then have "n < 2 * (2 * 2 ^ e)" by linarith
      then have "n * 2 ^ i < 2 * (2 * 2 ^ e) * 2 ^ i" by simp
      then show ?thesis unfolding d_def [symmetric] e by (simp add: power_add ac_simps)
    qed
    ultimately show ?thesis by (simp only: le_trans) (meson le_trans)
  qed
qed

text \<open>
  \<open>nextPowerTwo\<close> returns the largest power of two that is not above its argument, not the
  next one: for any argument below \<open>2 ^ 31\<close> that is not a power of two the result is smaller.
  From \<open>2 ^ 31\<close> the shift of an \<^verbatim>\<open>int\<close> overflows.
\<close>

theorem nextPowerTwo_is_previous:
  assumes "0 < n" and "unat n < 2 ^ 31"
  shows "\<exists>i. nextPowerTwo n = Inr (2 ^ i) \<and> 2 ^ i \<le> unat n \<and> unat n < 2 ^ Suc i"
proof -
  let ?i = "shift_count 0 (unat n)"
  have "0 < unat n" using assms(1) by (simp add: word_less_nat_alt)
  from shift_count_bounds [OF this, of 0] have b: "2 ^ ?i \<le> unat n" "unat n < 2 * 2 ^ ?i" by simp_all
  then have "(2 :: nat) ^ ?i < 2 ^ 31" using assms(2) by linarith
  then have "?i < 31" by (rule power_less_imp_less_exp [rotated]) simp
  with b show ?thesis by (intro exI [of _ ?i]) (simp add: nextPowerTwo_def)
qed

theorem nextPowerTwo_is_previous_witness:
  "nextPowerTwo 100 = Inr 64 \<and> (\<exists>i. nextPowerTwo 100 = Inr (2 ^ i) \<and> 2 ^ i \<le> (100 :: nat) \<and> (100 :: nat) < 2 ^ Suc i)"
proof -
  have "nextPowerTwo 100 = Inr 64" by code_simp
  then show ?thesis using nextPowerTwo_is_previous [of 100] by simp
qed

text \<open>
  \<open>extractHead\<close> and \<open>extractTail\<close> take a command line apart without losing anything but
  blanks: the trimmed line is the head, blanks, and the tail, there is no blank in the head, and
  the tail does not start with one.
\<close>

theorem head_and_tail:
  "\<exists>n. trimOuter s = extractHead s @ replicate n CHR '' '' @ extractTail s
     \<and> CHR '' '' \<notin> set (extractHead s) \<and> take 1 (extractTail s) \<noteq> [CHR '' '']"
proof -
  let ?t = "trimOuter s"
  let ?r = "dropWhile (\<lambda>c. c \<noteq> CHR '' '') ?t"
  have "takeWhile (\<lambda>c. c = CHR '' '') ?r = replicate (length (takeWhile (\<lambda>c. c = CHR '' '') ?r)) CHR '' ''"
    by (rule replicate_eqI [symmetric, THEN sym]) (auto dest: set_takeWhileD)
  then have "?r = replicate (length (takeWhile (\<lambda>c. c = CHR '' '') ?r)) CHR '' '' @ extractTail s"
    by (metis extractTail_def takeWhile_dropWhile_id)
  then have "?t = extractHead s @ replicate (length (takeWhile (\<lambda>c. c = CHR '' '') ?r)) CHR '' '' @ extractTail s"
    by (metis extractHead_def takeWhile_dropWhile_id)
  moreover have "CHR '' '' \<notin> set (extractHead s)"
    by (auto simp: extractHead_def dest: set_takeWhileD)
  moreover have "take 1 (dropWhile (\<lambda>c. c = CHR '' '') xs) \<noteq> [CHR '' '']" for xs
    by (induction xs) simp_all
  then have "take 1 (extractTail s) \<noteq> [CHR '' '']" by (simp only: extractTail_def not_False_eq_True)
  ultimately show ?thesis by blast
qed

end
