(* ===== verification/Proto.thy ===== *)
theory Proto
  imports Prelude
begin

text \<open>
  The messages of \<^verbatim>\<open>proto/tp_config.proto\<close> and \<^verbatim>\<open>proto/tp_packet.proto\<close>. An optional field
  is an option when the code asks whether it is set, and its value with the default otherwise;
  a repeated field is a list. The enumerators that clash with constants of other types have a
  prefix.
\<close>

section \<open>Packets\<close>

datatype command = CMD_INVALID | CMD_NONE | READ_REQ | WRITE_REQ | READ_RESP | WRITE_RESP

record packet =
  pk_cmd :: command
  pk_time :: u64
  pk_addr :: u64
  pk_size :: u64
  pk_master_id :: string
  pk_id :: "u64 option"
  pk_uid :: u64
  pk_stream_id :: "u64 option"
  pk_iommu_id :: "u32 option"
  pk_flow_id :: "u64 option"

definition new_packet :: packet where
  "new_packet = \<lparr>pk_cmd = CMD_INVALID, pk_time = 0, pk_addr = 0, pk_size = 0, pk_master_id = [],
     pk_id = None, pk_uid = 0, pk_stream_id = None, pk_iommu_id = None, pk_flow_id = None\<rparr>"

section \<open>Packet patterns\<close>

datatype rand_type = UNIFORM | NORMAL | POISSON | WEIBULL

record random_desc =
  rd_type :: rand_type
  rd_uniform :: "u64 \<times> u64"
  rd_normal :: "u64 \<times> u64"
  rd_poisson :: u64
  rd_weibull :: "u64 \<times> u64"

record address_conf =
  ac_base :: u64
  ac_increment :: "u64 option"
  ac_range :: "string option"
  ac_yrange :: "string option"
  ac_start :: u64

record stride_conf =
  sc_n :: u64
  sc_increment :: "u64 option"
  sc_stride :: "u64 option"
  sc_range :: "string option"
  sc_xrange :: "string option"

record pattern_conf =
  pt_cmd :: "command option"
  pt_address :: "address_conf option"
  pt_random_address :: "random_desc option"
  pt_stride :: "stride_conf option"
  pt_size :: "u64 option"
  pt_txnsize :: "u64 option"
  pt_random_size :: "random_desc option"
  pt_alignment :: "u64 option"
  pt_lowid :: "u64 option"
  pt_highid :: "u64 option"
  pt_wait_for :: "command option"

definition empty_pattern :: pattern_conf where
  "empty_pattern = \<lparr>pt_cmd = None, pt_address = None, pt_random_address = None, pt_stride = None,
     pt_size = None, pt_txnsize = None, pt_random_size = None, pt_alignment = None, pt_lowid = None,
     pt_highid = None, pt_wait_for = None\<rparr>"

section \<open>Profiles and configurations\<close>

datatype ptype = P_READ | P_WRITE | P_NONE

datatype startup_level = LEVEL_EMPTY | LEVEL_FULL

record fifo_conf =
  fc_start_fifo_level :: "startup_level option"
  fc_start :: "startup_level option"
  fc_full_level :: "u64 option"
  fc_full :: "u64 option"
  fc_ot_limit :: "u64 option"
  fc_txnlimit :: "u64 option"
  fc_total_txn :: "u64 option"
  fc_framesize :: "string option"
  fc_frametime :: "string option"
  fc_rate :: string

record slave_conf =
  sl_rate :: string
  sl_latency :: "string option"
  sl_random_latency :: "random_desc option"
  sl_random_latency_unit :: string
  sl_ot_limit :: "u64 option"
  sl_txnlimit :: "u64 option"
  sl_granularity :: "u64 option"
  sl_txnsize :: "u64 option"
  sl_master :: "string list"
  sl_low_address :: "u64 option"
  sl_high_address :: "u64 option"
  sl_address_range :: "string option"

record profile_conf =
  pf_type :: "ptype option"
  pf_master_id :: "string option"
  pf_fifo :: "fifo_conf option"
  pf_slave :: "slave_conf option"
  pf_delay :: "string option"
  pf_wait_for :: "string list"
  pf_pattern :: "pattern_conf option"
  pf_name :: "string option"
  pf_check :: "string list"
  pf_iommu_id :: "u32 option"
  pf_flow_id :: "u64 option"

datatype time_unit = CYCLES | PS | NS | US | MS | SEC

record configuration =
  cf_frequency :: "u64 option"
  cf_timeUnit :: "time_unit option"
  cf_period :: "u64 option"
  cf_lowId :: "u64 option"
  cf_highId :: "u64 option"
  cf_tracing :: "bool option"
  cf_trace_dir :: "string option"
  cf_profile :: "profile_conf list"

section \<open>Invalid identifiers\<close>

definition invalid_id :: u64 where "invalid_id = - 1"
definition invalid_id32 :: u32 where "invalid_id32 = - 1"
definition isValid :: "u64 \<Rightarrow> bool" where "isValid i \<longleftrightarrow> i \<noteq> invalid_id"
definition isValid32 :: "u32 \<Rightarrow> bool" where "isValid32 i \<longleftrightarrow> i \<noteq> invalid_id32"

end
