(* ===== verification/Tagger.thy ===== *)
theory Tagger
  imports Proto
begin

text \<open>
  The packet tagger (\<^verbatim>\<open>packet_tagger.hh\<close>, \<^verbatim>\<open>packet_tagger.cc\<close>): packet ids drawn cyclically
  from a configured interval, unique ids, and the metadata fields of a profile. The constructor
  leaves \<^verbatim>\<open>currentUid\<close> uninitialised, so its first value is an argument.
\<close>

record tagger =
  tg_currentId :: u64
  tg_currentUid :: u64
  tg_low_id :: u64
  tg_high_id :: u64
  tg_flow_id :: u64
  tg_iommu_id :: u32
  tg_stream_id :: u64

definition tagger_new :: "u64 \<Rightarrow> tagger" where
  "tagger_new u0 = \<lparr>tg_currentId = 0, tg_currentUid = u0, tg_low_id = 0, tg_high_id = 0,
     tg_flow_id = invalid_id, tg_iommu_id = invalid_id32, tg_stream_id = invalid_id\<rparr>"

definition getId :: "tagger \<Rightarrow> u64 \<times> tagger" where
  "getId g =
    (let c1 = (if tg_currentId g < tg_low_id g then tg_low_id g else tg_currentId g);
         c2 = (if tg_high_id g < c1 then tg_low_id g else c1)
     in (c2, g\<lparr>tg_currentId := c2 + 1\<rparr>))"

definition getUid :: "tagger \<Rightarrow> u64 \<times> tagger" where
  "getUid g = (tg_currentUid g, g\<lparr>tg_currentUid := tg_currentUid g + 1\<rparr>)"

definition resetCurrentId :: "tagger \<Rightarrow> tagger" where
  "resetCurrentId g = g\<lparr>tg_currentId := 0\<rparr>"

definition tagGlobalPacket :: "packet \<Rightarrow> tagger \<Rightarrow> packet \<times> tagger" where
  "tagGlobalPacket p g = (let (u, g') = getUid g in (p\<lparr>pk_uid := u\<rparr>, g'))"

definition tagPacket :: "packet \<Rightarrow> tagger \<Rightarrow> packet \<times> tagger" where
  "tagPacket p g =
    (let p1 = (if isValid (tg_flow_id g) then p\<lparr>pk_flow_id := Some (tg_flow_id g)\<rparr> else p);
         p2 = (if isValid32 (tg_iommu_id g) then p1\<lparr>pk_iommu_id := Some (tg_iommu_id g)\<rparr> else p1);
         p3 = (if isValid (tg_stream_id g) then p2\<lparr>pk_stream_id := Some (tg_stream_id g)\<rparr> else p2)
     in if isValid (tg_low_id g) \<and> isValid (tg_high_id g) \<and> pk_id p3 = None then
          (let (i, g') = getId g in (p3\<lparr>pk_id := Some i\<rparr>, g'))
        else (p3, g))"

section \<open>The cycle of ids\<close>

text \<open>\<open>draw n g\<close>: the ids of \<open>n\<close> consecutive requests.\<close>

fun draw_ids :: "nat \<Rightarrow> tagger \<Rightarrow> u64 list" where
  "draw_ids 0 g = []"
| "draw_ids (Suc n) g = (let (i, g') = getId g in i # draw_ids n g')"

definition id_slot :: "tagger \<Rightarrow> nat" where
  "id_slot g = (let c = unat (tg_currentId g)
     in if c < unat (tg_low_id g) \<or> unat (tg_high_id g) < c then 0 else c - unat (tg_low_id g))"

definition id_count :: "tagger \<Rightarrow> nat" where
  "id_count g = Suc (unat (tg_high_id g) - unat (tg_low_id g))"

lemma getId_value:
  assumes "tg_low_id g \<le> tg_high_id g"
  shows "unat (fst (getId g)) = unat (tg_low_id g) + id_slot g" and "id_slot g < id_count g"
  using assms by (auto simp: getId_def id_slot_def id_count_def Let_def word_le_nat_alt word_less_nat_alt)

lemma getId_keeps [simp]:
  "tg_low_id (snd (getId g)) = tg_low_id g" "tg_high_id (snd (getId g)) = tg_high_id g"
  "tg_flow_id (snd (getId g)) = tg_flow_id g" "tg_iommu_id (snd (getId g)) = tg_iommu_id g"
  "tg_stream_id (snd (getId g)) = tg_stream_id g" "tg_currentUid (snd (getId g)) = tg_currentUid g"
  by (simp_all add: getId_def Let_def)

lemma unat_below_max: "(h :: u64) \<noteq> - 1 \<Longrightarrow> unat h < 18446744073709551615"
proof (rule ccontr)
  assume "h \<noteq> - 1" and "\<not> unat h < 18446744073709551615"
  then have "unat h = 18446744073709551615" using unat_u64_lt [of h] by linarith
  then have "(of_nat (unat h) :: u64) = of_nat 18446744073709551615" by (simp only:)
  with \<open>h \<noteq> - 1\<close> show False by simp
qed

lemma getId_slot:
  assumes "tg_low_id g \<le> tg_high_id g" and "tg_high_id g \<noteq> - 1"
  shows "id_slot (snd (getId g)) = Suc (id_slot g) mod id_count g"
proof -
  let ?i = "fst (getId g)" and ?l = "unat (tg_low_id g)" and ?h = "unat (tg_high_id g)"
  have lh: "?l \<le> ?h" using assms(1) by (simp add: word_le_nat_alt)
  have v: "unat ?i = ?l + id_slot g" "id_slot g < id_count g" using getId_value [OF assms(1)] by auto
  then have "unat ?i \<le> ?h" using lh by (simp add: id_count_def)
  then have "unat (?i + 1) = unat ?i + 1"
    using unat_below_max [OF assms(2)] by (subst unat_add_no_overflow) auto
  moreover have "tg_currentId (snd (getId g)) = ?i + 1" by (simp add: getId_def Let_def)
  ultimately have s: "id_slot (snd (getId g)) = (if ?h < unat ?i + 1 then 0 else unat ?i + 1 - ?l)"
    using v(1) by (simp add: id_slot_def Let_def)
  show ?thesis
  proof (cases "Suc (id_slot g) = id_count g")
    case True
    then have "?h < unat ?i + 1" using v(1) lh by (simp add: id_count_def)
    with s True show ?thesis by simp
  next
    case False
    then have "Suc (id_slot g) < id_count g" using v(2) by simp
    moreover from this have "\<not> ?h < unat ?i + 1" using v(1) lh by (simp add: id_count_def)
    ultimately show ?thesis using s v(1) by simp
  qed
qed

text \<open>
  Packet ids cycle through the configured interval: the \<open>j\<close>-th id drawn is
  \<open>low + (s + j) mod (high - low + 1)\<close>, where \<open>s\<close> is the slot of the tagger's current id. Every id
  is in the interval, and an id comes back after exactly \<open>high - low + 1\<close> requests.
\<close>

theorem packet_ids_cycle:
  assumes "tg_low_id g \<le> tg_high_id g" and "tg_high_id g \<noteq> - 1"
  shows "map unat (draw_ids n g)
    = map (\<lambda>j. unat (tg_low_id g) + (id_slot g + j) mod id_count g) [0 ..< n]"
  using assms
proof (induction n arbitrary: g)
  case (Suc n)
  let ?g = "snd (getId g)" and ?v = "\<lambda>s. unat (tg_low_id g) + s mod id_count g"
  have c: "id_count ?g = id_count g" by (simp add: id_count_def)
  have "map unat (draw_ids n ?g) = map (\<lambda>j. ?v (id_slot g + Suc j)) [0 ..< n]"
    using Suc.IH [of ?g] Suc.prems getId_slot [OF Suc.prems] by (simp add: c mod_add_left_eq)
  moreover have "unat (fst (getId g)) = ?v (id_slot g)" using getId_value [OF Suc.prems(1)] by simp
  moreover have "[0 ..< Suc n] = 0 # map Suc [0 ..< n]"
    by (simp add: map_Suc_upt upt_conv_Cons del: upt_Suc)
  ultimately show ?case by (simp add: split_beta o_def del: upt_Suc)
qed simp

theorem packet_ids_cycle_witness:
  "map unat (draw_ids 5 ((tagger_new 0)\<lparr>tg_low_id := 3, tg_high_id := 5\<rparr>)) = [3, 4, 5, 3, 4]"
  using packet_ids_cycle [of "(tagger_new 0)\<lparr>tg_low_id := 3, tg_high_id := 5\<rparr>" 5]
  by (simp add: tagger_new_def id_slot_def id_count_def Let_def upt_rec)

text \<open>Unique ids count up from their first value; the id of a tagged packet is kept.\<close>

lemma tagPacket_keeps:
  "pk_cmd (fst (tagPacket p g)) = pk_cmd p" "pk_time (fst (tagPacket p g)) = pk_time p"
  "pk_addr (fst (tagPacket p g)) = pk_addr p" "pk_size (fst (tagPacket p g)) = pk_size p"
  "pk_master_id (fst (tagPacket p g)) = pk_master_id p" "pk_uid (fst (tagPacket p g)) = pk_uid p"
  "pk_id p = Some i \<Longrightarrow> pk_id (fst (tagPacket p g)) = Some i"
  by (simp_all add: tagPacket_def Let_def split: prod.split)

end
