(* ===== verification/Random_Generator.thy ===== *)
theory Random_Generator
  imports Proto Utilities
begin

text \<open>
  Random numbers (\<^verbatim>\<open>random_generator.hh\<close>, \<^verbatim>\<open>random_generator.cc\<close>). A \<^verbatim>\<open>Generator\<close> owns a
  Mersenne twister with a fixed seed and one distribution object of the standard library. The
  value of a draw is a parameter \<open>rng\<close>: a function of everything that has happened to the
  generator since its construction (distribution objects made, numbers drawn), which is all
  that the engine and the distribution object depend on. \<open>rng_uniform\<close> states what the library
  guarantees of a uniform distribution.

  The preconditions that the standard puts on the parameters of a distribution are checked;
  breaking one is \<open>Undefined\<close>.
\<close>

datatype distribution =
    Uniform u64 u64
  | Normal double double
  | Poisson double
  | Weibull double double

datatype gop = Made distribution | Drawn

type_synonym rng = "gop list \<Rightarrow> rat"

record generator =
  g_type :: rand_type
  g_distribution :: "distribution option"
  g_history :: "gop list"

definition generator_new :: generator where
  "generator_new = \<lparr>g_type = UNIFORM, g_distribution = None, g_history = []\<rparr>"

fun dist_ok :: "distribution \<Rightarrow> bool" where
  "dist_ok (Uniform lo hi) \<longleftrightarrow> lo \<le> hi"
| "dist_ok (Normal mean dev) \<longleftrightarrow> 0 < dev"
| "dist_ok (Poisson mean) \<longleftrightarrow> 0 < mean"
| "dist_ok (Weibull shape scale) \<longleftrightarrow> 0 < shape \<and> 0 < scale"

definition install :: "rand_type \<Rightarrow> distribution \<Rightarrow> generator \<Rightarrow> generator res" where
  "install t d g = bindR (ensure (dist_ok d) (Undefined ''Generator::init''))
     (\<lambda>_. Inr (g\<lparr>g_type := t, g_distribution := Some d, g_history := g_history g @ [Made d]\<rparr>))"

fun dist_of_range :: "rand_type \<Rightarrow> u64 \<Rightarrow> u64 \<Rightarrow> distribution" where
  "dist_of_range UNIFORM base extent = Uniform base (base + extent)"
| "dist_of_range NORMAL base extent =
     (let dev = fl_of_u64 (extent div 2) in Normal (fl_add (fl_of_u64 base) dev) dev)"
| "dist_of_range POISSON base extent = Poisson (fl_of_u64 (base + extent div 2))"
| "dist_of_range WEIBULL base extent = Weibull 0 (fl_of_u64 (base + extent div 2))"

definition dist_of_desc :: "random_desc \<Rightarrow> distribution" where
  "dist_of_desc from =
    (case rd_type from of
       UNIFORM \<Rightarrow> Uniform (fst (rd_uniform from)) (snd (rd_uniform from))
     | NORMAL \<Rightarrow> Normal (fl_of_u64 (fst (rd_normal from))) (fl_of_u64 (snd (rd_normal from)))
     | POISSON \<Rightarrow> Poisson (fl_of_u64 (rd_poisson from))
     | WEIBULL \<Rightarrow> Weibull (fl_of_u64 (fst (rd_weibull from))) (fl_of_u64 (snd (rd_weibull from))))"

definition generator_init :: "rand_type \<Rightarrow> u64 \<Rightarrow> u64 \<Rightarrow> generator \<Rightarrow> generator res" where
  "generator_init t base extent g = install t (dist_of_range t base extent) g"

definition generator_init_desc :: "random_desc \<Rightarrow> generator \<Rightarrow> generator res" where
  "generator_init_desc from g = install (rd_type from) (dist_of_desc from) g"

text \<open>The result of the real distributions is converted to \<^verbatim>\<open>uint64_t\<close>.\<close>

definition generator_get :: "rng \<Rightarrow> generator \<Rightarrow> (u64 \<times> generator) res" where
  "generator_get rng g =
    (case g_distribution g of
       None \<Rightarrow> Inl (ErrorExit ''RandomGenerator::get'')
     | Some d \<Rightarrow>
         (let h = g_history g @ [Drawn]
          in case fl_to_u64 (rng h) of
               None \<Rightarrow> Inl (Undefined ''Generator::get'')
             | Some v \<Rightarrow> Inr (v, g\<lparr>g_history := h\<rparr>)))"

text \<open>The distribution in use after a history, and the guarantee of the library.\<close>

fun last_dist :: "gop list \<Rightarrow> distribution option" where
  "last_dist [] = None"
| "last_dist (Made d # h) = (case last_dist h of None \<Rightarrow> Some d | Some d' \<Rightarrow> Some d')"
| "last_dist (Drawn # h) = last_dist h"

definition rng_uniform :: "rng \<Rightarrow> bool" where
  "rng_uniform rng \<longleftrightarrow> (\<forall>h lo hi. last_dist h = Some (Uniform lo hi) \<and> lo \<le> hi \<longrightarrow>
     (\<exists>n. rng (h @ [Drawn]) = of_nat n \<and> unat lo \<le> n \<and> n \<le> unat hi))"

definition generator_wf :: "generator \<Rightarrow> bool" where
  "generator_wf g \<longleftrightarrow> g_distribution g = last_dist (g_history g)"

lemma last_dist_append [simp]:
  "last_dist (h @ [Made d]) = Some d" "last_dist (h @ [Drawn]) = last_dist h"
  by (induction h rule: last_dist.induct) (auto split: option.splits)

lemma generator_wf_new: "generator_wf generator_new"
  by (simp add: generator_wf_def generator_new_def)

lemma generator_wf_install: "install t d g = Inr g' \<Longrightarrow> generator_wf g' \<and> g_distribution g' = Some d"
  by (auto simp: install_def generator_wf_def bindR_eq_Inr)

lemma generator_wf_get:
  "generator_get rng g = Inr (v, g') \<Longrightarrow> generator_wf g \<Longrightarrow> generator_wf g' \<and> g_distribution g' = g_distribution g"
  by (auto simp: generator_get_def generator_wf_def Let_def split: option.splits)

text \<open>
  A generator initialised with a uniform distribution over a base and a extent that do not
  overflow keeps drawing: every draw succeeds, the value lies between \<open>base\<close> and
  \<open>base + extent\<close>, and the generator can be drawn from again.
\<close>

theorem uniform_draw_in_range:
  assumes "rng_uniform rng" and "generator_wf g" and "g_distribution g = Some (Uniform base (base + extent))"
    and "unat base + unat extent < 2 ^ 64"
  shows "\<exists>v g'. generator_get rng g = Inr (v, g') \<and> base \<le> v \<and> v \<le> base + extent
    \<and> generator_wf g' \<and> g_distribution g' = g_distribution g"
proof -
  from assms(2,3) have "last_dist (g_history g) = Some (Uniform base (base + extent))"
    by (simp add: generator_wf_def)
  moreover have "base \<le> base + extent"
    using assms(4) by (simp add: word_le_nat_alt unat_add_no_overflow)
  ultimately obtain n where n: "rng (g_history g @ [Drawn]) = of_nat n"
    "unat base \<le> n" "n \<le> unat (base + extent)"
    using assms(1) unfolding rng_uniform_def by blast
  have "n < 18446744073709551616" using n(3) unat_u64_lt [of "base + extent"] by linarith
  then have c: "fl_to_u64 (of_nat n) = Some (of_nat n)" "unat (of_nat n :: u64) = n"
    by (simp_all add: fl_to_u64_nat unat_of_nat_u64)
  have "generator_get rng g = Inr (of_nat n, g\<lparr>g_history := g_history g @ [Drawn]\<rparr>)"
    using assms(3) n(1) c(1) by (simp add: generator_get_def)
  moreover have "base \<le> of_nat n" "of_nat n \<le> base + extent"
    using n(2,3) c(2) by (simp_all add: word_le_nat_alt)
  ultimately show ?thesis using generator_wf_get assms(2) by blast
qed

definition low_rng :: rng where
  "low_rng h = (case last_dist h of Some (Uniform lo hi) \<Rightarrow> of_nat (unat lo) | _ \<Rightarrow> 0)"

lemma low_rng_uniform: "rng_uniform low_rng"
  unfolding rng_uniform_def
proof (intro allI impI)
  fix h lo hi
  assume h: "last_dist h = Some (Uniform lo hi) \<and> lo \<le> hi"
  then have "low_rng (h @ [Drawn]) = of_nat (unat lo)" by (simp only: low_rng_def last_dist_append) simp
  then show "\<exists>n. low_rng (h @ [Drawn]) = of_nat n \<and> unat lo \<le> n \<and> n \<le> unat hi"
    using h by (intro exI [of _ "unat lo"]) (simp only: word_le_nat_alt simp_thms order_refl)
qed

theorem uniform_draw_in_range_witness:
  "\<exists>v g'. generator_get low_rng \<lparr>g_type = UNIFORM, g_distribution = Some (Uniform 16 (16 + 64)),
      g_history = [Made (Uniform 16 (16 + 64))]\<rparr> = Inr (v, g') \<and> 16 \<le> v \<and> v \<le> 80"
  using uniform_draw_in_range [OF low_rng_uniform, of "\<lparr>g_type = UNIFORM,
      g_distribution = Some (Uniform 16 (16 + 64)), g_history = [Made (Uniform 16 (16 + 64))]\<rparr>" 16 64]
  by (auto simp: generator_wf_def)

end
