(* ===== verification/Packet_Desc.thy ===== *)
theory Packet_Desc
  imports Tagger Random_Generator
begin

text \<open>
  The packet descriptor (\<^verbatim>\<open>packet_desc.hh\<close>, \<^verbatim>\<open>packet_desc.cc\<close>): a generator of request
  packets whose addresses follow a linear, strided or random pattern and wrap around on a
  range. \<^verbatim>\<open>tagger\<close> is null or the tagger of the owning profile, so it is a flag here and the
  profile's tagger is passed to the operations that use it.
\<close>

section \<open>State\<close>

datatype gen_type = CONFIGURED | RANDOM

record packet_desc =
  pd_initialized :: bool
  pd_alignAddresses :: bool
  pd_alignment :: u64
  pd_addressType :: gen_type
  pd_sizeType :: gen_type
  pd_tagged :: bool
  pd_base :: u64
  pd_increment :: u64
  pd_range :: u64
  pd_start :: u64
  pd_striding :: bool
  pd_randomAddress :: generator
  pd_size :: u64
  pd_randomSize :: generator
  pd_tpId :: u64
  pd_cmd :: command
  pd_waitFor :: command
  pd_nextAddress :: u64
  pd_strideN :: u64
  pd_strideInc :: u64
  pd_strideRange :: u64
  pd_strideStart :: u64
  pd_strideCount :: u64
  pd_strides :: u64

definition packet_desc_new :: packet_desc where
  "packet_desc_new = \<lparr>pd_initialized = False, pd_alignAddresses = False, pd_alignment = 0,
     pd_addressType = CONFIGURED, pd_sizeType = CONFIGURED, pd_tagged = False, pd_base = 0,
     pd_increment = 0, pd_range = 0, pd_start = 0, pd_striding = False,
     pd_randomAddress = generator_new, pd_size = 0, pd_randomSize = generator_new, pd_tpId = 0,
     pd_cmd = CMD_INVALID, pd_waitFor = CMD_INVALID, pd_nextAddress = 0, pd_strideN = 0,
     pd_strideInc = 0, pd_strideRange = 0, pd_strideStart = 0, pd_strideCount = 0, pd_strides = 0\<rparr>"

definition setCommand :: "command \<Rightarrow> packet_desc \<Rightarrow> packet_desc" where
  "setCommand c d =
    (let d1 = d\<lparr>pd_cmd := c\<rparr>
     in if pd_waitFor d = CMD_INVALID
        then d1\<lparr>pd_waitFor := (if c = READ_REQ then READ_RESP else WRITE_RESP)\<rparr> else d1)"

definition pd_reset :: "packet_desc \<Rightarrow> packet_desc" where
  "pd_reset d = d\<lparr>pd_nextAddress := pd_base d, pd_strides := (if pd_striding d then 1 else 0),
     pd_strideCount := 0, pd_strideStart := pd_base d\<rparr>"

section \<open>Initialisation\<close>

definition byte_field :: "string \<Rightarrow> string \<Rightarrow> u64 res" where
  "byte_field f s = bindR (toBytes_fl s) (\<lambda>x.
    case fl_to_u64 x of None \<Rightarrow> Inl (Undefined f) | Some v \<Rightarrow> Inr v)"

definition init_commands :: "u64 \<Rightarrow> pattern_conf \<Rightarrow> packet_desc \<Rightarrow> packet_desc" where
  "init_commands parentId from d0 =
    (let d = d0\<lparr>pd_tpId := parentId\<rparr>;
         d1 = (case pt_cmd from of Some c \<Rightarrow> setCommand c d | None \<Rightarrow> d)
     in case pt_wait_for from of Some c \<Rightarrow> d1\<lparr>pd_waitFor := c\<rparr> | None \<Rightarrow> d1)"

definition init_size :: "pattern_conf \<Rightarrow> packet_desc \<Rightarrow> packet_desc res" where
  "init_size from d =
    (case pt_size from of Some s \<Rightarrow> Inr (d\<lparr>pd_sizeType := CONFIGURED, pd_size := s\<rparr>)
     | None \<Rightarrow>
    (case pt_txnsize from of Some s \<Rightarrow> Inr (d\<lparr>pd_sizeType := CONFIGURED, pd_size := s\<rparr>)
     | None \<Rightarrow>
    (case pt_random_size from of
       Some r \<Rightarrow> bindR (generator_init_desc r (pd_randomSize d))
         (\<lambda>g. Inr (d\<lparr>pd_sizeType := RANDOM, pd_randomSize := g\<rparr>))
     | None \<Rightarrow> Inr (d\<lparr>pd_sizeType := CONFIGURED, pd_size := 64\<rparr>))))"

definition init_address :: "pattern_conf \<Rightarrow> packet_desc \<Rightarrow> packet_desc res" where
  "init_address from d =
    (case pt_address from of None \<Rightarrow> Inr d
     | Some a \<Rightarrow>
       (let d1 = d\<lparr>pd_base := ac_base a\<rparr>
        in bindR (case ac_increment a of
             Some i \<Rightarrow> Inr (d1\<lparr>pd_increment := i\<rparr>)
           | None \<Rightarrow> if pd_sizeType d1 = CONFIGURED then Inr (d1\<lparr>pd_increment := pd_size d1\<rparr>)
                     else Inl (ErrorExit ''PacketDesc::init'')) (\<lambda>d2.
           bindR (case ac_range a of
             Some s \<Rightarrow> bindR (byte_field ''PacketDesc::init'' s) (\<lambda>v. Inr (d2\<lparr>pd_range := v\<rparr>))
           | None \<Rightarrow> (case ac_yrange a of
               Some s \<Rightarrow> bindR (byte_field ''PacketDesc::init'' s) (\<lambda>v. Inr (d2\<lparr>pd_range := v\<rparr>))
             | None \<Rightarrow> Inr d2)) (\<lambda>d3.
           Inr (d3\<lparr>pd_start := ac_start a\<rparr>)))))"

definition init_random :: "pattern_conf \<Rightarrow> packet_desc \<Rightarrow> packet_desc res" where
  "init_random from d =
    (case pt_random_address from of None \<Rightarrow> Inr (d\<lparr>pd_addressType := CONFIGURED\<rparr>)
     | Some r \<Rightarrow>
         bindR (if pt_address from \<noteq> None
                then generator_init (rd_type r) (pd_base d) (pd_range d) (pd_randomAddress d)
                else generator_init_desc r (pd_randomAddress d))
           (\<lambda>g. Inr (d\<lparr>pd_addressType := RANDOM, pd_randomAddress := g\<rparr>)))"

definition init_tagger :: "pattern_conf \<Rightarrow> tagger option \<Rightarrow> packet_desc \<Rightarrow> (packet_desc \<times> tagger option) res" where
  "init_tagger from parent d =
    (if pt_lowid from = None \<and> pt_highid from = None then Inr (d, parent)
     else case parent of
       None \<Rightarrow> Inl (Undefined ''PacketDesc::init'')
     | Some g \<Rightarrow> Inr (d\<lparr>pd_tagged := True\<rparr>,
         Some ((resetCurrentId g)\<lparr>tg_low_id := (case pt_lowid from of Some v \<Rightarrow> v | None \<Rightarrow> 0),
                tg_high_id := (case pt_highid from of Some v \<Rightarrow> v | None \<Rightarrow> 0)\<rparr>)))"

definition init_alignment :: "pattern_conf \<Rightarrow> packet_desc \<Rightarrow> packet_desc res" where
  "init_alignment from d =
    (case pt_alignment from of None \<Rightarrow> Inr d
     | Some a \<Rightarrow>
         bindR (if 0 < a then bindR (nextPowerTwo a) (\<lambda>p.
                  ensure (a = p) (ErrorExit ''PacketDesc::init'')) else Inr ())
           (\<lambda>_. Inr (d\<lparr>pd_alignAddresses := True, pd_alignment := a\<rparr>)))"

definition init_first :: "rng \<Rightarrow> packet_desc \<Rightarrow> packet_desc res" where
  "init_first rng d =
    (if pd_addressType d = CONFIGURED
     then Inr (d\<lparr>pd_nextAddress := (if 0 < pd_start d then pd_start d else pd_base d)\<rparr>)
     else bindR (generator_get rng (pd_randomAddress d))
       (\<lambda>(v, g). Inr (d\<lparr>pd_nextAddress := v, pd_randomAddress := g\<rparr>)))"

text \<open>The alternative spelling of the stride range is assigned to the address range.\<close>

definition init_stride :: "pattern_conf \<Rightarrow> packet_desc \<Rightarrow> packet_desc res" where
  "init_stride from d =
    (case pt_stride from of None \<Rightarrow> Inr d
     | Some s \<Rightarrow>
       (let d1 = d\<lparr>pd_strideN := sc_n s\<rparr>;
            d2 = (case sc_increment s of Some i \<Rightarrow> d1\<lparr>pd_strideInc := i\<rparr>
                  | None \<Rightarrow> (case sc_stride s of Some i \<Rightarrow> d1\<lparr>pd_strideInc := i\<rparr> | None \<Rightarrow> d1))
        in bindR (case sc_range s of
             Some r \<Rightarrow> bindR (byte_field ''PacketDesc::init'' r) (\<lambda>v. Inr (d2\<lparr>pd_strideRange := v\<rparr>))
           | None \<Rightarrow> (case sc_xrange s of
               Some r \<Rightarrow> bindR (byte_field ''PacketDesc::init'' r) (\<lambda>v. Inr (d2\<lparr>pd_range := v\<rparr>))
             | None \<Rightarrow> Inr d2)) (\<lambda>d3.
           bindR (ensure (\<not> (0 < pd_strideN d3 \<and> 0 < pd_strideRange d3)) (ErrorExit ''PacketDesc::init'')) (\<lambda>_.
           Inr (d3\<lparr>pd_strides := 1, pd_striding := True, pd_strideStart := pd_nextAddress d3\<rparr>)))))"

definition pd_init :: "rng \<Rightarrow> u64 \<Rightarrow> pattern_conf \<Rightarrow> tagger option \<Rightarrow> packet_desc
    \<Rightarrow> (packet_desc \<times> tagger option) res" where
  "pd_init rng parentId from parent d =
    bindR (init_size from (init_commands parentId from d)) (\<lambda>d.
    bindR (init_address from d) (\<lambda>d.
    bindR (init_random from d) (\<lambda>d.
    bindR (init_tagger from parent d) (\<lambda>(d, tg).
    bindR (init_alignment from d) (\<lambda>d.
    bindR (init_first rng d) (\<lambda>d.
    bindR (init_stride from d) (\<lambda>d.
    Inr (d\<lparr>pd_initialized := (pt_address from \<noteq> None \<or> pt_random_address from \<noteq> None)\<rparr>, tg))))))))"

section \<open>Generation\<close>

definition next_in_stride :: "packet_desc \<Rightarrow> packet_desc" where
  "next_in_stride d =
    (let c = pd_strideCount d + 1
     in d\<lparr>pd_strideCount := c, pd_nextAddress := pd_strideStart d + c * pd_strideInc d\<rparr>)"

definition next_base :: "rng \<Rightarrow> packet_desc \<Rightarrow> packet_desc res" where
  "next_base rng d =
    bindR (if pd_addressType d = CONFIGURED
           then Inr (d\<lparr>pd_nextAddress := (if pd_striding d then pd_base d + pd_strides d * pd_increment d
                                     else pd_nextAddress d + pd_increment d)\<rparr>)
           else bindR (generator_get rng (pd_randomAddress d))
             (\<lambda>(v, g). Inr (d\<lparr>pd_nextAddress := v, pd_randomAddress := g\<rparr>)))
      (\<lambda>d1. Inr (if pd_striding d1
        then d1\<lparr>pd_strideCount := 0, pd_strideStart := pd_nextAddress d1, pd_strides := pd_strides d1 + 1\<rparr>
        else d1))"

definition wrap_range :: "packet_desc \<Rightarrow> packet_desc" where
  "wrap_range d =
    (if 0 < pd_range d \<and> pd_base d + pd_range d \<le> pd_nextAddress d
     then d\<lparr>pd_nextAddress := pd_base d, pd_strideStart := pd_base d,
            pd_strides := (if pd_striding d then 1 else 0), pd_strideCount := 0\<rparr>
     else d)"

definition getAddress :: "rng \<Rightarrow> packet_desc \<Rightarrow> (u64 \<times> packet_desc) res" where
  "getAddress rng d =
    bindR (if pd_striding d \<and> (pd_strideCount d < pd_strideN d
              \<or> pd_nextAddress d + pd_strideInc d < pd_strideStart d + pd_strideRange d)
           then Inr (next_in_stride d) else next_base rng d)
      (\<lambda>d1. Inr (pd_nextAddress d, wrap_range d1))"

definition getSize :: "rng \<Rightarrow> packet_desc \<Rightarrow> (u64 \<times> packet_desc) res" where
  "getSize rng d =
    (if pd_sizeType d = CONFIGURED then Inr (pd_size d, d)
     else bindR (generator_get rng (pd_randomSize d)) (\<lambda>(v, g). Inr (v, d\<lparr>pd_randomSize := g\<rparr>)))"

unbundle bit_operations_syntax

definition align_address :: "packet_desc \<Rightarrow> u64 \<Rightarrow> u64 \<Rightarrow> u64 res" where
  "align_address d address sz =
    (if \<not> pd_alignAddresses d then Inr address
     else if 0 < pd_alignment d then Inr (address AND NOT (pd_alignment d - 1))
     else bindR (nextPowerTwo sz) (\<lambda>p. Inr (address AND NOT (p - 1))))"

definition pd_send :: "rng \<Rightarrow> u64 \<Rightarrow> packet_desc \<Rightarrow> tagger option
    \<Rightarrow> (packet option \<times> packet_desc \<times> tagger option) res" where
  "pd_send rng now d tg =
    bindR (ensure (pd_initialized d) (ErrorExit ''PacketDesc::send'')) (\<lambda>_.
    if pd_cmd d = CMD_NONE then Inr (None, d, tg)
    else
      bindR (getAddress rng d) (\<lambda>(a, d1).
      bindR (getSize rng d1) (\<lambda>(sz, d2).
      bindR (align_address d2 a sz) (\<lambda>a'.
      let p = new_packet\<lparr>pk_addr := a', pk_size := sz, pk_cmd := pd_cmd d2, pk_time := now\<rparr>
      in if pd_tagged d2 then
           (case tg of None \<Rightarrow> Inl (Undefined ''PacketDesc::send'')
            | Some g \<Rightarrow> (let (p', g') = tagPacket p g in Inr (Some p', d2, Some g')))
         else Inr (Some p, d2, tg)))))"

definition pd_receive :: "packet \<Rightarrow> packet_desc \<Rightarrow> bool res" where
  "pd_receive p d =
    bindR (ensure (pd_initialized d) (ErrorExit ''PacketDesc::receive'')) (\<lambda>_.
    bindR (ensure (pd_waitFor d = pk_cmd p) (ErrorExit ''PacketDesc::receive'')) (\<lambda>_. Inr True))"

section \<open>Reconfiguration\<close>

definition addressReconfigure :: "u64 \<Rightarrow> u64 \<Rightarrow> packet_desc \<Rightarrow> packet_desc res" where
  "addressReconfigure b r d0 =
    (let d = d0\<lparr>pd_base := b, pd_range := r, pd_nextAddress := b, pd_strides := 0, pd_strideCount := 0,
       pd_strideStart := b\<rparr>
     in if pd_addressType d = RANDOM
        then bindR (generator_init (g_type (pd_randomAddress d)) b r (pd_randomAddress d))
          (\<lambda>g. Inr (d\<lparr>pd_randomAddress := g\<rparr>))
        else Inr d)"

definition stride_range :: "u64 \<Rightarrow> packet_desc \<Rightarrow> u64 res" where
  "stride_range toSend d =
    bindR (ensure (\<not> (0 < pd_strideRange d \<and> pd_strideInc d = 0)) (Undefined ''PacketDesc::autoRange'')) (\<lambda>_.
    let stridePackets = (if 0 < pd_strideRange d then pd_strideRange d div pd_strideInc d else pd_strideN d);
        strideSpace = (if 0 < pd_strideRange d then pd_strideRange d else pd_strideInc d * (pd_strideN d - 1));
        inc = pd_increment d
    in bindR (ensure (stridePackets \<noteq> 0) (Undefined ''PacketDesc::autoRange'')) (\<lambda>_.
       let strides = toSend div stridePackets; leftOver = toSend mod stridePackets
       in Inr ((strides - 1) * (if inc < strideSpace then strideSpace else inc) + strideSpace
               + (if leftOver \<noteq> 0 then leftOver * pd_strideInc d + (if strideSpace < inc then inc - strideSpace else 0)
                  else 0))))"

definition new_range :: "u64 \<Rightarrow> packet_desc \<Rightarrow> u64 res" where
  "new_range toSend d =
    (if pd_addressType d = RANDOM then
       (if pd_alignAddresses d then
          (if 0 < pd_alignment d then Inr (toSend * pd_alignment d)
           else bindR (nextPowerTwo (pd_size d)) (\<lambda>p. Inr (toSend * p)))
        else Inr (toSend * pd_size d))
     else if pd_striding d then stride_range toSend d
     else Inr (toSend * pd_increment d))"

definition autoRange :: "u64 \<Rightarrow> bool \<Rightarrow> packet_desc \<Rightarrow> (u64 \<times> packet_desc) res" where
  "autoRange toSend force d =
    bindR (ensure (pd_sizeType d \<noteq> RANDOM) (ErrorExit ''PacketDesc::autoRange'')) (\<lambda>_.
    if 0 < toSend then
      bindR (new_range toSend d) (\<lambda>nr.
      if force \<or> pd_range d = 0 \<or> nr < pd_range d then
        (let d1 = d\<lparr>pd_range := nr\<rparr>
         in if pd_addressType d = RANDOM
            then bindR (generator_init (g_type (pd_randomAddress d)) (pd_base d) nr (pd_randomAddress d))
              (\<lambda>g. Inr (nr, d1\<lparr>pd_randomAddress := g\<rparr>))
            else Inr (nr, d1))
      else Inr (pd_range d, d))
    else bindR (ensure (pd_range d \<noteq> 0) (ErrorExit ''PacketDesc::autoRange'')) (\<lambda>_. Inr (pd_range d, d)))"

section \<open>The range invariant\<close>

definition in_range :: "packet_desc \<Rightarrow> bool" where
  "in_range d \<longleftrightarrow> 0 < pd_range d \<and> unat (pd_base d) + unat (pd_range d) < 2 ^ 64
     \<and> pd_nextAddress d < pd_base d + pd_range d"

lemma wrap_range_keeps [simp]:
  "pd_base (wrap_range d) = pd_base d" "pd_range (wrap_range d) = pd_range d"
  "pd_increment (wrap_range d) = pd_increment d" "pd_striding (wrap_range d) = pd_striding d"
  "pd_addressType (wrap_range d) = pd_addressType d" "pd_randomAddress (wrap_range d) = pd_randomAddress d"
  by (simp_all add: wrap_range_def)

lemma wrap_range_in_range:
  assumes "0 < pd_range d" and "unat (pd_base d) + unat (pd_range d) < 2 ^ 64"
  shows "in_range (wrap_range d)"
proof -
  have "pd_base d < pd_base d + pd_range d"
    using assms by (simp add: word_less_nat_alt unat_add_no_overflow)
  then show ?thesis using assms by (auto simp: in_range_def wrap_range_def not_le)
qed

definition same_shape :: "packet_desc \<Rightarrow> packet_desc \<Rightarrow> bool" where
  "same_shape d d' \<longleftrightarrow> pd_base d' = pd_base d \<and> pd_range d' = pd_range d
    \<and> pd_increment d' = pd_increment d \<and> pd_striding d' = pd_striding d \<and> pd_addressType d' = pd_addressType d"

lemma next_base_keeps:
  assumes "next_base rng d = Inr d'"
  shows "same_shape d d'"
proof (cases "pd_addressType d")
  case CONFIGURED
  with assms show ?thesis by (cases "pd_striding d") (auto simp: next_base_def same_shape_def)
next
  case RANDOM
  with assms obtain v g where "generator_get rng (pd_randomAddress d) = Inr (v, g)"
    by (auto simp: next_base_def bindR_eq_Inr)
  with RANDOM assms show ?thesis by (cases "pd_striding d") (auto simp: next_base_def same_shape_def)
qed

lemma next_in_stride_keeps: "same_shape d (next_in_stride d)"
  by (simp add: next_in_stride_def same_shape_def Let_def)

lemma getAddress_split:
  assumes "getAddress rng d = Inr (a, d')"
  shows "a = pd_nextAddress d \<and> (\<exists>d1. d' = wrap_range d1 \<and> same_shape d d1)"
proof -
  obtain d1 where d1: "(if pd_striding d \<and> (pd_strideCount d < pd_strideN d
              \<or> pd_nextAddress d + pd_strideInc d < pd_strideStart d + pd_strideRange d)
           then Inr (next_in_stride d) else next_base rng d) = Inr d1" "a = pd_nextAddress d" "d' = wrap_range d1"
    using assms unfolding getAddress_def bindR_eq_Inr by auto
  moreover from d1(1) have "d1 = next_in_stride d \<or> next_base rng d = Inr d1" by (auto split: if_splits)
  ultimately show ?thesis using next_base_keeps next_in_stride_keeps by blast
qed

lemma getAddress_keeps:
  assumes "getAddress rng d = Inr (a, d')"
  shows "a = pd_nextAddress d" and "same_shape d d'"
  using getAddress_split [OF assms] by (auto simp: same_shape_def)

lemma getAddress_in_range:
  assumes "in_range d" and "getAddress rng d = Inr (a, d')"
  shows "a < pd_base d + pd_range d \<and> in_range d'"
proof -
  obtain d1 where d1: "a = pd_nextAddress d" "d' = wrap_range d1" "same_shape d d1"
    using getAddress_split [OF assms(2)] by blast
  then have "in_range d'" using wrap_range_in_range [of d1] assms(1) by (simp add: in_range_def same_shape_def)
  with assms d1(1) show ?thesis by (simp add: in_range_def)
qed

section \<open>Sequences of addresses\<close>

fun addresses :: "rng \<Rightarrow> nat \<Rightarrow> packet_desc \<Rightarrow> (u64 list \<times> packet_desc) res" where
  "addresses rng 0 d = Inr ([], d)"
| "addresses rng (Suc n) d =
    bindR (getAddress rng d) (\<lambda>(a, d1).
    bindR (addresses rng n d1) (\<lambda>(as, d2). Inr (a # as, d2)))"

lemma addresses_in_range:
  "in_range d \<Longrightarrow> addresses rng n d = Inr (as, d') \<Longrightarrow>
    in_range d' \<and> (\<forall>a \<in> set as. a < pd_base d + pd_range d)"
proof (induction n arbitrary: d as)
  case (Suc n)
  then obtain a d1 as1 where 1: "getAddress rng d = Inr (a, d1)" "addresses rng n d1 = Inr (as1, d')"
    "as = a # as1" by (auto simp: bindR_eq_Inr)
  have "pd_base d1 = pd_base d" "pd_range d1 = pd_range d"
    using getAddress_keeps(2) [OF 1(1)] by (simp_all add: same_shape_def)
  then show ?case using getAddress_in_range [OF Suc.prems(1) 1(1)] Suc.IH [OF _ 1(2)] 1(3) by auto
qed simp

text \<open>The linear pattern, and its position in the cycle of \<open>cycle d\<close> addresses.\<close>

definition linear :: "packet_desc \<Rightarrow> bool" where
  "linear d \<longleftrightarrow> pd_addressType d = CONFIGURED \<and> \<not> pd_striding d \<and> 0 < pd_increment d \<and> 0 < pd_range d
     \<and> unat (pd_base d) + unat (pd_range d) + unat (pd_increment d) < 2 ^ 64"

definition cycle :: "packet_desc \<Rightarrow> nat" where
  "cycle d = (unat (pd_range d) + unat (pd_increment d) - 1) div unat (pd_increment d)"

lemma cycle_bounds:
  assumes "linear d"
  shows "0 < cycle d" and "j < cycle d \<longleftrightarrow> j * unat (pd_increment d) < unat (pd_range d)"
proof -
  let ?i = "unat (pd_increment d)" and ?r = "unat (pd_range d)"
  have ir: "0 < ?i" "0 < ?r" using assms by (simp_all add: linear_def word_less_nat_alt)
  then have "?i \<le> ?r + ?i - 1" by linarith
  then show "0 < cycle d" unfolding cycle_def using ir by (simp add: div_greater_zero_iff)
  have "j < cycle d \<longleftrightarrow> Suc j \<le> (?r + ?i - 1) div ?i" by (simp add: cycle_def Suc_le_eq)
  also have "\<dots> \<longleftrightarrow> Suc j * ?i \<le> ?r + ?i - 1" by (rule less_eq_div_iff_mult_less_eq [OF ir(1)])
  also have "\<dots> \<longleftrightarrow> j * ?i < ?r" using ir by (simp; linarith)
  finally show "j < cycle d \<longleftrightarrow> j * ?i < ?r" .
qed

lemma linear_step:
  assumes lin: "linear d" and j: "j < cycle d" "unat (pd_nextAddress d) = unat (pd_base d) + j * unat (pd_increment d)"
  shows "\<exists>d'. getAddress rng d = Inr (pd_nextAddress d, d') \<and> linear d' \<and> cycle d' = cycle d
    \<and> pd_base d' = pd_base d \<and> pd_increment d' = pd_increment d
    \<and> unat (pd_nextAddress d') = unat (pd_base d) + (Suc j mod cycle d) * unat (pd_increment d)"
proof -
  let ?i = "unat (pd_increment d)" and ?r = "unat (pd_range d)" and ?b = "unat (pd_base d)"
  let ?d = "d\<lparr>pd_nextAddress := pd_nextAddress d + pd_increment d\<rparr>"
  note L = lin [unfolded linear_def]
  have run: "getAddress rng d = Inr (pd_nextAddress d, wrap_range ?d)"
    using L by (simp add: getAddress_def next_base_def)
  have "j * ?i < ?r" using cycle_bounds(2) [OF lin] j(1) by blast
  then have nxt: "unat (pd_nextAddress d + pd_increment d) = ?b + Suc j * ?i"
    using L j(2) by (subst unat_add_no_overflow) auto
  have br: "unat (pd_base d + pd_range d) = ?b + ?r" using L by (subst unat_add_no_overflow) auto
  have "unat (pd_nextAddress (wrap_range ?d)) = ?b + (Suc j mod cycle d) * ?i"
  proof (cases "Suc j < cycle d")
    case True
    then have "Suc j * ?i < ?r" using cycle_bounds(2) [OF lin] by blast
    then have "\<not> pd_base d + pd_range d \<le> pd_nextAddress d + pd_increment d"
      by (simp only: word_le_nat_alt nxt br nat_add_left_cancel_le not_le)
    with True nxt show ?thesis by (simp add: wrap_range_def)
  next
    case False
    then have "\<not> Suc j * ?i < ?r" using cycle_bounds(2) [OF lin] by blast
    then have "pd_base d + pd_range d \<le> pd_nextAddress d + pd_increment d"
      by (simp only: word_le_nat_alt nxt br nat_add_left_cancel_le not_less)
    moreover have "Suc j = cycle d" using False j(1) by simp
    ultimately show ?thesis using L by (simp add: wrap_range_def)
  qed
  moreover have "linear (wrap_range ?d)" using L by (simp add: linear_def)
  ultimately show ?thesis using run by (simp add: cycle_def)
qed

lemma linear_addresses:
  assumes "linear d" and "j < cycle d" "unat (pd_nextAddress d) = unat (pd_base d) + j * unat (pd_increment d)"
  shows "\<exists>as d'. addresses rng n d = Inr (as, d') \<and>
    map unat as = map (\<lambda>k. unat (pd_base d) + ((j + k) mod cycle d) * unat (pd_increment d)) [0 ..< n]"
  using assms
proof (induction n arbitrary: d j)
  case (Suc n)
  obtain d1 where 1: "getAddress rng d = Inr (pd_nextAddress d, d1)" "linear d1" "cycle d1 = cycle d"
    "pd_base d1 = pd_base d" "pd_increment d1 = pd_increment d"
    "unat (pd_nextAddress d1) = unat (pd_base d) + (Suc j mod cycle d) * unat (pd_increment d)"
    using linear_step [OF Suc.prems] by blast
  have "Suc j mod cycle d < cycle d1" using cycle_bounds(1) [OF Suc.prems(1)] 1(3) by simp
  then obtain as d' where "addresses rng n d1 = Inr (as, d')"
    "map unat as = map (\<lambda>k. unat (pd_base d) + ((Suc j mod cycle d + k) mod cycle d) * unat (pd_increment d)) [0 ..< n]"
    using Suc.IH [OF 1(2), of "Suc j mod cycle d"] 1 by auto
  moreover have "[0 ..< Suc n] = 0 # map Suc [0 ..< n]"
    by (simp add: map_Suc_upt upt_conv_Cons del: upt_Suc)
  ultimately show ?case using 1(1) Suc.prems(2,3) by (simp add: o_def mod_add_left_eq del: upt_Suc)
qed simp

section \<open>Properties\<close>

text \<open>
  C19. A descriptor with a linear pattern generates its addresses cyclically: from a reset, the
  \<open>k\<close>-th address is \<open>base + (k mod c) * increment\<close>, where \<open>c\<close> is the range divided by the
  increment, rounded up. Generation never fails and every address lies below
  \<open>base + range\<close>.
\<close>

theorem linear_addresses_cycle:
  assumes "linear d"
  shows "\<exists>as d'. addresses rng n (pd_reset d) = Inr (as, d') \<and>
    map unat as = map (\<lambda>k. unat (pd_base d) + (k mod cycle d) * unat (pd_increment d)) [0 ..< n]
    \<and> (\<forall>a \<in> set as. pd_base d \<le> a \<and> a < pd_base d + pd_range d)"
proof -
  have lin: "linear (pd_reset d)" and c: "cycle (pd_reset d) = cycle d"
    using assms by (simp_all add: linear_def cycle_def pd_reset_def)
  then obtain as d' where as: "addresses rng n (pd_reset d) = Inr (as, d')"
    "map unat as = map (\<lambda>k. unat (pd_base d) + (k mod cycle d) * unat (pd_increment d)) [0 ..< n]"
    using linear_addresses [OF lin, of 0 rng n] cycle_bounds(1) [OF lin] unfolding c
    by (auto simp: pd_reset_def)
  have br: "unat (pd_base d + pd_range d) = unat (pd_base d) + unat (pd_range d)"
    using assms by (subst unat_add_no_overflow) (auto simp: linear_def)
  have "pd_base d \<le> a \<and> a < pd_base d + pd_range d" if "a \<in> set as" for a
  proof -
    from that have "unat a \<in> set (map unat as)" by simp
    then obtain k where "unat a = unat (pd_base d) + (k mod cycle d) * unat (pd_increment d)"
      unfolding as(2) by auto
    moreover have "(k mod cycle d) * unat (pd_increment d) < unat (pd_range d)"
      using cycle_bounds(2) [OF assms] mod_less_divisor [OF cycle_bounds(1) [OF assms]] by blast
    ultimately show ?thesis by (simp only: word_le_nat_alt word_less_nat_alt br) simp
  qed
  with as show ?thesis by blast
qed

definition linear_example :: packet_desc where
  "linear_example = packet_desc_new\<lparr>pd_initialized := True, pd_cmd := READ_REQ, pd_waitFor := READ_RESP,
     pd_base := 4096, pd_increment := 64, pd_range := 160, pd_size := 64\<rparr>"

theorem linear_addresses_cycle_witness:
  "\<exists>as d'. addresses low_rng 5 (pd_reset linear_example) = Inr (as, d')
    \<and> map unat as = [4096, 4160, 4224, 4096, 4160]"
proof -
  have "linear linear_example" by (simp add: linear_def linear_example_def packet_desc_new_def)
  from linear_addresses_cycle [OF this, of low_rng 5] show ?thesis
    by (auto simp: linear_example_def packet_desc_new_def cycle_def upt_rec)
qed

text \<open>
  C20. Wrap-around holds for every pattern, strided and random ones included: once the next
  address is below \<open>base + range\<close> it stays there, and so does every generated address, whatever
  the random generator draws and however the stride arithmetic overflows.
\<close>

theorem addresses_stay_below_range:
  assumes "in_range d" and "addresses rng n d = Inr (as, d')"
  shows "in_range d' \<and> (\<forall>a \<in> set as. a < pd_base d + pd_range d)"
  using addresses_in_range [OF assms] .

definition stride_example :: packet_desc where
  "stride_example = linear_example\<lparr>pd_striding := True, pd_strideN := 2, pd_strideInc := 16,
     pd_strides := 1, pd_strideStart := 4096, pd_nextAddress := 4096\<rparr>"

lemma stride_example_run: "map_sum id fst (addresses rng 6 stride_example) = Inr [4096, 4112, 4128, 4160, 4176, 4192]"
  by code_simp

theorem addresses_stay_below_range_witness:
  "\<exists>d'. addresses low_rng 6 stride_example = Inr ([4096, 4112, 4128, 4160, 4176, 4192], d') \<and> in_range d'
    \<and> (4192 :: u64) < 4256"
proof -
  obtain d' where r: "addresses low_rng 6 stride_example = Inr ([4096, 4112, 4128, 4160, 4176, 4192], d')"
    using stride_example_run [of low_rng] by (cases "addresses low_rng 6 stride_example") auto
  have "in_range stride_example"
    by (simp add: in_range_def stride_example_def linear_example_def packet_desc_new_def)
  from addresses_stay_below_range [OF this r] r show ?thesis
    by (auto simp: stride_example_def linear_example_def packet_desc_new_def)
qed

text \<open>
  \<open>autoRange\<close> makes room for precisely the packets to be sent: on a linear pattern without
  a range (or with a larger one, or when forced) it sets the range so that the next \<open>toSend\<close>
  addresses from the base are all distinct, \<open>base + k * increment\<close>, and the one after them is the
  base again.
\<close>

theorem autoRange_fits:
  assumes "pd_addressType d = CONFIGURED" and "pd_sizeType d = CONFIGURED" and "\<not> pd_striding d"
    and "0 < pd_increment d" and "0 < toSend"
    and "unat (pd_base d) + (unat toSend + 1) * unat (pd_increment d) < 2 ^ 64"
    and "force \<or> pd_range d = 0 \<or> toSend * pd_increment d < pd_range d"
  shows "\<exists>d' as d''. autoRange toSend force d = Inr (toSend * pd_increment d, d')
    \<and> addresses rng (Suc (unat toSend)) (pd_reset d') = Inr (as, d'')
    \<and> map unat as = map (\<lambda>k. unat (pd_base d) + k * unat (pd_increment d)) [0 ..< unat toSend] @ [unat (pd_base d)]"
proof -
  let ?n = "unat toSend" and ?i = "unat (pd_increment d)"
  let ?d = "d\<lparr>pd_range := toSend * pd_increment d\<rparr>"
  have pos: "0 < ?n" "0 < ?i" using assms(4,5) by (simp_all add: word_less_nat_alt)
  have big: "unat (pd_base d) + (?n * ?i + ?i) < 18446744073709551616" using assms(6) by simp
  then have r: "unat (toSend * pd_increment d) = ?n * ?i" by (simp add: unat_word_ariths)
  then have "0 < toSend * pd_increment d" using pos by (simp add: word_less_nat_alt)
  then have lin: "linear ?d" using assms(1,3,4) big r by (simp add: linear_def)
  have "(?n * ?i + ?i - 1) div ?i = (?n * ?i + (?i - 1)) div ?i" using pos(2) by simp
  also have "\<dots> = ?n" using pos(2) by (simp only: div_mult_self3 div_less)
  finally have c: "cycle ?d = ?n" by (simp add: cycle_def r)
  have run: "autoRange toSend force d = Inr (toSend * pd_increment d, ?d)"
    using assms(1-3,5,7) by (auto simp: autoRange_def new_range_def)
  obtain as d'' where as: "addresses rng (Suc ?n) (pd_reset ?d) = Inr (as, d'')"
    "map unat as = map (\<lambda>k. unat (pd_base d) + (k mod ?n) * ?i) [0 ..< Suc ?n]"
    using linear_addresses_cycle [OF lin, of rng "Suc ?n"] c by auto
  have "map (\<lambda>k. unat (pd_base d) + (k mod ?n) * ?i) [0 ..< ?n] = map (\<lambda>k. unat (pd_base d) + k * ?i) [0 ..< ?n]"
    by simp
  with as run show ?thesis by auto
qed

theorem autoRange_fits_witness:
  "\<exists>d' as d''. autoRange 3 False (linear_example\<lparr>pd_range := 0\<rparr>) = Inr (3 * 64, d')
    \<and> addresses low_rng 4 (pd_reset d') = Inr (as, d'') \<and> map unat as = [4096, 4160, 4224, 4096]"
proof -
  let ?d = "linear_example\<lparr>pd_range := 0\<rparr>"
  have f: "pd_base ?d = 4096" "pd_increment ?d = 64" "pd_range ?d = 0" "pd_striding ?d = False"
    "pd_addressType ?d = CONFIGURED" "pd_sizeType ?d = CONFIGURED"
    by (simp_all add: linear_example_def packet_desc_new_def)
  have n: "Suc (unat (3 :: u64)) = 4" "unat (3 :: u64) = 3" by simp_all
  have m: "map (\<lambda>k. unat (4096 :: u64) + k * unat (64 :: u64)) [0 ..< 3] @ [unat (4096 :: u64)]
      = [4096, 4160, 4224, 4096]"
    by (simp add: upt_rec)
  show ?thesis using autoRange_fits [of ?d 3 False low_rng] unfolding f n m by simp
qed

end
