(* ===== verification/Statistics.thy ===== *)
theory Statistics
  imports Doubles
begin

text \<open>
  Statistics (\<^verbatim>\<open>stats.hh\<close>, \<^verbatim>\<open>stats.cc\<close>): counters of packets, bytes, outstanding transactions
  and FIFO levels, the recorded period, latency and the jitter estimator of RFC 1889, and the
  sum of two objects, from which the statistics of a master are made. The averages that divide
  by a counter or a duration are None where the division is not finite. \<^verbatim>\<open>dump\<close> only formats.
\<close>

record stats =
  st_started :: bool
  st_startTime :: u64
  st_timeScale :: u64
  st_time :: u64
  st_sent :: u64
  st_received :: u64
  st_dataSent :: u64
  st_dataReceived :: u64
  st_prevLatency :: double
  st_jitter :: double
  st_latency :: double
  st_underruns :: u64
  st_overruns :: u64
  st_ot :: u64
  st_otN :: u64
  st_fifoLevel :: u64
  st_fifoLevelN :: u64

definition stats_new :: stats where
  "stats_new = \<lparr>st_started = False, st_startTime = - 1, st_timeScale = 1, st_time = 0, st_sent = 0,
     st_received = 0, st_dataSent = 0, st_dataReceived = 0, st_prevLatency = 0, st_jitter = 0,
     st_latency = 0, st_underruns = 0, st_overruns = 0, st_ot = 0, st_otN = 0, st_fifoLevel = 0,
     st_fifoLevelN = 0\<rparr>"

definition stats_reset :: "stats \<Rightarrow> stats" where
  "stats_reset s = stats_new\<lparr>st_timeScale := st_timeScale s\<rparr>"

definition stats_start :: "u64 \<Rightarrow> stats \<Rightarrow> stats" where
  "stats_start t s = (if st_started s then s else s\<lparr>st_started := True, st_startTime := t\<rparr>)"

definition stats_setTime :: "u64 \<Rightarrow> stats \<Rightarrow> stats" where
  "stats_setTime t s = (if st_time s \<le> t then s\<lparr>st_time := t\<rparr> else s)"

definition stats_send :: "u64 \<Rightarrow> u64 \<Rightarrow> u64 \<Rightarrow> stats \<Rightarrow> stats" where
  "stats_send t data oc s0 =
    (let s = stats_setTime t (stats_start t s0)
     in s\<lparr>st_sent := st_sent s + 1, st_dataSent := st_dataSent s + data, st_ot := st_ot s + oc,
          st_otN := st_otN s + 1\<rparr>)"

definition stats_receive :: "u64 \<Rightarrow> u64 \<Rightarrow> double \<Rightarrow> stats \<Rightarrow> stats" where
  "stats_receive t data l s0 =
    (let s = stats_setTime t (stats_start t s0)
     in s\<lparr>st_received := st_received s + 1, st_dataReceived := st_dataReceived s + data,
          st_jitter := fl_add (st_jitter s)
            (rnd64 (fl_sub \<bar>fl_sub l (st_prevLatency s)\<bar> (st_jitter s) / 16)),
          st_prevLatency := l, st_latency := fl_add (st_latency s) l\<rparr>)"

definition stats_fifoUpdate :: "u64 \<Rightarrow> bool \<Rightarrow> bool \<Rightarrow> stats \<Rightarrow> stats" where
  "stats_fifoUpdate l u ov s =
    s\<lparr>st_fifoLevel := st_fifoLevel s + l, st_fifoLevelN := st_fifoLevelN s + 1,
      st_underruns := (if u then st_underruns s + 1 else st_underruns s),
      st_overruns := (if ov then st_overruns s + 1 else st_overruns s)\<rparr>"

definition stats_getTime :: "stats \<Rightarrow> double option" where
  "stats_getTime s = fl_div (fl_of_u64 (st_time s)) (fl_of_u64 (st_timeScale s))"

definition stats_getStartTime :: "stats \<Rightarrow> double option" where
  "stats_getStartTime s = fl_div (fl_of_u64 (st_startTime s)) (fl_of_u64 (st_timeScale s))"

definition rate_of :: "u64 \<Rightarrow> stats \<Rightarrow> double option" where
  "rate_of data s =
    (if st_time s = 0 then Some 0
     else map_option (\<lambda>x. fl_mul x (fl_of_u64 (st_timeScale s)))
       (fl_div (fl_of_u64 data) (fl_sub (fl_of_u64 (st_time s)) (fl_of_u64 (st_startTime s)))))"

definition sendRate :: "stats \<Rightarrow> double option" where
  "sendRate s = rate_of (st_dataSent s) s"

definition receiveRate :: "stats \<Rightarrow> double option" where
  "receiveRate s = rate_of (st_dataReceived s) s"

definition avgLatency :: "stats \<Rightarrow> double option" where
  "avgLatency s = fl_div (st_latency s) (fl_of_u64 (st_timeScale s * st_received s))"

definition avgJitter :: "stats \<Rightarrow> double option" where
  "avgJitter s = fl_div (st_jitter s) (fl_of_u64 (st_timeScale s))"

definition avgOt :: "stats \<Rightarrow> u64" where
  "avgOt s = (if st_otN s = 0 then 0
     else of_int \<lceil>rnd64 (fl_of_u64 (st_ot s) / fl_of_u64 (st_otN s))\<rceil>)"

definition avgFifoLevel :: "stats \<Rightarrow> u64" where
  "avgFifoLevel s = (if st_fifoLevelN s = 0 then 0 else st_fifoLevel s div st_fifoLevelN s)"

definition stats_sum :: "stats \<Rightarrow> stats \<Rightarrow> stats" where
  "stats_sum s t =
    stats_new\<lparr>st_started := (st_started t \<or> st_started s),
      st_startTime := min (st_startTime s) (st_startTime t),
      st_timeScale := st_timeScale s,
      st_time := max (st_time s) (st_time t),
      st_sent := st_sent s + st_sent t,
      st_received := st_received s + st_received t,
      st_dataSent := st_dataSent s + st_dataSent t,
      st_dataReceived := st_dataReceived s + st_dataReceived t,
      st_latency := fl_add (st_latency s) (st_latency t),
      st_jitter := fl_add (st_jitter s) (st_jitter t),
      st_underruns := st_underruns s + st_underruns t,
      st_overruns := st_overruns s + st_overruns t,
      st_ot := st_ot s + st_ot t,
      st_otN := st_otN s + st_otN t,
      st_fifoLevel := st_fifoLevel s + st_fifoLevel t,
      st_fifoLevelN := st_fifoLevelN s + st_fifoLevelN t\<rparr>"

text \<open>The operator asserts that both objects have the same time scale.\<close>

definition stats_plus :: "stats \<Rightarrow> stats \<Rightarrow> stats res" where
  "stats_plus s t = bindR (ensure (st_timeScale s = st_timeScale t) (Uncaught ''Stats::operator+''))
     (\<lambda>_. Inr (stats_sum s t))"

section \<open>What a sequence of records amounts to\<close>

datatype stat_record = Sent u64 u64 u64 | Received u64 u64 double | Level u64 bool bool

fun record_stat :: "stat_record \<Rightarrow> stats \<Rightarrow> stats" where
  "record_stat (Sent t d oc) s = stats_send t d oc s"
| "record_stat (Received t d l) s = stats_receive t d l s"
| "record_stat (Level l u ov) s = stats_fifoUpdate l u ov s"

fun sent_data :: "stat_record \<Rightarrow> u64 list" where
  "sent_data (Sent t d oc) = [d]"
| "sent_data r = []"

fun received_data :: "stat_record \<Rightarrow> u64 list" where
  "received_data (Received t d l) = [d]"
| "received_data r = []"

fun record_times :: "stat_record \<Rightarrow> u64 list" where
  "record_times (Sent t d oc) = [t]"
| "record_times (Received t d l) = [t]"
| "record_times (Level l u ov) = []"

fun first_or :: "'a \<Rightarrow> 'a list \<Rightarrow> 'a" where
  "first_or d [] = d"
| "first_or d (x # xs) = x"

lemma first_or_append [simp]: "first_or d (xs @ ys) = first_or (first_or d ys) xs"
  by (cases xs) simp_all

lemma fold_record_counts:
  "st_sent (fold record_stat rs s) = st_sent s + of_nat (length (concat (map sent_data rs)))
   \<and> st_dataSent (fold record_stat rs s) = st_dataSent s + sum_list (concat (map sent_data rs))
   \<and> st_received (fold record_stat rs s) = st_received s + of_nat (length (concat (map received_data rs)))
   \<and> st_dataReceived (fold record_stat rs s) = st_dataReceived s + sum_list (concat (map received_data rs))"
proof (induction rs arbitrary: s)
  case (Cons r rs)
  show ?case by (cases r) (simp_all add: Cons stats_send_def stats_receive_def stats_fifoUpdate_def
      stats_setTime_def stats_start_def Let_def)
qed simp

lemma setTime_max: "st_time (stats_setTime t s) = max t (st_time s)"
  by (auto simp: stats_setTime_def max_def)

lemma fold_record_time:
  "st_time (fold record_stat rs s) = fold max (concat (map record_times rs)) (st_time s)"
proof (induction rs arbitrary: s)
  case (Cons r rs)
  show ?case by (cases r) (simp_all add: Cons stats_send_def stats_receive_def stats_fifoUpdate_def
      setTime_max stats_start_def Let_def)
qed simp

lemma fold_record_start:
  "st_started (fold record_stat rs s) = (st_started s \<or> concat (map record_times rs) \<noteq> [])
   \<and> st_startTime (fold record_stat rs s) = (if st_started s then st_startTime s
        else first_or (st_startTime s) (concat (map record_times rs)))"
proof (induction rs arbitrary: s)
  case (Cons r rs)
  show ?case by (cases r) (simp_all add: Cons stats_send_def stats_receive_def stats_fifoUpdate_def
      stats_setTime_def stats_start_def Let_def)
qed simp

text \<open>
  The counters are what they say: after any sequence of records a fresh object holds the
  number of packets sent and received, their bytes, the time of the first record as its start
  and the largest time seen as its finish, the jitter and FIFO fields having no influence.
\<close>

theorem stats_count_records:
  "let s = fold record_stat rs stats_new; ts = concat (map record_times rs)
   in st_sent s = of_nat (length (concat (map sent_data rs)))
    \<and> st_dataSent s = sum_list (concat (map sent_data rs))
    \<and> st_received s = of_nat (length (concat (map received_data rs)))
    \<and> st_dataReceived s = sum_list (concat (map received_data rs))
    \<and> (st_started s \<longleftrightarrow> ts \<noteq> []) \<and> st_time s = fold max ts 0
    \<and> st_startTime s = first_or (- 1) ts"
proof -
  have n: "st_sent stats_new = 0" "st_dataSent stats_new = 0" "st_received stats_new = 0"
    "st_dataReceived stats_new = 0" "\<not> st_started stats_new" "st_time stats_new = 0"
    "st_startTime stats_new = - 1"
    by (simp_all add: stats_new_def)
  show ?thesis using fold_record_counts [of rs stats_new] fold_record_time [of rs stats_new]
    fold_record_start [of rs stats_new]
    by (simp add: n Let_def)
qed

text \<open>
  Adding statistics commutes, and adds every counter, takes the earlier start and the later
  finish; it is defined just when the time scales agree.
\<close>

theorem stats_plus_merges:
  "stats_plus s t = (if st_timeScale s = st_timeScale t then Inr (stats_sum s t) else Inl (Uncaught ''Stats::operator+''))
   \<and> (st_timeScale s = st_timeScale t \<longrightarrow> stats_plus s t = stats_plus t s)
   \<and> st_sent (stats_sum s t) = st_sent s + st_sent t \<and> st_received (stats_sum s t) = st_received s + st_received t
   \<and> st_dataSent (stats_sum s t) = st_dataSent s + st_dataSent t
   \<and> st_startTime (stats_sum s t) \<le> st_startTime s \<and> st_time s \<le> st_time (stats_sum s t)"
proof -
  have "stats_sum s t = stats_sum t s" if "st_timeScale s = st_timeScale t"
    using that by (simp add: stats_sum_def fl_add_def ac_simps)
  then show ?thesis by (auto simp: stats_plus_def stats_sum_def)
qed

theorem stats_plus_merges_witness:
  "stats_plus (stats_send 3 10 1 stats_new) (stats_send 5 20 1 stats_new)
     = stats_plus (stats_send 5 20 1 stats_new) (stats_send 3 10 1 stats_new)
   \<and> st_timeScale (stats_send 3 10 1 stats_new) = st_timeScale (stats_send 5 20 1 stats_new)"
proof -
  have h: "st_timeScale (stats_send 3 10 1 stats_new) = st_timeScale (stats_send 5 20 1 stats_new)"
    by (simp add: stats_send_def stats_new_def stats_setTime_def stats_start_def)
  show ?thesis using stats_plus_merges [of "stats_send 3 10 1 stats_new" "stats_send 5 20 1 stats_new"] h by blast
qed

end
