(* ===== verification/Fifo_Model.thy ===== *)
theory Fifo_Model
  imports Event_Manager Proto Doubles
begin

text \<open>
  The ATP FIFO (\<^verbatim>\<open>fifo.hh\<close>, \<^verbatim>\<open>fifo.cc\<close>): the level of a device buffer that a configured
  rate fills or drains, the data in flight, and the latency tracker. The \<^verbatim>\<open>EventManager\<close> base
  is the field \<open>ff_em\<close>; \<open>ff_attached\<close> says that the pointer to the manager has been set.

  An operation that ends with \<^verbatim>\<open>event()\<close> is modelled up to that call; the two emissions of
  \<^verbatim>\<open>event()\<close> are \<open>fifo_event_empty\<close> and \<open>fifo_event_full\<close>, which give the event to be
  dispatched, if any, and the handlers of the manager call them in this order. Waits give the
  keys that are subscribed to.
\<close>

section \<open>State\<close>

record fifo =
  ff_em :: em
  ff_attached :: bool
  ff_type :: ptype
  ff_startupLevel :: u64
  ff_time :: u64
  ff_level :: u64
  ff_carry :: double
  ff_tracker :: "u64 list"
  ff_initialFillLevel :: u64
  ff_maxLevel :: u64
  ff_rate :: u64
  ff_period :: u64
  ff_ot :: "u64 list"
  ff_inFlightData :: u64
  ff_firstActivation :: bool
  ff_firstActivationTime :: u64
  ff_linked :: bool
  ff_active :: bool
  ff_trackerEnabled :: bool

definition fifo_new :: fifo where
  "fifo_new = \<lparr>ff_em = em_new 0, ff_attached = False, ff_type = P_READ, ff_startupLevel = 0,
     ff_time = 0, ff_level = 0, ff_carry = 0, ff_tracker = [], ff_initialFillLevel = 0,
     ff_maxLevel = 0, ff_rate = 0, ff_period = 0, ff_ot = [], ff_inFlightData = 0,
     ff_firstActivation = False, ff_firstActivationTime = 0, ff_linked = False,
     ff_active = False, ff_trackerEnabled = False\<rparr>"

definition fifo_empty :: "fifo \<Rightarrow> bool" where
  "fifo_empty f \<longleftrightarrow> ff_level f = 0"

definition fifo_full :: "fifo \<Rightarrow> bool" where
  "fifo_full f \<longleftrightarrow> ff_maxLevel f \<le> ff_level f \<and> ff_maxLevel f \<noteq> 0"

definition fifo_getOt :: "fifo \<Rightarrow> u64" where
  "fifo_getOt f = of_nat (length (ff_ot f))"

definition fifo_getRate :: "fifo \<Rightarrow> u64 \<times> u64" where
  "fifo_getRate f = (ff_rate f, ff_period f)"

definition fifo_activate :: "fifo \<Rightarrow> fifo" where
  "fifo_activate f = f\<lparr>ff_active := True\<rparr>"

section \<open>Reset and initialisation\<close>

definition fifo_reset :: "fifo \<Rightarrow> fifo" where
  "fifo_reset f = f\<lparr>ff_level := ff_startupLevel f, ff_initialFillLevel := ff_startupLevel f,
     ff_firstActivationTime := 0, ff_time := 0, ff_active := False, ff_firstActivation := False,
     ff_tracker := [], ff_ot := [], ff_inFlightData := 0, ff_carry := 0\<rparr>"

definition fifo_wait :: "etype \<Rightarrow> u64 \<Rightarrow> bool \<Rightarrow> fifo \<Rightarrow> (ekey list \<times> fifo) res" where
  "fifo_wait t i retain f =
    bindR (ensure (t = NO_EVENT \<or> ff_attached f) (Undefined ''EventManager::waitEvent'')) (\<lambda>_.
    Inr (if t = NO_EVENT then [] else [(t, i)],
         f\<lparr>ff_em := em_wait t i retain (ff_em f), ff_linked := True\<rparr>))"

fun fifo_waits :: "ekey list \<Rightarrow> fifo \<Rightarrow> (ekey list \<times> fifo) res" where
  "fifo_waits [] f = Inr ([], f)"
| "fifo_waits ((t, i) # ks) f =
    bindR (fifo_wait t i False f) (\<lambda>(s, f1). bindR (fifo_waits ks f1) (\<lambda>(s', f2). Inr (s @ s', f2)))"

text \<open>
  \<open>setup\<close> takes the event manager of the owning profile, whose FIFO level waits are imported.
\<close>

definition fifo_setup :: "em \<Rightarrow> fifo \<Rightarrow> (ekey list \<times> fifo) res" where
  "fifo_setup owner f =
    bindR (ensure (\<not> (ff_maxLevel f < ff_rate f \<and> 0 < ff_maxLevel f)) (ErrorExit ''Fifo::setup'')) (\<lambda>_.
    let f1 = fifo_reset f;
        f2 = f1\<lparr>ff_attached := True, ff_em := (ff_em f1)\<lparr>em_eventId := em_eventId owner\<rparr>\<rparr>
    in fifo_waits (filter (\<lambda>k. category (fst k) = FIFO_LEVEL) (em_waited owner)) f2)"

definition fifo_init :: "em \<Rightarrow> ptype \<Rightarrow> u64 \<times> u64 \<Rightarrow> fifo_conf \<Rightarrow> bool \<Rightarrow> fifo \<Rightarrow> (ekey list \<times> fifo) res" where
  "fifo_init owner t timing conf e f =
    bindR (case fc_full_level conf of Some m \<Rightarrow> Inr m
           | None \<Rightarrow> (case fc_full conf of Some m \<Rightarrow> Inr m | None \<Rightarrow> Inl (ErrorExit ''Fifo::init''))) (\<lambda>m.
    let confLevel = (case fc_start_fifo_level conf of Some l \<Rightarrow> l
          | None \<Rightarrow> (case fc_start conf of Some l \<Rightarrow> l
            | None \<Rightarrow> if t = P_WRITE then LEVEL_FULL else LEVEL_EMPTY))
    in fifo_setup owner (f\<lparr>ff_type := t, ff_trackerEnabled := e, ff_rate := fst timing,
         ff_period := snd timing, ff_maxLevel := m,
         ff_startupLevel := (if confLevel = LEVEL_FULL then m else 0)\<rparr>))"

definition fifo_init_params :: "em \<Rightarrow> ptype \<Rightarrow> u64 \<Rightarrow> u64 \<Rightarrow> u64 \<Rightarrow> u64 \<Rightarrow> bool \<Rightarrow> fifo
    \<Rightarrow> (ekey list \<times> fifo) res" where
  "fifo_init_params owner t r p l m e f =
    fifo_setup owner (f\<lparr>ff_type := t, ff_rate := r, ff_period := p, ff_startupLevel := l, ff_level := l,
      ff_maxLevel := m, ff_trackerEnabled := e\<rparr>)"

section \<open>The rate\<close>

definition errorCorrectionPrecision :: double where
  "errorCorrectionPrecision = 100000000"

text \<open>The bytes of a period of \<open>deltaT\<close>, as a double; a zero period gives no finite value.\<close>

definition rate_bytes :: "u64 \<Rightarrow> fifo \<Rightarrow> double option" where
  "rate_bytes deltaT f =
    map_option (\<lambda>x. fl_mul x (fl_of_u64 (ff_rate f))) (fl_div (fl_of_u64 deltaT) (fl_of_u64 (ff_period f)))"

definition carry_bytes :: "double \<Rightarrow> u64 \<Rightarrow> double" where
  "carry_bytes fupdate upd =
    rnd64 (fl_floor (fl_add (fl_mul (fl_sub fupdate (fl_of_u64 upd)) errorCorrectionPrecision) (1 / 2))
      / errorCorrectionPrecision)"

fun carry_loop :: "nat \<Rightarrow> double \<Rightarrow> u64 \<Rightarrow> (double \<times> u64) res" where
  "carry_loop n carry upd =
    (if 1 \<le> carry then (case n of 0 \<Rightarrow> Inl OutOfFuel | Suc m \<Rightarrow> carry_loop m (fl_sub carry 1) (upd + 1))
     else Inr (carry, upd))"

declare carry_loop.simps [simp del]

definition carry_fuel :: nat where
  "carry_fuel = 3"

definition rate_update :: "u64 \<Rightarrow> fifo \<Rightarrow> (double \<times> u64) res" where
  "rate_update deltaT f =
    (case rate_bytes deltaT f of None \<Rightarrow> Inl (Undefined ''Fifo::update'')
     | Some fupdate \<Rightarrow>
    (case fl_to_u64 fupdate of None \<Rightarrow> Inl (Undefined ''Fifo::update'')
     | Some upd \<Rightarrow> carry_loop carry_fuel (fl_add (ff_carry f) (carry_bytes fupdate upd)) upd))"

definition fill_or_track :: "u64 \<Rightarrow> u64 \<Rightarrow> fifo \<Rightarrow> fifo" where
  "fill_or_track deltaT upd f =
    (if 0 < ff_initialFillLevel f
     then f\<lparr>ff_initialFillLevel := (if upd \<le> ff_initialFillLevel f then ff_initialFillLevel f - upd else 0)\<rparr>
     else if ff_trackerEnabled f
     then f\<lparr>ff_tracker := ff_tracker f @ replicate (unat (deltaT div ff_period f)) (ff_rate f)\<rparr>
     else f)"

definition first_activate :: "u64 \<Rightarrow> fifo \<Rightarrow> fifo" where
  "first_activate t f =
    (if \<not> ff_linked f \<or> \<not> ff_firstActivation f then
       (let f1 = (if \<not> ff_firstActivation f
                  then f\<lparr>ff_firstActivation := True, ff_firstActivationTime := t\<rparr> else f)
        in f1\<lparr>ff_active := True\<rparr>)
     else f)"

definition resize_tracker :: "nat \<Rightarrow> u64 list \<Rightarrow> u64 list" where
  "resize_tracker n tr = take n tr @ replicate (n - length tr) 0"

text \<open>The level after \<open>upd\<close> bytes, with the underrun and overrun flags that were raised.\<close>

definition apply_update :: "u64 \<Rightarrow> fifo \<Rightarrow> (bool \<times> bool \<times> fifo) res" where
  "apply_update upd f =
    (case ff_type f of
       P_READ \<Rightarrow>
         if ff_level f < upd
         then Inr (True, False, f\<lparr>ff_level := 0, ff_tracker := (if ff_trackerEnabled f then [] else ff_tracker f)\<rparr>)
         else Inr (False, False, f\<lparr>ff_level := ff_level f - upd\<rparr>)
     | P_WRITE \<Rightarrow>
         if ff_maxLevel f < ff_level f + upd then
           bindR (ensure (ff_trackerEnabled f \<longrightarrow> ff_rate f \<noteq> 0) (Undefined ''Fifo::update'')) (\<lambda>_.
           Inr (False, True, f\<lparr>ff_level := ff_maxLevel f,
             ff_tracker := (if ff_trackerEnabled f
               then resize_tracker (unat (ff_maxLevel f div ff_rate f)) (ff_tracker f) else ff_tracker f)\<rparr>))
         else Inr (False, False, f\<lparr>ff_level := ff_level f + upd\<rparr>)
     | P_NONE \<Rightarrow> Inr (False, False, f))"

definition fifo_update :: "u64 \<Rightarrow> fifo \<Rightarrow> (bool \<times> bool \<times> fifo) res" where
  "fifo_update t f =
    bindR (ensure (\<not> t < ff_time f) (ErrorExit ''Fifo::update'')) (\<lambda>_.
    let deltaT = t - ff_time f
    in bindR (if \<not> ff_active f then Inr (0, first_activate t f)
              else if 0 < ff_rate f then
                bindR (rate_update deltaT f) (\<lambda>(carry, upd).
                Inr (upd, fill_or_track deltaT upd (f\<lparr>ff_carry := carry\<rparr>)))
              else Inr (0, f)) (\<lambda>(upd, f1).
       bindR (apply_update upd f1) (\<lambda>(u, ov, f2). Inr (u, ov, f2\<lparr>ff_time := t\<rparr>))))"

section \<open>Sending\<close>

definition nextTransmissionTime :: "u64 \<Rightarrow> fifo \<Rightarrow> u64 res" where
  "nextTransmissionTime data f =
    bindR (ensure (ff_period f \<noteq> 0) (Undefined ''Fifo::nextTransmissionTime'')) (\<lambda>_.
    let time = ff_time f; fat = ff_firstActivationTime f; period = ff_period f; rate = ff_rate f;
        n = (time - fat + period - 1) div period;
        base = fat + n * period;
        forecast = (if time < base then ((base - time) * rate) div period else 0);
        fits = (rate \<noteq> 0 \<and> (ff_maxLevel f = 0 \<or> data \<le> ff_maxLevel f - ff_inFlightData f))
    in Inr (case ff_type f of
         P_READ \<Rightarrow> if fits then base + ((data - forecast + ff_level f + ff_inFlightData f
                     - ff_maxLevel f + rate - 1) div rate) * period else 0
       | P_WRITE \<Rightarrow> if fits then base + ((data - forecast - ff_level f + ff_inFlightData f
                     + rate - 1) div rate) * period else 0
       | P_NONE \<Rightarrow> 0))"

definition can_send :: "u64 \<Rightarrow> fifo \<Rightarrow> bool" where
  "can_send data f =
    (case ff_type f of
       P_READ \<Rightarrow> ff_level f + data + ff_inFlightData f \<le> ff_maxLevel f \<or> ff_maxLevel f = 0
     | P_WRITE \<Rightarrow> data + ff_inFlightData f \<le> ff_level f \<or> ff_maxLevel f = 0
     | P_NONE \<Rightarrow> False)"

fun serve_tracker :: "u64 \<Rightarrow> u64 list \<Rightarrow> u64 list" where
  "serve_tracker toServe [] = []"
| "serve_tracker toServe (x # xs) =
    (if toServe = 0 then x # xs
     else if x \<le> toServe then serve_tracker (toServe - x) xs else (x - toServe) # xs)"

text \<open>\<^verbatim>\<open>Fifo::send\<close> up to \<^verbatim>\<open>event()\<close>: the verdict, the flags, the next time and the request time.\<close>

definition fifo_send :: "u64 \<Rightarrow> u64 \<Rightarrow> fifo \<Rightarrow> (bool \<times> bool \<times> bool \<times> u64 \<times> u64 \<times> fifo) res" where
  "fifo_send t data f =
    bindR (fifo_update t f) (\<lambda>(u, ov, f1).
    let ok = can_send data f1
    in bindR (if ok \<and> 0 < data
              then Inr (0, f1\<lparr>ff_inFlightData := ff_inFlightData f1 + data, ff_ot := ff_ot f1 @ [data]\<rparr>)
              else bindR (nextTransmissionTime data f1) (\<lambda>n. Inr (n, f1))) (\<lambda>(next, f2).
       if ok \<and> ff_rate f2 \<noteq> 0 then
         (let tr = (if ff_trackerEnabled f2 then serve_tracker data (ff_tracker f2) else ff_tracker f2);
              request_time = (if tr \<noteq> [] then t - (of_nat (length tr) - 1) * ff_period f2 else t)
          in bindR (ensure (\<not> ff_time f2 < request_time) (ErrorExit ''Fifo::send'')) (\<lambda>_.
             Inr (ok, u, ov, next, request_time, f2\<lparr>ff_tracker := tr\<rparr>)))
       else Inr (ok, u, ov, next, t, f2)))"

section \<open>Receiving\<close>

text \<open>
  The responses shorten the list of outstanding transactions from the front; taking the front
  of an empty list is undefined.
\<close>

fun serve_ot :: "u64 \<Rightarrow> u64 list \<Rightarrow> (bool \<times> u64 list) res" where
  "serve_ot residual [] = (if residual = 0 then Inr (False, []) else Inl (Undefined ''Fifo::receive''))"
| "serve_ot residual (x # xs) =
    (if residual = 0 then Inr (False, x # xs)
     else if residual < x then Inr (False, (x - residual) # xs)
     else bindR (serve_ot (residual - x) xs) (\<lambda>(_, ys). Inr (True, ys)))"

definition response_level :: "u64 \<Rightarrow> fifo \<Rightarrow> fifo" where
  "response_level data f =
    (case ff_type f of
       P_READ \<Rightarrow> f\<lparr>ff_level := ff_level f
         + min data (if 0 < ff_maxLevel f then ff_maxLevel f - ff_level f else data)\<rparr>
     | P_WRITE \<Rightarrow> f\<lparr>ff_level := ff_level f - min (ff_level f) data\<rparr>
     | P_NONE \<Rightarrow> f)"

text \<open>\<^verbatim>\<open>Fifo::receive\<close> up to \<^verbatim>\<open>event()\<close>: whether a whole packet was received, and the flags.\<close>

definition fifo_receive :: "u64 \<Rightarrow> u64 \<Rightarrow> fifo \<Rightarrow> (bool \<times> bool \<times> bool \<times> fifo) res" where
  "fifo_receive t data f =
    bindR (if ff_ot f \<noteq> [] then
             bindR (serve_ot data (ff_ot f)) (\<lambda>(ret, ots).
             Inr (ret, (response_level data
               (f\<lparr>ff_inFlightData := ff_inFlightData f - min (ff_inFlightData f) data\<rparr>))\<lparr>ff_ot := ots\<rparr>))
           else if 0 < data then Inl (ErrorExit ''Fifo::receive'')
           else Inr (False, f)) (\<lambda>(ret, f1).
    bindR (fifo_update t f1) (\<lambda>(u, ov, f2). Inr (ret, u, ov, f2)))"

section \<open>Events\<close>

definition fifo_emit :: "etype \<Rightarrow> u64 \<Rightarrow> fifo \<Rightarrow> fifo \<times> event option" where
  "fifo_emit t now f =
    (if ff_attached f then (let (m, e) = em_emit t now (ff_em f) in (f\<lparr>ff_em := m\<rparr>, e)) else (f, None))"

definition fifo_event_empty :: "u64 \<Rightarrow> fifo \<Rightarrow> fifo \<times> event option" where
  "fifo_event_empty now f = fifo_emit (if \<not> fifo_empty f then FIFO_NOT_EMPTY else FIFO_EMPTY) now f"

definition fifo_event_full :: "u64 \<Rightarrow> fifo \<Rightarrow> fifo \<times> event option" where
  "fifo_event_full now f = fifo_emit (if \<not> fifo_full f then FIFO_NOT_FULL else FIFO_FULL) now f"

fun flip_event :: "etype \<Rightarrow> etype" where
  "flip_event FIFO_EMPTY = FIFO_NOT_EMPTY"
| "flip_event FIFO_FULL = FIFO_NOT_FULL"
| "flip_event FIFO_NOT_EMPTY = FIFO_EMPTY"
| "flip_event FIFO_NOT_FULL = FIFO_FULL"
| "flip_event _ = NO_EVENT"

definition fifo_receiveEvent :: "event \<Rightarrow> fifo \<Rightarrow> (bool \<times> ekey list \<times> fifo) res" where
  "fifo_receiveEvent e f =
    bindR (em_receive e (ff_em f)) (\<lambda>(ok, m).
    let f1 = f\<lparr>ff_em := m\<rparr>
    in if ok \<and> ff_linked f1 then
         bindR (fifo_wait (flip_event (ev_type e)) (ev_id e) False (f1\<lparr>ff_active := \<not> ff_active f1\<rparr>)) (\<lambda>(subs, f2).
         Inr (ok, subs, if getWaitedCount FIFO_LEVEL (ff_em f2) = 0
           then f2\<lparr>ff_active := True, ff_linked := False\<rparr> else f2))
       else Inr (ok, [], f1))"

end
