(* ===== verification/Fifo_Laws.thy ===== *)
theory Fifo_Laws
  imports Fifo_Model
begin

text \<open>
  The FIFO keeps its promises. The invariant \<open>fifo_ok\<close> of a bounded FIFO: the carry is a
  fraction of a byte, the data in flight is the sum of the outstanding transactions, a READ
  FIFO has room for all data in flight, and a WRITE FIFO holds all data in flight. Admissible
  operations (time does not go back, the rate does not overflow, responses answer requests)
  return and keep it.
\<close>

section \<open>The carry\<close>

lemma fl_of_u64_nonneg: "0 \<le> fl_of_u64 w"
  unfolding fl_of_u64_def by (rule rnd64_nonneg) (rule of_nat_0_le_iff)

lemma fl_to_u64_floor:
  assumes "fl_to_u64 x = Some u" and "0 \<le> x"
  shows "of_nat (unat u) = rat_of_int \<lfloor>x\<rfloor>" and "x < 18446744073709551616"
proof -
  from assms have x: "x < 18446744073709551616" "u = of_int \<lfloor>x\<rfloor>"
    by (auto simp: fl_to_u64_def split: if_splits)
  then have f: "0 \<le> \<lfloor>x\<rfloor>" "\<lfloor>x\<rfloor> < 18446744073709551616" using assms(2) by (simp_all add: floor_less_iff)
  then have "u = of_nat (nat \<lfloor>x\<rfloor>)" using x(2) by simp
  then have "unat u = nat \<lfloor>x\<rfloor>" using f by (simp only: unat_of_nat_u64 nat_less_iff)
  then show "of_nat (unat u) = rat_of_int \<lfloor>x\<rfloor>" using f(1) by (simp only: of_nat_nat)
  show "x < 18446744073709551616" by (rule x(1))
qed

lemma carry_bytes_bounds:
  assumes "fl_to_u64 x = Some u" and "x = rnd64 y" and "0 \<le> y"
  shows "0 \<le> carry_bytes x u" and "carry_bytes x u \<le> 1"
proof -
  have x0: "0 \<le> x" using assms(2,3) by (simp add: rnd64_nonneg)
  have fu: "fl_of_u64 u = rnd64 (of_int \<lfloor>rnd64 y\<rfloor>)"
    unfolding fl_of_u64_def using fl_to_u64_floor(1) [OF assms(1) x0] assms(2) by (simp only:)
  define d where "d = x - fl_of_u64 u"
  have d: "0 \<le> d" "d \<le> 1" using rnd64_frac [OF assms(3)] unfolding d_def assms(2) fu by linarith+
  define a where "a = rnd64 (rnd64 d * 100000000)"
  have "0 \<le> rnd64 d" "rnd64 d \<le> 1" using d by (simp_all add: rnd64_nonneg rnd64_le_1)
  then have "0 \<le> rnd64 d * 100000000" "rnd64 d * 100000000 \<le> of_int 100000000" by simp_all
  then have a: "0 \<le> a" "a \<le> 100000000"
    unfolding a_def using rnd64_le_int [of _ 100000000] rnd64_nonneg by force+
  define b where "b = rnd64 (a + 1 / 2)"
  have "0 \<le> b" unfolding b_def using a by (intro rnd64_nonneg) simp
  moreover have "b \<le> of_int 200000001 / 2"
    unfolding b_def using a by (intro rnd64_le_half) simp_all
  ultimately  have f: "0 \<le> \<lfloor>b\<rfloor>" "\<lfloor>b\<rfloor> \<le> 100000000" by linarith+
  have cb: "carry_bytes x u = rnd64 (of_int \<lfloor>b\<rfloor> / 100000000)"
    by (simp add: carry_bytes_def fl_floor_def fl_add_def fl_mul_def fl_sub_def errorCorrectionPrecision_def
        a_def b_def d_def)
  have q: "0 \<le> rat_of_int \<lfloor>b\<rfloor> / 100000000" "rat_of_int \<lfloor>b\<rfloor> / 100000000 \<le> 1" using f by simp_all
  show "0 \<le> carry_bytes x u" "carry_bytes x u \<le> 1"
    unfolding cb using q by (simp_all add: rnd64_nonneg rnd64_le_1)
qed

lemma carry_loop_ends:
  assumes "0 \<le> c" and "c \<le> 2"
  shows "\<exists>c' k. carry_loop carry_fuel c u = Inr (c', u + of_nat k) \<and> 0 \<le> c' \<and> c' < 1 \<and> k \<le> 2"
proof (cases "c < 1")
  case True
  then show ?thesis using assms(1) by (intro exI [of _ c] exI [of _ 0]) (simp add: carry_loop.simps)
next
  case False
  define d where "d = rnd64 (c - 1)"
  have d: "0 \<le> d" "d \<le> 1" unfolding d_def using False assms(2) by (simp_all add: rnd64_nonneg rnd64_le_1)
  have s: "carry_loop carry_fuel c u = carry_loop 2 d (u + 1)"
  proof -
    have fuel: "carry_fuel = Suc 2" by (simp add: carry_fuel_def)
    show ?thesis unfolding fuel using False by (subst carry_loop.simps) (simp add: fl_sub_def d_def)
  qed
  show ?thesis
  proof (cases "d < 1")
    case True
    then show ?thesis using d s by (intro exI [of _ d] exI [of _ 1]) (simp add: carry_loop.simps)
  next
    case False
    with d have "d = 1" by simp
    then have "carry_loop 2 d (u + 1) = Inr (0, u + of_nat 2)"
      by (simp add: carry_loop.simps fl_sub_def rnd64_def)
    with s show ?thesis by (metis order_refl zero_less_one)
  qed
qed

definition rate_fits :: "u64 \<Rightarrow> fifo \<Rightarrow> bool" where
  "rate_fits t f \<longleftrightarrow> (ff_active f \<and> 0 < ff_rate f \<longrightarrow>
     (case rate_bytes (t - ff_time f) f of None \<Rightarrow> False | Some x \<Rightarrow> x < 4611686018427387904))"

lemma rate_bytes_rnd: "rate_bytes dt f = Some x \<Longrightarrow> \<exists>y. x = rnd64 y \<and> 0 \<le> y"
proof -
  assume "rate_bytes dt f = Some x"
  then obtain q where q: "fl_div (fl_of_u64 dt) (fl_of_u64 (ff_period f)) = Some q"
    "x = fl_mul q (fl_of_u64 (ff_rate f))"
    by (auto simp: rate_bytes_def)
  from q(1) have "q = rnd64 (fl_of_u64 dt / fl_of_u64 (ff_period f))" by (auto simp: fl_div_def split: if_splits)
  then have "0 \<le> q" by (simp add: rnd64_nonneg fl_of_u64_nonneg)
  then show ?thesis using q(2) by (auto simp: fl_mul_def fl_of_u64_nonneg)
qed

lemma rate_update_ok:
  assumes carry: "0 \<le> ff_carry f" "ff_carry f < 1"
    and fits: "rate_bytes dt f = Some x" "x < 4611686018427387904"
  shows "\<exists>c upd. rate_update dt f = Inr (c, upd) \<and> 0 \<le> c \<and> c < 1
    \<and> rat_of_nat (unat upd) \<le> x + 2 \<and> unat upd < 2 ^ 63"
proof -
  obtain y where y: "x = rnd64 y" "0 \<le> y" using rate_bytes_rnd [OF fits(1)] by blast
  then have x0: "0 \<le> x" by (simp add: rnd64_nonneg)
  then obtain u where u: "fl_to_u64 x = Some u" using fits(2) by (auto simp: fl_to_u64_def)
  note fl = fl_to_u64_floor(1) [OF u x0]
  have cb: "0 \<le> carry_bytes x u" "carry_bytes x u \<le> 1" using carry_bytes_bounds [OF u y] by auto
  have "0 \<le> fl_add (ff_carry f) (carry_bytes x u)" "fl_add (ff_carry f) (carry_bytes x u) \<le> 2"
    unfolding fl_add_def using carry cb by (auto intro!: rnd64_nonneg rnd64_le_2)
  then obtain c k where ck: "carry_loop carry_fuel (fl_add (ff_carry f) (carry_bytes x u)) u = Inr (c, u + of_nat k)"
    "0 \<le> c" "c < 1" "k \<le> 2" using carry_loop_ends by blast
  have "rat_of_nat (unat u) \<le> x" using fl of_int_floor_le [of x] by (simp only:)
  then have "rat_of_nat (unat u) < of_nat 4611686018427387904" using fits(2) by (simp only: of_nat_numeral)
  then have small: "unat u < 4611686018427387904" by (rule of_nat_less_iff [THEN iffD1])
  have k: "unat (of_nat k :: u64) = k" using ck(4) by (intro unat_of_nat_u64) simp
  have "unat u + unat (of_nat k :: u64) < 18446744073709551616" unfolding k using small ck(4) by linarith
  then have sum: "unat (u + of_nat k) = unat u + k" by (simp only: unat_add_no_overflow k)
  have "rat_of_nat k \<le> 2" using ck(4) by (metis of_nat_le_iff of_nat_numeral)
  then have "rat_of_nat (unat (u + of_nat k)) \<le> x + 2"
    using \<open>rat_of_nat (unat u) \<le> x\<close> unfolding sum of_nat_add by linarith
  moreover have "unat (u + of_nat k) < 2 ^ 63" using small ck(4) unfolding sum by simp
  moreover have "rate_update dt f = Inr (c, u + of_nat k)" using fits(1) u ck(1) by (simp add: rate_update_def)
  ultimately show ?thesis using ck(2,3) by blast
qed

section \<open>The invariant\<close>

definition bounded_ok :: "fifo \<Rightarrow> bool" where
  "bounded_ok f \<longleftrightarrow> 0 < ff_maxLevel f \<and> unat (ff_maxLevel f) < 2 ^ 62
     \<and> unat (ff_inFlightData f) = sum_list (map unat (ff_ot f))
     \<and> (case ff_type f of
          P_READ \<Rightarrow> unat (ff_level f) + unat (ff_inFlightData f) \<le> unat (ff_maxLevel f)
        | P_WRITE \<Rightarrow> unat (ff_inFlightData f) \<le> unat (ff_level f) \<and> unat (ff_level f) \<le> unat (ff_maxLevel f)
        | P_NONE \<Rightarrow> False)"

definition fifo_ok :: "fifo \<Rightarrow> bool" where
  "fifo_ok f \<longleftrightarrow> 0 \<le> ff_carry f \<and> ff_carry f < 1 \<and> ff_period f \<noteq> 0 \<and> bounded_ok f"

text \<open>The fields the invariant does not read may change freely.\<close>

lemma bounded_ok_cong:
  "ff_maxLevel g = ff_maxLevel f \<Longrightarrow> ff_inFlightData g = ff_inFlightData f \<Longrightarrow> ff_ot g = ff_ot f
    \<Longrightarrow> ff_type g = ff_type f \<Longrightarrow> ff_level g = ff_level f \<Longrightarrow> bounded_ok g \<longleftrightarrow> bounded_ok f"
  by (simp add: bounded_ok_def split: ptype.split)

lemma fill_or_track_keeps [simp]:
  "ff_maxLevel (fill_or_track dt u f) = ff_maxLevel f" "ff_inFlightData (fill_or_track dt u f) = ff_inFlightData f"
  "ff_ot (fill_or_track dt u f) = ff_ot f" "ff_type (fill_or_track dt u f) = ff_type f"
  "ff_level (fill_or_track dt u f) = ff_level f" "ff_carry (fill_or_track dt u f) = ff_carry f"
  "ff_period (fill_or_track dt u f) = ff_period f" "ff_rate (fill_or_track dt u f) = ff_rate f"
  "ff_trackerEnabled (fill_or_track dt u f) = ff_trackerEnabled f"
  by (simp_all add: fill_or_track_def)

lemma first_activate_keeps [simp]:
  "ff_maxLevel (first_activate t f) = ff_maxLevel f" "ff_inFlightData (first_activate t f) = ff_inFlightData f"
  "ff_ot (first_activate t f) = ff_ot f" "ff_type (first_activate t f) = ff_type f"
  "ff_level (first_activate t f) = ff_level f" "ff_carry (first_activate t f) = ff_carry f"
  "ff_period (first_activate t f) = ff_period f" "ff_rate (first_activate t f) = ff_rate f"
  "ff_trackerEnabled (first_activate t f) = ff_trackerEnabled f"
  by (simp_all add: first_activate_def Let_def)

lemma apply_update_ok:
  assumes ok: "bounded_ok f" and upd: "unat upd < 2 ^ 63" and rate: "upd = 0 \<or> ff_rate f \<noteq> 0"
  shows "\<exists>u ov f'. apply_update upd f = Inr (u, ov, f') \<and> bounded_ok f' \<and> ff_carry f' = ff_carry f
    \<and> ff_period f' = ff_period f \<and> ff_type f' = ff_type f \<and> ff_maxLevel f' = ff_maxLevel f
    \<and> ff_rate f' = ff_rate f \<and> ff_trackerEnabled f' = ff_trackerEnabled f
    \<and> ff_inFlightData f' = ff_inFlightData f \<and> ff_ot f' = ff_ot f"
proof (cases "ff_type f")
  case P_READ
  then show ?thesis using ok
    by (auto simp: apply_update_def bounded_ok_def word_less_nat_alt not_less unat_sub_le word_le_nat_alt)
next
  case P_WRITE
  let ?l = "unat (ff_level f)" and ?m = "unat (ff_maxLevel f)"
  from ok P_WRITE have b: "?l \<le> ?m" "?m < 2 ^ 62" "unat (ff_inFlightData f) \<le> ?l" by (simp_all add: bounded_ok_def)
  then have sum: "unat (ff_level f + upd) = ?l + unat upd"
    using upd by (intro unat_add_no_overflow) simp
  show ?thesis
  proof (cases "ff_maxLevel f < ff_level f + upd")
    case True
    then have "?m < ?l + unat upd" by (simp only: word_less_nat_alt sum)
    then have "upd \<noteq> 0" using b(1) by auto
    with rate P_WRITE True ok b show ?thesis by (auto simp: apply_update_def bounded_ok_def)
  next
    case False
    then have "?l + unat upd \<le> ?m" by (simp only: word_less_nat_alt sum not_less)
    with P_WRITE False ok b sum show ?thesis by (auto simp: apply_update_def bounded_ok_def)
  qed
next
  case P_NONE
  with ok show ?thesis by (simp add: bounded_ok_def)
qed

lemma fifo_update_ok:
  assumes ok: "fifo_ok f" and t: "ff_time f \<le> t" and fits: "rate_fits t f"
  shows "\<exists>u ov f'. fifo_update t f = Inr (u, ov, f') \<and> fifo_ok f' \<and> ff_time f' = t
    \<and> ff_type f' = ff_type f \<and> ff_maxLevel f' = ff_maxLevel f \<and> ff_rate f' = ff_rate f
    \<and> ff_trackerEnabled f' = ff_trackerEnabled f
    \<and> ff_inFlightData f' = ff_inFlightData f \<and> ff_ot f' = ff_ot f"
proof -
  let ?dt = "t - ff_time f"
  have c: "0 \<le> ff_carry f" "ff_carry f < 1" "ff_period f \<noteq> 0" "bounded_ok f"
    using ok by (simp_all add: fifo_ok_def)
  have "\<exists>upd f1. (if \<not> ff_active f then Inr (0, first_activate t f)
              else if 0 < ff_rate f then
                bindR (rate_update ?dt f) (\<lambda>(carry, upd).
                Inr (upd, fill_or_track ?dt upd (f\<lparr>ff_carry := carry\<rparr>)))
              else Inr (0, f)) = Inr (upd, f1) \<and> bounded_ok f1 \<and> unat upd < 2 ^ 63
      \<and> (upd = 0 \<or> ff_rate f1 \<noteq> 0) \<and> 0 \<le> ff_carry f1 \<and> ff_carry f1 < 1 \<and> ff_period f1 = ff_period f
      \<and> ff_type f1 = ff_type f \<and> ff_maxLevel f1 = ff_maxLevel f \<and> ff_rate f1 = ff_rate f
      \<and> ff_trackerEnabled f1 = ff_trackerEnabled f
      \<and> ff_inFlightData f1 = ff_inFlightData f \<and> ff_ot f1 = ff_ot f"
  proof (cases "ff_active f \<and> 0 < ff_rate f")
    case True
    with fits obtain x where x: "rate_bytes ?dt f = Some x" "x < 4611686018427387904"
      by (auto simp: rate_fits_def split: option.splits)
    obtain cc upd where r: "rate_update ?dt f = Inr (cc, upd)" "0 \<le> cc" "cc < 1" "unat upd < 2 ^ 63"
      using rate_update_ok [OF c(1,2) x] by blast
    let ?f1 = "fill_or_track ?dt upd (f\<lparr>ff_carry := cc\<rparr>)"
    have "bounded_ok ?f1" using c(4) by (subst bounded_ok_cong [of _ f]) simp_all
    with True r show ?thesis by (intro exI [of _ upd] exI [of _ ?f1]) auto
  next
    case False
    have "bounded_ok (first_activate t f)" using c(4) by (subst bounded_ok_cong [of _ f]) simp_all
    with False c show ?thesis by (cases "ff_active f") auto
  qed
  then obtain upd f1 where f1: "(if \<not> ff_active f then Inr (0, first_activate t f)
              else if 0 < ff_rate f then
                bindR (rate_update ?dt f) (\<lambda>(carry, upd).
                Inr (upd, fill_or_track ?dt upd (f\<lparr>ff_carry := carry\<rparr>)))
              else Inr (0, f)) = Inr (upd, f1)" "bounded_ok f1" "unat upd < 2 ^ 63"
      "upd = 0 \<or> ff_rate f1 \<noteq> 0" "0 \<le> ff_carry f1" "ff_carry f1 < 1" "ff_period f1 = ff_period f"
      "ff_type f1 = ff_type f" "ff_maxLevel f1 = ff_maxLevel f" "ff_rate f1 = ff_rate f"
      "ff_trackerEnabled f1 = ff_trackerEnabled f"
      "ff_inFlightData f1 = ff_inFlightData f" "ff_ot f1 = ff_ot f"
    by blast
  obtain u ov f2 where f2: "apply_update upd f1 = Inr (u, ov, f2)" "bounded_ok f2" "ff_carry f2 = ff_carry f1"
    "ff_period f2 = ff_period f1" "ff_type f2 = ff_type f1" "ff_maxLevel f2 = ff_maxLevel f1"
    "ff_rate f2 = ff_rate f1" "ff_trackerEnabled f2 = ff_trackerEnabled f1"
    "ff_inFlightData f2 = ff_inFlightData f1" "ff_ot f2 = ff_ot f1"
    using apply_update_ok [OF f1(2-4)] by blast
  let ?f' = "f2\<lparr>ff_time := t\<rparr>"
  have "bounded_ok ?f'" using f2(2) by (subst bounded_ok_cong [of _ f2]) simp_all
  moreover have "fifo_update t f = Inr (u, ov, ?f')"
    using t f1(1) f2(1) by (simp add: fifo_update_def not_less Let_def)
  ultimately show ?thesis using c f1 f2 by (simp add: fifo_ok_def)
qed

section \<open>Sending\<close>

text \<open>What a granted request means, in natural numbers.\<close>

definition room_for :: "nat \<Rightarrow> fifo \<Rightarrow> bool" where
  "room_for n f \<longleftrightarrow> (case ff_type f of
     P_READ \<Rightarrow> unat (ff_level f) + n + unat (ff_inFlightData f) \<le> unat (ff_maxLevel f)
   | P_WRITE \<Rightarrow> n + unat (ff_inFlightData f) \<le> unat (ff_level f)
   | P_NONE \<Rightarrow> False)"

lemma can_send_room:
  assumes "bounded_ok f" and "unat data < 2 ^ 62"
  shows "can_send data f \<longleftrightarrow> room_for (unat data) f"
proof -
  have m: "ff_maxLevel f \<noteq> 0" "unat (ff_maxLevel f) < 2 ^ 62" using assms(1) by (auto simp: bounded_ok_def)
  have infl: "unat (ff_inFlightData f) < 2 ^ 62"
    using assms(1) m(2) by (auto simp: bounded_ok_def split: ptype.splits)
  show ?thesis
  proof (cases "ff_type f")
    case P_READ
    then have l: "unat (ff_level f) < 2 ^ 62" using assms(1) m(2) by (simp add: bounded_ok_def)
    have "unat (ff_level f + data) = unat (ff_level f) + unat data"
      using l assms(2) by (intro unat_add_no_overflow) simp
    moreover from this have "unat (ff_level f + data + ff_inFlightData f)
        = unat (ff_level f) + unat data + unat (ff_inFlightData f)"
      using l assms(2) infl by (subst unat_add_no_overflow) simp_all
    ultimately show ?thesis using P_READ m(1) by (simp add: can_send_def room_for_def word_le_nat_alt)
  next
    case P_WRITE
    have "unat (data + ff_inFlightData f) = unat data + unat (ff_inFlightData f)"
      using assms(2) infl by (intro unat_add_no_overflow) simp
    then show ?thesis using P_WRITE m(1) by (simp add: can_send_def room_for_def word_le_nat_alt)
  qed (simp add: can_send_def room_for_def)
qed

lemma reserve_ok:
  assumes ok: "fifo_ok f" and data: "unat data < 2 ^ 62" and room: "room_for (unat data) f"
  shows "fifo_ok (f\<lparr>ff_inFlightData := ff_inFlightData f + data, ff_ot := ff_ot f @ [data]\<rparr>)"
proof -
  have b: "bounded_ok f" using ok by (simp add: fifo_ok_def)
  then have "unat (ff_inFlightData f) < 2 ^ 62" by (auto simp: bounded_ok_def split: ptype.splits)
  then have sum: "unat (ff_inFlightData f + data) = unat (ff_inFlightData f) + unat data"
    using data by (intro unat_add_no_overflow) simp
  show ?thesis
  proof (cases "ff_type f")
    case P_READ
    with b sum room have "bounded_ok (f\<lparr>ff_inFlightData := ff_inFlightData f + data, ff_ot := ff_ot f @ [data]\<rparr>)"
      by (simp add: bounded_ok_def room_for_def)
    with ok show ?thesis by (simp add: fifo_ok_def)
  next
    case P_WRITE
    with b sum room have "bounded_ok (f\<lparr>ff_inFlightData := ff_inFlightData f + data, ff_ot := ff_ot f @ [data]\<rparr>)"
      by (simp add: bounded_ok_def room_for_def)
    with ok show ?thesis by (simp add: fifo_ok_def)
  qed (use b in \<open>simp add: bounded_ok_def\<close>)
qed

definition reserve :: "u64 \<Rightarrow> fifo \<Rightarrow> fifo" where
  "reserve data f = (if can_send data f \<and> 0 < data
     then f\<lparr>ff_inFlightData := ff_inFlightData f + data, ff_ot := ff_ot f @ [data]\<rparr> else f)"

lemma reserve_fields [simp]:
  "ff_rate (reserve data f) = ff_rate f" "ff_time (reserve data f) = ff_time f"
  "ff_trackerEnabled (reserve data f) = ff_trackerEnabled f" "ff_period (reserve data f) = ff_period f"
  by (simp_all add: reserve_def)

lemma fifo_ok_tracker: "fifo_ok f \<Longrightarrow> fifo_ok (f\<lparr>ff_tracker := tr\<rparr>)"
  using bounded_ok_cong [of "f\<lparr>ff_tracker := tr\<rparr>" f] by (simp add: fifo_ok_def)

lemma fifo_send_result:
  assumes ok: "fifo_ok f" and t: "ff_time f \<le> t" and fits: "rate_fits t f" and data: "unat data < 2 ^ 62"
    and run: "fifo_send t data f = Inr (granted, u, ov, next, rq, f')"
  shows "fifo_ok f' \<and> ff_time f' = t \<and> (\<exists>f1. fifo_update t f = Inr (u, ov, f1) \<and> fifo_ok f1
    \<and> granted = room_for (unat data) f1)"
proof -
  obtain u1 ov1 f1 where f1: "fifo_update t f = Inr (u1, ov1, f1)" "fifo_ok f1" "ff_time f1 = t"
    using fifo_update_ok [OF ok t fits] by blast
  have can: "can_send data f1 = room_for (unat data) f1"
    using can_send_room data f1(2) by (simp add: fifo_ok_def)
  have res: "fifo_ok (reserve data f1)" using reserve_ok [OF f1(2) data] f1(2) can by (simp add: reserve_def)
  have "f' = reserve data f1 \<or> (\<exists>tr. f' = (reserve data f1)\<lparr>ff_tracker := tr\<rparr>)"
    and r: "granted = can_send data f1" "u = u1" "ov = ov1"
    using run f1(1) unfolding fifo_send_def
    by (auto simp: bindR_eq_Inr Let_def reserve_def split: if_splits)
  then have "fifo_ok f' \<and> ff_time f' = t" using res fifo_ok_tracker f1(3) by auto
  with f1 r can show ?thesis by auto
qed

lemma rate_update_tracker:
  "apply_update upd f = Inr (u, ov, f') \<Longrightarrow> ff_trackerEnabled f' = ff_trackerEnabled f
    \<and> (\<not> ff_trackerEnabled f \<longrightarrow> ff_tracker f' = ff_tracker f)"
  by (auto simp: apply_update_def elim!: bindRE split: ptype.splits if_splits)

lemma fifo_update_tracker:
  assumes "fifo_update t f = Inr (u, ov, f')" and "\<not> ff_trackerEnabled f"
  shows "ff_tracker f' = ff_tracker f \<and> \<not> ff_trackerEnabled f'"
proof -
  obtain upd f1 f2 where "(if \<not> ff_active f then Inr (0, first_activate t f)
              else if 0 < ff_rate f then
                bindR (rate_update (t - ff_time f) f) (\<lambda>(carry, upd).
                Inr (upd, fill_or_track (t - ff_time f) upd (f\<lparr>ff_carry := carry\<rparr>)))
              else Inr (0, f)) = Inr (upd, f1)" and f2: "apply_update upd f1 = Inr (u, ov, f2)" "f' = f2\<lparr>ff_time := t\<rparr>"
    using assms(1) unfolding fifo_update_def Let_def
    by (elim bindRE) (auto elim!: bindRE split: prod.splits)
  then have "ff_tracker f1 = ff_tracker f \<and> \<not> ff_trackerEnabled f1"
    using assms(2) by (auto simp: fill_or_track_def first_activate_def Let_def bindR_eq_Inr split: if_splits)
  with f2 rate_update_tracker [OF f2(1)] show ?thesis by simp
qed

lemma fifo_send_returns:
  assumes ok: "fifo_ok f" and t: "ff_time f \<le> t" and fits: "rate_fits t f"
    and nt: "\<not> ff_trackerEnabled f" "ff_tracker f = []"
  shows "\<exists>granted u ov next rq f'. fifo_send t data f = Inr (granted, u, ov, next, rq, f')
    \<and> ff_tracker f' = [] \<and> \<not> ff_trackerEnabled f'"
proof -
  obtain u ov f1 where f1: "fifo_update t f = Inr (u, ov, f1)" "fifo_ok f1" "ff_time f1 = t"
    "ff_trackerEnabled f1 = ff_trackerEnabled f"
    using fifo_update_ok [OF ok t fits] by blast
  have tr: "ff_tracker f1 = []" using fifo_update_tracker [OF f1(1) nt(1)] nt(2) by simp
  have "ff_period f1 \<noteq> 0" using f1(2) by (simp add: fifo_ok_def)
  then obtain n where n: "nextTransmissionTime data f1 = Inr n" by (simp add: nextTransmissionTime_def Let_def)
  show ?thesis using f1 nt tr n
    by (cases "can_send data f1 \<and> 0 < data") (auto simp: fifo_send_def Let_def)
qed

section \<open>Receiving\<close>

lemma serve_ot_sum:
  "unat residual \<le> sum_list (map unat ots) \<Longrightarrow>
    \<exists>ret ots'. serve_ot residual ots = Inr (ret, ots') \<and> sum_list (map unat ots') = sum_list (map unat ots) - unat residual"
proof (induction ots arbitrary: residual)
  case (Cons x xs)
  show ?case
  proof (cases "residual = 0 \<or> residual < x")
    case True
    then show ?thesis by (auto simp: unat_sub_le less_imp_le word_less_nat_alt)
  next
    case False
    then have x: "x \<le> residual" and r: "unat (residual - x) = unat residual - unat x" by (auto simp: unat_sub_le)
    then have "unat x \<le> unat residual" by (simp add: word_le_nat_alt)
    with Cons.prems r have "unat (residual - x) \<le> sum_list (map unat xs)" by simp
    from Cons.IH [OF this] obtain ret ots' where "serve_ot (residual - x) xs = Inr (ret, ots')"
      "sum_list (map unat ots') = sum_list (map unat xs) - (unat residual - unat x)" using r by auto
    with False \<open>unat x \<le> unat residual\<close> show ?thesis by auto
  qed
qed (auto simp: unat_eq_zero)

lemma respond_ok:
  assumes ok: "fifo_ok f" and data: "data \<le> ff_inFlightData f"
    and ots: "sum_list (map unat ots) = unat (ff_inFlightData f) - unat data"
  shows "fifo_ok ((response_level data
      (f\<lparr>ff_inFlightData := ff_inFlightData f - min (ff_inFlightData f) data\<rparr>))\<lparr>ff_ot := ots\<rparr>)"
proof -
  let ?i = "unat (ff_inFlightData f)" and ?d = "unat data" and ?l = "unat (ff_level f)" and ?m = "unat (ff_maxLevel f)"
  have b: "bounded_ok f" using ok by (simp add: fifo_ok_def)
  have di: "?d \<le> ?i" using data by (simp add: word_le_nat_alt)
  have inf: "unat (ff_inFlightData f - min (ff_inFlightData f) data) = ?i - ?d"
    using data by (simp add: min_absorb2 unat_sub_le)
  show ?thesis
  proof (cases "ff_type f")
    case P_READ
    with b have m: "0 < ff_maxLevel f" "?l + ?i \<le> ?m" "?m < 2 ^ 62" by (simp_all add: bounded_ok_def)
    then have "ff_level f \<le> ff_maxLevel f" by (simp add: word_le_nat_alt)
    then have "data \<le> ff_maxLevel f - ff_level f" using m(2) di by (simp add: word_le_nat_alt unat_sub_le)
    then have lv: "min data (ff_maxLevel f - ff_level f) = data" by (simp add: min_absorb1)
    have "unat (ff_level f + data) = ?l + ?d" using m(2,3) di by (intro unat_add_no_overflow) simp
    with P_READ b ots inf m di ok show ?thesis
      by (simp add: fifo_ok_def bounded_ok_def response_level_def lv)
  next
    case P_WRITE
    with b have m: "?i \<le> ?l" "?l \<le> ?m" by (simp_all add: bounded_ok_def)
    then have "data \<le> ff_level f" using di by (simp add: word_le_nat_alt)
    then have "ff_level f - min (ff_level f) data = ff_level f - data" "unat (ff_level f - data) = ?l - ?d"
      by (simp_all add: min_absorb2 unat_sub_le)
    moreover have "?i - ?d \<le> ?l - ?d" "?l - ?d \<le> ?m" using m by simp_all
    ultimately have "unat (ff_level f - min (ff_level f) data) = ?l - ?d" "?i - ?d \<le> ?l - ?d" "?l - ?d \<le> ?m"
      by simp_all
    with P_WRITE b ots inf m di ok show ?thesis
      by (simp add: fifo_ok_def bounded_ok_def response_level_def)
  qed (use b in \<open>simp add: bounded_ok_def\<close>)
qed

lemma response_level_fields [simp]:
  "ff_time (response_level d f) = ff_time f" "ff_active (response_level d f) = ff_active f"
  "ff_rate (response_level d f) = ff_rate f" "ff_period (response_level d f) = ff_period f"
  "ff_type (response_level d f) = ff_type f" "ff_maxLevel (response_level d f) = ff_maxLevel f"
  by (simp_all add: response_level_def split: ptype.split)

lemma rate_bytes_cong: "ff_rate g = ff_rate f \<Longrightarrow> ff_period g = ff_period f \<Longrightarrow> rate_bytes dt g = rate_bytes dt f"
  by (simp add: rate_bytes_def)

lemma fifo_receive_result:
  assumes ok: "fifo_ok f" and t: "ff_time f \<le> t" and fits: "rate_fits t f" and data: "data \<le> ff_inFlightData f"
  shows "\<exists>whole u ov f'. fifo_receive t data f = Inr (whole, u, ov, f') \<and> fifo_ok f' \<and> ff_time f' = t
    \<and> unat (ff_inFlightData f') = unat (ff_inFlightData f) - unat data"
proof (cases "ff_ot f = []")
  case True
  have "unat (ff_inFlightData f) = 0" using ok True by (simp add: fifo_ok_def bounded_ok_def)
  then have "data = 0" "unat (ff_inFlightData f) = 0" using data by (simp_all add: word_le_nat_alt unat_eq_zero)
  with True show ?thesis using fifo_update_ok [OF ok t fits] by (auto simp: fifo_receive_def)
next
  case False
  have sum: "sum_list (map unat (ff_ot f)) = unat (ff_inFlightData f)" using ok by (simp add: fifo_ok_def bounded_ok_def)
  then have "unat data \<le> sum_list (map unat (ff_ot f))" using data by (simp add: word_le_nat_alt)
  then obtain ret ots where ots: "serve_ot data (ff_ot f) = Inr (ret, ots)"
    "sum_list (map unat ots) = unat (ff_inFlightData f) - unat data" using serve_ot_sum sum by metis
  let ?f = "(response_level data (f\<lparr>ff_inFlightData := ff_inFlightData f - min (ff_inFlightData f) data\<rparr>))\<lparr>ff_ot := ots\<rparr>"
  have "fifo_ok ?f" by (rule respond_ok [OF ok data ots(2)])
  moreover have "rate_fits t ?f" using fits rate_bytes_cong [of ?f f] by (simp add: rate_fits_def)
  ultimately obtain u ov f2 where f2: "fifo_update t ?f = Inr (u, ov, f2)" "fifo_ok f2" "ff_time f2 = t"
    "ff_inFlightData f2 = ff_inFlightData ?f" using fifo_update_ok [of ?f t] t by auto
  have "unat (ff_inFlightData ?f) = unat (ff_inFlightData f) - unat data"
    using data by (simp add: response_level_def min_absorb2 unat_sub_le split: ptype.split)
  with False ots(1) f2 show ?thesis by (simp add: fifo_receive_def)
qed

section \<open>Runs\<close>

datatype fifo_op = Request u64 u64 | Response u64 u64

fun fifo_step :: "fifo_op \<Rightarrow> fifo \<Rightarrow> fifo res" where
  "fifo_step (Request t data) f = bindR (fifo_send t data f) (\<lambda>(granted, u, ov, next, rq, f'). Inr f')"
| "fifo_step (Response t data) f = bindR (fifo_receive t data f) (\<lambda>(whole, u, ov, f'). Inr f')"

text \<open>
  Admissible operations: time does not go back, the bytes of the elapsed time stay below
  \<open>2 ^ 62\<close>, a response answers data in flight.
\<close>

fun fifo_adm :: "fifo_op \<Rightarrow> fifo \<Rightarrow> bool" where
  "fifo_adm (Request t data) f \<longleftrightarrow> ff_time f \<le> t \<and> rate_fits t f \<and> unat data < 2 ^ 62"
| "fifo_adm (Response t data) f \<longleftrightarrow> ff_time f \<le> t \<and> rate_fits t f \<and> data \<le> ff_inFlightData f"

definition untracked :: "fifo \<Rightarrow> bool" where
  "untracked f \<longleftrightarrow> fifo_ok f \<and> \<not> ff_trackerEnabled f \<and> ff_tracker f = []"

lemma fifo_step_ok: "fifo_ok f \<Longrightarrow> fifo_adm x f \<Longrightarrow> fifo_step x f = Inr f' \<Longrightarrow> fifo_ok f'"
proof (cases x)
  case (Request t data)
  assume "fifo_ok f" "fifo_adm x f" "fifo_step x f = Inr f'"
  moreover from Request this(3) obtain g u ov n rq where "fifo_send t data f = Inr (g, u, ov, n, rq, f')"
    by (auto elim!: bindRE)
  ultimately show ?thesis using Request fifo_send_result [of f t data] by auto
next
  case (Response t data)
  assume "fifo_ok f" "fifo_adm x f" "fifo_step x f = Inr f'"
  with Response show ?thesis using fifo_receive_result [of f t data] by (auto elim!: bindRE)
qed

lemma fifo_receive_tracker:
  assumes "fifo_receive t data f = Inr (w, u, ov, f')" and "\<not> ff_trackerEnabled f"
  shows "ff_tracker f' = ff_tracker f \<and> \<not> ff_trackerEnabled f'"
proof -
  obtain f1 where f1: "fifo_update t f1 = Inr (u, ov, f')" "ff_tracker f1 = ff_tracker f"
    "ff_trackerEnabled f1 = ff_trackerEnabled f"
  proof (cases "ff_ot f = []")
    case True
    with assms(1) that [of f] show ?thesis by (auto simp: fifo_receive_def elim!: bindRE split: if_splits)
  next
    case False
    then obtain ret ots where "serve_ot data (ff_ot f) = Inr (ret, ots)"
      using assms(1) by (auto simp: fifo_receive_def elim!: bindRE)
    with False assms(1) that show ?thesis
      by (auto simp: fifo_receive_def response_level_def elim!: bindRE split: ptype.splits)
  qed
  with fifo_update_tracker [OF f1(1)] assms(2) show ?thesis by simp
qed

interpretation fifo_runs: guarded_system fifo_step fifo_adm fifo_ok
  by unfold_locales (rule fifo_step_ok)

interpretation fifo_live: live_system fifo_step fifo_adm untracked
proof
  fix f x f'
  assume un: "untracked f" and adm: "fifo_adm x f" and st: "fifo_step x f = Inr f'"
  then have ok: "fifo_ok f'" using fifo_step_ok by (auto simp: untracked_def)
  show "untracked f'"
  proof (cases x)
    case (Request t data)
    then obtain g u ov n rq where "fifo_send t data f = Inr (g, u, ov, n, rq, f')" using st by (auto elim!: bindRE)
    with fifo_send_returns [of f t data] un adm Request ok show ?thesis by (auto simp: untracked_def)
  next
    case (Response t data)
    with st fifo_receive_tracker un ok show ?thesis by (auto simp: untracked_def elim!: bindRE)
  qed
next
  fix f x
  assume "untracked f" and "fifo_adm x f"
  note un = this(1) [unfolded untracked_def] and adm = this(2)
  show "\<exists>f'. fifo_step x f = Inr f'"
  proof (cases x)
    case (Request t data)
    with un adm fifo_send_returns [of f t data] show ?thesis by auto
  next
    case (Response t data)
    with un adm fifo_receive_result [of f t data] show ?thesis by auto
  qed
qed

section \<open>The rate over whole periods\<close>

lemma rnd64_0 [simp]: "rnd64 0 = 0"
  by (simp add: rnd64_def)

lemma rnd64_of_nat: "n \<le> 9007199254740992 \<Longrightarrow> rnd64 (of_nat n) = of_nat n"
  using rnd64_int [of "int n"] by simp

lemma fl_of_u64_nat: "unat w = n \<Longrightarrow> n \<le> 9007199254740992 \<Longrightarrow> fl_of_u64 w = of_nat n"
  unfolding fl_of_u64_def by (simp only: rnd64_of_nat)

lemma rnd64_half: "rnd64 (1 / 2) = 1 / 2"
proof -
  have "flog2 (1 / 2 :: rat) < 0" by (rule flog2_less) simp_all
  then have "ulp_exp (1 / 2) \<le> - 1" by (simp add: ulp_exp_def)
  then have "rnd_pos (1 / 2) = 1 / 2" by (intro rnd_pos_grid [where m = 1 and e = "- 1"]) simp_all
  then show ?thesis by (simp add: rnd64_def)
qed

lemma rate_update_whole:
  assumes dt: "unat dt = k * unat (ff_period f)" and p: "ff_period f \<noteq> 0"
    and c: "ff_carry f < 1" "rnd64 (ff_carry f) = ff_carry f"
    and small: "k * unat (ff_period f) \<le> 9007199254740992" "k * unat (ff_rate f) \<le> 9007199254740992"
      "unat (ff_rate f) \<le> 9007199254740992" "unat (ff_period f) \<le> 9007199254740992"
  shows "rate_update dt f = Inr (ff_carry f, of_nat (k * unat (ff_rate f)))"
proof -
  let ?p = "unat (ff_period f)" and ?r = "unat (ff_rate f)"
  let ?u = "of_nat (k * ?r) :: u64"
  have p0: "0 < ?p" using p by (simp add: unat_gt_0)
  then have "k \<le> k * ?p" by simp
  then have k: "k \<le> 9007199254740992" using small(1) by linarith
  have q: "rat_of_nat (k * ?p) / of_nat ?p = of_nat k" 
    using p0 by (simp only: of_nat_mult nonzero_mult_div_cancel_right of_nat_eq_0_iff neq0_conv simp_thms)
  have "fl_div (fl_of_u64 dt) (fl_of_u64 (ff_period f)) = Some (of_nat k)"
    unfolding fl_of_u64_nat [OF dt small(1)] fl_of_u64_nat [OF refl small(4)] fl_div_def q
    using p0 rnd64_of_nat [OF k] by (simp only: of_nat_eq_0_iff) simp
  then have rb: "rate_bytes dt f = Some (of_nat (k * ?r))"
    unfolding rate_bytes_def fl_of_u64_nat [OF refl small(3)]
    by (simp only: option.map fl_mul_def of_nat_mult [symmetric] rnd64_of_nat [OF small(2)])
  have lt: "k * ?r < 18446744073709551616" using small(2) by linarith
  have "rat_of_nat (k * ?r) < of_nat 18446744073709551616" using lt by (rule of_nat_less_iff [THEN iffD2])
  moreover have "- 1 < rat_of_nat (k * ?r)" by (rule less_le_trans [of _ 0]) (simp, rule of_nat_0_le_iff)
  moreover have "\<lfloor>rat_of_nat (k * ?r)\<rfloor> = int (k * ?r)" by (rule floor_of_nat)
  moreover have "\<not> rat_of_nat (k * ?r) < 0" by (rule of_nat_0_le_iff [THEN leD])
  ultimately have conv: "fl_to_u64 (of_nat (k * ?r)) = Some ?u"
    unfolding fl_to_u64_def by (simp only: of_nat_numeral of_int_of_nat_eq if_True if_False simp_thms)
  have fu: "fl_of_u64 ?u = of_nat (k * ?r)"
    by (rule fl_of_u64_nat [OF unat_of_nat_u64 [OF lt] small(2)])
  have half: "\<lfloor>1 / 2 :: rat\<rfloor> = 0" by (rule floor_unique) simp_all
  have "carry_bytes (of_nat (k * ?r)) ?u = 0"
    unfolding carry_bytes_def fu using half by (simp add: fl_sub_def fl_mul_def fl_add_def fl_floor_def rnd64_half)
  then have "carry_loop carry_fuel (fl_add (ff_carry f) (carry_bytes (of_nat (k * ?r)) ?u)) ?u = Inr (ff_carry f, ?u)"
    using c by (simp add: fl_add_def carry_loop.simps)
  with rb conv show ?thesis by (simp only: rate_update_def option.case)
qed

section \<open>Properties\<close>

text \<open>
  C5. Space is reserved when a request is granted. Starting from a bounded FIFO in its
  invariant, after any admissible sequence of requests and responses that returns: the data in
  flight is the sum of the outstanding transactions; a READ FIFO has room for all of it, so no
  response ever overflows the buffer; a WRITE FIFO still holds all of it, so every outstanding
  write is backed by data.
\<close>

theorem fifo_space_is_reserved:
  assumes "fifo_ok f" and "admissible_run fifo_adm fifo_step ops f" and "foldR fifo_step ops f = Inr f'"
  shows "unat (ff_inFlightData f') = sum_list (map unat (ff_ot f'))
    \<and> (ff_type f' = P_READ \<longrightarrow> unat (ff_level f') + unat (ff_inFlightData f') \<le> unat (ff_maxLevel f'))
    \<and> (ff_type f' = P_WRITE \<longrightarrow> unat (ff_inFlightData f') \<le> unat (ff_level f') \<and> ff_level f' \<le> ff_maxLevel f')"
  using fifo_runs.run_inv [OF assms] by (auto simp: fifo_ok_def bounded_ok_def word_le_nat_alt)

definition demo_fifo :: fifo where
  "demo_fifo = fifo_new\<lparr>ff_maxLevel := 256, ff_rate := 8, ff_period := 10\<rparr>"

lemma demo_fifo_ok: "fifo_ok demo_fifo" "untracked demo_fifo"
  by (simp_all add: untracked_def fifo_ok_def bounded_ok_def demo_fifo_def fifo_new_def)

lemma demo_first:
  "fifo_send 0 64 demo_fifo = Inr (True, False, False, 0, 0, demo_fifo\<lparr>ff_firstActivation := True,
     ff_active := True, ff_inFlightData := 64, ff_ot := [64]\<rparr>)"
  by (simp add: fifo_send_def fifo_update_def first_activate_def apply_update_def can_send_def
      demo_fifo_def fifo_new_def Let_def)

lemma demo_fits: "unat (t :: u64) = 10 \<Longrightarrow> ff_time f = 0 \<Longrightarrow> ff_rate f = 8 \<Longrightarrow> ff_period f = 10 \<Longrightarrow> rate_fits t f"
proof -
  assume t: "unat t = 10" and f: "ff_time f = 0" "ff_rate f = 8" "ff_period f = 10"
  have "fl_of_u64 t = 10" "fl_of_u64 10 = 10" "fl_of_u64 8 = 8"
    using fl_of_u64_nat [of t 10] fl_of_u64_nat [of 10 10] fl_of_u64_nat [of 8 8] t by simp_all
  moreover have "rnd64 1 = 1" "rnd64 8 = 8" using rnd64_of_nat [of 1] rnd64_of_nat [of 8] by simp_all
  ultimately show "rate_fits t f" using f by (simp add: rate_fits_def rate_bytes_def fl_div_def fl_mul_def)
qed

lemma demo_run: "admissible_run fifo_adm fifo_step [Request 0 64, Response 10 64] demo_fifo"
proof -
  have "rate_fits 0 demo_fifo" by (simp add: rate_fits_def demo_fifo_def fifo_new_def)
  moreover have "rate_fits 10 (demo_fifo\<lparr>ff_firstActivation := True,
     ff_active := True, ff_inFlightData := 64, ff_ot := [64]\<rparr>)"
    by (rule demo_fits) (simp_all add: demo_fifo_def fifo_new_def)
  ultimately show ?thesis
    by (simp add: demo_first split: sum.split) (simp add: demo_fifo_def fifo_new_def)
qed

theorem fifo_space_is_reserved_witness:
  "\<exists>f'. foldR fifo_step [Request 0 64, Response 10 64] demo_fifo = Inr f'
     \<and> unat (ff_inFlightData f') = sum_list (map unat (ff_ot f'))"
proof -
  obtain f' where f': "foldR fifo_step [Request 0 64, Response 10 64] demo_fifo = Inr f'"
    using fifo_live.run_live [OF demo_fifo_ok(2) demo_run] by blast
  from fifo_space_is_reserved [OF demo_fifo_ok(1) demo_run f'] f' show ?thesis by blast
qed

text \<open>
  A bounded FIFO without a tracker never fails: every admissible sequence of requests and
  responses returns. No division by zero, no empty list of outstanding transactions, no
  endless correction of the carry, no access from the past.
\<close>

theorem untracked_fifo_never_fails:
  assumes "fifo_ok f" and "\<not> ff_trackerEnabled f" and "ff_tracker f = []"
    and "admissible_run fifo_adm fifo_step ops f"
  shows "\<exists>f'. foldR fifo_step ops f = Inr f'"
  using fifo_live.run_live [of f ops] assms by (auto simp: untracked_def)

theorem untracked_fifo_never_fails_witness:
  "\<exists>f'. foldR fifo_step [Request 0 64, Response 10 64] demo_fifo = Inr f'"
  by (rule untracked_fifo_never_fails [OF demo_fifo_ok(1) _ _ demo_run])
    (simp_all add: demo_fifo_def fifo_new_def)

text \<open>
  C17. The rate is exact over whole periods: an active FIFO updated \<open>k\<close> periods later moves precisely
  \<open>k * rate\<close> bytes, and the fraction of a byte it carries from update to update stays as it was, whatever
  it was. A READ FIFO loses the bytes, reporting an underrun and emptying when it has fewer; a WRITE FIFO
  gains them, reporting an overrun and stopping at its maximum when they do not fit. The bounds:
  the rate, the period and their multiples by \<open>k\<close> are at most \<open>2 ^ 53\<close>, so that doubles hold them, and
  the level does not wrap; the carry is a double below one, as every update leaves it.
\<close>

theorem rate_exact_over_whole_periods:
  assumes "ff_active f" and "0 < ff_rate f" and "ff_time f \<le> t" and "ff_period f \<noteq> 0"
    and "ff_carry f < 1" and "rnd64 (ff_carry f) = ff_carry f"
    and "unat (t - ff_time f) = k * unat (ff_period f)"
    and "k * unat (ff_period f) \<le> 2 ^ 53" and "k * unat (ff_rate f) \<le> 2 ^ 53"
    and "unat (ff_rate f) \<le> 2 ^ 53" and "unat (ff_period f) \<le> 2 ^ 53"
    and "unat (ff_level f) + k * unat (ff_rate f) < 2 ^ 64"
  shows "\<exists>u ov f'. fifo_update t f = Inr (u, ov, f') \<and> ff_carry f' = ff_carry f \<and> ff_time f' = t
    \<and> (ff_type f = P_READ \<longrightarrow> (u \<longleftrightarrow> unat (ff_level f) < k * unat (ff_rate f)) \<and> \<not> ov
         \<and> unat (ff_level f') = unat (ff_level f) - k * unat (ff_rate f))
    \<and> (ff_type f = P_WRITE \<longrightarrow> (ov \<longleftrightarrow> unat (ff_maxLevel f) < unat (ff_level f) + k * unat (ff_rate f)) \<and> \<not> u
         \<and> unat (ff_level f') = min (unat (ff_maxLevel f)) (unat (ff_level f) + k * unat (ff_rate f)))"
proof -
  let ?kr = "k * unat (ff_rate f)" and ?dt = "t - ff_time f"
  have ru: "rate_update ?dt f = Inr (ff_carry f, of_nat ?kr)"
    by (rule rate_update_whole [where k = k]) (use assms in simp_all)
  have kr: "unat (of_nat ?kr :: u64) = ?kr" by (rule unat_of_nat_u64, rule le_less_trans [OF assms(9)]) simp
  let ?f1 = "fill_or_track ?dt (of_nat ?kr) f"
  have run: "fifo_update t f = bindR (apply_update (of_nat ?kr) ?f1) (\<lambda>(u, ov, f2). Inr (u, ov, f2\<lparr>ff_time := t\<rparr>))"
    using assms(1-3) ru by (simp add: fifo_update_def not_less Let_def)
  show ?thesis
  proof (cases "ff_type f")
    case P_READ
    have "ff_level f < of_nat ?kr \<longleftrightarrow> unat (ff_level f) < ?kr" by (simp only: word_less_nat_alt kr)
    moreover have "\<not> ff_level f < of_nat ?kr \<Longrightarrow> unat (ff_level f - of_nat ?kr) = unat (ff_level f) - ?kr"
      by (simp only: unat_sub_le kr not_less)
    ultimately show ?thesis using P_READ run by (auto simp: apply_update_def)
  next
    case P_WRITE
    have "unat (ff_level f + of_nat ?kr) = unat (ff_level f) + unat (of_nat ?kr :: u64)"
      by (rule unat_add_no_overflow) (use assms(12) in \<open>simp only: kr; simp\<close>)
    then have sum: "unat (ff_level f + of_nat ?kr) = unat (ff_level f) + ?kr" by (simp only: kr)
    then have "ff_maxLevel f < ff_level f + of_nat ?kr \<longleftrightarrow> unat (ff_maxLevel f) < unat (ff_level f) + ?kr"
      by (simp only: word_less_nat_alt)
    moreover have "ff_rate f \<noteq> 0" using assms(2) by auto
    ultimately show ?thesis using P_WRITE run sum by (auto simp: apply_update_def min_def)
  next
    case P_NONE
    with run show ?thesis by (auto simp: apply_update_def)
  qed
qed

theorem rate_exact_over_whole_periods_witness:
  "\<exists>u ov f'. fifo_update 20 (demo_fifo\<lparr>ff_active := True, ff_level := 100, ff_carry := 1 / 2\<rparr>) = Inr (u, ov, f')
     \<and> \<not> u \<and> unat (ff_level f') = 84 \<and> ff_carry f' = 1 / 2"
  using rate_exact_over_whole_periods [of "demo_fifo\<lparr>ff_active := True, ff_level := 100, ff_carry := 1 / 2\<rparr>" 20 2]
  by (simp add: demo_fifo_def fifo_new_def rnd64_half) blast










end
