(* ===== verification/Tpm_State.thy ===== *)
theory Tpm_State
  imports Packet_Desc Statistics Fifo_Model Kronos Event_Manager
begin

text \<open>
  The state of the engine: the objects of the profile classes (\<^verbatim>\<open>traffic_profile_desc.hh\<close> and
  the headers of its subclasses) and the fields of \<^verbatim>\<open>TrafficProfileManager\<close>
  (\<^verbatim>\<open>traffic_profile_manager.hh\<close>).

  A profile object is a record of the fields of the base class with a \<open>body\<close> for the fields of
  its subclass; the FIFO that masters, slaves and checkers each declare is the field
  \<open>pr_fifo\<close>. The vector of profile pointers is a list of options, None for the null pointer of
  a profile that is declared but not built. Pointers from one profile to another are ids.
  Ordered sets are sorted lists, ordered and unordered maps are association lists.
\<close>

section \<open>Profiles\<close>

datatype role = ROLE_NONE | ROLE_MASTER | ROLE_CHECKER | ROLE_SLAVE | ROLE_DELAY

text \<open>
  The packet a master could not send yet. Resetting a master deletes it and keeps the pointer,
  which then dangles.
\<close>

datatype pending = PNull | PLive packet | PDangling

record master =
  ms_toSend :: u64
  ms_toStop :: u64
  ms_maxOt :: u64
  ms_sent :: u64
  ms_pending :: pending
  ms_checkersFifoStarted :: bool
  ms_halted :: bool
  ms_packetDesc :: packet_desc

text \<open>
  The latency of a slave is a tagged union of the code. It is \<open>LatencyUnset\<close> when neither
  alternative was configured and the tag is uninitialised.
\<close>

datatype latency = LatencyUnset | LatencyStatic u64 | LatencyRandom generator u64

record slave =
  sv_bandwidth :: "u64 \<times> u64"
  sv_maxOt :: u64
  sv_width :: u64
  sv_latency :: latency
  sv_responses :: "packet list"

record delay =
  dl_delay :: u64
  dl_startTime :: u64
  dl_time :: u64

datatype body = Master master | Slave slave | Checker | Delay delay

record profile =
  pr_em :: em
  pr_config :: profile_conf
  pr_role :: role
  pr_type :: ptype
  pr_tagger :: "tagger option"
  pr_id :: u64
  pr_name :: string
  pr_masterName :: string
  pr_masterId :: u64
  pr_streamId :: u64
  pr_masterIommuId :: u32
  pr_ot :: u64
  pr_stats :: stats
  pr_started :: bool
  pr_startTime :: u64
  pr_terminated :: bool
  pr_checkers :: "u64 list"
  pr_fifo :: fifo
  pr_body :: body

section \<open>The manager\<close>

text \<open>
  \<open>tp_checkedBy\<close> is the multimap from a profile to its checkers in insertion order,
  \<open>tp_slaveAddressRanges\<close> the map from low bounds to high bounds and slaves in descending order
  of the bounds, \<open>tp_nextTimes\<close> the priority queue of next transmission times, of which only the
  least element is ever read, and \<open>tp_anonymous\<close> the static counter of unnamed profiles. The
  packet tracer is left out.
\<close>

record tpm =
  tp_initialized :: bool
  tp_profilesAsMasters :: bool
  tp_trackerLatency :: bool
  tp_kronosEnabled :: bool
  tp_kronosBucketsWidth :: u64
  tp_kronosCalendarLength :: u64
  tp_kronosConfigurationValid :: bool
  tp_time :: u64
  tp_stats :: stats
  tp_timeResolution :: time_unit
  tp_timeScaleFactor :: "(u64 \<times> u64 \<times> u64) list"
  tp_forwardDeclared :: u64
  tp_config :: "configuration list"
  tp_profiles :: "profile option list"
  tp_checkedBy :: "(u64 \<times> u64) list"
  tp_checkers :: "u64 list"
  tp_masterMap :: "(string \<times> u64) list"
  tp_masters :: "string list"
  tp_masterProfiles :: "(u64 \<times> u64 list) list"
  tp_nonTerminated :: "(u64 \<times> u64) list"
  tp_activeList :: "u64 list"
  tp_tagger :: tagger
  tp_profileMap :: "(string \<times> u64) list"
  tp_streamCache :: "(u64 \<times> (u64 \<times> bool) list) list"
  tp_streamLeavesCache :: "(u64 \<times> u64 list) list"
  tp_clonedStreams :: "(u64 \<times> u64 \<times> u64 list) list"
  tp_streamCloneToOrigin :: "(u64 \<times> u64) list"
  tp_streamCacheValid :: bool
  tp_waitedResponse :: "(u64 \<times> u64 \<times> u64) list"
  tp_waitedRequest :: "(u64 \<times> u64 \<times> u64) list"
  tp_waitEventMap :: "(u64 \<times> (ekey \<times> u64 list) list) list"
  tp_kronos :: kronos
  tp_buffer :: "(u64 \<times> packet) list"
  tp_slaves :: "u64 list"
  tp_masterSlaveMap :: "(u64 \<times> u64) list"
  tp_slaveAddressRanges :: "(u64 \<times> u64 \<times> u64) list"
  tp_nextTimes :: "u64 list"
  tp_anonymous :: u64

definition tpm_new :: "u64 \<Rightarrow> tpm" where
  "tpm_new u0 = \<lparr>tp_initialized = False, tp_profilesAsMasters = False, tp_trackerLatency = False,
     tp_kronosEnabled = False, tp_kronosBucketsWidth = 0, tp_kronosCalendarLength = 0,
     tp_kronosConfigurationValid = False, tp_time = 0, tp_stats = stats_new,
     tp_timeResolution = PS, tp_timeScaleFactor = [], tp_forwardDeclared = 0, tp_config = [],
     tp_profiles = [], tp_checkedBy = [], tp_checkers = [], tp_masterMap = [], tp_masters = [],
     tp_masterProfiles = [], tp_nonTerminated = [], tp_activeList = [], tp_tagger = tagger_new u0,
     tp_profileMap = [], tp_streamCache = [], tp_streamLeavesCache = [], tp_clonedStreams = [],
     tp_streamCloneToOrigin = [], tp_streamCacheValid = False, tp_waitedResponse = [],
     tp_waitedRequest = [], tp_waitEventMap = [], tp_kronos = kronos_new, tp_buffer = [],
     tp_slaves = [], tp_masterSlaveMap = [], tp_slaveAddressRanges = [], tp_nextTimes = [],
     tp_anonymous = 0\<rparr>"

section \<open>Access\<close>

text \<open>
  \<open>prof i\<close> is \<^verbatim>\<open>*profiles.at(i)\<close>: an exception beyond the end of the vector, undefined for a
  null pointer.
\<close>

definition prof :: "u64 \<Rightarrow> (tpm, profile) comp" where
  "prof i s =
    (if length (tp_profiles s) \<le> unat i then Inl (Uncaught ''vector::at'')
     else case tp_profiles s ! unat i of
       None \<Rightarrow> Inl (Undefined ''null profile'') | Some p \<Rightarrow> Inr (p, s))"

definition setp :: "u64 \<Rightarrow> (profile \<Rightarrow> profile) \<Rightarrow> (tpm, unit) comp" where
  "setp i f = modifyS (\<lambda>s. s\<lparr>tp_profiles :=
     (tp_profiles s)[unat i := map_option f (tp_profiles s ! unat i)]\<rparr>)"

definition getTime :: "(tpm, u64) comp" where
  "getTime = readS tp_time"

text \<open>A handler of \<^verbatim>\<open>out_of_range\<close> exceptions that reports an error.\<close>

definition catch_oor :: "string \<Rightarrow> (tpm, 'a) comp \<Rightarrow> (tpm, 'a) comp" where
  "catch_oor f m s = (case m s of
     Inl e \<Rightarrow> Inl (if e = Uncaught ''vector::at'' then ErrorExit f else e) | Inr r \<Rightarrow> Inr r)"

text \<open>The fields of a subclass.\<close>

definition master_at :: "u64 \<Rightarrow> (tpm, profile \<times> master) comp" where
  "master_at i = bindS (prof i) (\<lambda>p. case pr_body p of
     Master m \<Rightarrow> returnS (p, m) | _ \<Rightarrow> failS (Undefined ''TrafficProfileMaster''))"

definition slave_at :: "u64 \<Rightarrow> (tpm, profile \<times> slave) comp" where
  "slave_at i = bindS (prof i) (\<lambda>p. case pr_body p of
     Slave v \<Rightarrow> returnS (p, v) | _ \<Rightarrow> failS (Undefined ''TrafficProfileSlave''))"

definition delay_at :: "u64 \<Rightarrow> (tpm, profile \<times> delay) comp" where
  "delay_at i = bindS (prof i) (\<lambda>p. case pr_body p of
     Delay d \<Rightarrow> returnS (p, d) | _ \<Rightarrow> failS (Undefined ''TrafficProfileDelay''))"

definition on_master :: "(master \<Rightarrow> master) \<Rightarrow> profile \<Rightarrow> profile" where
  "on_master f p = (case pr_body p of Master m \<Rightarrow> p\<lparr>pr_body := Master (f m)\<rparr> | _ \<Rightarrow> p)"

definition on_slave :: "(slave \<Rightarrow> slave) \<Rightarrow> profile \<Rightarrow> profile" where
  "on_slave f p = (case pr_body p of Slave v \<Rightarrow> p\<lparr>pr_body := Slave (f v)\<rparr> | _ \<Rightarrow> p)"

definition on_delay :: "(delay \<Rightarrow> delay) \<Rightarrow> profile \<Rightarrow> profile" where
  "on_delay f p = (case pr_body p of Delay d \<Rightarrow> p\<lparr>pr_body := Delay (f d)\<rparr> | _ \<Rightarrow> p)"

section \<open>Rules\<close>

lemma prof_eq_Inr:
  "prof i s = Inr (p, s') \<longleftrightarrow>
    s' = s \<and> unat i < length (tp_profiles s) \<and> tp_profiles s ! unat i = Some p"
  by (auto simp: prof_def split: option.splits)

lemma catch_oor_eq_Inr: "catch_oor f m s = Inr r \<longleftrightarrow> m s = Inr r"
  by (simp add: catch_oor_def split: sum.splits)

lemma prof_cases:
  obtains p where "prof i s = Inr (p, s)" "unat i < length (tp_profiles s)"
      "tp_profiles s ! unat i = Some p"
  | e where "prof i s = Inl e" "e \<noteq> OutOfFuel"
  by (cases "prof i s") (auto simp: prof_def split: if_splits option.splits)

lemma getTime_run [simp]: "getTime s = Inr (tp_time s, s)"
  by (simp add: getTime_def)

lemma setp_run: "setp i f s = Inr ((), s\<lparr>tp_profiles :=
     (tp_profiles s)[unat i := map_option f (tp_profiles s ! unat i)]\<rparr>)"
  by (simp add: setp_def)

lemma on_body_simps [simp]:
  "pr_em (on_master f p) = pr_em p" "pr_em (on_slave g p) = pr_em p" "pr_em (on_delay h p) = pr_em p"
  "pr_ot (on_master f p) = pr_ot p" "pr_ot (on_slave g p) = pr_ot p" "pr_ot (on_delay h p) = pr_ot p"
  "pr_id (on_master f p) = pr_id p" "pr_id (on_slave g p) = pr_id p" "pr_id (on_delay h p) = pr_id p"
  by (simp_all add: on_master_def on_slave_def on_delay_def split: body.splits)

end
