(* ===== verification/Computations.thy ===== *)
theory Computations
  imports Prelude
begin

text \<open>
  Rules for the computations of the handlers, next to the relations of the prelude:
  \<open>preserves E P m\<close> says that from a state with \<open>P\<close> the computation \<open>m\<close> returns in a state with
  \<open>P\<close> or fails with an error that \<open>E\<close> allows.
\<close>

definition the_default :: "'a \<Rightarrow> 'a option \<Rightarrow> 'a" where
  "the_default d v = (case v of None \<Rightarrow> d | Some x \<Rightarrow> x)"

lemma the_default_simps [simp]: "the_default d None = d" "the_default d (Some x) = x"
  by (simp_all add: the_default_def)

text \<open>The results of a computation for each element of a list.\<close>

fun collectS :: "('a \<Rightarrow> ('s, 'b) comp) \<Rightarrow> 'a list \<Rightarrow> ('s, 'b list) comp" where
  "collectS f [] = returnS []"
| "collectS f (x # xs) = bindS (f x) (\<lambda>y. bindS (collectS f xs) (\<lambda>ys. returnS (y # ys)))"

definition preserves :: "(atp_error \<Rightarrow> bool) \<Rightarrow> ('s \<Rightarrow> bool) \<Rightarrow> ('s, 'a) comp \<Rightarrow> bool" where
  "preserves E P m \<longleftrightarrow> (\<forall>s. P s \<longrightarrow> (case m s of Inl e \<Rightarrow> E e | Inr r \<Rightarrow> P (snd r)))"

lemma preservesI:
  assumes "\<And>s e. P s \<Longrightarrow> m s = Inl e \<Longrightarrow> E e" and "\<And>s x t. P s \<Longrightarrow> m s = Inr (x, t) \<Longrightarrow> P t"
  shows "preserves E P m"
  using assms by (auto simp: preserves_def split: sum.splits)

lemma preservesD:
  assumes "preserves E P m" and "P s"
  shows "m s = Inl e \<Longrightarrow> E e" and "m s = Inr (x, t) \<Longrightarrow> P t"
  using assms by (force simp: preserves_def)+

lemma preserves_return [keeps_rules]: "preserves E P (returnS x)"
  by (simp add: preserves_def)

lemma preserves_fail [keeps_rules]: "E e \<Longrightarrow> preserves E P (failS e)"
  by (simp add: preserves_def)

lemma preserves_read [keeps_rules]: "preserves E P (readS g)"
  by (simp add: preserves_def)

lemma preserves_get [keeps_rules]: "preserves E P getS"
  by (simp add: preserves_def)

lemma preserves_lift [keeps_rules]: "(\<And>e. r = Inl e \<Longrightarrow> E e) \<Longrightarrow> preserves E P (liftS r)"
  by (cases r) (simp_all add: preserves_def)

lemma preserves_modify: "(\<And>s. P s \<Longrightarrow> P (h s)) \<Longrightarrow> preserves E P (modifyS h)"
  by (simp add: preserves_def)

lemma preserves_bind [keeps_rules]:
  assumes "preserves E P m" and "\<And>x. preserves E P (f x)"
  shows "preserves E P (bindS m f)"
proof -
  have "case bindS m f s of Inl e \<Rightarrow> E e | Inr r \<Rightarrow> P (snd r)" if s: "P s" for s
  proof (cases "m s")
    case (Inl e)
    with preservesD(1) [OF assms(1) s Inl] show ?thesis by (simp add: bindS_def)
  next
    case (Inr r)
    obtain x t where "r = (x, t)" by (cases r)
    with Inr have r: "m s = Inr (x, t)" by simp
    from preservesD(2) [OF assms(1) s r] assms(2) [of x] show ?thesis
      by (simp add: bindS_run [where m = m, OF r] preserves_def)
  qed
  then show ?thesis by (simp add: preserves_def)
qed

lemma preserves_then [keeps_rules]:
  "preserves E P m \<Longrightarrow> preserves E P n \<Longrightarrow> preserves E P (thenS m n)"
  unfolding thenS_def by (rule preserves_bind)

lemma preserves_when [keeps_rules]: "(b \<Longrightarrow> preserves E P m) \<Longrightarrow> preserves E P (whenS b m)"
  by (cases b) (simp_all add: preserves_return)

lemma preserves_if [keeps_rules]:
  "(b \<Longrightarrow> preserves E P m) \<Longrightarrow> (\<not> b \<Longrightarrow> preserves E P n) \<Longrightarrow> preserves E P (if b then m else n)"
  by simp

lemma preserves_option [keeps_rules]:
  "(v = None \<Longrightarrow> preserves E P m) \<Longrightarrow> (\<And>x. v = Some x \<Longrightarrow> preserves E P (f x)) \<Longrightarrow>
    preserves E P (case v of None \<Rightarrow> m | Some x \<Rightarrow> f x)"
  by (cases v) simp_all

lemma preserves_prod [keeps_rules]:
  "(\<And>x y. p = (x, y) \<Longrightarrow> preserves E P (f x y)) \<Longrightarrow> preserves E P (case p of (x, y) \<Rightarrow> f x y)"
  by (cases p) simp

lemma preserves_each [keeps_rules]:
  "(\<And>x. x \<in> set xs \<Longrightarrow> preserves E P (f x)) \<Longrightarrow> preserves E P (eachS f xs)"
  by (induction xs) (auto intro: preserves_return preserves_then)

lemma keeps_mono: "(\<And>s t. R s t \<Longrightarrow> Q s t) \<Longrightarrow> keeps R m \<Longrightarrow> keeps Q m"
  by (auto simp: keeps_def)

text \<open>Elimination rules for a computation that has returned.\<close>

lemma bindSE:
  assumes "bindS m f s = Inr r"
  obtains x t where "m s = Inr (x, t)" and "f x t = Inr r"
  using assms by (auto simp: bindS_eq_Inr)

lemma thenSE:
  assumes "thenS m n s = Inr r"
  obtains x t where "m s = Inr (x, t)" and "n t = Inr r"
  using assms by (auto simp: thenS_eq_Inr)

end
