(* ===== verification/Tpm_Events.thy ===== *)
theory Tpm_Events
  imports Tpm_State Computations
begin

text \<open>
  Subscription, emission and delivery of events
  (\<^verbatim>\<open>TrafficProfileManager::subscribe\<close> and \<^verbatim>\<open>event\<close>, \<^verbatim>\<open>EventManager::waitEvent\<close> and
  \<^verbatim>\<open>emitEvent\<close>, and the \<^verbatim>\<open>receiveEvent\<close> of each profile class).

  Emission and delivery are mutually recursive: a profile that receives an event may activate,
  and the manager delivers its ACTIVATION to further profiles before the first call returns. The
  handlers take the manager's \<^verbatim>\<open>event\<close> as an argument \<open>ev_call\<close>; \<open>event_fuel\<close> closes the
  recursion with a bound on its depth, and \<open>tpm_event\<close> takes the number of profiles for it, which is
  enough for every cascade (theory \<open>Tpm_Cascade\<close>).
\<close>

section \<open>Subscription\<close>

definition subscribe :: "u64 \<Rightarrow> event \<Rightarrow> (tpm, unit) comp" where
  "subscribe pid e =
    thenS (whenS (ev_action e = TRIGGERED) (failS (ErrorExit ''TrafficProfileManager::subscribe'')))
    (modifyS (\<lambda>s.
       let byId = the_default [] (map_of (tp_waitEventMap s) (ev_id e));
           waiters = the_default [] (map_of byId (ekey e))
       in s\<lparr>tp_activeList := (if ev_type e = ACTIVATION then tp_activeList s @ [pid] else tp_activeList s),
            tp_waitEventMap := AList.update (ev_id e)
              (AList.update (ekey e) (insort_insert pid waiters) byId) (tp_waitEventMap s)\<rparr>))"

definition subscribe_keys :: "u64 \<Rightarrow> ekey list \<Rightarrow> (tpm, unit) comp" where
  "subscribe_keys pid ks = bindS getTime (\<lambda>t.
     eachS (\<lambda>k. subscribe pid (mk_event (fst k) AWAITED (snd k) t)) ks)"

text \<open>\<^verbatim>\<open>waitEvent\<close> on the profile \<open>i\<close>.\<close>

definition wait_event :: "u64 \<Rightarrow> etype \<Rightarrow> u64 \<Rightarrow> bool \<Rightarrow> (tpm, unit) comp" where
  "wait_event i t k retain =
    thenS (setp i (\<lambda>p. p\<lparr>pr_em := em_wait t k retain (pr_em p)\<rparr>))
    (whenS (t \<noteq> NO_EVENT) (bindS (prof i) (\<lambda>p. subscribe_keys (em_eventId (pr_em p)) [(t, k)])))"

section \<open>Emission\<close>

type_synonym emitter = "event \<Rightarrow> (tpm, unit) comp"

definition emit_opt :: "emitter \<Rightarrow> event option \<Rightarrow> (tpm, unit) comp" where
  "emit_opt ev_call e = (case e of None \<Rightarrow> returnS () | Some ev \<Rightarrow> ev_call ev)"

definition emitEvent :: "emitter \<Rightarrow> u64 \<Rightarrow> etype \<Rightarrow> (tpm, unit) comp" where
  "emitEvent ev_call i t = bindS (prof i) (\<lambda>p. bindS getTime (\<lambda>n.
     thenS (setp i (\<lambda>p. p\<lparr>pr_em := fst (em_emit t n (pr_em p))\<rparr>))
       (emit_opt ev_call (snd (em_emit t n (pr_em p))))))"

definition activate :: "emitter \<Rightarrow> u64 \<Rightarrow> (tpm, unit) comp" where
  "activate ev_call i =
    thenS (emitEvent ev_call i ACTIVATION)
    (bindS getTime (\<lambda>n. setp i (\<lambda>p. p\<lparr>pr_started := True, pr_startTime := n\<rparr>)))"

text \<open>\<^verbatim>\<open>Fifo::event\<close> of the FIFO of profile \<open>i\<close>.\<close>

definition fifo_event :: "emitter \<Rightarrow> u64 \<Rightarrow> (tpm, unit) comp" where
  "fifo_event ev_call i =
    bindS (prof i) (\<lambda>p. bindS getTime (\<lambda>n.
    thenS (setp i (\<lambda>p. p\<lparr>pr_fifo := fst (fifo_event_empty n (pr_fifo p))\<rparr>))
    (thenS (emit_opt ev_call (snd (fifo_event_empty n (pr_fifo p))))
    (bindS (prof i) (\<lambda>q. bindS getTime (\<lambda>m.
    thenS (setp i (\<lambda>p. p\<lparr>pr_fifo := fst (fifo_event_full m (pr_fifo p))\<rparr>))
    (emit_opt ev_call (snd (fifo_event_full m (pr_fifo q))))))))))"

section \<open>Reception by the profiles\<close>

definition receive_base :: "u64 \<Rightarrow> event \<Rightarrow> (tpm, bool) comp" where
  "receive_base i e =
    bindS (prof i) (\<lambda>p. bindS (liftS (em_receive e (pr_em p))) (\<lambda>(ok, m).
    thenS (setp i (\<lambda>p. p\<lparr>pr_em := m\<rparr>)) (returnS ok)))"

definition receive_fifo :: "u64 \<Rightarrow> event \<Rightarrow> (tpm, bool) comp" where
  "receive_fifo i e =
    bindS (prof i) (\<lambda>p. bindS (liftS (fifo_receiveEvent e (pr_fifo p))) (\<lambda>(ok, subs, f).
    thenS (setp i (\<lambda>p. p\<lparr>pr_fifo := f\<rparr>))
    (thenS (subscribe_keys (em_eventId (ff_em f)) subs) (returnS ok))))"

definition master_receiveEvent :: "emitter \<Rightarrow> u64 \<Rightarrow> event \<Rightarrow> (tpm, bool) comp" where
  "master_receiveEvent ev_call i e =
    bindS (receive_base i e) (\<lambda>ok.
    thenS (whenS (ok \<and> category (ev_type e) = SEND_STATUS)
      (thenS (if ev_type e = PROFILE_LOCKED then wait_event i PROFILE_UNLOCKED (ev_id e) False
              else if ev_type e = PROFILE_UNLOCKED then wait_event i PROFILE_LOCKED (ev_id e) False
              else returnS ())
       (setp i (on_master (\<lambda>m. m\<lparr>ms_halted := \<not> ms_halted m\<rparr>)))))
    (bindS (prof i) (\<lambda>p.
    thenS (whenS (getWaitedCount SEND_STATUS (pr_em p) = 0)
      (setp i (on_master (\<lambda>m. m\<lparr>ms_halted := False\<rparr>))))
    (thenS (whenS (\<not> pr_started p \<and> getWaitedCount PROFILE (pr_em p) = 0) (activate ev_call i))
    (bindS (receive_fifo i e) (\<lambda>fifoOk. returnS (ok \<or> fifoOk)))))))"

definition checker_receiveEvent :: "u64 \<Rightarrow> event \<Rightarrow> (tpm, bool) comp" where
  "checker_receiveEvent i e =
    bindS (receive_base i e) (\<lambda>ok. bindS (receive_fifo i e) (\<lambda>fifoOk. returnS (ok \<or> fifoOk)))"

definition delay_receiveEvent :: "emitter \<Rightarrow> u64 \<Rightarrow> event \<Rightarrow> (tpm, bool) comp" where
  "delay_receiveEvent ev_call i e =
    bindS (receive_base i e) (\<lambda>ok. bindS (prof i) (\<lambda>p.
    thenS (whenS (getWaitedCount PROFILE (pr_em p) = 0) (emitEvent ev_call i ACTIVATION))
    (returnS ok)))"

definition receiveEvent :: "emitter \<Rightarrow> u64 \<Rightarrow> event \<Rightarrow> (tpm, bool) comp" where
  "receiveEvent ev_call i e = bindS (prof i) (\<lambda>p.
     case pr_body p of
       Master _ \<Rightarrow> master_receiveEvent ev_call i e
     | Slave _ \<Rightarrow> receive_base i e
     | Checker \<Rightarrow> checker_receiveEvent i e
     | Delay _ \<Rightarrow> delay_receiveEvent ev_call i e)"

section \<open>Delivery by the manager\<close>

definition deliver :: "emitter \<Rightarrow> event \<Rightarrow> u64 list \<Rightarrow> (tpm, unit) comp" where
  "deliver ev_call e ps = eachS (\<lambda>i. thenS (receiveEvent ev_call i e) (returnS ())) ps"

text \<open>
  The profiles that wait for any event of a terminated profile are alerted; the events come in
  the order of an unordered map, here that of their first subscription. The waiters are read
  before the first of them is alerted.
\<close>

definition terminate_event :: "emitter \<Rightarrow> event \<Rightarrow> (tpm, unit) comp" where
  "terminate_event ev_call e =
    bindS (prof (ev_id e)) (\<lambda>p. bindS getS (\<lambda>s.
    let mId = pr_masterId p; n = the_default 0 (map_of (tp_nonTerminated s) mId)
    in thenS (whenS (n = 0) (failS (ErrorExit ''TrafficProfileManager::event'')))
      (thenS (modifyS (\<lambda>s. s\<lparr>tp_nonTerminated := AList.update mId (n - 1) (tp_nonTerminated s)\<rparr>))
      (thenS (deliver ev_call e
         (concat (map snd (the_default [] (map_of (tp_waitEventMap s) (ev_id e))))))
      (modifyS (\<lambda>s. s\<lparr>tp_waitEventMap := AList.delete (ev_id e) (tp_waitEventMap s)\<rparr>))))))"

definition broadcast_event :: "emitter \<Rightarrow> event \<Rightarrow> (tpm, unit) comp" where
  "broadcast_event ev_call e =
    bindS getS (\<lambda>s.
    case map_of (tp_waitEventMap s) (ev_id e) of
      None \<Rightarrow> returnS ()
    | Some byId \<Rightarrow>
       (case map_of byId (ekey e) of
          None \<Rightarrow> returnS ()
        | Some ps \<Rightarrow>
            thenS (modifyS (\<lambda>s. let rest = AList.delete (ekey e) byId
                in s\<lparr>tp_waitEventMap := (if rest = [] then AList.delete (ev_id e) (tp_waitEventMap s)
                     else AList.update (ev_id e) rest (tp_waitEventMap s))\<rparr>))
            (deliver ev_call e ps)))"

definition event_body :: "emitter \<Rightarrow> event \<Rightarrow> (tpm, unit) comp" where
  "event_body ev_call e =
    thenS (whenS (ev_action e = AWAITED) (failS (ErrorExit ''TrafficProfileManager::event'')))
    (thenS (whenS (ev_type e = ACTIVATION)
       (modifyS (\<lambda>s. s\<lparr>tp_activeList := tp_activeList s @ [ev_id e]\<rparr>)))
     (if ev_type e = TERMINATION then terminate_event ev_call e else broadcast_event ev_call e))"

fun event_fuel :: "nat \<Rightarrow> emitter" where
  "event_fuel 0 e = failS OutOfFuel"
| "event_fuel (Suc n) e = event_body (event_fuel n) e"

definition tpm_event :: emitter where
  "tpm_event e s = event_fuel (Suc (length (tp_profiles s))) e s"

text \<open>\<^verbatim>\<open>event(master, e)\<close> passes an event on to every profile of a master.\<close>

definition master_event :: "string \<Rightarrow> event \<Rightarrow> (tpm, unit) comp" where
  "master_event m e = bindS getS (\<lambda>s.
     case map_of (tp_masterMap s) m of
       None \<Rightarrow> failS (ErrorExit ''TrafficProfileManager::event'')
     | Some mId \<Rightarrow>
        (case map_of (tp_masterProfiles s) mId of
           None \<Rightarrow> failS (ErrorExit ''TrafficProfileManager::event'')
         | Some ps \<Rightarrow> catch_oor ''TrafficProfileManager::event''
            (eachS (\<lambda>i. tpm_event (mk_event (ev_type e) (ev_action e) i (ev_time e))) ps)))"

end
