(* ===== verification/Tpm_Cascade.thy ===== *)
theory Tpm_Cascade
  imports Tpm_Events
begin

text \<open>
  Event cascades: delivering an event always ends, within a recursion depth bounded by the
  number of profiles, and leaves everything alone but the waits, the activation and the halt
  flags of the profiles.
\<close>

section \<open>Cascades end\<close>

text \<open>
  \<open>unactivated\<close>: the profiles whose last event in the category of profile events is not
  ACTIVATION. ACTIVATION is the only event that is emitted while another is delivered, and its
  emission takes the emitter out of this set.
\<close>

definition unactivated_profile :: "profile option \<Rightarrow> bool" where
  "unactivated_profile q = (case q of None \<Rightarrow> False | Some p \<Rightarrow> fst (em_sent (pr_em p) PROFILE) \<noteq> ACTIVATION)"

definition unactivated :: "tpm \<Rightarrow> nat" where
  "unactivated s = length (filter unactivated_profile (tp_profiles s))"

abbreviation few :: "nat \<Rightarrow> tpm \<Rightarrow> bool" where
  "few n s \<equiv> unactivated s \<le> n"

abbreviation in_fuel :: "atp_error \<Rightarrow> bool" where
  "in_fuel e \<equiv> e \<noteq> OutOfFuel"

lemma unactivated_bound: "few (length (tp_profiles s)) s"
  by (simp add: unactivated_def)

lemma length_filter_update:
  "length (filter P (xs[i := y])) + (if i < length xs \<and> P (xs ! i) then 1 else 0)
    = length (filter P xs) + (if i < length xs \<and> P y then 1 else 0)"
proof (induction xs arbitrary: i)
  case (Cons x xs)
  show ?case
  proof (cases i)
    case (Suc j)
    with Cons.IH [of j] show ?thesis by (auto split: if_splits)
  qed simp
qed simp

lemma few_setp:
  assumes "\<And>p. em_sent (pr_em (f p)) PROFILE = em_sent (pr_em p) PROFILE"
  shows "preserves in_fuel (few n) (setp i f)"
proof (rule preservesI)
  fix s x t
  assume n: "few n s" and t: "setp i f s = Inr (x, t)"
  have "unactivated_profile (map_option f q) = unactivated_profile q" for q
    using assms by (cases q) (simp_all add: unactivated_profile_def)
  then have "unactivated t = unactivated s"
    using t length_filter_update [of unactivated_profile "tp_profiles s" "unat i"
        "map_option f (tp_profiles s ! unat i)"]
    by (auto simp: setp_run unactivated_def)
  with n show "few n t" by simp
qed (simp add: setp_run)

lemma few_prof: "preserves in_fuel (few n) (prof i)"
proof (rule preservesI)
  fix s e
  assume "prof i s = Inl e"
  then show "in_fuel e" by (cases rule: prof_cases [of i s]) auto
qed (simp add: prof_eq_Inr)

lemma few_modify:
  "(\<And>s. tp_profiles (h s) = tp_profiles s) \<Longrightarrow> preserves in_fuel (few n) (modifyS h)"
  by (rule preserves_modify) (simp add: unactivated_def)

lemma em_sent_wait [simp]: "em_sent (em_wait t i r m) = em_sent m"
  by (simp add: em_wait_def Let_def bump_count_def)

lemma em_receive_sent: "em_receive e m = Inr (ok, m') \<Longrightarrow> em_sent m' = em_sent m"
  by (auto simp: em_receive_def bindR_eq_Inr Let_def em_take_def em_release_id_def)

lemma em_receive_error: "em_receive e m = Inl x \<Longrightarrow> in_fuel x"
  by (auto simp: em_receive_def ensure_def bindR_def Let_def split: if_splits)

lemma fifo_receiveEvent_error: "fifo_receiveEvent e f = Inl x \<Longrightarrow> in_fuel x"
  by (auto simp: fifo_receiveEvent_def fifo_wait_def bindR_def Let_def ensure_def
      split: sum.splits if_splits prod.splits dest: em_receive_error)

lemma few_subscribe: "preserves in_fuel (few n) (subscribe_keys pid ks)"
  unfolding subscribe_keys_def subscribe_def getTime_def
  by (intro keeps_rules few_modify) (simp_all add: Let_def)

lemma few_wait: "preserves in_fuel (few n) (wait_event i t k r)"
  unfolding wait_event_def by (intro keeps_rules few_setp few_prof few_subscribe) simp

lemma few_receive_base: "preserves in_fuel (few n) (receive_base i e)"
proof (rule preservesI)
  fix s x t
  assume n: "few n s" and r: "receive_base i e s = Inr (x, t)"
  then obtain p ok m where p: "prof i s = Inr (p, s)" and m: "em_receive e (pr_em p) = Inr (ok, m)"
    and t: "setp i (\<lambda>p. p\<lparr>pr_em := m\<rparr>) s = Inr ((), t)"
    by (auto simp: receive_base_def bindS_eq_Inr thenS_eq_Inr liftS_eq_Inr prof_eq_Inr setp_run)
  have "unactivated t = unactivated s"
    using p t em_receive_sent [OF m] length_filter_update [of unactivated_profile "tp_profiles s" "unat i"
        "Some (p\<lparr>pr_em := m\<rparr>)"]
    by (auto simp: prof_eq_Inr setp_run unactivated_def unactivated_profile_def)
  with n show "few n t" by simp
next
  fix s x
  assume "receive_base i e s = Inl x"
  then show "in_fuel x"
    by (cases rule: prof_cases [of i s])
       (auto simp: receive_base_def bindS_def thenS_def setp_run liftS_def
        split: sum.splits prod.splits dest: em_receive_error)
qed

lemma few_receive_fifo: "preserves in_fuel (few n) (receive_fifo i e)"
  unfolding receive_fifo_def
  by (intro keeps_rules few_prof few_setp few_subscribe) (auto dest: fifo_receiveEvent_error)

text \<open>An emitter that copes with fewer candidates makes the handlers cope.\<close>

lemma few_emit_activation:
  assumes "\<And>k e. k < n \<Longrightarrow> preserves in_fuel (few k) (ev_call e)"
  shows "preserves in_fuel (few n) (emitEvent ev_call i ACTIVATION)"
proof (rule preservesI)
  let ?set = "\<lambda>tm. setp i (\<lambda>p. p\<lparr>pr_em := fst (em_emit ACTIVATION tm (pr_em p))\<rparr>)"
  have step: "few n t \<and> (o' = None \<or> (\<exists>k < n. few k t))"
    if p: "prof i s = Inr (p, s)" and n: "few n s" and t: "?set (tp_time s) s = Inr ((), t)"
      and o': "o' = snd (em_emit ACTIVATION (tp_time s) (pr_em p))" for s p t o'
  proof -
    let ?q = "p\<lparr>pr_em := fst (em_emit ACTIVATION (tp_time s) (pr_em p))\<rparr>"
    have i: "unat i < length (tp_profiles s)" "tp_profiles s ! unat i = Some p"
      using p by (auto simp: prof_eq_Inr)
    have l: "unactivated t + (if unactivated_profile (Some p) then 1 else 0)
        = unactivated s + (if unactivated_profile (Some ?q) then 1 else 0)"
      using t i length_filter_update [of unactivated_profile "tp_profiles s" "unat i" "Some ?q"]
      by (auto simp: setp_run unactivated_def)
    have "unactivated_profile (Some ?q) = (unactivated_profile (Some p) \<and> o' = None)"
      by (auto simp: unactivated_profile_def em_emit_def Let_def o')
    moreover have "unactivated_profile (Some p)" if "o' \<noteq> None"
      using that by (auto simp: unactivated_profile_def em_emit_def Let_def o' split: if_splits)
    ultimately have "unactivated t < unactivated s \<or> o' = None \<and> unactivated t = unactivated s"
      using l by (cases "o' = None") auto
    then show ?thesis using n by (metis leD le_refl less_le_trans not_le_imp_less order.strict_implies_order)
  qed
  fix s assume n: "few n s"
  { fix x assume e: "emitEvent ev_call i ACTIVATION s = Inl x"
    show "in_fuel x"
    proof (cases rule: prof_cases [of i s])
      case (1 p)
      let ?o = "snd (em_emit ACTIVATION (tp_time s) (pr_em p))"
      obtain t where t: "?set (tp_time s) s = Inr ((), t)" by (simp add: setp_run)
      have "emit_opt ev_call ?o t = Inl x"
        using e by (simp add: emitEvent_def bindS_run [where m = "prof i", OF 1(1)] bindS_run [where m = getTime]
            thenS_run [where m = "?set (tp_time s)", OF t])
      moreover note step [OF 1(1) n t refl]
      ultimately show ?thesis
        using assms by (auto simp: emit_opt_def split: option.splits dest: preservesD(1))
    qed (use e in \<open>simp add: emitEvent_def bindS_fails\<close>) }
  { fix x t assume r: "emitEvent ev_call i ACTIVATION s = Inr (x, t)"
    then obtain p u where p: "prof i s = Inr (p, s)" and u: "?set (tp_time s) s = Inr ((), u)"
      and t: "emit_opt ev_call (snd (em_emit ACTIVATION (tp_time s) (pr_em p))) u = Inr (x, t)"
      by (auto simp: emitEvent_def bindS_eq_Inr thenS_eq_Inr prof_eq_Inr setp_run)
    from step [OF p n u refl] t show "few n t"
    proof (cases "snd (em_emit ACTIVATION (tp_time s) (pr_em p))")
      case (Some ev)
      with step [OF p n u refl] obtain k where "k < n" "few k u" by auto
      moreover have "ev_call ev u = Inr (x, t)" using t Some by (simp add: emit_opt_def)
      ultimately have "few k t" using preservesD(2) [OF assms [of k]] by blast
      with \<open>k < n\<close> show ?thesis by simp
    qed (simp add: emit_opt_def) }
qed

lemma few_receiveEvent:
  assumes "\<And>k e. k < n \<Longrightarrow> preserves in_fuel (few k) (ev_call e)"
  shows "preserves in_fuel (few n) (receiveEvent ev_call i e)"
proof -
  note rules = keeps_rules few_prof few_setp few_wait few_receive_base few_receive_fifo
    few_emit_activation [OF assms]
  have "preserves in_fuel (few n) (master_receiveEvent ev_call i e)"
    unfolding master_receiveEvent_def activate_def getTime_def by (intro rules) simp_all
  moreover have "preserves in_fuel (few n) (checker_receiveEvent i e)"
    unfolding checker_receiveEvent_def by (intro rules)
  moreover have "preserves in_fuel (few n) (delay_receiveEvent ev_call i e)"
    unfolding delay_receiveEvent_def by (intro rules)
  ultimately have "preserves in_fuel (few n) (case b of Master _ \<Rightarrow> master_receiveEvent ev_call i e
     | Slave _ \<Rightarrow> receive_base i e | Checker \<Rightarrow> checker_receiveEvent i e
     | Delay _ \<Rightarrow> delay_receiveEvent ev_call i e)" for b
    by (cases b) (simp_all add: few_receive_base)
  then show ?thesis unfolding receiveEvent_def by (intro rules)
qed

lemma few_event_body:
  assumes "\<And>k e. k < n \<Longrightarrow> preserves in_fuel (few k) (ev_call e)"
  shows "preserves in_fuel (few n) (event_body ev_call e)"
proof -
  note rules = keeps_rules few_prof few_modify few_receiveEvent [OF assms]
  show ?thesis
    unfolding event_body_def terminate_event_def broadcast_event_def deliver_def Let_def
    by (intro rules) simp_all
qed

lemma few_event_fuel: "k \<le> n \<Longrightarrow> preserves in_fuel (few k) (event_fuel (Suc n) e)"
proof (induction n arbitrary: k e)
  case 0
  have "preserves in_fuel (few 0) (event_body (event_fuel 0) e)" by (rule few_event_body) simp
  moreover have "k = 0" using 0 by simp
  ultimately show ?case by (simp only: event_fuel.simps)
next
  case (Suc n)
  have "preserves in_fuel (few k) (event_body (event_fuel (Suc n)) e)"
    using Suc by (intro few_event_body) simp
  then show ?case by simp
qed

section \<open>The bound on the depth does not matter\<close>

text \<open>\<open>agrees m m'\<close>: wherever \<open>m\<close> is not cut off, \<open>m'\<close> does the same.\<close>

definition agrees :: "('s, 'a) comp \<Rightarrow> ('s, 'a) comp \<Rightarrow> bool" where
  "agrees m m' \<longleftrightarrow> (\<forall>s. m s \<noteq> Inl OutOfFuel \<longrightarrow> m' s = m s)"

lemma agrees_refl: "agrees m m"
  by (simp add: agrees_def)

lemma agrees_bind: "agrees m m' \<Longrightarrow> (\<And>x. agrees (f x) (f' x)) \<Longrightarrow> agrees (bindS m f) (bindS m' f')"
  unfolding agrees_def bindS_def by (auto split: sum.splits prod.splits)

lemma agrees_then: "agrees m m' \<Longrightarrow> agrees n n' \<Longrightarrow> agrees (thenS m n) (thenS m' n')"
  unfolding thenS_def by (intro agrees_bind)

lemma agrees_when: "agrees m m' \<Longrightarrow> agrees (whenS b m) (whenS b m')"
  by (cases b) (simp_all add: agrees_refl)

lemma agrees_each: "(\<And>x. agrees (f x) (f' x)) \<Longrightarrow> agrees (eachS f xs) (eachS f' xs)"
  by (induction xs) (simp_all add: agrees_refl agrees_then)

lemma agrees_option:
  "agrees m m' \<Longrightarrow> (\<And>x. agrees (f x) (f' x)) \<Longrightarrow>
    agrees (case v of None \<Rightarrow> m | Some x \<Rightarrow> f x) (case v of None \<Rightarrow> m' | Some x \<Rightarrow> f' x)"
  by (cases v) simp_all

lemma agrees_if:
  "agrees m m' \<Longrightarrow> agrees n n' \<Longrightarrow> agrees (if b then m else n) (if b then m' else n')"
  by simp

lemmas agrees_rules = agrees_bind agrees_then agrees_when agrees_each agrees_option agrees_if

lemma agrees_event_body:
  assumes "\<And>e. agrees (c e) (c' e)"
  shows "agrees (event_body c e) (event_body c' e)"
proof -
  have emit: "agrees (emitEvent c i t) (emitEvent c' i t)" for i t
    unfolding emitEvent_def emit_opt_def by (intro agrees_rules agrees_refl assms)
  have master: "agrees (master_receiveEvent c i e) (master_receiveEvent c' i e)" for i e
    unfolding master_receiveEvent_def activate_def
    by (rule agrees_bind [OF agrees_refl], rule agrees_then [OF agrees_refl],
        rule agrees_bind [OF agrees_refl], rule agrees_then [OF agrees_refl], rule agrees_then,
        rule agrees_when, rule agrees_then [OF emit agrees_refl], rule agrees_refl)
  have "agrees (delay_receiveEvent c i e) (delay_receiveEvent c' i e)" for i e
    unfolding delay_receiveEvent_def
    by (rule agrees_bind [OF agrees_refl], rule agrees_bind [OF agrees_refl], rule agrees_then,
        rule agrees_when, rule emit, rule agrees_refl)
  with master have "agrees (case b of Master _ \<Rightarrow> master_receiveEvent c i e | Slave _ \<Rightarrow> receive_base i e
       | Checker \<Rightarrow> checker_receiveEvent i e | Delay _ \<Rightarrow> delay_receiveEvent c i e)
     (case b of Master _ \<Rightarrow> master_receiveEvent c' i e | Slave _ \<Rightarrow> receive_base i e
       | Checker \<Rightarrow> checker_receiveEvent i e | Delay _ \<Rightarrow> delay_receiveEvent c' i e)" for b i e
    by (cases b) (simp_all add: agrees_refl)
  then have "agrees (deliver c e ps) (deliver c' e ps)" for e ps
    unfolding deliver_def receiveEvent_def
    by (intro agrees_each agrees_then agrees_bind agrees_refl)
  then show ?thesis
    unfolding event_body_def terminate_event_def broadcast_event_def Let_def
    by (intro agrees_then agrees_if agrees_bind agrees_option agrees_refl)
qed

lemma agrees_event_fuel: "agrees (event_fuel n e) (event_fuel (n + k) e)"
proof (induction n arbitrary: e)
  case (Suc n)
  then show ?case by (simp add: agrees_event_body)
qed (simp add: agrees_def)

text \<open>
  C10. Event cascades end. Emitting an event delivers it to the profiles that wait for it, which
  may activate and emit in turn, and so on; the recursion never exceeds the number of profiles,
  because only ACTIVATION is emitted during a delivery and each profile emits it once. The bound
  that the model puts on the depth is therefore no restriction: any larger one gives the same
  result.
\<close>

theorem event_cascade_ends:
  "tpm_event e s \<noteq> Inl OutOfFuel \<and> event_fuel (Suc (length (tp_profiles s)) + k) e s = tpm_event e s"
proof -
  have "preserves in_fuel (few (length (tp_profiles s))) (event_fuel (Suc (length (tp_profiles s))) e)"
    by (rule few_event_fuel) simp
  from preservesD(1) [OF this unactivated_bound] have "tpm_event e s \<noteq> Inl OutOfFuel"
    unfolding tpm_event_def by blast
  with agrees_event_fuel [of "Suc (length (tp_profiles s))" e k] show ?thesis
    by (simp add: agrees_def tpm_event_def)
qed

section \<open>What a cascade leaves alone\<close>

text \<open>
  \<open>view\<close> forgets what the delivery of events may change: the waits and the log of sent events
  of a profile, whether it has started and is halted, the activation of its FIFO, and in the
  manager the table of waits, the list of active profiles and the counters of profiles that
  have not terminated.
\<close>

definition quiet_fifo :: "fifo \<Rightarrow> fifo" where
  "quiet_fifo f = f\<lparr>ff_em := em_new 0, ff_active := False, ff_linked := False\<rparr>"

definition quiet_profile :: "profile \<Rightarrow> profile" where
  "quiet_profile p = on_master (\<lambda>m. m\<lparr>ms_halted := False\<rparr>)
     (p\<lparr>pr_em := em_new 0, pr_started := False, pr_startTime := 0, pr_fifo := quiet_fifo (pr_fifo p)\<rparr>)"

definition view :: "tpm \<Rightarrow> tpm" where
  "view s = s\<lparr>tp_profiles := map (map_option quiet_profile) (tp_profiles s),
     tp_nonTerminated := [], tp_activeList := [], tp_waitEventMap := []\<rparr>"

interpretation quiet: step_relation "\<lambda>s t. view s = view t"
  by unfold_locales simp_all

lemma quiet_setp:
  assumes "\<And>p. quiet_profile (f p) = quiet_profile p"
  shows "keeps (\<lambda>s t. view s = view t) (setp i f)"
proof (rule keepsI)
  fix s x t
  assume t: "setp i f s = Inr (x, t)"
  have "map_option quiet_profile (map_option f q) = map_option quiet_profile q" for q
    using assms by (cases q) simp_all
  then have "map (map_option quiet_profile) ((tp_profiles s)[unat i := map_option f (tp_profiles s ! unat i)])
      = map (map_option quiet_profile) (tp_profiles s)"
    by (cases "unat i < length (tp_profiles s)") (simp_all add: map_update list_update_same_conv list_update_beyond)
  with t show "view s = view t" by (auto simp: setp_run view_def)
qed

lemma quiet_prof: "keeps (\<lambda>s t. view s = view t) (prof i)"
  by (rule keepsI) (simp add: prof_eq_Inr)

lemma quiet_profile_simps [simp]:
  "quiet_profile (p\<lparr>pr_em := m\<rparr>) = quiet_profile p"
  "quiet_profile (p\<lparr>pr_started := b, pr_startTime := t\<rparr>) = quiet_profile p"
  "quiet_profile (p\<lparr>pr_started := b\<rparr>) = quiet_profile p"
  "quiet_profile (on_master (\<lambda>m. m\<lparr>ms_halted := h m\<rparr>) p) = quiet_profile p"
  by (simp_all add: quiet_profile_def on_master_def split: body.splits)

lemma quiet_profile_fifo: "quiet_fifo f = quiet_fifo (pr_fifo p) \<Longrightarrow> quiet_profile (p\<lparr>pr_fifo := f\<rparr>) = quiet_profile p"
  by (simp add: quiet_profile_def on_master_def split: body.splits)

lemma quiet_fifo_receiveEvent:
  "fifo_receiveEvent e f = Inr (ok, subs, f') \<Longrightarrow> quiet_fifo f' = quiet_fifo f"
  by (auto simp: fifo_receiveEvent_def fifo_wait_def bindR_eq_Inr Let_def quiet_fifo_def split: if_splits prod.splits)

lemma quiet_modify: "(\<And>s. view (h s) = view s) \<Longrightarrow> keeps (\<lambda>s t. view s = view t) (modifyS h)"
  by (rule quiet.keeps_modify) simp

lemma view_simps [simp]:
  "view (s\<lparr>tp_activeList := al\<rparr>) = view s" "view (s\<lparr>tp_waitEventMap := wm\<rparr>) = view s"
  "view (s\<lparr>tp_nonTerminated := nt\<rparr>) = view s"
  "view (s\<lparr>tp_activeList := al, tp_waitEventMap := wm\<rparr>) = view s"
  by (simp_all add: view_def)

lemma quiet_subscribe: "keeps (\<lambda>s t. view s = view t) (subscribe_keys pid ks)"
  unfolding subscribe_keys_def subscribe_def getTime_def Let_def
  by (intro quiet.keeps_all quiet_modify) simp_all

lemma quiet_wait: "keeps (\<lambda>s t. view s = view t) (wait_event i t k r)"
  unfolding wait_event_def by (intro quiet.keeps_all quiet_setp quiet_prof quiet_subscribe) simp

lemma quiet_receive_base: "keeps (\<lambda>s t. view s = view t) (receive_base i e)"
  unfolding receive_base_def
  by (intro quiet.keeps_all quiet_prof quiet_setp) simp

lemma quiet_receive_fifo: "keeps (\<lambda>s t. view s = view t) (receive_fifo i e)"
proof (rule keepsI)
  fix s x t
  assume "receive_fifo i e s = Inr (x, t)"
  then obtain p ok subs f where p: "prof i s = Inr (p, s)"
    and f: "fifo_receiveEvent e (pr_fifo p) = Inr (ok, subs, f)"
    and t: "thenS (setp i (\<lambda>p. p\<lparr>pr_fifo := f\<rparr>))
      (thenS (subscribe_keys (em_eventId (ff_em f)) subs) (returnS ok)) s = Inr (x, t)"
    unfolding receive_fifo_def by (auto elim!: bindSE simp: prof_eq_Inr liftS_eq_Inr)
  from t obtain u where u: "setp i (\<lambda>p. p\<lparr>pr_fifo := f\<rparr>) s = Inr ((), u)"
    and t': "subscribe_keys (em_eventId (ff_em f)) subs u = Inr ((), t)"
    by (auto simp: thenS_eq_Inr)
  have "quiet_profile (p\<lparr>pr_fifo := f\<rparr>) = quiet_profile p"
    using quiet_fifo_receiveEvent [OF f] by (simp add: quiet_profile_fifo)
  with p have "map (map_option quiet_profile) ((tp_profiles s)[unat i := Some (p\<lparr>pr_fifo := f\<rparr>)])
      = map (map_option quiet_profile) (tp_profiles s)"
    by (simp add: prof_eq_Inr map_update list_update_same_conv)
  with p u have "view s = view u"
    by (auto simp: setp_run prof_eq_Inr view_def)
  also have "view u = view t" using keepsD [OF quiet_subscribe t'] by simp
  finally show "view s = view t" .
qed

lemma quiet_emit:
  assumes "\<And>e. keeps (\<lambda>s t. view s = view t) (c e)"
  shows "keeps (\<lambda>s t. view s = view t) (emitEvent c i t)"
  unfolding emitEvent_def emit_opt_def getTime_def
  by (intro quiet.keeps_all quiet_prof quiet_setp assms) simp

lemma quiet_receiveEvent:
  assumes "\<And>e. keeps (\<lambda>s t. view s = view t) (c e)"
  shows "keeps (\<lambda>s t. view s = view t) (receiveEvent c i e)"
proof -
  note rules = quiet.keeps_all quiet_prof quiet_setp quiet_wait quiet_receive_base quiet_receive_fifo
    quiet_emit [OF assms]
  have "keeps (\<lambda>s t. view s = view t) (master_receiveEvent c i e)"
    unfolding master_receiveEvent_def activate_def getTime_def by (intro rules) simp_all
  moreover have "keeps (\<lambda>s t. view s = view t) (checker_receiveEvent i e)"
    unfolding checker_receiveEvent_def by (intro rules)
  moreover have "keeps (\<lambda>s t. view s = view t) (delay_receiveEvent c i e)"
    unfolding delay_receiveEvent_def by (intro rules)
  ultimately have "keeps (\<lambda>s t. view s = view t) (case b of Master _ \<Rightarrow> master_receiveEvent c i e
     | Slave _ \<Rightarrow> receive_base i e | Checker \<Rightarrow> checker_receiveEvent i e
     | Delay _ \<Rightarrow> delay_receiveEvent c i e)" for b
    by (cases b) (simp_all add: quiet_receive_base)
  then show ?thesis unfolding receiveEvent_def by (intro rules)
qed

lemma quiet_event_fuel: "keeps (\<lambda>s t. view s = view t) (event_fuel n e)"
proof (induction n arbitrary: e)
  case (Suc n)
  note rules = quiet.keeps_all quiet_prof quiet_modify quiet_receiveEvent [OF Suc]
  show ?case
    unfolding event_fuel.simps event_body_def terminate_event_def broadcast_event_def deliver_def Let_def
    by (intro rules) simp_all
qed (simp add: quiet.keeps_fail)

lemma quiet_tpm_event: "keeps (\<lambda>s t. view s = view t) (tpm_event e)"
  by (rule keepsI) (auto simp: tpm_event_def simp del: event_fuel.simps dest: keepsD [OF quiet_event_fuel])

lemmas quiet_emitEvent = quiet_emit [where c = tpm_event, OF quiet_tpm_event]

lemma quiet_activate: "keeps (\<lambda>s t. view s = view t) (activate tpm_event i)"
  unfolding activate_def getTime_def
  by (intro quiet.keeps_all quiet_emitEvent quiet_setp) simp

lemma quiet_fifo_event: "keeps (\<lambda>s t. view s = view t) (fifo_event tpm_event i)"
proof -
  have q: "quiet_profile (p\<lparr>pr_fifo := fst (fifo_event_empty n (pr_fifo p))\<rparr>) = quiet_profile p"
    "quiet_profile (p\<lparr>pr_fifo := fst (fifo_event_full n (pr_fifo p))\<rparr>) = quiet_profile p" for p n
    by (rule quiet_profile_fifo; simp add: fifo_event_empty_def fifo_event_full_def fifo_emit_def
        quiet_fifo_def Let_def split: prod.splits)+
  show ?thesis
    unfolding fifo_event_def emit_opt_def getTime_def
    by (intro quiet.keeps_all quiet_prof quiet_setp quiet_tpm_event) (simp_all add: q)
qed

text \<open>What an unchanged \<open>view\<close> tells about one profile and the manager.\<close>

lemma view_eqD:
  assumes "view s = view t"
  shows "length (tp_profiles t) = length (tp_profiles s)" and "tp_time t = tp_time s"
    and "tp_profiles s ! unat i = Some p \<Longrightarrow> unat i < length (tp_profiles s) \<Longrightarrow>
      \<exists>q. tp_profiles t ! unat i = Some q \<and> quiet_profile q = quiet_profile p"
proof -
  have m: "map (map_option quiet_profile) (tp_profiles s) = map (map_option quiet_profile) (tp_profiles t)"
    using arg_cong [OF assms, of tp_profiles] by (simp add: view_def)
  then show l: "length (tp_profiles t) = length (tp_profiles s)" by (metis length_map)
  show "tp_time t = tp_time s" using arg_cong [OF assms, of tp_time] by (simp add: view_def)
  show "\<exists>q. tp_profiles t ! unat i = Some q \<and> quiet_profile q = quiet_profile p"
    if "tp_profiles s ! unat i = Some p" "unat i < length (tp_profiles s)"
  proof -
    have "map_option quiet_profile (tp_profiles t ! unat i) = map_option quiet_profile (tp_profiles s ! unat i)"
      using arg_cong [OF m, of "\<lambda>xs. xs ! unat i"] that l by simp
    with that(1) show ?thesis by simp
  qed
qed

end
