(* ===== verification/Tpm_Registry.thy ===== *)
theory Tpm_Registry
  imports Tpm_State Computations
begin

text \<open>
  The tables of the manager: profile and master identifiers, the counters of live profiles, time
  units, the routing tables of slaves and of awaited packets
  (\<^verbatim>\<open>traffic_profile_manager.cc\<close>). Looking up an unknown name or id is an error of the engine.
\<close>

section \<open>Identifiers\<close>

definition getOrGeneratePid :: "string \<Rightarrow> (tpm, u64) comp" where
  "getOrGeneratePid n s =
    (case map_of (tp_profileMap s) n of
       Some i \<Rightarrow> Inr (i, s)
     | None \<Rightarrow> (let i = of_nat (length (tp_profiles s))
         in Inr (i, s\<lparr>tp_profileMap := AList.update n i (tp_profileMap s),
              tp_profiles := tp_profiles s @ [None],
              tp_forwardDeclared := tp_forwardDeclared s + 1\<rparr>)))"

definition profileId :: "string \<Rightarrow> (tpm, u64) comp" where
  "profileId n s = (case map_of (tp_profileMap s) n of
     Some i \<Rightarrow> Inr (i, s) | None \<Rightarrow> Inl (ErrorExit ''TrafficProfileManager::profileId''))"

definition getOrGenerateMid :: "string \<Rightarrow> (tpm, u64) comp" where
  "getOrGenerateMid n s =
    (case map_of (tp_masterMap s) n of
       Some i \<Rightarrow> Inr (i, s)
     | None \<Rightarrow> (let i = of_nat (length (tp_masters s))
         in Inr (i, s\<lparr>tp_masterMap := AList.update n i (tp_masterMap s),
              tp_masters := tp_masters s @ [n]\<rparr>)))"

definition masterId :: "string \<Rightarrow> (tpm, u64) comp" where
  "masterId n s = (case map_of (tp_masterMap s) n of
     Some i \<Rightarrow> Inr (i, s) | None \<Rightarrow> Inl (ErrorExit ''TrafficProfileManager::masterId''))"

definition masterName :: "u64 \<Rightarrow> (tpm, string) comp" where
  "masterName i s = (if unat i < length (tp_masters s) then Inr (tp_masters s ! unat i, s)
     else Inl (ErrorExit ''TrafficProfileManager::masterName''))"

definition getMasters :: "tpm \<Rightarrow> string set" where
  "getMasters s = set (tp_masters s)"

definition isInternalMaster :: "string \<Rightarrow> tpm \<Rightarrow> bool" where
  "isInternalMaster m s \<longleftrightarrow> map_of (tp_masterMap s) m \<noteq> None"

definition isChecker :: "u64 \<Rightarrow> tpm \<Rightarrow> bool" where
  "isChecker i s \<longleftrightarrow> i \<in> set (tp_checkers s)"

definition isSlave :: "u64 \<Rightarrow> tpm \<Rightarrow> bool" where
  "isSlave i s \<longleftrightarrow> i \<in> set (tp_slaves s)"

definition getProfile :: "u64 \<Rightarrow> (tpm, profile) comp" where
  "getProfile i = catch_oor ''TrafficProfileManager::getProfile'' (prof i)"

definition getOt :: "u64 \<Rightarrow> (tpm, u64) comp" where
  "getOt i = bindS (prof i) (\<lambda>p. returnS (pr_ot p))"

section \<open>Live profiles and statistics\<close>

definition signalReset :: "u64 \<Rightarrow> (tpm, unit) comp" where
  "signalReset i = bindS (catch_oor ''TrafficProfileManager::signalReset'' (prof i)) (\<lambda>p.
     modifyS (\<lambda>s. s\<lparr>tp_nonTerminated := AList.update (pr_masterId p)
       (the_default 0 (map_of (tp_nonTerminated s) (pr_masterId p)) + 1) (tp_nonTerminated s)\<rparr>))"

definition isTerminated :: "string \<Rightarrow> (tpm, bool) comp" where
  "isTerminated m = bindS (masterId m) (\<lambda>i. bindS getS (\<lambda>s.
     case map_of (tp_nonTerminated s) i of
       None \<Rightarrow> failS (ErrorExit ''TrafficProfileManager::isTerminated'')
     | Some n \<Rightarrow> returnS (n = 0)))"

fun toFrequency :: "time_unit \<Rightarrow> u64" where
  "toFrequency PS = 1000000000000"
| "toFrequency NS = 1000000000"
| "toFrequency US = 1000000"
| "toFrequency MS = 1000"
| "toFrequency SEC = 1"
| "toFrequency CYCLES = 1"

definition defaultFrequency :: u64 where
  "defaultFrequency = 1000000000"

fun sum_stats :: "bool \<Rightarrow> u64 list \<Rightarrow> stats \<Rightarrow> (tpm, stats) comp" where
  "sum_stats terminated [] acc = returnS acc"
| "sum_stats terminated (i # is) acc =
    thenS (whenS (\<not> terminated) (bindS getTime (\<lambda>t. bindS (prof i) (\<lambda>_.
      setp i (\<lambda>p. p\<lparr>pr_stats := stats_setTime t (pr_stats p)\<rparr>)))))
    (bindS (prof i) (\<lambda>p. bindS (liftS (stats_plus acc (pr_stats p))) (sum_stats terminated is)))"

definition getMasterStats :: "string \<Rightarrow> (tpm, stats) comp" where
  "getMasterStats m =
    bindS (isTerminated m) (\<lambda>terminated. bindS (masterId m) (\<lambda>i. bindS getS (\<lambda>s.
    case map_of (tp_masterProfiles s) i of
      None \<Rightarrow> failS (ErrorExit ''TrafficProfileManager::getMasterStats'')
    | Some ps \<Rightarrow> sum_stats terminated ps
        (stats_new\<lparr>st_timeScale := toFrequency (tp_timeResolution s)\<rparr>))))"

definition getProfileStats :: "string \<Rightarrow> (tpm, stats) comp" where
  "getProfileStats n = bindS getS (\<lambda>s. case map_of (tp_profileMap s) n of
       None \<Rightarrow> failS (ErrorExit ''TrafficProfileManager::getProfileStats'')
     | Some i \<Rightarrow> bindS (catch_oor ''TrafficProfileManager::getProfileStats'' (prof i))
         (\<lambda>p. returnS (pr_stats p)))"

section \<open>Time\<close>

definition setTime :: "u64 \<Rightarrow> (tpm, unit) comp" where
  "setTime t = modifyS (\<lambda>s. if tp_time s \<le> t then s\<lparr>tp_time := t\<rparr> else s)"

definition getTimeScaleFactors :: "u64 \<Rightarrow> (tpm, u64 \<times> u64) comp" where
  "getTimeScaleFactors i s = (case map_of (tp_timeScaleFactor s) i of
     Some r \<Rightarrow> Inr (r, s) | None \<Rightarrow> Inl (ErrorExit ''TrafficProfileManager::getTimeScaleFactors''))"

definition loadTimeConfiguration :: "configuration \<Rightarrow> (tpm, u64 \<times> u64) comp" where
  "loadTimeConfiguration c = bindS getS (\<lambda>s.
    let periodFromConfig = the_default 1 (cf_period c);
        currentFrequency = toFrequency (tp_timeResolution s);
        unit = the_default CYCLES (cf_timeUnit c);
        frequencyFromConfig = (if unit = CYCLES then the_default defaultFrequency (cf_frequency c)
          else toFrequency unit)
    in if currentFrequency < frequencyFromConfig
       then returnS (frequencyFromConfig div currentFrequency, periodFromConfig)
       else if frequencyFromConfig = 0 then failS (Undefined ''TrafficProfileManager::loadTimeConfiguration'')
       else returnS (1, currentFrequency div frequencyFromConfig * periodFromConfig))"

definition loadTaggerConfiguration :: "configuration \<Rightarrow> (tpm, unit) comp" where
  "loadTaggerConfiguration c = modifyS (\<lambda>s.
    let g = tp_tagger s;
        g1 = (case cf_lowId c of None \<Rightarrow> g
              | Some l \<Rightarrow> g\<lparr>tg_low_id := (if tp_initialized s then min (tg_low_id g) l else l)\<rparr>);
        g2 = (case cf_highId c of None \<Rightarrow> g1
              | Some h \<Rightarrow> g1\<lparr>tg_high_id := (if tp_initialized s then max (tg_high_id g1) h else h)\<rparr>)
    in s\<lparr>tp_tagger := g2\<rparr>)"

definition getKronosConfiguration :: "tpm \<Rightarrow> u64 \<times> u64" where
  "getKronosConfiguration s = (tp_kronosBucketsWidth s, tp_kronosCalendarLength s)"

definition setKronosConfiguration :: "string \<Rightarrow> string \<Rightarrow> (tpm, unit) comp" where
  "setKronosConfiguration b c = bindS getS (\<lambda>s.
    let f = fl_of_u64 (toFrequency (tp_timeResolution s));
        units = (\<lambda>hz. case (if 0 < hz then fl_div f hz else Some 0) of
            None \<Rightarrow> None | Some x \<Rightarrow> fl_to_u64 x)
    in bindS (liftS (timeToHz b)) (\<lambda>bHz. bindS (liftS (timeToHz c)) (\<lambda>cHz.
       case (units bHz, units cHz) of
         (Some bw, Some cl) \<Rightarrow>
           thenS (modifyS (\<lambda>s. s\<lparr>tp_kronosBucketsWidth := bw, tp_kronosCalendarLength := cl\<rparr>))
             (if cl < bw then failS (ErrorExit ''TrafficProfileManager::setKronosConfiguration'')
              else modifyS (\<lambda>s. s\<lparr>tp_kronosConfigurationValid := True\<rparr>))
       | _ \<Rightarrow> failS (Undefined ''TrafficProfileManager::setKronosConfiguration''))))"

section \<open>Routing tables\<close>

datatype packet_type = NO_TYPE | REQUEST | RESPONSE

fun packetType :: "command \<Rightarrow> packet_type" where
  "packetType READ_REQ = REQUEST"
| "packetType WRITE_REQ = REQUEST"
| "packetType READ_RESP = RESPONSE"
| "packetType WRITE_RESP = RESPONSE"
| "packetType CMD_INVALID = NO_TYPE"
| "packetType CMD_NONE = NO_TYPE"

text \<open>The first profile to wait for a packet keeps its place, and the time it gave.\<close>

definition wait_table :: "u64 \<Rightarrow> u64 \<Rightarrow> u64 \<Rightarrow> (u64 \<times> u64 \<times> u64) list \<Rightarrow> (u64 \<times> u64 \<times> u64) list" where
  "wait_table pid t uid w = (if map_of w uid = None then AList.update uid (pid, t) w else w)"

definition wait :: "u64 \<Rightarrow> u64 \<Rightarrow> u64 \<Rightarrow> packet_type \<Rightarrow> (tpm, unit) comp" where
  "wait pid t uid ty = modifyS (\<lambda>s.
     if ty = RESPONSE then s\<lparr>tp_waitedResponse := wait_table pid t uid (tp_waitedResponse s)\<rparr>
     else s\<lparr>tp_waitedRequest := wait_table pid t uid (tp_waitedRequest s)\<rparr>)"

definition signal :: "u64 \<Rightarrow> u64 \<Rightarrow> packet_type \<Rightarrow> (tpm, unit) comp" where
  "signal pid uid ty = modifyS (\<lambda>s.
     if ty = RESPONSE then s\<lparr>tp_waitedResponse := AList.delete uid (tp_waitedResponse s)\<rparr>
     else s\<lparr>tp_waitedRequest := AList.delete uid (tp_waitedRequest s)\<rparr>)"

definition tpm_waiting :: "tpm \<Rightarrow> bool" where
  "tpm_waiting s \<longleftrightarrow> tp_waitedResponse s \<noteq> []"

definition tag :: "packet \<Rightarrow> (tpm, packet) comp" where
  "tag p s = (let (p', g) = tagGlobalPacket p (tp_tagger s) in Inr (p', s\<lparr>tp_tagger := g\<rparr>))"

definition registerMasterToSlave :: "string \<Rightarrow> u64 \<Rightarrow> (tpm, unit) comp" where
  "registerMasterToSlave m sId = bindS (getOrGenerateMid m) (\<lambda>mId.
     modifyS (\<lambda>s. if map_of (tp_masterSlaveMap s) mId = None
       then s\<lparr>tp_masterSlaveMap := AList.update mId sId (tp_masterSlaveMap s)\<rparr> else s))"

text \<open>
  The ranges are in descending order of their low bounds, so \<^verbatim>\<open>lower_bound(a)\<close> is the first
  one that starts at or below \<open>a\<close>.
\<close>

definition lower_bound :: "u64 \<Rightarrow> (u64 \<times> u64 \<times> u64) list \<Rightarrow> (u64 \<times> u64 \<times> u64) option" where
  "lower_bound a rs = find (\<lambda>r. fst r \<le> a) rs"

fun range_insert :: "u64 \<Rightarrow> u64 \<times> u64 \<Rightarrow> (u64 \<times> u64 \<times> u64) list \<Rightarrow> (u64 \<times> u64 \<times> u64) list" where
  "range_insert l v [] = [(l, v)]"
| "range_insert l v (r # rs) =
    (if fst r = l then (l, v) # rs else if fst r < l then (l, v) # r # rs
     else r # range_insert l v rs)"

definition bound_free :: "u64 \<Rightarrow> (u64 \<times> u64 \<times> u64) list \<Rightarrow> bool" where
  "bound_free a rs = (case lower_bound a rs of None \<Rightarrow> True | Some (l, h, v) \<Rightarrow> \<not> a \<le> h)"

definition registerSlaveAddressRange :: "u64 \<Rightarrow> u64 \<Rightarrow> u64 \<Rightarrow> (tpm, unit) comp" where
  "registerSlaveAddressRange low high sId = bindS getS (\<lambda>s.
    thenS (whenS (\<not> (bound_free low (tp_slaveAddressRanges s) \<and> bound_free high (tp_slaveAddressRanges s)))
      (failS (ErrorExit ''TrafficProfileManager::registerSlaveAddressRange'')))
    (modifyS (\<lambda>s. s\<lparr>tp_slaveAddressRanges := range_insert low (high, sId) (tp_slaveAddressRanges s)\<rparr>)))"

definition range_lookup :: "u64 \<Rightarrow> (u64 \<times> u64 \<times> u64) list \<Rightarrow> u64 option" where
  "range_lookup a rs =
    (case lower_bound a rs of None \<Rightarrow> None | Some (l, h, v) \<Rightarrow> if a \<le> h then Some v else None)"

definition toInternalSlave :: "packet \<Rightarrow> tpm \<Rightarrow> u64 option" where
  "toInternalSlave p s =
    (if packetType (pk_cmd p) = REQUEST then
       (case range_lookup (pk_addr p) (tp_slaveAddressRanges s) of
          Some v \<Rightarrow> Some v
        | None \<Rightarrow> (case map_of (tp_masterMap s) (pk_master_id p) of
             None \<Rightarrow> None | Some m \<Rightarrow> map_of (tp_masterSlaveMap s) m))
     else None)"

text \<open>The destination of a packet with the time of its request, if there is one to set.\<close>

definition getDestinationProfile :: "packet \<Rightarrow> tpm \<Rightarrow> (u64 \<times> u64 option) option" where
  "getDestinationProfile p s =
    (case map_of (if packetType (pk_cmd p) = RESPONSE then tp_waitedResponse s else tp_waitedRequest s)
        (pk_uid p) of
       Some (d, t) \<Rightarrow> Some (d, Some t)
     | None \<Rightarrow> map_option (\<lambda>d. (d, None)) (toInternalSlave p s))"

definition getMasterSlaves :: "(tpm, (string \<times> string) list) comp" where
  "getMasterSlaves = bindS getS (\<lambda>s.
     let go = (\<lambda>(mId, sId) m. bindS m (\<lambda>r.
       if length (tp_masters s) \<le> unat mId then failS (Uncaught ''vector::at'')
       else bindS (prof sId) (\<lambda>p. returnS ((tp_masters s ! unat mId, pr_name p) # r))))
     in foldr go (tp_masterSlaveMap s) (returnS []))"

end
