(* ===== verification/Tpm_Registry_Laws.thy ===== *)
theory Tpm_Registry_Laws
  imports Tpm_Registry
begin

text \<open>
  What the tables of the manager promise: names and identifiers correspond one to one, time
  units convert exactly, and an address is routed to the slave whose range contains it, as long
  as no range is registered around another. The table of profile names is in \<open>Declaration_Laws\<close>.
\<close>

section \<open>Tables that give out identifiers\<close>

text \<open>
  The interface on which the loader of configurations relies: asking for the id of a name gives
  the id it has, or a new one that no other name has. \<open>inv k\<close> leaves room for \<open>k\<close> more names.
\<close>

locale id_table =
  fixes get :: "'n \<Rightarrow> ('s, u64) comp"
    and look :: "'s \<Rightarrow> 'n \<Rightarrow> u64 option"
    and inv :: "nat \<Rightarrow> 's \<Rightarrow> bool"
  assumes get_known: "look s n = Some i \<Longrightarrow> get n s = Inr (i, s)"
    and get_fresh: "inv (Suc k) s \<Longrightarrow> look s n = None \<Longrightarrow>
      \<exists>i t. get n s = Inr (i, t) \<and> inv k t \<and> look t = (look s)(n \<mapsto> i)"
    and inv_inj: "inv k s \<Longrightarrow> look s n = Some i \<Longrightarrow> look s m = Some i \<Longrightarrow> n = m"
    and inv_mono: "inv (Suc k) s \<Longrightarrow> inv k s"
begin

lemma get_one:
  assumes "inv (Suc k) s"
  shows "\<exists>i t. get n s = Inr (i, t) \<and> inv k t \<and> look t n = Some i \<and> look s \<subseteq>\<^sub>m look t"
proof (cases "look s n")
  case None
  with get_fresh [OF assms] obtain i t where
    "get n s = Inr (i, t)" "inv k t" "look t = (look s)(n \<mapsto> i)" by blast
  with None show ?thesis by (intro exI [of _ i] exI [of _ t]) (auto simp: map_le_def)
next
  case (Some i)
  with get_known inv_mono [OF assms] show ?thesis by (intro exI [of _ i] exI [of _ s]) auto
qed

lemma get_all:
  assumes "inv (length ns) s"
  shows "\<exists>is t. collectS get ns s = Inr (is, t) \<and> inv 0 t \<and> map (look t) ns = map Some is
    \<and> look s \<subseteq>\<^sub>m look t"
  using assms
proof (induction ns arbitrary: s)
  case (Cons n ns)
  then obtain i t where t: "get n s = Inr (i, t)" "inv (length ns) t" "look t n = Some i" "look s \<subseteq>\<^sub>m look t"
    using get_one [of "length ns" s n] by auto
  from Cons.IH [OF t(2)] obtain "is" u where u: "collectS get ns t = Inr (is, u)" "inv 0 u"
      "map (look u) ns = map Some is" "look t \<subseteq>\<^sub>m look u" by blast
  have "look u n = Some i" using t(3) u(4) by (force simp: map_le_def dom_def)
  with t u show ?case
    by (intro exI [of _ "i # is"] exI [of _ u])
       (auto simp: bindS_run [where m = "get n", OF t(1)] bindS_run [where m = "collectS get ns", OF u(1)]
         intro: map_le_trans)
qed simp

lemma ids_distinguish:
  assumes "inv 0 t" and "map (look t) ns = map Some is" and "a < length ns" and "b < length ns"
  shows "is ! a = is ! b \<longleftrightarrow> ns ! a = ns ! b"
proof -
  have l: "length is = length ns" using arg_cong [OF assms(2), of length] by simp
  have "look t (ns ! a) = Some (is ! a)" "look t (ns ! b) = Some (is ! b)"
    using arg_cong [OF assms(2), of "\<lambda>xs. xs ! a"] arg_cong [OF assms(2), of "\<lambda>xs. xs ! b"] assms(3,4) l
    by simp_all
  then show ?thesis using inv_inj [OF assms(1)] by auto
qed

end

section \<open>Masters\<close>

definition masters_ok :: "nat \<Rightarrow> tpm \<Rightarrow> bool" where
  "masters_ok k s \<longleftrightarrow> length (tp_masters s) + k < 18446744073709551616
     \<and> (\<forall>n i. map_of (tp_masterMap s) n = Some i \<longrightarrow>
          unat i < length (tp_masters s) \<and> tp_masters s ! unat i = n)"

interpretation mids: id_table getOrGenerateMid "\<lambda>s. map_of (tp_masterMap s)" masters_ok
proof unfold_locales
  fix k s n
  assume inv: "masters_ok (Suc k) s" and n: "map_of (tp_masterMap s) n = None"
  let ?i = "of_nat (length (tp_masters s)) :: u64"
  let ?t = "s\<lparr>tp_masterMap := AList.update n ?i (tp_masterMap s), tp_masters := tp_masters s @ [n]\<rparr>"
  have i: "unat ?i = length (tp_masters s)"
    using inv by (intro unat_of_nat_u64) (simp add: masters_ok_def)
  have "masters_ok k ?t"
    using inv i by (auto simp: masters_ok_def nth_append less_SucI split: if_splits)
  with n show "\<exists>i t. getOrGenerateMid n s = Inr (i, t) \<and> masters_ok k t
      \<and> map_of (tp_masterMap t) = (map_of (tp_masterMap s))(n \<mapsto> i)"
    by (intro exI [of _ ?i] exI [of _ ?t]) (simp add: getOrGenerateMid_def Let_def)
qed (auto simp: getOrGenerateMid_def masters_ok_def)

text \<open>
  C22. Master names and ids correspond. Registering any sequence of names, repetitions included,
  succeeds; each name gets an id from which \<open>masterName\<close> gives the name back and which
  \<open>masterId\<close> finds, two entries get the same id just when they are the same name, and the
  ids given out before are still valid.
\<close>

theorem master_ids_roundtrip:
  assumes "masters_ok (length ns) s"
  shows "\<exists>is t. collectS getOrGenerateMid ns s = Inr (is, t) \<and> masters_ok 0 t
    \<and> (\<forall>a < length ns. masterName (is ! a) t = Inr (ns ! a, t) \<and> masterId (ns ! a) t = Inr (is ! a, t)
        \<and> (\<forall>b < length ns. is ! a = is ! b \<longleftrightarrow> ns ! a = ns ! b))
    \<and> map_of (tp_masterMap s) \<subseteq>\<^sub>m map_of (tp_masterMap t)"
proof -
  from mids.get_all [OF assms] obtain "is" t where t: "collectS getOrGenerateMid ns s = Inr (is, t)"
    "masters_ok 0 t" "map (map_of (tp_masterMap t)) ns = map Some is"
    "map_of (tp_masterMap s) \<subseteq>\<^sub>m map_of (tp_masterMap t)" by blast
  have l: "length is = length ns" using arg_cong [OF t(3), of length] by simp
  have "masterName (is ! a) t = Inr (ns ! a, t) \<and> masterId (ns ! a) t = Inr (is ! a, t)" if "a < length ns" for a
    using arg_cong [OF t(3), of "\<lambda>xs. xs ! a"] t(2) that l
    by (auto simp: masters_ok_def masterName_def masterId_def)
  with t mids.ids_distinguish [OF t(2,3)] show ?thesis by blast
qed

theorem master_ids_roundtrip_witness:
  "\<exists>is t. collectS getOrGenerateMid [''CPU'', ''GPU'', ''CPU''] (tpm_new 0) = Inr (is, t)
    \<and> masterName (is ! 1) t = Inr (''GPU'', t) \<and> is ! 0 = is ! 2 \<and> is ! 0 \<noteq> is ! 1"
proof -
  have "masters_ok (length [''CPU'', ''GPU'', ''CPU'']) (tpm_new 0)"
    by (simp add: masters_ok_def tpm_new_def)
  from master_ids_roundtrip [OF this] obtain "is" t where
    t: "collectS getOrGenerateMid [''CPU'', ''GPU'', ''CPU''] (tpm_new 0) = Inr (is, t)"
    and a: "\<And>a. a < 3 \<Longrightarrow> masterName (is ! a) t = Inr ([''CPU'', ''GPU'', ''CPU''] ! a, t)
        \<and> (\<forall>b < 3. is ! a = is ! b \<longleftrightarrow> [''CPU'', ''GPU'', ''CPU''] ! a = [''CPU'', ''GPU'', ''CPU''] ! b)"
    by auto
  from t a [of 0] a [of 1] show ?thesis by (intro exI [of _ "is"] exI [of _ t]) auto
qed

section \<open>Address ranges\<close>

lemma option_eqI_Some: "(\<And>v. x = Some v \<longleftrightarrow> y = Some v) \<Longrightarrow> x = y"
  by (cases x; cases y) auto

definition ranges_ok :: "(u64 \<times> u64 \<times> u64) list \<Rightarrow> bool" where
  "ranges_ok rs \<longleftrightarrow> (\<forall>r \<in> set rs. fst r \<le> fst (snd r)) \<and> sorted_wrt (\<lambda>r q. fst (snd q) < fst r) rs"

definition covers :: "u64 \<times> u64 \<times> u64 \<Rightarrow> u64 \<Rightarrow> bool" where
  "covers r a \<longleftrightarrow> fst r \<le> a \<and> a \<le> fst (snd r)"

lemma ranges_ok_Cons:
  "ranges_ok (r # rs) \<longleftrightarrow> fst r \<le> fst (snd r) \<and> (\<forall>q \<in> set rs. fst (snd q) < fst r) \<and> ranges_ok rs"
  by (auto simp: ranges_ok_def)

lemma lower_bound_Cons: "lower_bound a (r # rs) = (if fst r \<le> a then Some r else lower_bound a rs)"
  by (simp add: lower_bound_def)

lemma range_lookup_Cons:
  "range_lookup a (r # rs) = (if fst r \<le> a then if a \<le> fst (snd r) then Some (snd (snd r)) else None
     else range_lookup a rs)"
  by (cases r) (simp add: range_lookup_def lower_bound_Cons)

lemma bound_free_Cons:
  "bound_free a (r # rs) = (if fst r \<le> a then \<not> a \<le> fst (snd r) else bound_free a rs)"
  by (cases r) (simp add: bound_free_def lower_bound_Cons)

lemma lookup_Nil [simp]: "range_lookup a [] = None" "bound_free a []"
  by (simp_all add: range_lookup_def bound_free_def lower_bound_def)

lemma range_lookup_covers:
  "ranges_ok rs \<Longrightarrow> range_lookup a rs = Some v \<longleftrightarrow> (\<exists>r \<in> set rs. covers r a \<and> snd (snd r) = v)"
proof (induction rs)
  case (Cons r rs)
  have "\<not> covers q a" if "fst r \<le> a" "q \<in> set rs" for q
    using Cons.prems that by (fastforce simp: ranges_ok_Cons covers_def)
  with Cons show ?case by (auto simp: ranges_ok_Cons range_lookup_Cons covers_def)
qed simp

lemma bound_free_covers: "ranges_ok rs \<Longrightarrow> bound_free a rs \<longleftrightarrow> (\<forall>r \<in> set rs. \<not> covers r a)"
proof (induction rs)
  case (Cons r rs)
  have "\<not> covers q a" if "fst r \<le> a" "q \<in> set rs" for q
    using Cons.prems that by (fastforce simp: ranges_ok_Cons covers_def)
  with Cons show ?case by (auto simp: ranges_ok_Cons bound_free_Cons covers_def)
qed simp

lemma range_insert_ok:
  assumes "ranges_ok rs" and "l \<le> h"
    and "\<And>r. r \<in> set rs \<Longrightarrow> fst (snd r) < l \<or> h < fst r"
  shows "ranges_ok (range_insert l (h, v) rs) \<and> set (range_insert l (h, v) rs) = insert (l, h, v) (set rs)"
  using assms
proof (induction rs)
  case (Cons r rs)
  have rl: "fst r \<le> fst (snd r)" and rs: "\<And>q. q \<in> set rs \<Longrightarrow> fst (snd q) < fst r"
    using Cons.prems(1) by (auto simp: ranges_ok_Cons)
  show ?case
  proof (cases "fst r < l")
    case True
    then have "fst r \<le> h" using assms(2) by (rule order.trans [OF less_imp_le])
    then have "fst (snd r) < l" using Cons.prems(3) [of r] by (simp add: not_less [symmetric])
    moreover have "fst (snd q) < l" if "q \<in> set rs" for q
      using rs [OF that] True by (rule order.strict_trans)
    ultimately show ?thesis using True Cons.prems by (auto simp: ranges_ok_Cons)
  next
    case False
    then have "\<not> fst (snd r) < l" using rl by (auto dest: order.strict_trans1)
    then have h: "h < fst r" using Cons.prems(3) [of r] by simp
    then have "fst r \<noteq> l" using assms(2) by (auto simp: not_le [symmetric])
    moreover have IH: "ranges_ok (range_insert l (h, v) rs)"
      "set (range_insert l (h, v) rs) = insert (l, h, v) (set rs)"
      using Cons by (auto simp: ranges_ok_Cons)
    ultimately show ?thesis using False rl rs h by (auto simp: ranges_ok_Cons)
  qed
qed (simp add: ranges_ok_def)

text \<open>A range that starts where none does takes over the addresses up to the next start.\<close>

lemma range_lookup_insert:
  "sorted_wrt (\<lambda>r q. fst q < fst r) rs \<Longrightarrow> l \<notin> fst ` set rs \<Longrightarrow>
    range_lookup a (range_insert l (h, v) rs)
      = (if l \<le> a \<and> \<not> (\<exists>r \<in> set rs. l < fst r \<and> fst r \<le> a) then if a \<le> h then Some v else None else range_lookup a rs)"
proof (induction rs)
  case (Cons r rs)
  then have ne: "fst r \<noteq> l" and rs: "\<And>q. q \<in> set rs \<Longrightarrow> fst q < fst r" by auto
  show ?case
  proof (cases "fst r < l")
    case True
    then have below: "\<not> l < fst q" if "q \<in> set (r # rs)" for q using rs [of q] that by (cases "q = r") auto
    with True show ?thesis by (auto simp: range_lookup_Cons)
  next
    case False
    with ne have l: "l < fst r" by simp
    then have "fst r \<le> a \<Longrightarrow> l \<le> a" by (simp add: order.strict_implies_order order.strict_trans1)
    with Cons l ne False show ?thesis by (auto simp: range_lookup_Cons)
  qed
qed (simp add: range_lookup_Cons)

lemma set_range_insert: "l \<notin> fst ` set rs \<Longrightarrow> set (range_insert l v rs) = insert (l, v) (set rs)"
  by (induction rs) auto

lemma ranges_ok_starts: "ranges_ok rs \<Longrightarrow> sorted_wrt (\<lambda>r q. fst q < fst r) rs"
  by (induction rs) (auto simp: ranges_ok_Cons ranges_ok_def dest: order.strict_trans1)

lemma ranges_ok_disjoint:
  "ranges_ok rs \<Longrightarrow> r \<in> set rs \<Longrightarrow> q \<in> set rs \<Longrightarrow> covers r a \<Longrightarrow> covers q a \<Longrightarrow> r = q"
proof (induction rs)
  case (Cons p rs)
  have "\<not> covers q a" if "covers p a" "q \<in> set rs" for q
    using Cons.prems(1) that by (fastforce simp: ranges_ok_Cons covers_def)
  with Cons show ?case unfolding ranges_ok_Cons set_simps by blast
qed simp

text \<open>
  C13. Address routing is containment. In a table of disjoint ranges an address resolves to a slave just when one
  of the slave's ranges contains it. Registering a range fails when one of its bounds lies in a registered range. Otherwise it succeeds,
  and the new slave receives the addresses of its range up to the next one at which a registered range starts,
  while all others are routed as before. The table stays one of disjoint ranges exactly when the new range is not around a registered
  one. So a range around others is not refused: it loses to them not only their addresses but its own addresses
  above them too.
\<close>

theorem slave_ranges_route_by_containment:
  assumes "ranges_ok (tp_slaveAddressRanges s)" and "low \<le> high"
  shows "(\<forall>a v. range_lookup a (tp_slaveAddressRanges s) = Some v \<longleftrightarrow> (\<exists>r \<in> set (tp_slaveAddressRanges s). covers r a \<and> snd (snd r) = v))
    \<and> (if \<exists>r \<in> set (tp_slaveAddressRanges s). covers r low \<or> covers r high
       then registerSlaveAddressRange low high sId s = Inl (ErrorExit ''TrafficProfileManager::registerSlaveAddressRange'')
       else \<exists>t. registerSlaveAddressRange low high sId s = Inr ((), t)
         \<and> (\<forall>a. range_lookup a (tp_slaveAddressRanges t)
              = (if low \<le> a \<and> a \<le> high \<and> \<not> (\<exists>r \<in> set (tp_slaveAddressRanges s). low < fst r \<and> fst r \<le> a) then Some sId else range_lookup a (tp_slaveAddressRanges s)))
         \<and> (ranges_ok (tp_slaveAddressRanges t) \<longleftrightarrow> \<not> (\<exists>r \<in> set (tp_slaveAddressRanges s). low < fst r \<and> fst (snd r) < high)))"
proof (cases "\<exists>r \<in> set (tp_slaveAddressRanges s). covers r low \<or> covers r high")
  case True
  let ?rs = "tp_slaveAddressRanges s"
  from True have "\<not> (bound_free low ?rs \<and> bound_free high ?rs)"
    using bound_free_covers [OF assms(1)] by blast
  with True range_lookup_covers [OF assms(1)] show ?thesis
    by (simp add: registerSlaveAddressRange_def bindS_def thenS_def)
next
  case False
  let ?rs = "tp_slaveAddressRanges s"
  let ?new = "range_insert low (high, sId) ?rs"
  have ok: "ranges_ok ?rs" by (rule assms(1))
  have free: "bound_free low ?rs" "bound_free high ?rs"
    using False bound_free_covers [OF ok] by blast+
  have le: "fst r \<le> fst (snd r)" if "r \<in> set ?rs" for r using ok that by (auto simp: ranges_ok_def)
  have start: "low \<notin> fst ` set ?rs" using False le by (force simp: covers_def)
  have look: "range_lookup a ?new
      = (if low \<le> a \<and> a \<le> high \<and> \<not> (\<exists>r \<in> set ?rs. low < fst r \<and> fst r \<le> a) then Some sId else range_lookup a ?rs)" for a
  proof (cases "low \<le> a \<and> \<not> (\<exists>r \<in> set ?rs. low < fst r \<and> fst r \<le> a) \<and> \<not> a \<le> high")
    case True
    have "\<not> covers r a" if r: "r \<in> set ?rs" for r
    proof
      assume a: "covers r a"
      with True r have "fst r \<le> low" by (auto simp: covers_def not_less)
      moreover have "low \<le> fst (snd r)" using a True by (auto simp: covers_def)
      ultimately show False using False r by (auto simp: covers_def)
    qed
    then have "range_lookup a ?rs = None" using range_lookup_covers [OF ok, of a] by (cases "range_lookup a ?rs") auto
    with True show ?thesis by (simp add: range_lookup_insert [OF ranges_ok_starts [OF ok] start])
  qed (auto simp: range_lookup_insert [OF ranges_ok_starts [OF ok] start])
  have "ranges_ok ?new \<longleftrightarrow> \<not> (\<exists>r \<in> set ?rs. low < fst r \<and> fst (snd r) < high)"
  proof
    assume new: "ranges_ok ?new"
    have "\<not> (low < fst r \<and> fst (snd r) < high)" if r: "r \<in> set ?rs" for r
    proof
      assume enclosed: "low < fst r \<and> fst (snd r) < high"
      then have "covers (low, high, sId) (fst r)" "covers r (fst r)" using le [OF r] by (auto simp: covers_def)
      with ranges_ok_disjoint [OF new, of r "(low, high, sId)" "fst r"] r have "r = (low, high, sId)"
        by (simp add: set_range_insert [OF start])
      with enclosed show False by simp
    qed
    then show "\<not> (\<exists>r \<in> set ?rs. low < fst r \<and> fst (snd r) < high)" by blast
  next
    assume around: "\<not> (\<exists>r \<in> set ?rs. low < fst r \<and> fst (snd r) < high)"
    have "fst (snd r) < low \<or> high < fst r" if r: "r \<in> set ?rs" for r
    proof -
      have "\<not> covers r low" "\<not> covers r high" "\<not> (low < fst r \<and> fst (snd r) < high)"
        using False around r by auto
      then show ?thesis using assms(2) le [OF r] by (auto simp: covers_def not_le)
    qed
    then show "ranges_ok ?new" using range_insert_ok [OF ok assms(2)] by blast
  qed
  with False free look range_lookup_covers [OF ok] show ?thesis
    by (simp add: registerSlaveAddressRange_def bindS_def thenS_def)
qed

theorem slave_ranges_route_by_containment_witness:
  "(\<exists>t. registerSlaveAddressRange 64 127 2 ((tpm_new 0)\<lparr>tp_slaveAddressRanges := [(0, 63, 1)]\<rparr>) = Inr ((), t)
      \<and> range_lookup 63 (tp_slaveAddressRanges t) = Some 1 \<and> range_lookup 64 (tp_slaveAddressRanges t) = Some 2
      \<and> range_lookup 128 (tp_slaveAddressRanges t) = None \<and> ranges_ok (tp_slaveAddressRanges t))
    \<and> (\<exists>t. registerSlaveAddressRange 0 255 2 ((tpm_new 0)\<lparr>tp_slaveAddressRanges := [(64, 127, 1)]\<rparr>) = Inr ((), t)
      \<and> range_lookup 32 (tp_slaveAddressRanges t) = Some 2 \<and> range_lookup 100 (tp_slaveAddressRanges t) = Some 1
      \<and> range_lookup 200 (tp_slaveAddressRanges t) = None \<and> \<not> ranges_ok (tp_slaveAddressRanges t))"
proof
  let ?s = "(tpm_new 0)\<lparr>tp_slaveAddressRanges := [(0, 63, 1)]\<rparr>"
  have "ranges_ok (tp_slaveAddressRanges ?s)" "(64 :: u64) \<le> 127" by (simp_all add: ranges_ok_def)
  from slave_ranges_route_by_containment [OF this, of 2]
  show "\<exists>t. registerSlaveAddressRange 64 127 2 ?s = Inr ((), t)
      \<and> range_lookup 63 (tp_slaveAddressRanges t) = Some 1 \<and> range_lookup 64 (tp_slaveAddressRanges t) = Some 2
      \<and> range_lookup 128 (tp_slaveAddressRanges t) = None \<and> ranges_ok (tp_slaveAddressRanges t)"
    by (auto simp: covers_def range_lookup_Cons)
next
  let ?s = "(tpm_new 0)\<lparr>tp_slaveAddressRanges := [(64, 127, 1)]\<rparr>"
  have "ranges_ok (tp_slaveAddressRanges ?s)" "(0 :: u64) \<le> 255" by (simp_all add: ranges_ok_def)
  from slave_ranges_route_by_containment [OF this, of 2]
  show "\<exists>t. registerSlaveAddressRange 0 255 2 ?s = Inr ((), t)
      \<and> range_lookup 32 (tp_slaveAddressRanges t) = Some 2 \<and> range_lookup 100 (tp_slaveAddressRanges t) = Some 1
      \<and> range_lookup 200 (tp_slaveAddressRanges t) = None \<and> \<not> ranges_ok (tp_slaveAddressRanges t)"
    by (auto simp: covers_def range_lookup_Cons)
qed

text \<open>
  A range around a registered one is accepted, although the ranges overlap, and its
  addresses above the inner range are routed to no slave at all.
\<close>

theorem enclosing_range_is_accepted:
  "\<exists>t. registerSlaveAddressRange 0 255 2 ((tpm_new 0)\<lparr>tp_slaveAddressRanges := [(64, 127, 1)]\<rparr>) = Inr ((), t)
    \<and> range_lookup 32 (tp_slaveAddressRanges t) = Some 2 \<and> range_lookup 100 (tp_slaveAddressRanges t) = Some 1
    \<and> range_lookup 200 (tp_slaveAddressRanges t) = None"
  by (simp add: registerSlaveAddressRange_def bindS_def thenS_def bound_free_Cons range_lookup_Cons)

text \<open>A range that was accepted is refused when it is registered once more.\<close>

lemma bound_free_insert: "low \<le> high \<Longrightarrow> \<not> bound_free low (range_insert low (high, v) rs)"
  by (induction rs) (auto simp: bound_free_Cons)

section \<open>Awaited packets\<close>

text \<open>
  C24. Packets find the profile that waits for them. After \<open>wait\<close> a packet with the unique id
  goes to the profile that was the first to wait for it, with the time that profile gave, and
  the other ids are not affected; after \<open>signal\<close> the id is free again, so a later wait takes
  effect.
\<close>

theorem packets_reach_their_waiter:
  assumes "packetType (pk_cmd p) = ty" and "ty \<noteq> NO_TYPE" and "wait i t uid ty s = Inr ((), s1)"
    and "signal k uid ty s1 = Inr ((), s2)"
  shows "(pk_uid p = uid \<longrightarrow> getDestinationProfile p s1
        = (case map_of (if ty = RESPONSE then tp_waitedResponse s else tp_waitedRequest s) uid of
             None \<Rightarrow> Some (i, Some t) | Some (j, u) \<Rightarrow> Some (j, Some u)))
    \<and> (pk_uid p \<noteq> uid \<longrightarrow> getDestinationProfile p s1 = getDestinationProfile p s
        \<and> getDestinationProfile p s2 = getDestinationProfile p s)
    \<and> (pk_uid p = uid \<longrightarrow> getDestinationProfile p s2 = map_option (\<lambda>d. (d, None)) (toInternalSlave p s))"
proof -
  have "tp_slaveAddressRanges s1 = tp_slaveAddressRanges s" "tp_masterMap s1 = tp_masterMap s"
    "tp_masterSlaveMap s1 = tp_masterSlaveMap s"
    "tp_slaveAddressRanges s2 = tp_slaveAddressRanges s1" "tp_masterMap s2 = tp_masterMap s1"
    "tp_masterSlaveMap s2 = tp_masterSlaveMap s1"
    using assms(3,4) by (auto simp: wait_def signal_def)
  then have slave: "toInternalSlave p s1 = toInternalSlave p s" "toInternalSlave p s2 = toInternalSlave p s"
    unfolding toInternalSlave_def by (simp_all only:)
  have ty: "ty = REQUEST \<or> ty = RESPONSE" using assms(2) by (cases ty) auto
  have tab: "map_of (if ty = RESPONSE then tp_waitedResponse s1 else tp_waitedRequest s1)
      = map_of (wait_table i t uid (if ty = RESPONSE then tp_waitedResponse s else tp_waitedRequest s))"
    "map_of (if ty = RESPONSE then tp_waitedResponse s2 else tp_waitedRequest s2)
      = (map_of (if ty = RESPONSE then tp_waitedResponse s1 else tp_waitedRequest s1))(uid := None)"
    using assms(3,4) ty by (auto simp: wait_def signal_def)
  show ?thesis
    unfolding getDestinationProfile_def assms(1) slave tab
    by (auto simp: wait_table_def split: option.splits)
qed

theorem packets_reach_their_waiter_witness:
  "\<exists>s1 s2. wait 3 100 7 RESPONSE (tpm_new 0) = Inr ((), s1) \<and> signal 3 7 RESPONSE s1 = Inr ((), s2)
    \<and> getDestinationProfile (new_packet\<lparr>pk_cmd := READ_RESP, pk_uid := 7\<rparr>) s1 = Some (3, Some 100)
    \<and> getDestinationProfile (new_packet\<lparr>pk_cmd := READ_RESP, pk_uid := 7\<rparr>) s2 = None"
proof -
  let ?p = "new_packet\<lparr>pk_cmd := READ_RESP, pk_uid := 7\<rparr>"
  obtain s1 where s1: "wait 3 100 7 RESPONSE (tpm_new 0) = Inr ((), s1)" by (simp add: wait_def)
  obtain s2 where s2: "signal 3 7 RESPONSE s1 = Inr ((), s2)" by (simp add: signal_def)
  from packets_reach_their_waiter [of ?p RESPONSE, OF _ _ s1 s2] s1 s2 show ?thesis
    by (intro exI [of _ s1] exI [of _ s2]) (simp add: new_packet_def tpm_new_def toInternalSlave_def)
qed

section \<open>Time units\<close>

text \<open>
  The scale factors convert time without rounding: a configuration in seconds or a decimal
  fraction of them, with any period \<open>P\<close> that keeps the product in 64 bits, gets a scale and a
  period such that \<open>scale\<close> units of the configuration last exactly as long as
  \<open>period / P\<close> units of the engine, whatever the resolution of the engine is.
\<close>

theorem time_scale_exact:
  assumes "cf_timeUnit c = Some u" and "u \<noteq> CYCLES" and "cf_period c = Some P"
    and "unat P < 10000000"
  shows "\<exists>scale period. loadTimeConfiguration c s = Inr ((scale, period), s)
    \<and> unat scale * unat (toFrequency (tp_timeResolution s)) * unat P
      = unat period * unat (toFrequency u)"
proof -
  let ?c = "toFrequency (tp_timeResolution s)" and ?f = "toFrequency u"
  have pw: "(unat ?f) dvd (unat ?c) \<or> (unat ?c) dvd (unat ?f)"
    by (cases u; cases "tp_timeResolution s") (simp_all add: dvd_eq_mod_eq_0)
  have cb: "unat ?c \<le> 1000000000000" "0 < unat ?c" "0 < unat ?f" "unat ?f \<le> 1000000000000"
    by (cases "tp_timeResolution s"; cases u; simp)+
  have nz: "?f \<noteq> 0" using cb by auto
  show ?thesis
  proof (cases "?c < ?f")
    case True
    then have lt: "unat ?c < unat ?f" by (simp add: word_less_nat_alt)
    then have "unat ?c dvd unat ?f" using pw cb dvd_imp_le [of "unat ?f" "unat ?c"] by auto
    then have "unat (?f div ?c) * unat ?c = unat ?f" by (simp add: unat_div)
    with True assms show ?thesis
      by (intro exI [of _ "?f div ?c"] exI [of _ P])
         (simp add: loadTimeConfiguration_def Let_def bindS_def)
  next
    case False
    then have ge: "unat ?f \<le> unat ?c" by (simp add: word_less_nat_alt)
    then have "unat ?f dvd unat ?c" using pw cb dvd_imp_le [of "unat ?c" "unat ?f"] by auto
    then have q: "unat (?c div ?f) * unat ?f = unat ?c" by (simp add: unat_div)
    have "unat (?c div ?f) \<le> unat ?c" by (simp add: unat_div)
    then have "unat (?c div ?f) * unat P \<le> 1000000000000 * 10000000"
      using cb(1) assms(4) by (intro mult_le_mono) linarith+
    then have "unat (?c div ?f * P) = unat (?c div ?f) * unat P"
      by (simp add: unat_mult_lem [THEN iffD1])
    with q have "unat (?c div ?f * P) * unat ?f = unat ?c * unat P" by (simp add: ac_simps)
    with False assms nz show ?thesis
      by (intro exI [of _ 1] exI [of _ "?c div ?f * P"])
         (simp add: loadTimeConfiguration_def Let_def bindS_def)
  qed
qed

definition ns_configuration :: configuration where
  "ns_configuration = \<lparr>cf_frequency = None, cf_timeUnit = Some NS, cf_period = Some 4, cf_lowId = None,
     cf_highId = None, cf_tracing = None, cf_trace_dir = None, cf_profile = []\<rparr>"

theorem time_scale_exact_witness:
  "\<exists>scale period. loadTimeConfiguration ns_configuration (tpm_new 0) = Inr ((scale, period), tpm_new 0)
    \<and> unat scale * 1000000000000 * 4 = unat period * 1000000000"
  using time_scale_exact [of ns_configuration NS 4 "tpm_new 0"]
  by (simp add: ns_configuration_def tpm_new_def)

end
