(* ===== verification/Profiles.thy ===== *)
theory Profiles
  imports Tpm_Events Tpm_Registry
begin

text \<open>
  The operations of the profile classes: \<^verbatim>\<open>active\<close>, \<^verbatim>\<open>send\<close>, \<^verbatim>\<open>receive\<close> and \<^verbatim>\<open>reset\<close> of
  \<^verbatim>\<open>TrafficProfileMaster\<close>, \<^verbatim>\<open>TrafficProfileSlave\<close>, \<^verbatim>\<open>TrafficProfileChecker\<close> and
  \<^verbatim>\<open>TrafficProfileDelay\<close>, on the state of the manager, because they emit events, wait for
  packets and touch other profiles. The random engine is the argument \<open>rng\<close>.

  \<^verbatim>\<open>active\<close> returns whether the profile is active and whether it is locked; \<^verbatim>\<open>send\<close> whether a
  packet was sent, whether the profile is locked, the packet, and the next time to try;
  \<^verbatim>\<open>receive\<close> whether the packet was accepted and the next time.
\<close>

type_synonym sending = "bool \<times> bool \<times> packet option \<times> u64"

section \<open>FIFO calls\<close>

definition fifo_send_call :: "u64 \<Rightarrow> u64 \<Rightarrow> u64 \<Rightarrow> (tpm, bool \<times> bool \<times> bool \<times> u64 \<times> u64) comp" where
  "fifo_send_call i t data =
    bindS (prof i) (\<lambda>p. bindS (liftS (fifo_send t data (pr_fifo p))) (\<lambda>(ok, u, ov, next, rt, f).
    thenS (setp i (\<lambda>p. p\<lparr>pr_fifo := f\<rparr>)) (thenS (fifo_event tpm_event i)
    (returnS (ok, u, ov, next, rt)))))"

definition fifo_receive_call :: "u64 \<Rightarrow> u64 \<Rightarrow> u64 \<Rightarrow> (tpm, bool \<times> bool \<times> bool) comp" where
  "fifo_receive_call i t data =
    bindS (prof i) (\<lambda>p. bindS (liftS (fifo_receive t data (pr_fifo p))) (\<lambda>(whole, u, ov, f).
    thenS (setp i (\<lambda>p. p\<lparr>pr_fifo := f\<rparr>)) (thenS (fifo_event tpm_event i)
    (returnS (whole, u, ov)))))"

definition fifo_stats :: "u64 \<Rightarrow> bool \<Rightarrow> bool \<Rightarrow> (tpm, unit) comp" where
  "fifo_stats i u ov = setp i (\<lambda>p. p\<lparr>pr_stats := stats_fifoUpdate (ff_level (pr_fifo p)) u ov (pr_stats p)\<rparr>)"

section \<open>Masters\<close>

definition endOfData :: "master \<Rightarrow> bool" where
  "endOfData m \<longleftrightarrow> ms_sent m = ms_toSend m \<and> 0 < ms_toSend m"

definition endOfTime :: "u64 \<Rightarrow> profile \<Rightarrow> master \<Rightarrow> bool" where
  "endOfTime t p m \<longleftrightarrow> pr_started p \<and> 0 < ms_toStop m \<and> pr_startTime p + ms_toStop m \<le> t"

definition terminate_master :: "u64 \<Rightarrow> (tpm, unit) comp" where
  "terminate_master i =
    thenS (emitEvent tpm_event i TERMINATION)
    (setp i (\<lambda>p. on_master (\<lambda>m. m\<lparr>ms_halted := False\<rparr>) (p\<lparr>pr_terminated := True\<rparr>)))"

definition master_locked :: "bool \<Rightarrow> profile \<Rightarrow> master \<Rightarrow> bool" where
  "master_locked waitingForResponses p m \<longleftrightarrow>
    \<not> pr_terminated p \<and> (0 < getWaitedCount PROFILE (pr_em p) \<or> ms_halted m
      \<or> (ms_maxOt m \<le> pr_ot p \<and> 0 < ms_maxOt m) \<or> waitingForResponses)"

definition master_active :: "u64 \<Rightarrow> (tpm, bool \<times> bool) comp" where
  "master_active i =
    bindS (master_at i) (\<lambda>(p, m). bindS getTime (\<lambda>t.
    let ended = (endOfData m \<or> endOfTime t p m); waitingForResponses = (ended \<and> 0 < pr_ot p)
    in thenS (whenS (ended \<and> \<not> (pr_terminated p \<or> waitingForResponses)) (terminate_master i))
       (bindS (master_at i) (\<lambda>(q, n).
        let locked = master_locked waitingForResponses q n; isActive = (\<not> (locked \<or> ended))
        in thenS (whenS (isActive \<and> \<not> pr_started q) (activate tpm_event i))
           (returnS (isActive, locked))))))"

text \<open>The packet to send: the pending one, or a new one from the descriptor.\<close>

definition next_packet :: "rng \<Rightarrow> u64 \<Rightarrow> u64 \<Rightarrow> (tpm, packet option) comp" where
  "next_packet rng i t =
    bindS (master_at i) (\<lambda>(p, m).
    case ms_pending m of
      PDangling \<Rightarrow> failS (Undefined ''TrafficProfileMaster::send'')
    | PLive pk \<Rightarrow>
        thenS (setp i (on_master (\<lambda>m. m\<lparr>ms_pending := PLive (pk\<lparr>pk_time := t\<rparr>)\<rparr>)))
        (returnS (Some (pk\<lparr>pk_time := t\<rparr>)))
    | PNull \<Rightarrow>
        bindS (liftS (pd_send rng t (ms_packetDesc m) (pr_tagger p))) (\<lambda>(o', d, tg).
        thenS (setp i (\<lambda>p. on_master (\<lambda>m. m\<lparr>ms_packetDesc := d,
             ms_pending := (case o' of None \<Rightarrow> PNull | Some pk \<Rightarrow> PLive pk)\<rparr>) (p\<lparr>pr_tagger := tg\<rparr>)))
        (returnS o')))"

text \<open>Tagging by the manager, then by the profile.\<close>

definition tag_packet :: "u64 \<Rightarrow> packet \<Rightarrow> (tpm, packet) comp" where
  "tag_packet i pk =
    bindS (prof i) (\<lambda>p. bindS (tag (pk\<lparr>pk_master_id := pr_masterName p\<rparr>)) (\<lambda>pk1.
    case pr_tagger p of
      None \<Rightarrow> returnS pk1
    | Some g \<Rightarrow>
        thenS (setp i (\<lambda>p. p\<lparr>pr_tagger := Some (snd (tagPacket pk1 g))\<rparr>))
        (returnS (fst (tagPacket pk1 g)))))"

definition discard :: "u64 \<Rightarrow> (tpm, unit) comp" where
  "discard uid = bindS getTime (\<lambda>t. wait invalid_id t uid RESPONSE)"

text \<open>What a master does with a packet that its FIFO lets through: the flags of the FIFO.\<close>

definition transmit :: "u64 \<Rightarrow> u64 \<Rightarrow> u64 \<Rightarrow> packet \<Rightarrow> (tpm, packet \<times> bool \<times> bool) comp" where
  "transmit i t request_time pk0 =
    bindS (tag_packet i pk0) (\<lambda>pk. bindS (master_at i) (\<lambda>(p, m).
    bindS (if pd_waitFor (ms_packetDesc m) \<noteq> CMD_NONE then
             thenS (setp i (\<lambda>p. p\<lparr>pr_ot := pr_ot p + 1\<rparr>))
             (thenS (wait (pr_id p) request_time (pk_uid pk) RESPONSE) (returnS (False, False)))
           else
             bindS (fifo_receive_call i t (pk_size pk)) (\<lambda>(whole, u, ov).
             thenS (discard (pk_uid pk)) (returnS (u, ov)))) (\<lambda>(u, ov).
    thenS (setp i (on_master (\<lambda>m. m\<lparr>ms_pending := PNull\<rparr>))) (returnS (pk, u, ov)))))"

definition activateFifo :: "u64 \<Rightarrow> (tpm, unit) comp" where
  "activateFifo c = bindS (getProfile c) (\<lambda>_. setp c (\<lambda>p. p\<lparr>pr_fifo := fifo_activate (pr_fifo p)\<rparr>))"

definition start_checkers :: "u64 \<Rightarrow> (tpm, unit) comp" where
  "start_checkers i =
    bindS (master_at i) (\<lambda>(p, m).
    whenS (\<not> ms_checkersFifoStarted m)
      (thenS (eachS activateFifo (pr_checkers p))
      (setp i (on_master (\<lambda>m. m\<lparr>ms_checkersFifoStarted := True\<rparr>)))))"

definition count_sent :: "u64 \<Rightarrow> u64 \<Rightarrow> packet option \<Rightarrow> (tpm, unit) comp" where
  "count_sent i t pk =
    (case pk of
       None \<Rightarrow> setp i (\<lambda>p. p\<lparr>pr_stats := stats_start t (pr_stats p)\<rparr>)
     | Some k \<Rightarrow>
         thenS (setp i (\<lambda>p. on_master (\<lambda>m. m\<lparr>ms_sent := ms_sent m + 1\<rparr>)
           (p\<lparr>pr_stats := stats_send t (pk_size k) (pr_ot p) (pr_stats p)\<rparr>)))
         (bindS (master_at i) (\<lambda>(p, m).
           whenS (ms_toSend m < ms_sent m \<and> 0 < ms_toSend m)
             (failS (ErrorExit ''TrafficProfileMaster::send'')))))"

text \<open>
  A pending packet is sent when the FIFO lets it through; the result is the packet sent, the next
  time and the flags of the FIFO.
\<close>

definition send_pending :: "u64 \<Rightarrow> u64 \<Rightarrow> packet \<Rightarrow> (tpm, packet option \<times> u64 \<times> bool \<times> bool) comp" where
  "send_pending i t pk =
    bindS (fifo_send_call i t (pk_size pk)) (\<lambda>(ok, u, ov, next, rt).
    bindS (if ok then bindS (transmit i t rt pk) (\<lambda>(pk', u', ov').
             returnS (Some pk', next, u \<or> u', ov \<or> ov'))
           else returnS (None, next, u, ov)) (\<lambda>r.
    thenS (start_checkers i) (returnS r)))"

text \<open>The part of \<^verbatim>\<open>send\<close> that an active master executes.\<close>

definition master_try :: "rng \<Rightarrow> u64 \<Rightarrow> u64 \<Rightarrow> (tpm, packet option \<times> u64) comp" where
  "master_try rng i t =
    bindS (next_packet rng i t) (\<lambda>pending.
    bindS (case pending of None \<Rightarrow> returnS (None, 0, False, False) | Some pk \<Rightarrow> send_pending i t pk)
      (\<lambda>(sent, next, u, ov).
    thenS (count_sent i t sent) (thenS (fifo_stats i u ov) (returnS (sent, next)))))"

definition master_send :: "rng \<Rightarrow> u64 \<Rightarrow> (tpm, sending) comp" where
  "master_send rng i =
    bindS getTime (\<lambda>t. bindS (master_active i) (\<lambda>(act, locked).
    bindS (if act then master_try rng i t
           else bindS (master_at i) (\<lambda>(p, m).
             returnS (None, if \<not> locked \<and> \<not> ms_halted m \<and> \<not> pr_terminated p
               then t + snd (fifo_getRate (pr_fifo p)) else 0))) (\<lambda>(pk, next).
    bindS (prof i) (\<lambda>p.
    thenS (whenS (\<not> pr_terminated p)
      (emitEvent tpm_event i (if pk \<noteq> None then PROFILE_UNLOCKED else PROFILE_LOCKED)))
    (returnS (pk \<noteq> None, locked, pk, next))))))"

definition master_receive :: "u64 \<Rightarrow> packet \<Rightarrow> double \<Rightarrow> (tpm, bool \<times> u64) comp" where
  "master_receive i pk dl =
    bindS getTime (\<lambda>t. bindS (master_at i) (\<lambda>(p, m).
    bindS (liftS (pd_receive pk (ms_packetDesc m))) (\<lambda>ok.
    bindS (if ok then
        bindS (fifo_receive_call i t (pk_size pk)) (\<lambda>(whole, u, ov).
        thenS (setp i (\<lambda>p. p\<lparr>pr_stats := stats_receive t (pk_size pk) dl (pr_stats p)\<rparr>))
        (thenS (whenS whole
          (bindS (prof i) (\<lambda>p.
           thenS (whenS (pr_ot p = 0) (failS (ErrorExit ''TrafficProfileMaster::receive'')))
           (thenS (setp i (\<lambda>p. p\<lparr>pr_ot := pr_ot p - 1\<rparr>)) (signal (pr_id p) (pk_uid pk) RESPONSE)))))
        (returnS (u, ov))))
      else returnS (False, False)) (\<lambda>(u, ov).
    thenS (fifo_stats i u ov)
    (bindS (master_active i) (\<lambda>(act, locked).
    returnS (ok, if \<not> act \<and> \<not> locked then 0 else t)))))))"

section \<open>Slaves\<close>

definition slave_active :: "u64 \<Rightarrow> (tpm, bool \<times> bool) comp" where
  "slave_active i = bindS (slave_at i) (\<lambda>(p, v).
     let locked = (sv_maxOt v \<le> fifo_getOt (pr_fifo p) \<and> 0 < sv_maxOt v)
     in returnS (\<not> locked, locked))"

text \<open>The size of a packet in multiples of the width of the slave.\<close>

definition slave_units :: "slave \<Rightarrow> u64 \<Rightarrow> u64 res" where
  "slave_units v sz = bindR (ensure (sv_width v \<noteq> 0) (Undefined ''TrafficProfileSlave''))
     (\<lambda>_. Inr ((sz + sv_width v - 1) div sv_width v * sv_width v))"

definition slave_send :: "u64 \<Rightarrow> (tpm, sending) comp" where
  "slave_send i =
    bindS getTime (\<lambda>t. bindS (slave_at i) (\<lambda>(p, v).
    case sv_responses v of
      [] \<Rightarrow> returnS (False, False, None, 0)
    | r # rs \<Rightarrow>
        thenS (whenS (pk_time r \<le> t)
          (thenS (setp i (on_slave (\<lambda>v. v\<lparr>sv_responses := rs\<rparr>)))
          (bindS (liftS (slave_units v (pk_size r))) (\<lambda>n.
           thenS (fifo_receive_call i t n) (returnS ())))))
        (bindS (slave_at i) (\<lambda>(q, w).
         let ok = (pk_time r \<le> t)
         in returnS (ok, sv_responses w = [], if ok then Some r else None,
              if sv_responses w = [] then 0 else pk_time (hd (sv_responses w)))))))"

definition response_latency :: "rng \<Rightarrow> u64 \<Rightarrow> (tpm, u64) comp" where
  "response_latency rng i = bindS (slave_at i) (\<lambda>(p, v).
    case sv_latency v of
      LatencyUnset \<Rightarrow> failS (Undefined ''TrafficProfileSlave::receive'')
    | LatencyStatic l \<Rightarrow> returnS l
    | LatencyRandom g unit \<Rightarrow>
        bindS (liftS (generator_get rng g)) (\<lambda>(x, g').
        thenS (setp i (on_slave (\<lambda>v. v\<lparr>sv_latency := LatencyRandom g' unit\<rparr>))) (returnS (x * unit))))"

definition first_response :: "u64 \<Rightarrow> (tpm, u64 option) comp" where
  "first_response i = bindS (slave_at i) (\<lambda>(p, v).
     returnS (case sv_responses v of [] \<Rightarrow> None | r # rs \<Rightarrow> Some (pk_time r)))"

definition slave_receive :: "rng \<Rightarrow> u64 \<Rightarrow> packet \<Rightarrow> (tpm, bool \<times> u64) comp" where
  "slave_receive rng i pk =
    bindS getTime (\<lambda>t. bindS (slave_at i) (\<lambda>(p, v). bindS (liftS (slave_units v (pk_size pk))) (\<lambda>n.
    thenS (whenS (pk_cmd pk \<noteq> READ_REQ \<and> pk_cmd pk \<noteq> WRITE_REQ)
      (failS (ErrorExit ''TrafficProfileSlave::receive'')))
    (bindS (slave_active i) (\<lambda>(act, locked).
     bindS (if act then bindS (fifo_send_call i t n) (\<lambda>(ok, u, ov, next, rt). returnS (ok, next))
            else returnS (False, 0)) (\<lambda>(ok, next).
     if ok then
       bindS (response_latency rng i) (\<lambda>latency.
       let res = pk\<lparr>pk_cmd := (if pk_cmd pk = READ_REQ then READ_RESP else WRITE_RESP),
                    pk_time := t + latency\<rparr>
       in thenS (setp i (on_slave (\<lambda>v. v\<lparr>sv_responses := sv_responses v @ [res]\<rparr>)))
          (bindS (first_response i) (\<lambda>r.
           thenS (signal (pr_id p) (pk_uid pk) REQUEST)
           (returnS (True, the_default 0 r)))))
     else
       bindS (first_response i) (\<lambda>r.
       thenS (wait (pr_id p) t (pk_uid pk) REQUEST)
       (returnS (False, case r of None \<Rightarrow> next | Some x \<Rightarrow> if locked \<or> next = 0 then x else next)))))))))"

section \<open>Checkers\<close>

definition checker_active :: "u64 \<Rightarrow> (tpm, bool) comp" where
  "checker_active i = bindS (prof i) (\<lambda>p.
     let isActive = em_waiting (pr_em p)
     in thenS (whenS (\<not> isActive \<and> \<not> pr_terminated p)
          (thenS (emitEvent tpm_event i TERMINATION) (setp i (\<lambda>p. p\<lparr>pr_terminated := True\<rparr>))))
        (returnS isActive))"

definition checker_send :: "u64 \<Rightarrow> packet option \<Rightarrow> (tpm, sending) comp" where
  "checker_send i pk =
    bindS getTime (\<lambda>t. bindS (checker_active i) (\<lambda>act.
    if act then
      (case pk of
         None \<Rightarrow> failS (ErrorExit ''TrafficProfileChecker::send'')
       | Some k \<Rightarrow>
           thenS (setp i (\<lambda>p. p\<lparr>pr_ot := pr_ot p + 1\<rparr>))
           (bindS (fifo_send_call i t (pk_size k)) (\<lambda>(ok, u, ov, next, rt).
           thenS (setp i (\<lambda>p. p\<lparr>pr_stats := stats_send t (pk_size k) (pr_ot p) (pr_stats p)\<rparr>))
           (thenS (fifo_stats i u ov) (returnS (ok, False, pk, next))))))
    else returnS (False, False, pk, 0)))"

definition checker_receive :: "u64 \<Rightarrow> packet \<Rightarrow> double \<Rightarrow> (tpm, bool \<times> u64) comp" where
  "checker_receive i pk dl =
    bindS getTime (\<lambda>t.
    thenS (setp i (\<lambda>p. p\<lparr>pr_ot := pr_ot p - 1\<rparr>))
    (bindS (fifo_receive_call i t (pk_size pk)) (\<lambda>(whole, u, ov).
    thenS (setp i (\<lambda>p. p\<lparr>pr_stats := stats_receive t (pk_size pk) dl (pr_stats p)\<rparr>))
    (thenS (fifo_stats i u ov)
    (thenS (checker_active i) (returnS (True, 0)))))))"

section \<open>Delays\<close>

definition delay_active :: "u64 \<Rightarrow> (tpm, bool \<times> bool) comp" where
  "delay_active i =
    bindS (prof i) (\<lambda>p.
    let locked = 0 < getWaitedCount PROFILE (pr_em p)
    in thenS (whenS (\<not> locked \<and> \<not> pr_started p) (activate tpm_event i))
       (bindS (delay_at i) (\<lambda>(q, d).
        let expired = (pr_started q \<and> dl_startTime d + dl_delay d \<le> dl_time d)
        in thenS (whenS (expired \<and> \<not> pr_terminated q)
             (thenS (emitEvent tpm_event i TERMINATION)
             (setp i (\<lambda>p. p\<lparr>pr_terminated := True, pr_stats := stats_setTime (dl_time d) (pr_stats p)\<rparr>))))
           (returnS (\<not> locked \<and> \<not> expired, locked)))))"

definition delay_send :: "u64 \<Rightarrow> (tpm, sending) comp" where
  "delay_send i =
    bindS getTime (\<lambda>t.
    thenS (setp i (\<lambda>p. if pr_started p then on_delay (\<lambda>d. d\<lparr>dl_time := t\<rparr>) p
        else on_delay (\<lambda>d. d\<lparr>dl_time := t, dl_startTime := t\<rparr>) (p\<lparr>pr_stats := stats_start t (pr_stats p)\<rparr>)))
    (bindS (delay_active i) (\<lambda>(act, locked). bindS (delay_at i) (\<lambda>(p, d).
    returnS (False, locked, None, if act then dl_startTime d + dl_delay d else 0)))))"

section \<open>Dispatch\<close>

definition profile_send :: "rng \<Rightarrow> u64 \<Rightarrow> packet option \<Rightarrow> (tpm, sending) comp" where
  "profile_send rng i pk = bindS (prof i) (\<lambda>p. case pr_body p of
     Master _ \<Rightarrow> master_send rng i | Slave _ \<Rightarrow> slave_send i
   | Checker \<Rightarrow> checker_send i pk | Delay _ \<Rightarrow> delay_send i)"

definition profile_receive :: "rng \<Rightarrow> u64 \<Rightarrow> packet \<Rightarrow> double \<Rightarrow> (tpm, bool \<times> u64) comp" where
  "profile_receive rng i pk dl = bindS (prof i) (\<lambda>p. case pr_body p of
     Master _ \<Rightarrow> master_receive i pk dl | Slave _ \<Rightarrow> slave_receive rng i pk
   | Checker \<Rightarrow> checker_receive i pk dl
   | Delay _ \<Rightarrow> failS (ErrorExit ''TrafficProfileDelay::receive''))"

section \<open>Reset\<close>

definition base_reset :: "u64 \<Rightarrow> (tpm, unit) comp" where
  "base_reset i =
    bindS (prof i) (\<lambda>p.
    thenS (setp i (\<lambda>p. p\<lparr>pr_em := em_reset (pr_em p)\<rparr>))
    (thenS (subscribe_keys (em_eventId (pr_em p)) (em_retained (pr_em p)))
    (thenS (setp i (\<lambda>p. p\<lparr>pr_ot := 0, pr_started := False\<rparr>))
    (thenS (whenS (pr_terminated p) (signalReset (pr_id p)))
    (setp i (\<lambda>p. p\<lparr>pr_terminated := False\<rparr>))))))"

definition checker_reset :: "u64 \<Rightarrow> (tpm, unit) comp" where
  "checker_reset i = thenS (base_reset i) (setp i (\<lambda>p. p\<lparr>pr_fifo := fifo_reset (pr_fifo p)\<rparr>))"

text \<open>The ids registered as checkers are those of checker objects.\<close>

definition reset_checker :: "u64 \<Rightarrow> (tpm, unit) comp" where
  "reset_checker c = bindS (getProfile c) (\<lambda>p. case pr_body p of
     Checker \<Rightarrow> checker_reset c | _ \<Rightarrow> failS (Undefined ''TrafficProfileMaster::reset''))"

definition unlocked_activation :: "u64 \<Rightarrow> (tpm, unit) comp \<Rightarrow> (tpm, unit) comp" where
  "unlocked_activation i rest =
    bindS (prof i) (\<lambda>p. whenS (getWaitedCount PROFILE (pr_em p) = 0)
      (thenS (emitEvent tpm_event i ACTIVATION) rest))"

text \<open>
  The pending packet is deleted and its pointer kept; deleting it a second time has no meaning.
\<close>

definition master_reset :: "u64 \<Rightarrow> (tpm, unit) comp" where
  "master_reset i =
    thenS (base_reset i)
    (bindS (master_at i) (\<lambda>(p, m).
    thenS (whenS (ms_pending m = PDangling) (failS (Undefined ''TrafficProfileMaster::reset'')))
    (thenS (setp i (\<lambda>p. on_master (\<lambda>m. m\<lparr>ms_packetDesc := pd_reset (ms_packetDesc m), ms_sent := 0,
        ms_pending := (if ms_pending m = PNull then PNull else PDangling), ms_halted := False,
        ms_checkersFifoStarted := False\<rparr>) (p\<lparr>pr_fifo := fifo_reset (pr_fifo p)\<rparr>)))
    (thenS (eachS reset_checker (pr_checkers p))
    (unlocked_activation i (setp i (\<lambda>p. p\<lparr>pr_started := True\<rparr>)))))))"

definition slave_reset :: "u64 \<Rightarrow> (tpm, unit) comp" where
  "slave_reset i =
    thenS (base_reset i)
    (thenS (setp i (\<lambda>p. on_slave (\<lambda>v. v\<lparr>sv_responses := []\<rparr>) (p\<lparr>pr_fifo := fifo_reset (pr_fifo p)\<rparr>)))
    (thenS (emitEvent tpm_event i ACTIVATION) (setp i (\<lambda>p. p\<lparr>pr_started := True\<rparr>))))"

definition delay_reset :: "u64 \<Rightarrow> (tpm, unit) comp" where
  "delay_reset i =
    thenS (base_reset i)
    (thenS (setp i (on_delay (\<lambda>d. d\<lparr>dl_startTime := 0, dl_time := 0\<rparr>)))
    (unlocked_activation i (returnS ())))"

definition profile_reset :: "u64 \<Rightarrow> (tpm, unit) comp" where
  "profile_reset i = bindS (prof i) (\<lambda>p. case pr_body p of
     Master _ \<Rightarrow> master_reset i | Slave _ \<Rightarrow> slave_reset i
   | Checker \<Rightarrow> checker_reset i | Delay _ \<Rightarrow> delay_reset i)"

end
