(* ===== verification/Streams.thy ===== *)
theory Streams
  imports Profiles
begin

text \<open>
  Streams: the profiles that follow one another through their TERMINATION events, from a root
  (\<^verbatim>\<open>getStream\<close>, \<^verbatim>\<open>streamCacheUpdate\<close>, \<^verbatim>\<open>streamReset\<close>, \<^verbatim>\<open>streamTerminated\<close>,
  \<^verbatim>\<open>addressStreamReconfigure\<close> of \<^verbatim>\<open>traffic_profile_manager.cc\<close>). A stream is found by a
  breadth-first traversal of the table of awaited events, and cached.
\<close>

section \<open>The traversal\<close>

text \<open>The profiles that wait for the termination of a profile, and whether there are any events to.\<close>

definition followers :: "tpm \<Rightarrow> u64 \<Rightarrow> u64 list" where
  "followers s i = concat (map snd (filter (\<lambda>w. fst (fst w) = TERMINATION)
     (the_default [] (map_of (tp_waitEventMap s) i))))"

definition is_leaf :: "tpm \<Rightarrow> u64 \<Rightarrow> bool" where
  "is_leaf s i \<longleftrightarrow> (\<forall>w \<in> set (the_default [] (map_of (tp_waitEventMap s) i)). fst (fst w) \<noteq> TERMINATION)"

text \<open>The followers that were not visited are queued and marked, one after the other.\<close>

fun enqueue :: "u64 list \<Rightarrow> u64 list \<Rightarrow> u64 list \<Rightarrow> u64 list \<times> u64 list" where
  "enqueue [] queue visited = (queue, visited)"
| "enqueue (x # xs) queue visited =
    (if x \<in> set visited then enqueue xs queue visited
     else enqueue xs (queue @ [x]) (visited @ [x]))"

definition addToStream :: "u64 \<Rightarrow> u64 \<Rightarrow> (tpm, unit) comp" where
  "addToStream rt i =
    bindS (prof i) (\<lambda>p.
    if isValid rt then
      setp i (\<lambda>p. p\<lparr>pr_streamId := rt,
        pr_tagger := Some ((the_default (tagger_new 0) (pr_tagger p))\<lparr>tg_stream_id := rt\<rparr>)\<rparr>)
    else failS (ErrorExit ''TrafficProfileDescriptor::addToStream''))"

fun stream_loop :: "nat \<Rightarrow> u64 \<Rightarrow> u64 list \<Rightarrow> u64 list \<Rightarrow> (tpm, unit) comp" where
  "stream_loop n rt [] visited = returnS ()"
| "stream_loop 0 rt (i # queue) visited = failS OutOfFuel"
| "stream_loop (Suc n) rt (i # queue) visited =
    bindS getS (\<lambda>s.
    let (queue', visited') = enqueue (followers s i) queue visited
    in thenS (addToStream rt i)
      (thenS (modifyS (\<lambda>s. s\<lparr>tp_streamCache := AList.update rt
           (the_default [] (map_of (tp_streamCache s) rt) @ [(i, is_leaf s i)]) (tp_streamCache s),
         tp_streamLeavesCache := (if is_leaf s i
           then AList.update rt (the_default [] (map_of (tp_streamLeavesCache s) rt) @ [i]) (tp_streamLeavesCache s)
           else tp_streamLeavesCache s)\<rparr>))
      (stream_loop n rt queue' visited')))"

text \<open>Every profile is queued once, so the number of profiles bounds the iterations.\<close>

definition getStream :: "u64 \<Rightarrow> (tpm, (u64 \<times> bool) list) comp" where
  "getStream rt =
    bindS getS (\<lambda>s.
    thenS (whenS (length (tp_profiles s) \<le> unat rt) (failS (ErrorExit ''TrafficProfileManager::getStream'')))
    (thenS (whenS (map_of (tp_streamCache s) rt = None)
       (thenS (modifyS (\<lambda>s. s\<lparr>tp_streamCache := AList.update rt [] (tp_streamCache s)\<rparr>))
       (stream_loop (length (tp_profiles s)) rt [rt] [rt])))
    (readS (\<lambda>s. the_default [] (map_of (tp_streamCache s) rt)))))"

section \<open>Operations on streams\<close>

definition update_root :: "u64 \<Rightarrow> (tpm, unit) comp" where
  "update_root i = bindS (prof i) (\<lambda>p.
     whenS (pr_role p \<noteq> ROLE_SLAVE) (thenS (getStream i) (returnS ())))"

definition streamCacheUpdate :: "(tpm, unit) comp" where
  "streamCacheUpdate = bindS (readS tp_activeList) (eachS update_root)"

definition streamReset :: "u64 \<Rightarrow> (tpm, unit) comp" where
  "streamReset rt = bindS (getStream rt) (eachS (\<lambda>(i, leaf). profile_reset i))"

definition streamTerminated :: "u64 \<Rightarrow> (tpm, bool) comp" where
  "streamTerminated rt =
    bindS (getStream rt) (\<lambda>_. bindS getS (\<lambda>s.
    case map_of (tp_streamLeavesCache s) rt of
      None \<Rightarrow> failS (Uncaught ''map::at'')
    | Some leaves \<Rightarrow>
        bindS (collectS (\<lambda>l. bindS (prof l) (\<lambda>p. returnS (pr_terminated p))) leaves)
        (\<lambda>ts. returnS (list_all (\<lambda>t. t) ts))))"

text \<open>Each master of the stream gets the next part of the range, as large as it needs.\<close>

fun reconfigure_nodes :: "ptype \<Rightarrow> u64 \<Rightarrow> u64 \<Rightarrow> u64 \<Rightarrow> (u64 \<times> bool) list \<Rightarrow> (tpm, u64) comp" where
  "reconfigure_nodes type limit base used [] = returnS used"
| "reconfigure_nodes type limit base used ((i, leaf) # nodes) =
    bindS (prof i) (\<lambda>p.
    case pr_body p of
      Master m \<Rightarrow>
        if type = P_NONE \<or> ff_type (pr_fifo p) = type then
          bindS (liftS (autoRange (ms_toSend m) False (ms_packetDesc m))) (\<lambda>(newRange, d).
          bindS (liftS (addressReconfigure base newRange d)) (\<lambda>d'.
          thenS (setp i (on_master (\<lambda>m. m\<lparr>ms_packetDesc := d'\<rparr>)))
          (thenS (whenS (limit < used + newRange)
             (failS (ErrorExit ''TrafficProfileManager::addressStreamReconfigure'')))
          (reconfigure_nodes type limit (base + newRange) (used + newRange) nodes))))
        else reconfigure_nodes type limit base used nodes
    | _ \<Rightarrow> reconfigure_nodes type limit base used nodes)"

definition addressStreamReconfigure :: "u64 \<Rightarrow> u64 \<Rightarrow> u64 \<Rightarrow> ptype \<Rightarrow> (tpm, u64) comp" where
  "addressStreamReconfigure rt base limit type =
    bindS (getStream rt) (reconfigure_nodes type limit base 0)"

end
