(* ===== verification/Config.thy ===== *)
theory Config
  imports Streams
begin

text \<open>
  From configurations to profiles: the constructors of the profile classes, \<^verbatim>\<open>createProfile\<close>,
  \<^verbatim>\<open>configureProfile\<close>, \<^verbatim>\<open>loadConfiguration\<close>, \<^verbatim>\<open>configure\<close>, \<^verbatim>\<open>reset\<close>, \<^verbatim>\<open>flush\<close>, and the
  cloning of streams.

  An object under construction is not in the table of profiles yet (the pointer is null until
  the constructor has returned), so the constructors work on a profile of their own and only
  call the manager for ids, subscriptions and events.
\<close>

section \<open>Rates and times\<close>

text \<open>The comparison is between a frequency and a number of bytes, as the code has it.\<close>

definition parseRate :: "u64 \<Rightarrow> string \<Rightarrow> (tpm, u64 \<times> u64) comp" where
  "parseRate i str = bindS getS (\<lambda>s.
    let atpFrequency = toFrequency (tp_timeResolution s)
    in bindS (liftS (toRate str)) (\<lambda>(rate, multiplier).
       bindS (if 0 < multiplier
              then returnS (if rate < atpFrequency then atpFrequency div multiplier else 0)
              else bindS (getTimeScaleFactors i) (\<lambda>(scale, period). returnS period)) (\<lambda>period.
       liftS (reduce_fraction rate period))))"

definition fl_round :: "double \<Rightarrow> double" where
  "fl_round x = of_int \<lfloor>x + 1 / 2\<rfloor>"

definition to_u64 :: "string \<Rightarrow> double \<Rightarrow> u64 res" where
  "to_u64 f x = (case fl_to_u64 x of None \<Rightarrow> Inl (Undefined f) | Some v \<Rightarrow> Inr v)"

definition parseTime :: "string \<Rightarrow> (tpm, u64) comp" where
  "parseTime str = bindS getS (\<lambda>s.
    bindS (liftS (timeToHz str)) (\<lambda>frequency.
    let ticks = (if 0 < frequency
          then rnd64 (fl_of_u64 (toFrequency (tp_timeResolution s)) / frequency) else 0)
    in liftS (to_u64 ''TrafficProfileDescriptor::parseTime'' (fl_round ticks))))"

section \<open>The base class\<close>

definition Reserved :: char where "Reserved = CHR ''$''"
definition CloneSuffix :: string where "CloneSuffix = Reserved # ''clone''"
definition DefaultName :: string where "DefaultName = Reserved # ''profile''"

definition clone_name :: "string \<Rightarrow> u64 \<Rightarrow> string" where
  "clone_name n k = (if k \<noteq> 0 then n @ CloneSuffix @ to_string (k - 1) else n)"

text \<open>\<^verbatim>\<open>waitEvent\<close> of an object under construction.\<close>

definition wait_new :: "etype \<Rightarrow> u64 \<Rightarrow> profile \<Rightarrow> (tpm, profile) comp" where
  "wait_new t k p =
    thenS (subscribe_keys (em_eventId (pr_em p)) (if t = NO_EVENT then [] else [(t, k)]))
    (returnS (p\<lparr>pr_em := em_wait t k True (pr_em p)\<rparr>))"

fun wait_for_all :: "u64 \<Rightarrow> string list \<Rightarrow> profile \<Rightarrow> (tpm, profile) comp" where
  "wait_for_all clone_num [] p = returnS p"
| "wait_for_all clone_num (w # ws) p =
    (let (ok, t, n) = event_parse NO_EVENT w
     in if ok then
          bindS (getOrGeneratePid (clone_name n clone_num)) (\<lambda>k.
          bindS (wait_new t k p) (wait_for_all clone_num ws))
        else failS (ErrorExit ''TrafficProfileDescriptor''))"

definition new_tagger :: "profile_conf \<Rightarrow> tagger option" where
  "new_tagger pf =
    (if pf_flow_id pf \<noteq> None \<or> pf_iommu_id pf \<noteq> None \<or> pf_pattern pf \<noteq> None
     then Some ((tagger_new 0)\<lparr>tg_flow_id := the_default invalid_id (pf_flow_id pf),
            tg_iommu_id := the_default invalid_id32 (pf_iommu_id pf)\<rparr>)
     else None)"

definition base_new :: "u64 \<Rightarrow> profile_conf \<Rightarrow> u64 \<Rightarrow> (tpm, profile) comp" where
  "base_new i pf clone_num =
    bindS (wait_for_all clone_num (pf_wait_for pf)
      \<lparr>pr_em = em_new i, pr_config = pf, pr_role = ROLE_NONE, pr_type = the_default P_READ (pf_type pf),
       pr_tagger = None, pr_id = i, pr_name = clone_name (the_default [] (pf_name pf)) clone_num,
       pr_masterName = [], pr_masterId = 0, pr_streamId = invalid_id,
       pr_masterIommuId = the_default invalid_id32 (pf_iommu_id pf), pr_ot = 0, pr_stats = stats_new,
       pr_started = False, pr_startTime = 0, pr_terminated = False, pr_checkers = [],
       pr_fifo = fifo_new, pr_body = Checker\<rparr>) (\<lambda>p. bindS getS (\<lambda>s.
    returnS (p\<lparr>pr_tagger := new_tagger pf,
      pr_stats := stats_new\<lparr>st_timeScale := toFrequency (tp_timeResolution s)\<rparr>\<rparr>)))"

definition emit_new :: "etype \<Rightarrow> profile \<Rightarrow> (tpm, profile) comp" where
  "emit_new t p = bindS getTime (\<lambda>n.
     thenS (emit_opt tpm_event (snd (em_emit t n (pr_em p))))
     (returnS (p\<lparr>pr_em := fst (em_emit t n (pr_em p))\<rparr>)))"

definition activate_new :: "profile \<Rightarrow> (tpm, profile) comp" where
  "activate_new p = bindS (emit_new ACTIVATION p) (\<lambda>q. bindS getTime (\<lambda>n.
     returnS (q\<lparr>pr_started := True, pr_startTime := n\<rparr>)))"

definition fifo_new_conf :: "profile_conf \<Rightarrow> profile \<Rightarrow> (tpm, profile) comp" where
  "fifo_new_conf pf p =
    (case (pf_fifo pf, pf_type pf) of
       (Some conf, Some ty) \<Rightarrow>
         bindS (parseRate (pr_id p) (fc_rate conf)) (\<lambda>timing. bindS getS (\<lambda>s.
         bindS (liftS (fifo_init (pr_em p) ty timing conf (tp_trackerLatency s) (pr_fifo p))) (\<lambda>(subs, f).
         thenS (subscribe_keys (em_eventId (ff_em f)) subs) (returnS (p\<lparr>pr_fifo := f\<rparr>)))))
     | _ \<Rightarrow> failS (ErrorExit ''missing FIFO configuration''))"

section \<open>The constructors\<close>

definition master_limits :: "packet_desc \<Rightarrow> fifo_conf option \<Rightarrow> (tpm, u64 \<times> u64 \<times> u64) comp" where
  "master_limits d fc =
    (case fc of None \<Rightarrow> returnS (0, 0, 1)
     | Some conf \<Rightarrow>
        bindS (case fc_total_txn conf of
            Some n \<Rightarrow> returnS (n, 0)
          | None \<Rightarrow> (case fc_framesize conf of
              Some fs \<Rightarrow>
                if pd_sizeType d = CONFIGURED then
                  bindS (liftS (toBytes fs)) (\<lambda>b.
                  if pd_size d = 0 then failS (Undefined ''TrafficProfileMaster'')
                  else returnS (b div pd_size d, 0))
                else failS (ErrorExit ''TrafficProfileMaster'')
            | None \<Rightarrow> (case fc_frametime conf of
                Some ft \<Rightarrow> bindS (parseTime ft) (\<lambda>t. returnS (0, t))
              | None \<Rightarrow> returnS (0, 0)))) (\<lambda>(toSend, toStop).
        returnS (toSend, toStop, case fc_ot_limit conf of Some n \<Rightarrow> n
          | None \<Rightarrow> the_default 1 (fc_txnlimit conf))))"

definition master_new :: "rng \<Rightarrow> u64 \<Rightarrow> profile_conf \<Rightarrow> u64 \<Rightarrow> (tpm, profile) comp" where
  "master_new rng i pf clone_num =
    bindS (base_new i pf clone_num) (\<lambda>p.
    case pf_pattern pf of
      None \<Rightarrow> failS (ErrorExit ''TrafficProfileMaster'')
    | Some pattern \<Rightarrow>
        bindS (liftS (pd_init rng i pattern (pr_tagger p) packet_desc_new)) (\<lambda>(d0, tg).
        let d = (if pd_cmd d0 = CMD_INVALID
              then setCommand (if pr_type p = P_READ then READ_REQ else WRITE_REQ) d0 else d0)
        in bindS (master_limits d (pf_fifo pf)) (\<lambda>(toSend, toStop, maxOt).
           bindS (fifo_new_conf pf (p\<lparr>pr_tagger := tg\<rparr>)) (\<lambda>q.
           let r = q\<lparr>pr_role := ROLE_MASTER, pr_body := Master \<lparr>ms_toSend = toSend, ms_toStop = toStop,
                 ms_maxOt = maxOt, ms_sent = 0, ms_pending = PNull, ms_checkersFifoStarted = False,
                 ms_halted = False, ms_packetDesc = d\<rparr>\<rparr>
           in if getWaitedCount PROFILE (pr_em r) = 0 then activate_new r else returnS r))))"

definition slave_high :: "slave_conf \<Rightarrow> u64 \<Rightarrow> u64 res" where
  "slave_high sl low =
    (case (sl_high_address sl, sl_address_range sl) of
       (Some h, None) \<Rightarrow> Inr h
     | (None, Some r) \<Rightarrow> bindR (toBytes_fl r) (\<lambda>b. to_u64 ''TrafficProfileSlave'' (fl_add (fl_of_u64 low) b))
     | _ \<Rightarrow> Inl (ErrorExit ''TrafficProfileSlave''))"

text \<open>
  A random latency is initialised through a union member whose object was never constructed: its
  \<^verbatim>\<open>init\<close> deletes an uninitialised pointer.
\<close>

definition slave_new :: "u64 \<Rightarrow> profile_conf \<Rightarrow> slave_conf \<Rightarrow> u64 \<Rightarrow> (tpm, profile) comp" where
  "slave_new i pf sl clone_num =
    bindS (base_new i pf clone_num) (\<lambda>p. bindS (parseRate i (sl_rate sl)) (\<lambda>bandwidth.
    bindS (case sl_latency sl of
        Some l \<Rightarrow> bindS (parseTime l) (\<lambda>t. returnS (LatencyStatic t))
      | None \<Rightarrow> if sl_random_latency sl \<noteq> None then failS (Undefined ''Generator::init'')
                else returnS LatencyUnset) (\<lambda>lat.
    let maxOt = (case sl_ot_limit sl of Some n \<Rightarrow> n | None \<Rightarrow> the_default 1 (sl_txnlimit sl));
        width = (case sl_granularity sl of Some n \<Rightarrow> n | None \<Rightarrow> the_default 64 (sl_txnsize sl))
    in bindS (liftS (fifo_init_params (pr_em p) P_READ (fst bandwidth) (snd bandwidth) 0 (maxOt * width)
         False (pr_fifo p))) (\<lambda>(subs, f).
       thenS (subscribe_keys (em_eventId (ff_em f)) subs)
       (thenS (whenS (sl_master sl \<noteq> [] \<and> (sl_low_address sl \<noteq> None \<or> sl_high_address sl \<noteq> None))
          (failS (ErrorExit ''TrafficProfileSlave'')))
       (thenS (eachS (\<lambda>m. registerMasterToSlave m i) (sl_master sl))
       (thenS (case sl_low_address sl of
            None \<Rightarrow> returnS ()
          | Some low \<Rightarrow> bindS (liftS (slave_high sl low)) (\<lambda>high. registerSlaveAddressRange low high i))
       (activate_new (p\<lparr>pr_role := ROLE_SLAVE, pr_fifo := f, pr_body := Slave \<lparr>sv_bandwidth = bandwidth,
          sv_maxOt = maxOt, sv_width = width, sv_latency = lat, sv_responses = []\<rparr>\<rparr>)))))))))"

fun watch_all :: "u64 \<Rightarrow> string list \<Rightarrow> profile \<Rightarrow> (tpm, profile) comp" where
  "watch_all clone_num [] p = returnS p"
| "watch_all clone_num (c # cs) p =
    bindS (getOrGeneratePid (clone_name c clone_num)) (\<lambda>k.
    bindS (wait_new TERMINATION k p) (watch_all clone_num cs))"

definition checker_new :: "u64 \<Rightarrow> profile_conf \<Rightarrow> u64 \<Rightarrow> (tpm, profile) comp" where
  "checker_new i pf clone_num =
    bindS (base_new i pf clone_num) (\<lambda>p. bindS (fifo_new_conf pf p) (\<lambda>q.
    if pf_check pf = [] then failS (ErrorExit ''TrafficProfileChecker'')
    else bindS (watch_all clone_num (pf_check pf) q) (\<lambda>r.
      returnS (r\<lparr>pr_role := ROLE_CHECKER, pr_body := Checker\<rparr>))))"

definition delay_new :: "u64 \<Rightarrow> profile_conf \<Rightarrow> string \<Rightarrow> u64 \<Rightarrow> (tpm, profile) comp" where
  "delay_new i pf tm clone_num =
    bindS (base_new i pf clone_num) (\<lambda>p. bindS (parseTime tm) (\<lambda>d.
    let q = p\<lparr>pr_body := Delay \<lparr>dl_delay = d, dl_startTime = 0, dl_time = 0\<rparr>\<rparr>
    in if getWaitedCount PROFILE (pr_em q) = 0 then emit_new ACTIVATION q else returnS q))"

section \<open>Creation\<close>

definition unknown_master :: "u64 \<Rightarrow> tpm \<Rightarrow> bool" where
  "unknown_master mid s \<longleftrightarrow> isValid mid \<and> length (tp_masters s) \<le> unat mid"

fun register_checks :: "u64 \<Rightarrow> u64 \<Rightarrow> string list \<Rightarrow> (tpm, unit) comp" where
  "register_checks clone_num i [] = returnS ()"
| "register_checks clone_num i (c # cs) =
    bindS (getOrGeneratePid (clone_name c clone_num)) (\<lambda>k.
    thenS (modifyS (\<lambda>s. s\<lparr>tp_checkedBy := tp_checkedBy s @ [(k, i)]\<rparr>)) (register_checks clone_num i cs))"

definition add_to_master :: "u64 \<Rightarrow> profile_conf \<Rightarrow> u64 \<Rightarrow> profile \<Rightarrow> (tpm, profile) comp" where
  "add_to_master i pf mid p = bindS getS (\<lambda>s.
    bindS (if tp_profilesAsMasters s then returnS (pr_name p)
           else if isValid mid then masterName mid else returnS (the_default [] (pf_master_id pf))) (\<lambda>mName.
    bindS (getOrGenerateMid mName) (\<lambda>mId.
    thenS (modifyS (\<lambda>s. s\<lparr>
        tp_masterProfiles := AList.update mId
          (insort_insert i (the_default [] (map_of (tp_masterProfiles s) mId))) (tp_masterProfiles s),
        tp_nonTerminated := AList.update mId
          (the_default 0 (map_of (tp_nonTerminated s) mId) + 1) (tp_nonTerminated s)\<rparr>))
    (returnS (p\<lparr>pr_masterId := mId, pr_masterName := mName\<rparr>)))))"

definition createProfile :: "rng \<Rightarrow> u64 \<Rightarrow> profile_conf \<Rightarrow> u64 \<Rightarrow> u64 \<Rightarrow> (tpm, unit) comp" where
  "createProfile rng i pf clone_num mid = bindS getS (\<lambda>s.
    thenS (whenS (unknown_master mid s \<or> length (tp_profiles s) \<le> unat i)
      (failS (ErrorExit ''TrafficProfileManager::createProfile'')))
    (bindS (if pf_pattern pf \<noteq> None then master_new rng i pf clone_num
            else case pf_slave pf of
              Some sl \<Rightarrow> bindS (slave_new i pf sl clone_num) (\<lambda>p.
                thenS (modifyS (\<lambda>s. s\<lparr>tp_kronosEnabled := True\<rparr>)) (returnS p))
            | None \<Rightarrow> (case pf_delay pf of
                Some tm \<Rightarrow> delay_new i pf tm clone_num
              | None \<Rightarrow>
                  if pf_check pf = [] then failS (ErrorExit ''TrafficProfileManager::createProfile'')
                  else bindS (checker_new i pf clone_num) (\<lambda>p.
                    thenS (modifyS (\<lambda>s. s\<lparr>tp_checkers := insort_insert i (tp_checkers s)\<rparr>))
                    (thenS (register_checks clone_num i (pf_check pf)) (returnS p))))) (\<lambda>p.
    bindS (case pr_body p of
        Slave _ \<Rightarrow> thenS (modifyS (\<lambda>s. s\<lparr>tp_slaves := insort_insert i (tp_slaves s)\<rparr>)) (returnS p)
      | _ \<Rightarrow> add_to_master i pf mid p) (\<lambda>q.
    modifyS (\<lambda>s. s\<lparr>tp_profiles := (tp_profiles s)[unat i := Some q]\<rparr>)))))"

text \<open>
  The id under which a configuration is built: a new one, that of a forward declaration, or, when
  overwriting is allowed, that of a profile that is deleted first.
\<close>

definition claim_id :: "string \<Rightarrow> bool \<Rightarrow> (tpm, u64) comp" where
  "claim_id n overwrite = bindS getS (\<lambda>s.
    case map_of (tp_profileMap s) n of
      None \<Rightarrow>
        (let i = of_nat (length (tp_profiles s))
         in thenS (modifyS (\<lambda>s. s\<lparr>tp_profiles := tp_profiles s @ [None],
              tp_profileMap := AList.update n i (tp_profileMap s)\<rparr>)) (returnS i))
    | Some i \<Rightarrow>
        if length (tp_profiles s) \<le> unat i then failS (Uncaught ''vector::at'')
        else if tp_profiles s ! unat i = None then
          thenS (modifyS (\<lambda>s. s\<lparr>tp_forwardDeclared := tp_forwardDeclared s - 1\<rparr>)) (returnS i)
        else if \<not> overwrite then failS (ErrorExit ''TrafficProfileManager::configureProfile'')
        else thenS (modifyS (\<lambda>s. s\<lparr>tp_profiles := (tp_profiles s)[unat i := None]\<rparr>)) (returnS i))"

definition configureProfile :: "rng \<Rightarrow> profile_conf \<Rightarrow> u64 \<times> u64 \<Rightarrow> bool \<Rightarrow> u64 \<Rightarrow> u64 \<Rightarrow> (tpm, unit) comp" where
  "configureProfile rng pf ts overwrite clone_num mid = bindS getS (\<lambda>s.
    thenS (whenS (unknown_master mid s) (failS (ErrorExit ''TrafficProfileManager::configureProfile'')))
    (bindS (claim_id (clone_name (the_default [] (pf_name pf)) clone_num) overwrite) (\<lambda>i.
     thenS (modifyS (\<lambda>s. s\<lparr>tp_timeScaleFactor := AList.update i ts (tp_timeScaleFactor s)\<rparr>))
     (thenS (createProfile rng i pf clone_num mid)
     (modifyS (\<lambda>s. s\<lparr>tp_initialized := True\<rparr>))))))"

section \<open>Loading\<close>

text \<open>A profile without a name gets one, in the stored configuration too.\<close>

definition name_profile :: "profile_conf \<Rightarrow> (tpm, profile_conf) comp" where
  "name_profile pf = bindS getS (\<lambda>s.
    if pf_name pf \<noteq> None then returnS pf
    else thenS (modifyS (\<lambda>s. s\<lparr>tp_anonymous := tp_anonymous s + 1\<rparr>))
      (returnS (pf\<lparr>pf_name := Some (DefaultName @ to_string (tp_anonymous s))\<rparr>)))"

definition store_profile :: "nat \<Rightarrow> profile_conf \<Rightarrow> tpm \<Rightarrow> tpm" where
  "store_profile j pf s = (let c = last (tp_config s)
     in s\<lparr>tp_config := butlast (tp_config s) @ [c\<lparr>cf_profile := (cf_profile c)[j := pf]\<rparr>]\<rparr>)"

fun load_profiles :: "rng \<Rightarrow> u64 \<times> u64 \<Rightarrow> nat \<Rightarrow> profile_conf list \<Rightarrow> (tpm, unit) comp" where
  "load_profiles rng ts j [] = returnS ()"
| "load_profiles rng ts j (pf # pfs) =
    thenS (whenS (Reserved \<in> set (the_default [] (pf_master_id pf)) \<or> Reserved \<in> set (the_default [] (pf_name pf)))
      (failS (ErrorExit ''TrafficProfileManager::loadConfiguration'')))
    (bindS (name_profile pf) (\<lambda>pf'.
     thenS (modifyS (store_profile j pf'))
     (thenS (configureProfile rng pf' ts False 0 invalid_id) (load_profiles rng ts (Suc j) pfs))))"

definition register_checkers :: "(tpm, unit) comp" where
  "register_checkers = bindS (readS tp_checkedBy) (eachS (\<lambda>(i, c).
     bindS (prof i) (\<lambda>_. setp i (\<lambda>p. p\<lparr>pr_checkers := insort_insert c (pr_checkers p)\<rparr>))))"

definition loadConfiguration :: "rng \<Rightarrow> configuration \<Rightarrow> (tpm, unit) comp" where
  "loadConfiguration rng c =
    thenS (modifyS (\<lambda>s. s\<lparr>tp_config := tp_config s @ [c]\<rparr>))
    (bindS (loadTimeConfiguration c) (\<lambda>ts.
    thenS (modifyS (\<lambda>s. s\<lparr>tp_stats := (tp_stats s)\<lparr>st_timeScale := toFrequency (tp_timeResolution s)\<rparr>\<rparr>))
    (thenS (loadTaggerConfiguration c)
    (thenS (load_profiles rng ts 0 (cf_profile c))
    (thenS register_checkers streamCacheUpdate)))))"

definition configure :: "rng \<Rightarrow> configuration \<Rightarrow> (tpm, unit) comp" where
  "configure rng c = thenS (modifyS (\<lambda>s. s\<lparr>tp_initialized := True\<rparr>)) (loadConfiguration rng c)"

definition tpm_clear :: "tpm \<Rightarrow> tpm" where
  "tpm_clear s = s\<lparr>tp_timeScaleFactor := [], tp_profiles := [], tp_profileMap := [], tp_checkers := [],
     tp_checkedBy := [], tp_masters := [], tp_masterMap := [], tp_masterProfiles := [],
     tp_masterSlaveMap := [], tp_streamCache := [], tp_streamLeavesCache := [], tp_clonedStreams := [],
     tp_streamCloneToOrigin := [], tp_streamCacheValid := False, tp_nonTerminated := [],
     tp_activeList := [], tp_waitedResponse := [], tp_waitedRequest := [], tp_waitEventMap := [],
     tp_nextTimes := [], tp_config := []\<rparr>"

definition tpm_reset :: "rng \<Rightarrow> (tpm, unit) comp" where
  "tpm_reset rng = bindS (readS tp_config) (\<lambda>cs.
    thenS (modifyS tpm_clear)
    (thenS (eachS (loadConfiguration rng) cs)
    (modifyS (\<lambda>s. s\<lparr>tp_stats := stats_reset (tp_stats s), tp_time := 0\<rparr>))))"

definition flush :: "rng \<Rightarrow> (tpm, unit) comp" where
  "flush rng = thenS (modifyS (\<lambda>s. s\<lparr>tp_config := []\<rparr>)) (tpm_reset rng)"

section \<open>Clones of streams\<close>

definition clone_node :: "rng \<Rightarrow> u64 \<Rightarrow> u64 \<Rightarrow> u64 \<Rightarrow> u64 \<Rightarrow> (tpm, u64 option) comp" where
  "clone_node rng rt cloneNum mid i =
    bindS (getProfile i) (\<lambda>from. bindS getS (\<lambda>s.
    case map_of (tp_timeScaleFactor s) i of
      None \<Rightarrow> failS (Uncaught ''map::at'')
    | Some ts \<Rightarrow>
        thenS (configureProfile rng (pr_config from) ts False cloneNum mid)
        (if i = rt then
           bindS (profileId (pr_name from @ CloneSuffix @ to_string (cloneNum - 1))) (\<lambda>k.
           thenS (modifyS (\<lambda>s. let (n, ks) = the_default (0, []) (map_of (tp_clonedStreams s) rt)
             in s\<lparr>tp_clonedStreams := AList.update rt (n, ks @ [k]) (tp_clonedStreams s),
                  tp_streamCloneToOrigin := (if map_of (tp_streamCloneToOrigin s) k = None
                    then AList.update k rt (tp_streamCloneToOrigin s) else tp_streamCloneToOrigin s)\<rparr>))
           (returnS (Some k)))
         else returnS None)))"

fun last_some :: "'a \<Rightarrow> 'a option list \<Rightarrow> 'a" where
  "last_some d [] = d"
| "last_some d (x # xs) = last_some (the_default d x) xs"

definition cloneStream :: "rng \<Rightarrow> u64 \<Rightarrow> u64 \<Rightarrow> (tpm, u64) comp" where
  "cloneStream rng rt mid = bindS getS (\<lambda>s.
    if length (tp_profiles s) \<le> unat rt \<or> map_of (tp_streamCloneToOrigin s) rt \<noteq> None \<or> unknown_master mid s
    then failS (ErrorExit ''TrafficProfileManager::cloneStream'')
    else
      let (n, ks) = the_default (0, []) (map_of (tp_clonedStreams s) rt); cloneNum = n + 1
      in thenS (modifyS (\<lambda>s. s\<lparr>tp_clonedStreams := AList.update rt (cloneNum, ks) (tp_clonedStreams s)\<rparr>))
         (bindS (getStream rt) (\<lambda>nodes.
          bindS (collectS (\<lambda>(i, leaf). clone_node rng rt cloneNum mid i) nodes) (\<lambda>rs.
          thenS register_checkers (bindS getS (\<lambda>s.
          if 0 < tp_forwardDeclared s then failS (ErrorExit ''TrafficProfileManager::cloneStream'')
          else bindS (getStream (last_some invalid_id rs)) (\<lambda>_. returnS (last_some invalid_id rs))))))))"

definition uniqueStream :: "rng \<Rightarrow> u64 \<Rightarrow> u64 \<Rightarrow> (tpm, u64) comp" where
  "uniqueStream rng rt mid = bindS getS (\<lambda>s.
    if length (tp_profiles s) \<le> unat rt \<or> unknown_master mid s
    then failS (ErrorExit ''TrafficProfileManager::uniqueStream'')
    else
      bindS (getProfile rt) (\<lambda>p.
      bindS (if map_of (tp_clonedStreams s) rt \<noteq> None then returnS False
             else if \<not> isValid mid then returnS True
             else bindS (masterId (the_default [] (pf_master_id (pr_config p)))) (\<lambda>m. returnS (mid = m))) (\<lambda>first.
      if first then
        thenS (modifyS (\<lambda>s. s\<lparr>tp_clonedStreams := AList.update rt (0, []) (tp_clonedStreams s)\<rparr>)) (returnS rt)
      else cloneStream rng rt mid)))"

end
