(* ===== verification/Routing.thy ===== *)
theory Routing
  imports Streams
begin

text \<open>
  The engine at work: \<^verbatim>\<open>TrafficProfileManager::send\<close>, \<^verbatim>\<open>receive\<close>, \<^verbatim>\<open>route\<close>, \<^verbatim>\<open>handle\<close>,
  \<^verbatim>\<open>tick\<close> and \<^verbatim>\<open>loop\<close>, and the start of Kronos.

  The loops over the packets of one profile, over the list of active profiles (which grows
  while it is traversed) and over the ticks have no bound in the code. They carry fuel here: a
  run that is cut is \<open>OutOfFuel\<close>.
\<close>

section \<open>Kronos\<close>

fun sum_u64 :: "u64 list \<Rightarrow> u64" where
  "sum_u64 [] = 0"
| "sum_u64 (x # xs) = x + sum_u64 xs"

text \<open>
  Of every slave: the larger of its latency and its period, the number of transactions its
  bandwidth and its limit allow in that time, and its period. The latency is read as a number
  whatever the union holds.
\<close>

definition slave_load :: "u64 \<Rightarrow> (tpm, u64 \<times> u64 \<times> u64) comp" where
  "slave_load i = bindS (slave_at i) (\<lambda>(p, v).
     case sv_latency v of
       LatencyStatic l \<Rightarrow>
         (let cLat = max l (snd (sv_bandwidth v))
          in if sv_width v = 0 then failS (Undefined ''TrafficProfileManager::autoKronosConfiguration'')
             else returnS (cLat, min ((fst (sv_bandwidth v) * cLat) div sv_width v) (sv_maxOt v),
               snd (sv_bandwidth v)))
     | _ \<Rightarrow> failS (Undefined ''TrafficProfileManager::autoKronosConfiguration''))"

definition autoKronosConfiguration :: "(tpm, unit) comp" where
  "autoKronosConfiguration = bindS getS (\<lambda>s.
    whenS (tp_slaves s \<noteq> [])
      (bindS (collectS slave_load (tp_slaves s)) (\<lambda>loads.
       let len = fold max (map fst loads) 0;
           total = sum_u64 (map (fst \<circ> snd) loads);
           parts = (if 0 < total then total else fold max (map (snd \<circ> snd) loads) 0)
       in thenS (whenS (parts = 0) (failS (Undefined ''TrafficProfileManager::autoKronosConfiguration'')))
          (modifyS (\<lambda>s. s\<lparr>tp_kronosCalendarLength := len, tp_kronosBucketsWidth := len div parts,
             tp_kronosConfigurationValid := True\<rparr>)))))"

definition initKronos :: "(tpm, unit) comp" where
  "initKronos = bindS getS (\<lambda>s.
    if tp_kronosEnabled s then
      thenS (whenS (\<not> tp_kronosConfigurationValid s) autoKronosConfiguration)
      (bindS getS (\<lambda>s. bindS (liftS (kronos_init (getKronosConfiguration s) (tp_kronos s)))
        (\<lambda>k. modifyS (\<lambda>s. s\<lparr>tp_kronos := k\<rparr>))))
    else failS (ErrorExit ''TrafficProfileManager::initKronos''))"

definition ensureKronos :: "(tpm, unit) comp" where
  "ensureKronos = bindS getS (\<lambda>s. whenS (\<not> k_initialized (tp_kronos s)) initKronos)"

definition schedule :: "event \<Rightarrow> (tpm, unit) comp" where
  "schedule e = bindS getS (\<lambda>s. bindS (liftS (kronos_schedule e (tp_kronos s)))
     (\<lambda>k. modifyS (\<lambda>s. s\<lparr>tp_kronos := k\<rparr>)))"

section \<open>Sending from a profile\<close>

definition update_checker :: "rng \<Rightarrow> packet \<Rightarrow> double \<Rightarrow> u64 \<Rightarrow> (tpm, unit) comp" where
  "update_checker rng pk dl c =
    bindS (case packetType (pk_cmd pk) of
        REQUEST \<Rightarrow> bindS (profile_send rng c (Some pk)) (\<lambda>(ok, _). returnS ok)
      | RESPONSE \<Rightarrow> bindS (profile_receive rng c pk dl) (\<lambda>(ok, _). returnS ok)
      | NO_TYPE \<Rightarrow> failS (ErrorExit ''TrafficProfileManager::updateCheckers'')) (\<lambda>ok.
    whenS (\<not> ok) (failS (ErrorExit ''TrafficProfileManager::updateCheckers'')))"

definition updateCheckers :: "rng \<Rightarrow> u64 \<Rightarrow> packet \<Rightarrow> double \<Rightarrow> (tpm, unit) comp" where
  "updateCheckers rng i pk dl = bindS getS (\<lambda>s.
     eachS (update_checker rng pk dl) (map snd (filter (\<lambda>x. fst x = i) (tp_checkedBy s))))"

definition push_next :: "u64 \<Rightarrow> (tpm, unit) comp" where
  "push_next t = modifyS (\<lambda>s. s\<lparr>tp_nextTimes := t # tp_nextTimes s\<rparr>)"

fun top :: "u64 list \<Rightarrow> u64" where
  "top [] = 0"
| "top (x # xs) = fold min xs x"

text \<open>One attempt of a profile: the packet if one was sent, and whether the profile is locked.\<close>

definition send_profile :: "rng \<Rightarrow> u64 \<Rightarrow> (tpm, packet option \<times> bool) comp" where
  "send_profile rng i = bindS getS (\<lambda>s.
    if \<not> tp_initialized s \<or> isChecker i s then returnS (None, False)
    else bindS (profile_send rng i None) (\<lambda>(sent, locked, pkt, next).
      bindS (if sent then
          (case pkt of
             None \<Rightarrow> failS (Undefined ''TrafficProfileManager::send'')
           | Some pk \<Rightarrow>
               bindS getTime (\<lambda>t.
               thenS (modifyS (\<lambda>s. s\<lparr>tp_stats := stats_send t (pk_size pk) 0 (tp_stats s)\<rparr>))
               (thenS (updateCheckers rng i pk 0) (returnS (Some pk)))))
         else returnS None) (\<lambda>out. bindS getTime (\<lambda>t.
      thenS (whenS (t < next) (push_next next)) (returnS (out, locked))))))"

section \<open>Receiving\<close>

definition tpm_receive :: "rng \<Rightarrow> u64 \<Rightarrow> packet \<Rightarrow> (tpm, bool) comp" where
  "tpm_receive rng packetTime pk = bindS getS (\<lambda>s.
    if \<not> tp_initialized s then failS (ErrorExit ''TrafficProfileManager::receive'')
    else if packetTime < tp_time s then failS (ErrorExit ''TrafficProfileManager::receive'')
    else thenS (modifyS (\<lambda>s. s\<lparr>tp_time := packetTime\<rparr>))
     (case getDestinationProfile pk s of
        None \<Rightarrow> returnS False
      | Some (pid, rt) \<Rightarrow>
          if \<not> isValid pid then returnS False
          else
            (let dl = fl_sub (fl_of_u64 packetTime) (fl_of_u64 (the_default (tp_time s) rt))
             in if dl < 0 \<or> isChecker pid s then failS (ErrorExit ''TrafficProfileManager::receive'')
                else
                  bindS (profile_receive rng pid pk dl) (\<lambda>(ok, next).
                  thenS (if ok then
                      thenS (modifyS (\<lambda>s. s\<lparr>tp_stats := stats_receive packetTime (pk_size pk) dl (tp_stats s)\<rparr>))
                        (updateCheckers rng pid pk dl)
                    else bindS getS (\<lambda>s.
                      whenS (tp_kronosEnabled s \<and> isInternalMaster (pk_master_id pk) s)
                        (thenS ensureKronos
                        (thenS (modifyS (\<lambda>s. s\<lparr>tp_buffer := AList.update (pk_uid pk) pk (tp_buffer s)\<rparr>))
                        (schedule (mk_event PACKET_REQUEST_RETRY TRIGGERED (pk_uid pk) next))))))
                  (bindS getTime (\<lambda>t.
                   thenS (whenS (t \<le> next) (push_next next)) (returnS ok)))))))"

section \<open>Internal routing\<close>

text \<open>
  The reference to the packet is null after a successful route; when the packet came from the
  buffer its entry has been erased by then, and the code writes the null through a reference
  into the erased entry, which nothing reads afterwards.
\<close>

definition route :: "rng \<Rightarrow> packet option \<Rightarrow> u64 option \<Rightarrow> u64 option \<Rightarrow> (tpm, bool \<times> packet option) comp" where
  "route rng pkt src dst = bindS getS (\<lambda>s.
    if \<not> tp_kronosEnabled s then failS (ErrorExit ''TrafficProfileManager::route'')
    else thenS ensureKronos
      (bindS (case pkt of
          Some pk \<Rightarrow> returnS (Some pk)
        | None \<Rightarrow> (case src of
            None \<Rightarrow> failS (ErrorExit ''TrafficProfileManager::route'')
          | Some i \<Rightarrow> bindS (send_profile rng i) (\<lambda>(out, _). returnS out))) (\<lambda>out.
       case out of
         None \<Rightarrow> returnS (False, None)
       | Some pk \<Rightarrow>
           thenS (case dst of None \<Rightarrow> returnS ()
             | Some d \<Rightarrow> wait d (pk_time pk) (pk_uid pk) (packetType (pk_cmd pk)))
           (bindS getTime (\<lambda>t. bindS (tpm_receive rng t pk) (\<lambda>received.
            if received then
              thenS (modifyS (\<lambda>s. s\<lparr>tp_buffer := AList.delete (pk_uid pk) (tp_buffer s)\<rparr>))
              (returnS (True, None))
            else returnS (False, Some pk)))))))"

text \<open>A request that a slave refused is tried again.\<close>

definition handle :: "rng \<Rightarrow> event \<Rightarrow> (tpm, bool) comp" where
  "handle rng e =
    (if category (ev_type e) = PACKET then
       (if ev_type e = PACKET_REQUEST_RETRY then
          catch_oor ''TrafficProfileManager::handle'' (bindS getS (\<lambda>s.
            case (map_of (tp_waitedRequest s) (ev_id e), map_of (tp_buffer s) (ev_id e)) of
              (Some (dst, t), Some pk) \<Rightarrow>
                bindS (route rng (Some pk) None (Some dst)) (\<lambda>_. returnS True)
            | _ \<Rightarrow> failS (ErrorExit ''TrafficProfileManager::handle'')))
        else failS (ErrorExit ''TrafficProfileManager::handle''))
     else returnS False)"

section \<open>Sending from all profiles\<close>

definition getMasterName :: "profile \<Rightarrow> string" where
  "getMasterName p = (case pr_body p of Slave _ \<Rightarrow> pr_name p | _ \<Rightarrow> pr_masterName p)"

text \<open>A packet that was sent goes to a profile of the engine or out to the caller.\<close>

definition dispatch :: "rng \<Rightarrow> u64 \<Rightarrow> packet \<Rightarrow> (tpm, (string \<times> packet) list) comp" where
  "dispatch rng i pk = bindS getS (\<lambda>s.
    case getDestinationProfile pk s of
      Some (d, _) \<Rightarrow>
        if \<not> isValid d then returnS []
        else bindS (route rng (Some pk) (Some i) (Some d)) (\<lambda>_. returnS [])
    | None \<Rightarrow> bindS (prof i) (\<lambda>p. returnS [(getMasterName p, pk)]))"

fun burst :: "rng \<Rightarrow> nat \<Rightarrow> u64 \<Rightarrow> (tpm, (string \<times> packet) list \<times> bool) comp" where
  "burst rng 0 i = failS OutOfFuel"
| "burst rng (Suc n) i =
    bindS (send_profile rng i) (\<lambda>(out, locked).
    case out of
      None \<Rightarrow> returnS ([], locked)
    | Some pk \<Rightarrow>
        bindS (dispatch rng i pk) (\<lambda>xs. bindS (burst rng n i) (\<lambda>(ys, l). returnS (xs @ ys, l))))"

text \<open>From position \<open>k\<close> of the active list on: packets, lock, underruns and overruns.\<close>

fun active_loop :: "rng \<Rightarrow> nat \<Rightarrow> nat \<Rightarrow> nat \<Rightarrow> (tpm, (string \<times> packet) list \<times> bool \<times> u64 \<times> u64) comp" where
  "active_loop rng b 0 k = failS OutOfFuel"
| "active_loop rng b (Suc n) k = bindS getS (\<lambda>s.
    if length (tp_activeList s) \<le> k then returnS ([], False, 0, 0)
    else
      let i = tp_activeList s ! k
      in bindS (prof i) (\<lambda>p0. bindS (burst rng b (pr_id p0)) (\<lambda>(xs, locked).
         bindS (prof i) (\<lambda>p. bindS (active_loop rng b n (Suc k)) (\<lambda>(ys, l, u, ov).
         returnS (xs @ ys, locked \<or> l, st_underruns (pr_stats p) + u, st_overruns (pr_stats p) + ov))))))"

definition tpm_send :: "rng \<Rightarrow> nat \<Rightarrow> u64 \<Rightarrow> (tpm, (string \<times> packet) list \<times> bool \<times> u64) comp" where
  "tpm_send rng n packetTime =
    thenS (modifyS (\<lambda>s. s\<lparr>tp_nextTimes := []\<rparr>)) (bindS getS (\<lambda>s.
    if \<not> tp_initialized s \<or> 0 < tp_forwardDeclared s \<or> packetTime < tp_time s
    then failS (ErrorExit ''TrafficProfileManager::send'')
    else thenS (whenS (\<not> tp_streamCacheValid s)
        (thenS streamCacheUpdate (modifyS (\<lambda>s. s\<lparr>tp_streamCacheValid := True\<rparr>))))
      (thenS (modifyS (\<lambda>s. s\<lparr>tp_time := packetTime\<rparr>))
      (thenS (bindS getS (\<lambda>s. whenS (k_initialized (tp_kronos s))
          (bindS (liftS (kronos_get packetTime (tp_kronos s))) (\<lambda>(es, k).
           thenS (modifyS (\<lambda>s. s\<lparr>tp_kronos := k\<rparr>))
           (eachS (\<lambda>e. bindS (handle rng e) (\<lambda>_. returnS ())) es)))))
      (bindS (active_loop rng n n 0) (\<lambda>(xs, locked, u, ov).
       thenS (modifyS (\<lambda>s. s\<lparr>tp_stats := (tp_stats s)\<lparr>st_underruns := u, st_overruns := ov\<rparr>\<rparr>))
       (bindS getS (\<lambda>s. returnS (xs, locked, top (tp_nextTimes s))))))))))"

section \<open>The main loop\<close>

definition tick :: "rng \<Rightarrow> nat \<Rightarrow> (tpm, unit) comp" where
  "tick rng n = bindS getS (\<lambda>s.
    if \<not> tp_kronosEnabled s then failS (ErrorExit ''TrafficProfileManager::tick'')
    else bindS (tpm_send rng n (tp_time s)) (\<lambda>(xs, locked, next).
      thenS (whenS (xs \<noteq> []) (failS (ErrorExit ''TrafficProfileManager::tick'')))
      (bindS getS (\<lambda>s. whenS (tp_nextTimes s \<noteq> [])
        (schedule (mk_event TICK TRIGGERED 0 (top (tp_nextTimes s))))))))"

fun tick_loop :: "rng \<Rightarrow> nat \<Rightarrow> nat \<Rightarrow> u64 \<Rightarrow> (tpm, unit) comp" where
  "tick_loop rng b 0 nextTick = failS OutOfFuel"
| "tick_loop rng b (Suc n) nextTick =
    thenS (setTime nextTick) (thenS (tick rng b) (bindS getS (\<lambda>s.
    bindS (liftS (kronos_next (tp_kronos s))) (\<lambda>t.
    whenS (0 < getCounter (tp_kronos s)) (tick_loop rng b n t)))))"

definition tpm_loop :: "rng \<Rightarrow> nat \<Rightarrow> nat \<Rightarrow> (tpm, unit) comp" where
  "tpm_loop rng b n = bindS getS (\<lambda>s.
    whenS (tp_kronosEnabled s) (thenS ensureKronos (tick_loop rng b n 0)))"

end
