(* ===== verification/Demo.thy ===== *)
theory Demo
  imports Config Routing
begin

text \<open>
  A small system that the witnesses run: a master \<open>cpu\<close> that reads two packets of 64 bytes from
  address 4096, with at most one outstanding transaction, a slave \<open>mem\<close> that serves the addresses
  4096 to 8191 after 80 ticks, and a delay of 10 ticks that starts when the master has terminated.
  These are the profiles as their constructors leave them, without rates.
\<close>

definition demo_profile :: "u64 \<Rightarrow> string \<Rightarrow> role \<Rightarrow> body \<Rightarrow> profile" where
  "demo_profile i n r b =
     \<lparr>pr_em = em_new i, pr_config = \<lparr>pf_type = Some P_READ, pf_master_id = Some n, pf_fifo = None,
        pf_slave = None, pf_delay = None, pf_wait_for = [], pf_pattern = None, pf_name = Some n,
        pf_check = [], pf_iommu_id = None, pf_flow_id = None\<rparr>,
      pr_role = r, pr_type = P_READ, pr_tagger = None, pr_id = i, pr_name = n, pr_masterName = n,
      pr_masterId = i, pr_streamId = invalid_id, pr_masterIommuId = invalid_id32, pr_ot = 0,
      pr_stats = stats_new, pr_started = False, pr_startTime = 0, pr_terminated = False,
      pr_checkers = [], pr_fifo = fifo_new, pr_body = b\<rparr>"

definition demo_master :: master where
  "demo_master = \<lparr>ms_toSend = 2, ms_toStop = 0, ms_maxOt = 1, ms_sent = 0, ms_pending = PNull,
     ms_checkersFifoStarted = False, ms_halted = False,
     ms_packetDesc = packet_desc_new\<lparr>pd_initialized := True, pd_cmd := READ_REQ, pd_waitFor := READ_RESP,
       pd_base := 4096, pd_increment := 64, pd_range := 128, pd_size := 64, pd_nextAddress := 4096\<rparr>\<rparr>"

definition demo_slave :: slave where
  "demo_slave = \<lparr>sv_bandwidth = (64, 1), sv_maxOt = 4, sv_width = 64, sv_latency = LatencyStatic 80,
     sv_responses = []\<rparr>"

definition demo_delay :: delay where
  "demo_delay = \<lparr>dl_delay = 10, dl_startTime = 0, dl_time = 0\<rparr>"

definition demo_cpu :: profile where
  "demo_cpu = (demo_profile 0 ''cpu'' ROLE_MASTER (Master demo_master))\<lparr>pr_started := True\<rparr>"

definition demo_pause :: profile where
  "demo_pause = (demo_profile 2 ''pause'' ROLE_NONE (Delay demo_delay))
     \<lparr>pr_em := em_wait TERMINATION 0 True (em_new 2)\<rparr>"

definition demo :: tpm where
  "demo = (tpm_new 0)\<lparr>tp_initialized := True, tp_kronosEnabled := True,
     tp_profiles := [Some demo_cpu,
       Some ((demo_profile 1 ''mem'' ROLE_SLAVE (Slave demo_slave))\<lparr>pr_started := True\<rparr>),
       Some demo_pause], tp_waitEventMap := [(0, [((TERMINATION, 0), [2])])],
     tp_masterMap := [(''cpu'', 0)], tp_masters := [''cpu''],
     tp_nonTerminated := [(0, 1)], tp_activeList := [0, 1],
     tp_slaves := [1], tp_slaveAddressRanges := [(4096, 8191, 1)]\<rparr>"

end
