(* ===== verification/Declaration_Laws.thy ===== *)
theory Declaration_Laws
  imports Demo Tpm_Cascade Tpm_Registry_Laws
begin

text \<open>
  Profiles may be named before they are defined. A name in a \<^verbatim>\<open>wait_for\<close> or a \<^verbatim>\<open>check\<close> gets an id and
  an empty slot, and \<^verbatim>\<open>forwardDeclaredProfiles\<close> counts the slots that are empty, except for the profile that
  is under construction while its constructor names others. This theory follows the counter through the
  constructors: the relation \<open>declares\<close> says what they may do to the names and the slots.
\<close>

section \<open>Names\<close>

definition undefined_profiles :: "tpm \<Rightarrow> nat" where
  "undefined_profiles s = length (filter (\<lambda>q. q = None) (tp_profiles s))"

definition names_ok :: "nat \<Rightarrow> tpm \<Rightarrow> bool" where
  "names_ok k s \<longleftrightarrow> length (tp_profiles s) + k < 18446744073709551616
     \<and> (\<forall>n i. map_of (tp_profileMap s) n = Some i \<longrightarrow> unat i < length (tp_profiles s))
     \<and> (\<forall>n m i. map_of (tp_profileMap s) n = Some i \<longrightarrow> map_of (tp_profileMap s) m = Some i \<longrightarrow> n = m)"

interpretation pids: id_table getOrGeneratePid "\<lambda>s. map_of (tp_profileMap s)" names_ok
proof unfold_locales
  fix k s n
  assume inv: "names_ok (Suc k) s" and n: "map_of (tp_profileMap s) n = None"
  let ?i = "of_nat (length (tp_profiles s)) :: u64"
  let ?t = "s\<lparr>tp_profileMap := AList.update n ?i (tp_profileMap s), tp_profiles := tp_profiles s @ [None],
      tp_forwardDeclared := tp_forwardDeclared s + 1\<rparr>"
  have i: "unat ?i = length (tp_profiles s)"
    using inv by (intro unat_of_nat_u64) (simp add: names_ok_def)
  have "map_of (tp_profileMap s) m \<noteq> Some ?i" for m
    using inv i by (fastforce simp: names_ok_def)
  then have "names_ok k ?t"
    using inv i by (auto simp: names_ok_def less_SucI)
  with n show "\<exists>i t. getOrGeneratePid n s = Inr (i, t) \<and> names_ok k t
      \<and> map_of (tp_profileMap t) = (map_of (tp_profileMap s))(n \<mapsto> i)"
    by (intro exI [of _ ?i] exI [of _ ?t]) (simp add: getOrGeneratePid_def Let_def)
qed (auto simp: getOrGeneratePid_def names_ok_def)

section \<open>What the constructors do to names and slots\<close>

text \<open>The empty slots that the counter of the code leaves out.\<close>

definition uncounted :: "tpm \<Rightarrow> u64" where
  "uncounted s = of_nat (undefined_profiles s) - tp_forwardDeclared s"

definition declares :: "tpm \<Rightarrow> tpm \<Rightarrow> bool" where
  "declares s t \<longleftrightarrow> length (tp_profiles s) \<le> length (tp_profiles t)
     \<and> (\<forall>j < length (tp_profiles s). tp_profiles t ! j = None \<longleftrightarrow> tp_profiles s ! j = None)
     \<and> uncounted t = uncounted s
     \<and> (length (tp_profiles t) < 18446744073709551616 \<longrightarrow> names_ok 0 s \<longrightarrow>
          names_ok 0 t \<and> map_of (tp_profileMap s) \<subseteq>\<^sub>m map_of (tp_profileMap t))"

interpretation declares: step_relation declares
proof unfold_locales
  fix s t u
  assume "declares s t" "declares t u"
  then show "declares s u" by (auto simp: declares_def intro: map_le_trans)
qed (simp add: declares_def)

definition same_slots :: "tpm \<Rightarrow> tpm \<Rightarrow> bool" where
  "same_slots s t \<longleftrightarrow> map (\<lambda>q. q = None) (tp_profiles t) = map (\<lambda>q. q = None) (tp_profiles s)
     \<and> tp_profileMap t = tp_profileMap s \<and> tp_forwardDeclared t = tp_forwardDeclared s"

lemma same_slots_declares: "same_slots s t \<Longrightarrow> declares s t"
proof -
  assume s: "same_slots s t"
  then have l: "length (tp_profiles t) = length (tp_profiles s)"
    by (auto simp: same_slots_def dest: arg_cong [where f = length])
  have "tp_profiles t ! j = None \<longleftrightarrow> tp_profiles s ! j = None" if "j < length (tp_profiles s)" for j
    using s that l by (auto simp: same_slots_def dest: arg_cong [where f = "\<lambda>xs. xs ! j"])
  moreover have n: "undefined_profiles u = length (filter (\<lambda>b. b) (map (\<lambda>q. q = None) (tp_profiles u)))" for u
    by (simp add: undefined_profiles_def filter_map comp_def)
  have "uncounted t = uncounted s" using s by (simp only: uncounted_def n same_slots_def)
  ultimately show ?thesis using s l by (simp add: declares_def names_ok_def same_slots_def)
qed

lemma keeps_same: "(\<And>s x t. m s = Inr (x, t) \<Longrightarrow> same_slots s t) \<Longrightarrow> keeps declares m"
  by (rule keepsI) (rule same_slots_declares)

lemma declares_modify: "(\<And>s. same_slots s (h s)) \<Longrightarrow> keeps declares (modifyS h)"
  by (rule declares.keeps_modify) (rule same_slots_declares)

lemmas declares_rules = declares.keeps_return declares.keeps_fail declares.keeps_get declares.keeps_read declares.keeps_lift
  declares.keeps_bind declares.keeps_then declares.keeps_when declares.keeps_if declares.keeps_option declares.keeps_prod
  declares.keeps_each

lemma declares_getOrGeneratePid: "keeps declares (getOrGeneratePid n)"
proof (rule keepsI)
  fix s i t
  assume r: "getOrGeneratePid n s = Inr (i, t)"
  show "declares s t"
  proof (cases "map_of (tp_profileMap s) n")
    case None
    with r have t: "tp_profiles t = tp_profiles s @ [None]" "tp_forwardDeclared t = tp_forwardDeclared s + 1"
      by (auto simp: getOrGeneratePid_def Let_def)
    have "names_ok 0 t \<and> map_of (tp_profileMap s) \<subseteq>\<^sub>m map_of (tp_profileMap t)"
      if "length (tp_profiles t) < 18446744073709551616" "names_ok 0 s"
    proof -
      have "names_ok (Suc 0) s" using that t(1) by (simp add: names_ok_def)
      from pids.get_one [OF this, of n] r show ?thesis by auto
    qed
    then show ?thesis by (simp add: declares_def t uncounted_def undefined_profiles_def nth_append)
  next
    case (Some i)
    with r show ?thesis by (simp add: getOrGeneratePid_def declares.R_refl)
  qed
qed

lemma declares_tables:
  "keeps declares (getOrGenerateMid n)" "keeps declares (masterName i)" "keeps declares (masterId n)"
  "keeps declares (profileId n)" "keeps declares (getTimeScaleFactors i)" "keeps declares (prof i)"
  by (rule keeps_same; auto simp: same_slots_def getOrGenerateMid_def masterName_def masterId_def profileId_def
      getTimeScaleFactors_def prof_def Let_def split: option.splits if_splits)+

lemma quiet_same: "view s = view t \<Longrightarrow> same_slots s t"
proof -
  assume v: "view s = view t"
  have "map (\<lambda>q. q = None) (tp_profiles (view u)) = map (\<lambda>q. q = None) (tp_profiles u)"
    "tp_profileMap (view u) = tp_profileMap u" "tp_forwardDeclared (view u) = tp_forwardDeclared u" for u
    by (simp_all add: view_def)
  from this [of s] this [of t] show ?thesis unfolding same_slots_def v by simp
qed

lemma declares_tpm_event: "keeps declares (tpm_event e)"
  by (rule keeps_same) (rule quiet_same, rule keepsD [OF quiet_tpm_event])

lemma declares_setp: "keeps declares (setp i f)"
  unfolding setp_def
proof (rule declares_modify)
  fix s :: tpm
  show "same_slots s (s\<lparr>tp_profiles := (tp_profiles s)[unat i := map_option f (tp_profiles s ! unat i)]\<rparr>)"
    by (cases "unat i < length (tp_profiles s)")
       (auto simp: same_slots_def list_eq_iff_nth_eq nth_list_update)
qed

lemma declares_subscribe_keys: "keeps declares (subscribe_keys i ks)"
  unfolding subscribe_keys_def getTime_def subscribe_def Let_def
  by (intro declares_rules declares_modify) (simp_all add: same_slots_def)

lemmas declares_calls = declares_getOrGeneratePid declares_tables declares_tpm_event declares_setp declares_subscribe_keys

section \<open>The constructors\<close>

lemma declares_wait_new: "keeps declares (wait_new t k p)"
  unfolding wait_new_def by (intro declares_rules declares_calls)

lemma declares_wait_for_all: "keeps declares (wait_for_all k ws p)"
proof (induction ws arbitrary: p)
  case (Cons w ws)
  show ?case unfolding wait_for_all.simps Let_def
    by (intro declares_rules declares_calls declares_wait_new Cons)
qed (simp only: wait_for_all.simps declares_rules)

lemma declares_parse: "keeps declares (parseRate i str)" "keeps declares (parseTime str)"
  unfolding parseRate_def parseTime_def Let_def by (intro declares_rules declares_calls)+

lemma declares_base_new: "keeps declares (base_new i pf k)"
  unfolding base_new_def by (intro declares_rules declares_wait_for_all)

lemma declares_fifo_new_conf: "keeps declares (fifo_new_conf pf p)"
  unfolding fifo_new_conf_def by (intro declares_rules declares_parse declares_calls)

lemma declares_emit_new: "keeps declares (emit_new t p)"
  unfolding emit_new_def emit_opt_def getTime_def by (intro declares_rules declares_calls)

lemma declares_activate_new: "keeps declares (activate_new p)"
  unfolding activate_new_def getTime_def by (intro declares_rules declares_emit_new)

lemma declares_master_new: "keeps declares (master_new rng i pf k)"
  unfolding master_new_def master_limits_def Let_def
  by (intro declares_rules declares_base_new declares_parse declares_fifo_new_conf declares_activate_new)

lemma declares_registers: "keeps declares (registerMasterToSlave m i)" "keeps declares (registerSlaveAddressRange l h i)"
  unfolding registerMasterToSlave_def registerSlaveAddressRange_def
  by (intro declares_rules declares_calls declares_modify; simp add: same_slots_def)+

lemma declares_slave_new: "keeps declares (slave_new i pf sl k)"
  unfolding slave_new_def Let_def
  by (intro declares_rules declares_base_new declares_parse declares_calls declares_registers declares_activate_new)

lemma declares_watch_all: "keeps declares (watch_all k cs p)"
proof (induction cs arbitrary: p)
  case (Cons c cs)
  show ?case unfolding watch_all.simps by (intro declares_rules declares_calls declares_wait_new Cons)
qed (simp only: watch_all.simps declares_rules)

lemma declares_checker_new: "keeps declares (checker_new i pf k)"
  unfolding checker_new_def by (intro declares_rules declares_base_new declares_fifo_new_conf declares_watch_all)

lemma declares_delay_new: "keeps declares (delay_new i pf tm k)"
  unfolding delay_new_def Let_def by (intro declares_rules declares_base_new declares_parse declares_emit_new)

lemma declares_register_checks: "keeps declares (register_checks k i cs)"
proof (induction cs)
  case (Cons c cs)
  show ?case unfolding register_checks.simps
    by (intro declares_rules declares_calls declares_modify Cons) (simp add: same_slots_def)
qed (simp only: register_checks.simps declares_rules)

lemma declares_add_to_master: "keeps declares (add_to_master i pf mid p)"
  unfolding add_to_master_def by (intro declares_rules declares_calls declares_modify) (simp add: same_slots_def)

section \<open>Profiles are defined\<close>

text \<open>
  The slot of a profile is empty and not counted from the time its id is claimed until the profile is stored.
\<close>

definition counted :: "tpm \<Rightarrow> bool" where
  "counted s \<longleftrightarrow> tp_forwardDeclared s = of_nat (undefined_profiles s)"

definition declared :: "tpm \<Rightarrow> bool" where
  "declared s \<longleftrightarrow> names_ok 0 s \<and> counted s"

definition grown :: "tpm \<Rightarrow> tpm \<Rightarrow> bool" where
  "grown s t \<longleftrightarrow> length (tp_profiles s) \<le> length (tp_profiles t)
     \<and> (length (tp_profiles t) < 18446744073709551616 \<longrightarrow> declared s \<longrightarrow>
          declared t \<and> map_of (tp_profileMap s) \<subseteq>\<^sub>m map_of (tp_profileMap t))"

interpretation grown: step_relation grown
proof unfold_locales
  fix s t u
  assume "grown s t" "grown t u"
  then show "grown s u" by (auto simp: grown_def intro: map_le_trans)
qed (simp add: grown_def)

lemmas grown_rules = grown.keeps_return grown.keeps_fail grown.keeps_get grown.keeps_read grown.keeps_lift
  grown.keeps_bind grown.keeps_then grown.keeps_when grown.keeps_if grown.keeps_option grown.keeps_prod
  grown.keeps_each

lemma declares_grown: "declares s t \<Longrightarrow> grown s t"
  by (auto simp: declares_def grown_def declared_def counted_def uncounted_def)

lemma grown_declares: "keeps declares m \<Longrightarrow> keeps grown m"
  by (rule keeps_mono [OF declares_grown])

lemma undefined_put:
  assumes "j < length ps" and "ps ! j = None"
  shows "Suc (length (filter (\<lambda>q. q = None) (ps[j := Some p]))) = length (filter (\<lambda>q. q = None) ps)"
  using assms by (induction ps arbitrary: j) (auto simp: nth_Cons split: nat.splits)

lemma undefined_drop:
  assumes "j < length ps" and "ps ! j = Some p"
  shows "length (filter (\<lambda>q. q = None) (ps[j := None])) = Suc (length (filter (\<lambda>q. q = None) ps))"
  using assms by (induction ps arbitrary: j) (auto simp: nth_Cons split: nat.splits)

text \<open>After the id of a name is claimed its slot is empty and not counted.\<close>

definition claimed :: "u64 \<Rightarrow> tpm \<Rightarrow> tpm \<Rightarrow> bool" where
  "claimed i s t \<longleftrightarrow> length (tp_profiles s) \<le> length (tp_profiles t)
     \<and> (length (tp_profiles t) < 18446744073709551616 \<longrightarrow> declared s \<longrightarrow>
          names_ok 0 t \<and> map_of (tp_profileMap s) \<subseteq>\<^sub>m map_of (tp_profileMap t) \<and> uncounted t = 1
          \<and> unat i < length (tp_profiles t) \<and> tp_profiles t ! unat i = None)"

lemma claim_id_claims:
  assumes r: "claim_id n ov s = Inr (i, t)"
  shows "claimed i s t"
proof (cases "map_of (tp_profileMap s) n")
  case None
  let ?i = "of_nat (length (tp_profiles s)) :: u64"
  from None r have i: "i = ?i" and t: "t = s\<lparr>tp_profiles := tp_profiles s @ [None], tp_profileMap := AList.update n ?i (tp_profileMap s)\<rparr>"
    by (auto simp: claim_id_def bindS_def thenS_def Let_def)
  have "names_ok 0 t \<and> map_of (tp_profileMap s) \<subseteq>\<^sub>m map_of (tp_profileMap t) \<and> unat i = length (tp_profiles s)"
    if b: "length (tp_profiles t) < 18446744073709551616" "names_ok 0 s"
  proof -
    have ok: "names_ok (Suc 0) s" using b by (simp add: names_ok_def t)
    obtain j u where u: "getOrGeneratePid n s = Inr (j, u)" "names_ok 0 u" "map_of (tp_profileMap u) = (map_of (tp_profileMap s))(n \<mapsto> j)"
      using pids.get_fresh [OF ok None] by blast
    then have "tp_profiles u = tp_profiles t" "tp_profileMap u = tp_profileMap t" using None
      by (auto simp: getOrGeneratePid_def Let_def t)
    with u(2) have "names_ok 0 t" by (simp add: names_ok_def)
    moreover have "map_of (tp_profileMap s) \<subseteq>\<^sub>m map_of (tp_profileMap t)" using None by (auto simp: t map_le_def)
    moreover have "unat i = length (tp_profiles s)" using b(1) by (simp only: i) (intro unat_of_nat_u64, simp add: t)
    ultimately show ?thesis by simp
  qed
  then show ?thesis
    by (auto simp: claimed_def declared_def counted_def uncounted_def undefined_profiles_def t nth_append)
next
  case (Some j)
  show ?thesis
  proof (cases "tp_profiles s ! unat j")
    case None
    with r Some have "i = j" "unat i < length (tp_profiles s)" "t = s\<lparr>tp_forwardDeclared := tp_forwardDeclared s - 1\<rparr>"
      by (auto simp: claim_id_def bindS_def thenS_def not_le split: if_splits)
    with None show ?thesis
      by (simp add: claimed_def declared_def counted_def uncounted_def undefined_profiles_def names_ok_def)
  next
    case (Some p)
    with r \<open>map_of (tp_profileMap s) n = Some j\<close> have t: "i = j" "unat i < length (tp_profiles s)"
      "t = s\<lparr>tp_profiles := (tp_profiles s)[unat i := None]\<rparr>"
      by (auto simp: claim_id_def bindS_def thenS_def not_le split: if_splits)
    have "undefined_profiles t = Suc (undefined_profiles s)"
      using undefined_drop [of "unat i" "tp_profiles s" p] t Some by (simp add: undefined_profiles_def)
    with t show ?thesis
      by (simp add: claimed_def declared_def counted_def uncounted_def names_ok_def)
  qed
qed

text \<open>Between the two the constructor names others; the profile is stored at the end.\<close>

definition stored :: "u64 \<Rightarrow> tpm \<Rightarrow> tpm \<Rightarrow> bool" where
  "stored i s t \<longleftrightarrow> (\<exists>u q. declares s u \<and> t = u\<lparr>tp_profiles := (tp_profiles u)[unat i := Some q]\<rparr>)"

lemma createProfile_stores:
  assumes "createProfile rng i pf k mid s = Inr (x, t)"
  shows "stored i s t"
proof -
  define build where "build = (if pf_pattern pf \<noteq> None then master_new rng i pf k
     else case pf_slave pf of
       Some sl \<Rightarrow> bindS (slave_new i pf sl k) (\<lambda>p.
         thenS (modifyS (\<lambda>s. s\<lparr>tp_kronosEnabled := True\<rparr>)) (returnS p))
     | None \<Rightarrow> (case pf_delay pf of
         Some tm \<Rightarrow> delay_new i pf tm k
       | None \<Rightarrow>
           if pf_check pf = [] then failS (ErrorExit ''TrafficProfileManager::createProfile'')
           else bindS (checker_new i pf k) (\<lambda>p.
             thenS (modifyS (\<lambda>s. s\<lparr>tp_checkers := insort_insert i (tp_checkers s)\<rparr>))
             (thenS (register_checks k i (pf_check pf)) (returnS p)))))"
  define enlist where "enlist p = (case pr_body p of
        Slave _ \<Rightarrow> thenS (modifyS (\<lambda>s. s\<lparr>tp_slaves := insort_insert i (tp_slaves s)\<rparr>)) (returnS p)
      | _ \<Rightarrow> add_to_master i pf mid p)" for p
  have b: "keeps declares build" unfolding build_def
    by (intro declares_rules declares_master_new declares_slave_new declares_delay_new declares_checker_new
        declares_register_checks declares_modify) (simp_all add: same_slots_def)
  have body: "keeps declares (case b of Slave v \<Rightarrow> m | _ \<Rightarrow> n)" if "keeps declares m" "keeps declares n"
    for b and m n :: "(tpm, profile) comp"
    using that by (cases b) simp_all
  have e: "keeps declares (enlist p)" for p unfolding enlist_def
    by (intro body declares_rules declares_add_to_master declares_modify) (simp add: same_slots_def)
  have "createProfile rng i pf k mid = bindS getS (\<lambda>s.
    thenS (whenS (unknown_master mid s \<or> length (tp_profiles s) \<le> unat i)
      (failS (ErrorExit ''TrafficProfileManager::createProfile'')))
    (bindS build (\<lambda>p. bindS (enlist p) (\<lambda>q. modifyS (\<lambda>s. s\<lparr>tp_profiles := (tp_profiles s)[unat i := Some q]\<rparr>)))))"
    by (simp only: createProfile_def build_def enlist_def)
  with assms obtain p q u v where "build s = Inr (p, v)" "enlist p v = Inr (q, u)"
    "t = u\<lparr>tp_profiles := (tp_profiles u)[unat i := Some q]\<rparr>"
    by (auto simp: bindS_eq_Inr thenS_eq_Inr whenS_def split: if_splits)
  with keepsD [OF b] keepsD [OF e] declares.R_trans show ?thesis unfolding stored_def by blast
qed

lemma claimed_stored:
  assumes "claimed i s u" and "stored i u t"
  shows "grown s t"
proof -
  obtain v q where v: "declares u v" "t = v\<lparr>tp_profiles := (tp_profiles v)[unat i := Some q]\<rparr>"
    using assms(2) by (auto simp: stored_def)
  have len: "length (tp_profiles s) \<le> length (tp_profiles u)" "length (tp_profiles u) \<le> length (tp_profiles v)"
    using assms(1) v(1) by (simp_all add: claimed_def declares_def)
  have "declared t \<and> map_of (tp_profileMap s) \<subseteq>\<^sub>m map_of (tp_profileMap t)"
    if b: "length (tp_profiles t) < 18446744073709551616" "declared s"
  proof -
    have u: "names_ok 0 u" "map_of (tp_profileMap s) \<subseteq>\<^sub>m map_of (tp_profileMap u)" "uncounted u = 1"
      "unat i < length (tp_profiles u)" "tp_profiles u ! unat i = None"
      using assms(1) b len v(2) by (simp_all add: claimed_def)
    then have w: "names_ok 0 v" "map_of (tp_profileMap s) \<subseteq>\<^sub>m map_of (tp_profileMap v)" "uncounted v = 1"
      "unat i < length (tp_profiles v)" "tp_profiles v ! unat i = None"
      using v b len by (auto simp: declares_def intro: map_le_trans)
    have "Suc (undefined_profiles t) = undefined_profiles v"
      using undefined_put [OF w(4,5)] by (simp add: undefined_profiles_def v(2))
    then have "of_nat (undefined_profiles v) = (1 + of_nat (undefined_profiles t) :: u64)" by (metis of_nat_Suc)
    then have "counted t" using w(3) by (simp add: counted_def uncounted_def v(2) algebra_simps)
    then show ?thesis using w(1,2) by (simp add: declared_def names_ok_def v(2))
  qed
  then show ?thesis using len by (simp add: grown_def v(2))
qed

lemma grown_configureProfile: "keeps grown (configureProfile rng pf ts ov k mid)"
proof (rule keepsI)
  fix s x t
  assume "configureProfile rng pf ts ov k mid s = Inr (x, t)"
  then obtain i u v w where u: "claim_id (clone_name (the_default [] (pf_name pf)) k) ov s = Inr (i, u)"
    and v: "createProfile rng i pf k mid (u\<lparr>tp_timeScaleFactor := AList.update i ts (tp_timeScaleFactor u)\<rparr>) = Inr (v, w)"
    and t: "t = w\<lparr>tp_initialized := True\<rparr>"
    unfolding configureProfile_def by (auto simp: bindS_eq_Inr thenS_eq_Inr whenS_def split: if_splits)
  from claim_id_claims [OF u] have "claimed i s (u\<lparr>tp_timeScaleFactor := AList.update i ts (tp_timeScaleFactor u)\<rparr>)"
    by (simp add: claimed_def names_ok_def uncounted_def undefined_profiles_def)
  from claimed_stored [OF this createProfile_stores [OF v]] show "grown s t"
    by (simp add: t grown_def declared_def names_ok_def counted_def undefined_profiles_def)
qed

section \<open>Loading\<close>

lemma grown_modify: "(\<And>s. same_slots s (h s)) \<Longrightarrow> keeps grown (modifyS h)"
  by (rule grown_declares) (rule declares_modify)

lemma grown_load_profiles: "keeps grown (load_profiles rng ts j pfs)"
proof (induction pfs arbitrary: j)
  case (Cons pf pfs)
  show ?case unfolding load_profiles.simps name_profile_def
    by (intro grown_rules grown_modify grown_configureProfile Cons)
       (simp_all add: store_profile_def same_slots_def Let_def)
qed (simp only: load_profiles.simps grown_rules)

lemma declares_stream_loop: "keeps declares (stream_loop n rt queue visited)"
proof (induction n arbitrary: queue visited)
  case 0
  show ?case by (cases queue) (simp_all only: stream_loop.simps declares_rules)
next
  case (Suc n)
  show ?case
  proof (cases queue)
    case Nil
    then show ?thesis by (simp only: stream_loop.simps declares_rules)
  next
    case (Cons i rest)
    show ?thesis unfolding Cons stream_loop.simps Let_def addToStream_def
      by (intro declares_rules declares_calls declares_modify Suc) (simp_all add: same_slots_def)
  qed
qed

lemma declares_cacheUpdate: "keeps declares streamCacheUpdate"
  unfolding streamCacheUpdate_def update_root_def getStream_def
  by (intro declares_rules declares_calls declares_stream_loop declares_modify) (simp_all add: same_slots_def)

lemma declares_register_checkers: "keeps declares register_checkers"
  unfolding register_checkers_def by (intro declares_rules declares_calls)

lemma grown_configure: "keeps grown (configure rng c)"
  unfolding configure_def loadConfiguration_def loadTimeConfiguration_def loadTaggerConfiguration_def Let_def
  by (intro grown_rules grown_modify grown_load_profiles grown_declares [OF declares_register_checkers]
      grown_declares [OF declares_cacheUpdate])
     (simp_all add: same_slots_def split: option.splits)

text \<open>
  C23. Forward declarations are counted. A manager that has loaded any configurations, each of whose profiles
  may name others before they are defined, gives every name an id of its own, keeps the ids it gave out
  before, and its counter of forward declarations is the number of profiles that were named and are not
  defined. So the guard at the start of \<^verbatim>\<open>send\<close> is open exactly when each profile that was named is defined. It is an
  invariant: a new manager has it. The bound is that of the ids, of 64 bits.
\<close>

theorem forward_declarations_are_counted:
  assumes "declared s" and "eachS (configure rng) cs s = Inr ((), t)" and "length (tp_profiles t) < 2 ^ 64"
  shows "declared t \<and> map_of (tp_profileMap s) \<subseteq>\<^sub>m map_of (tp_profileMap t)
    \<and> tp_forwardDeclared t = of_nat (undefined_profiles t)
    \<and> (0 < tp_forwardDeclared t \<longleftrightarrow> None \<in> set (tp_profiles t))"
proof -
  have "keeps grown (eachS (configure rng) cs)" by (intro grown.keeps_each grown_configure)
  from keepsD [OF this assms(2)] have t: "declared t" "map_of (tp_profileMap s) \<subseteq>\<^sub>m map_of (tp_profileMap t)"
    using assms(1,3) by (auto simp: grown_def)
  then have fd: "tp_forwardDeclared t = of_nat (undefined_profiles t)" by (simp add: declared_def counted_def)
  have "undefined_profiles t \<le> length (tp_profiles t)" by (simp add: undefined_profiles_def)
  then have "unat (tp_forwardDeclared t) = undefined_profiles t"
    using assms(3) by (simp only: fd) (intro unat_of_nat_u64, simp)
  moreover have "undefined_profiles t = 0 \<longleftrightarrow> None \<notin> set (tp_profiles t)"
    unfolding undefined_profiles_def by (metis (mono_tags, lifting) filter_empty_conv length_0_conv)
  ultimately show ?thesis using t fd by (metis neq0_conv unat_gt_0 word_gt_0)
qed

lemma tpm_new_declared: "declared (tpm_new n)"
  by (simp add: declared_def names_ok_def counted_def undefined_profiles_def tpm_new_def)

text \<open>Two configurations of one pause each, which lasts no time; the first pause waits for the end of the second.\<close>

definition pause_configuration :: "string \<Rightarrow> string list \<Rightarrow> configuration" where
  "pause_configuration n waits = ns_configuration\<lparr>cf_profile := [(pr_config demo_pause)
     \<lparr>pf_master_id := Some n, pf_name := Some n, pf_delay := Some ''0s'', pf_wait_for := waits\<rparr>]\<rparr>"

lemma pauses_run:
  "case eachS (configure low_rng) [pause_configuration ''first'' [''second'']] (tpm_new 0) of
     Inl e \<Rightarrow> False | Inr (u, t) \<Rightarrow> length (tp_profiles t) = 2 \<and> list_ex Option.is_none (tp_profiles t)"
  "case eachS (configure low_rng) [pause_configuration ''first'' [''second''], pause_configuration ''second'' []] (tpm_new 0) of
     Inl e \<Rightarrow> False | Inr (u, t) \<Rightarrow> length (tp_profiles t) = 2 \<and> \<not> list_ex Option.is_none (tp_profiles t)"
  by code_simp+

theorem forward_declarations_are_counted_witness:
  "\<exists>s t. eachS (configure low_rng) [pause_configuration ''first'' [''second'']] (tpm_new 0) = Inr ((), s)
    \<and> 0 < tp_forwardDeclared s
    \<and> eachS (configure low_rng) [pause_configuration ''first'' [''second''], pause_configuration ''second'' []] (tpm_new 0) = Inr ((), t)
    \<and> \<not> 0 < tp_forwardDeclared t"
proof -
  obtain s where s: "eachS (configure low_rng) [pause_configuration ''first'' [''second'']] (tpm_new 0) = Inr ((), s)"
      "length (tp_profiles s) = 2" "None \<in> set (tp_profiles s)"
    using pauses_run(1) by (auto simp: list_ex_iff Option.is_none_def split: sum.splits)
  obtain t where t: "eachS (configure low_rng) [pause_configuration ''first'' [''second''], pause_configuration ''second'' []] (tpm_new 0) = Inr ((), t)"
      "length (tp_profiles t) = 2" "None \<notin> set (tp_profiles t)"
    using pauses_run(2) by (auto simp: list_ex_iff Option.is_none_def split: sum.splits)
  show ?thesis
    using forward_declarations_are_counted [OF tpm_new_declared s(1)] forward_declarations_are_counted [OF tpm_new_declared t(1)] s t
    by auto
qed

end
