(* ===== verification/Profile_Laws.thy ===== *)
theory Profile_Laws
  imports Demo Tpm_Cascade
begin

text \<open>
  What the profiles promise. Masters respect their limits: never more packets than configured,
  never more outstanding transactions than allowed; the counts of a master change only when it
  sends or receives, and no operation of a profile touches the counts of another.
\<close>

section \<open>The counts of the masters\<close>

text \<open>Of every master: packets to send, limit of transactions, packets sent, transactions.\<close>

fun profile_counts :: "profile option \<Rightarrow> (u64 \<times> u64 \<times> u64 \<times> u64) option" where
  "profile_counts None = None"
| "profile_counts (Some p) = (case pr_body p of
     Master m \<Rightarrow> Some (ms_toSend m, ms_maxOt m, ms_sent m, pr_ot p) | _ \<Rightarrow> None)"

declare profile_counts.simps(2) [simp del]

definition counts :: "tpm \<Rightarrow> (u64 \<times> u64 \<times> u64 \<times> u64) option list" where
  "counts s = map profile_counts (tp_profiles s)"

text \<open>
  What nearly all steps leave alone, of every profile: its id, its role (the one of its class) and,
  for a master, the counts; a profile that has terminated stays terminated.
\<close>

fun body_role :: "body \<Rightarrow> role" where
  "body_role (Master m) = ROLE_MASTER"
| "body_role (Slave v) = ROLE_SLAVE"
| "body_role Checker = ROLE_CHECKER"
| "body_role (Delay d) = ROLE_NONE"

definition same_ident :: "profile \<Rightarrow> profile \<Rightarrow> bool" where
  "same_ident p q \<longleftrightarrow> pr_id q = pr_id p \<and> (pr_role q = body_role (pr_body q) \<longleftrightarrow> pr_role p = body_role (pr_body p))
    \<and> (pr_terminated p \<longrightarrow> pr_terminated q)"

definition same_profile :: "profile \<Rightarrow> profile \<Rightarrow> bool" where
  "same_profile p q \<longleftrightarrow> same_ident p q \<and> profile_counts (Some q) = profile_counts (Some p)"

definition later :: "tpm \<Rightarrow> tpm \<Rightarrow> bool" where
  "later s t \<longleftrightarrow> tp_time t = tp_time s \<and> list_all2 (rel_option same_ident) (tp_profiles s) (tp_profiles t)"

definition still :: "tpm \<Rightarrow> tpm \<Rightarrow> bool" where
  "still s t \<longleftrightarrow> tp_time t = tp_time s \<and> list_all2 (rel_option same_profile) (tp_profiles s) (tp_profiles t)"

lemma same_profile_refl [simp]: "same_profile p p"
  and same_ident_refl [simp]: "same_ident p p"
  by (simp_all add: same_profile_def same_ident_def)

lemma same_profile_trans: "same_profile p q \<Longrightarrow> same_profile q r \<Longrightarrow> same_profile p r"
  and same_ident_trans: "same_ident p q \<Longrightarrow> same_ident q r \<Longrightarrow> same_ident p r"
  by (auto simp: same_profile_def same_ident_def)

lemma pairs_refl: "(\<And>p. R p p) \<Longrightarrow> list_all2 (rel_option R) xs xs"
  by (auto intro!: list.rel_refl option.rel_refl)

lemma pairs_trans:
  assumes "\<And>p q r. R p q \<Longrightarrow> R q r \<Longrightarrow> R p r"
    and "list_all2 (rel_option R) xs ys" and "list_all2 (rel_option R) ys zs"
  shows "list_all2 (rel_option R) xs zs"
  by (rule list_all2_trans [OF _ assms(2,3)]) (auto simp: option_rel_Some1 elim!: option.rel_cases intro: assms(1))

interpretation still: step_relation still
  by unfold_locales (auto simp: still_def intro: pairs_refl pairs_trans [OF same_profile_trans])

interpretation later: step_relation later
  by unfold_locales (auto simp: later_def intro: pairs_refl pairs_trans [OF same_ident_trans])

lemma still_later: "still s t \<Longrightarrow> later s t"
  unfolding still_def later_def
  by (auto simp: same_profile_def elim!: list_all2_mono option.rel_cases)

lemma still_counts:
  assumes "still s t"
  shows "counts s = counts t"
proof -
  have "profile_counts x = profile_counts y" if "rel_option same_profile x y" for x y
    using that by (cases rule: option.rel_cases) (simp_all add: same_profile_def)
  then have "map profile_counts xs = map profile_counts ys" if "list_all2 (rel_option same_profile) xs ys" for xs ys
    using that by (auto simp: list_eq_iff_nth_eq list_all2_conv_all_nth)
  with assms show ?thesis by (simp add: still_def counts_def)
qed

lemma still_same: "tp_profiles t = tp_profiles s \<Longrightarrow> tp_time t = tp_time s \<Longrightarrow> still s t"
  by (simp add: still_def pairs_refl)

lemma still_run: "keeps still m \<Longrightarrow> m s = Inr (x, t) \<Longrightarrow> counts s = counts t"
  by (rule still_counts) (rule keepsD)

lemma still_quiet: "keeps (\<lambda>s t. view s = view t) m \<Longrightarrow> keeps still m"
proof (rule keepsI)
  fix s x t
  assume "keeps (\<lambda>s t. view s = view t) m" and "m s = Inr (x, t)"
  then have "view s = view t" by (rule keepsD [where R = "\<lambda>s t. view s = view t"])
  from arg_cong [OF this, of tp_profiles]
  have v: "map (map_option quiet_profile) (tp_profiles s) = map (map_option quiet_profile) (tp_profiles t)"
    by (simp add: view_def)
  have "same_profile p q" if "quiet_profile p = quiet_profile q" for p q
  proof -
    have "body_role (pr_body (quiet_profile r)) = body_role (pr_body r)"
      "profile_counts (Some (quiet_profile r)) = profile_counts (Some r)" for r
      by (simp_all add: quiet_profile_def on_master_def profile_counts.simps split: body.splits)
    moreover have "pr_id (quiet_profile r) = pr_id r" "pr_role (quiet_profile r) = pr_role r"
      "pr_terminated (quiet_profile r) = pr_terminated r" for r
      by (simp_all add: quiet_profile_def on_master_def split: body.splits)
    ultimately show ?thesis using that unfolding same_profile_def same_ident_def by metis
  qed
  then have "rel_option same_profile x y" if "map_option quiet_profile x = map_option quiet_profile y" for x y
    using that by (cases x; cases y) auto
  with v view_eqD(2) [OF \<open>view s = view t\<close>] show "still s t" unfolding still_def
    by (auto simp: list_eq_iff_nth_eq list_all2_conv_all_nth)
qed

lemma counts_setp: "setp i f s = Inr (x, t) \<Longrightarrow>
    counts t = (counts s)[unat i := profile_counts (map_option f (tp_profiles s ! unat i))]"
  by (auto simp: setp_run counts_def map_update)

lemma counts_nth: "unat i < length (tp_profiles s) \<Longrightarrow> counts s ! unat i = profile_counts (tp_profiles s ! unat i)"
  by (simp add: counts_def)

lemma counts_length: "length (counts s) = length (tp_profiles s)"
  by (simp add: counts_def)

lemma counts_same_update: "(counts s)[unat i := profile_counts (tp_profiles s ! unat i)] = counts s"
  by (cases "unat i < length (tp_profiles s)")
     (simp_all add: counts_nth [symmetric] list_update_beyond counts_length)

lemma list_all2_update_self:
  "(\<And>x. P x x) \<Longrightarrow> P (xs ! n) y \<Longrightarrow> list_all2 P xs (xs[n := y])"
  by (subst list_all2_conv_all_nth) (metis length_list_update nth_list_update_eq nth_list_update_neq)

lemma still_setp:
  assumes "\<And>p. same_profile p (f p)"
  shows "keeps still (setp i f)"
proof (rule keepsI)
  fix s x t
  assume "setp i f s = Inr (x, t)"
  moreover have "rel_option same_profile x (map_option f x)" for x
    using assms by (cases x) simp_all
  ultimately show "still s t"
    by (auto simp: still_def setp_run intro!: list_all2_update_self option.rel_refl same_profile_refl)
qed

lemma later_setp:
  assumes "\<And>p. same_ident p (f p)"
  shows "keeps later (setp i f)"
proof (rule keepsI)
  fix s x t
  assume "setp i f s = Inr (x, t)"
  moreover have "rel_option same_ident x (map_option f x)" for x
    using assms by (cases x) simp_all
  ultimately show "later s t"
    by (auto simp: later_def setp_run intro!: list_all2_update_self option.rel_refl same_ident_refl)
qed

lemma still_prof: "keeps still (prof i)"
  and still_at: "keeps still (master_at i)" "keeps still (slave_at i)"
    "keeps still (delay_at i)"
  unfolding master_at_def slave_at_def delay_at_def
  by (auto simp: keeps_def prof_eq_Inr bindS_eq_Inr still_same split: body.split_asm)

lemma still_modify: "(\<And>s. tp_profiles (h s) = tp_profiles s) \<Longrightarrow> (\<And>s. tp_time (h s) = tp_time s) \<Longrightarrow> keeps still (modifyS h)"
  by (rule still.keeps_modify) (rule still_same; simp)

lemma still_catch: "keeps still m \<Longrightarrow> keeps still (catch_oor f m)"
  by (auto simp: keeps_def catch_oor_eq_Inr)

lemma still_getTime: "keeps still getTime"
  by (simp add: getTime_def still.keeps_read)

lemma still_getProfile: "keeps still (getProfile i)"
  unfolding getProfile_def by (intro still_catch still_prof)

lemma still_wait: "keeps still (wait pid t uid ty)"
  and still_signal: "keeps still (signal pid uid ty)"
  unfolding wait_def signal_def by (rule still_modify; simp)+

lemma still_tag: "keeps still (tag pk)"
  by (rule keepsI) (auto simp: tag_def split: prod.splits intro: still_same)

lemmas still_emit = still_quiet [OF quiet_emitEvent]
  and still_activate = still_quiet [OF quiet_activate]
  and still_fifo_event = still_quiet [OF quiet_fifo_event]

lemmas still_rules = still.keeps_all still_prof still_at still_setp still_modify still_getTime
  still_getProfile still_wait still_signal still_tag still_emit still_activate still_fifo_event

lemma same_fields [simp]:
  "same_profile p (p\<lparr>pr_fifo := f\<rparr>)" "same_profile p (p\<lparr>pr_stats := st\<rparr>)"
  "same_profile p (p\<lparr>pr_tagger := tg\<rparr>)" "same_profile p (p\<lparr>pr_terminated := True\<rparr>)"
  "same_profile p (p\<lparr>pr_terminated := True, pr_stats := st\<rparr>)"
  "same_profile p (p\<lparr>pr_em := m\<rparr>)" "same_profile p (p\<lparr>pr_started := b\<rparr>)"
  "same_profile p (on_slave g p)" "same_profile p (on_delay h p)"
  by (simp_all add: same_profile_def same_ident_def on_slave_def on_delay_def profile_counts.simps
      split: body.splits)

lemma same_on_master:
  "(\<And>m. ms_toSend (g m) = ms_toSend m \<and> ms_maxOt (g m) = ms_maxOt m \<and> ms_sent (g m) = ms_sent m) \<Longrightarrow>
    same_profile p q \<Longrightarrow> same_profile p (on_master g q)"
  by (auto simp: same_profile_def same_ident_def on_master_def profile_counts.simps split: body.splits)

lemma still_fifo_send: "keeps still (fifo_send_call i t d)"
  unfolding fifo_send_call_def by (intro still_rules) simp

lemma still_fifo_receive: "keeps still (fifo_receive_call i t d)"
  unfolding fifo_receive_call_def by (intro still_rules) simp

lemma still_fifo_stats: "keeps still (fifo_stats i u ov)"
  unfolding fifo_stats_def by (intro still_rules) simp

lemma still_terminate: "keeps still (terminate_master i)"
  unfolding terminate_master_def by (intro still_rules) (simp add: same_on_master)

lemma still_master_active: "keeps still (master_active i)"
  unfolding master_active_def Let_def by (intro still_rules still_terminate)

lemma still_next_packet: "keeps still (next_packet rng i t)"
proof -
  have "keeps still (case ms_pending m of
      PDangling \<Rightarrow> failS (Undefined ''TrafficProfileMaster::send'')
    | PLive pk \<Rightarrow>
        thenS (setp i (on_master (\<lambda>m. m\<lparr>ms_pending := PLive (pk\<lparr>pk_time := t\<rparr>)\<rparr>)))
        (returnS (Some (pk\<lparr>pk_time := t\<rparr>)))
    | PNull \<Rightarrow>
        bindS (liftS (pd_send rng t (ms_packetDesc m) (pr_tagger p))) (\<lambda>(o', d, tg).
        thenS (setp i (\<lambda>p. on_master (\<lambda>m. m\<lparr>ms_packetDesc := d,
             ms_pending := (case o' of None \<Rightarrow> PNull | Some pk \<Rightarrow> PLive pk)\<rparr>) (p\<lparr>pr_tagger := tg\<rparr>)))
        (returnS o')))" for p m
    by (cases "ms_pending m"; simp; intro still_rules; simp add: same_on_master)
  then show ?thesis unfolding next_packet_def by (intro still_rules)
qed

lemma still_tag_packet: "keeps still (tag_packet i pk)"
  unfolding tag_packet_def by (intro still_rules) simp

lemma still_start_checkers: "keeps still (start_checkers i)"
  unfolding start_checkers_def activateFifo_def by (intro still_rules) (simp_all add: same_on_master)

section \<open>Masters respect their limits\<close>

lemma master_at_eq: "master_at i s = Inr ((p, m), s') \<longleftrightarrow>
    s' = s \<and> unat i < length (tp_profiles s) \<and> tp_profiles s ! unat i = Some p \<and> pr_body p = Master m"
  by (auto simp: master_at_def bindS_eq_Inr prof_eq_Inr split: body.split_asm)

lemma slave_at_eq: "slave_at i s = Inr ((p, v), s') \<longleftrightarrow>
    s' = s \<and> unat i < length (tp_profiles s) \<and> tp_profiles s ! unat i = Some p \<and> pr_body p = Slave v"
  by (auto simp: slave_at_def bindS_eq_Inr prof_eq_Inr split: body.split_asm)

lemma delay_at_eq: "delay_at i s = Inr ((p, d), s') \<longleftrightarrow>
    s' = s \<and> unat i < length (tp_profiles s) \<and> tp_profiles s ! unat i = Some p \<and> pr_body p = Delay d"
  by (auto simp: delay_at_def bindS_eq_Inr prof_eq_Inr split: body.split_asm)

definition master_counts :: "u64 \<Rightarrow> tpm \<Rightarrow> (u64 \<times> u64 \<times> u64 \<times> u64) option" where
  "master_counts i s = (if unat i < length (counts s) then counts s ! unat i else None)"

lemma master_counts_at:
  "master_at i s = Inr ((p, m), s') \<Longrightarrow>
    master_counts i s = Some (ms_toSend m, ms_maxOt m, ms_sent m, pr_ot p)"
  by (simp add: master_at_eq master_counts_def counts_length counts_nth profile_counts.simps)

lemma master_counts_cong: "counts s = counts t \<Longrightarrow> master_counts i s = master_counts i t"
  by (simp add: master_counts_def)

text \<open>An active master that has not terminated may send, and may have one more transaction.\<close>

lemma master_active_result:
  assumes "master_active i s = Inr ((act, locked), t)" and "master_at i s = Inr ((p, m), s)"
    and "\<not> pr_terminated p" and act
  shows "(ms_toSend m = 0 \<or> ms_sent m \<noteq> ms_toSend m) \<and> (ms_maxOt m = 0 \<or> pr_ot p < ms_maxOt m)
    \<and> \<not> locked"
proof -
  let ?ended = "endOfData m \<or> endOfTime (tp_time s) p m"
  let ?waiting = "?ended \<and> 0 < pr_ot p"
  obtain u q n where u: "whenS (?ended \<and> \<not> (pr_terminated p \<or> ?waiting)) (terminate_master i) s = Inr ((), u)"
    and q: "master_at i u = Inr ((q, n), u)"
    and r: "thenS (whenS (\<not> (master_locked ?waiting q n \<or> ?ended) \<and> \<not> pr_started q) (activate tpm_event i))
      (returnS (\<not> (master_locked ?waiting q n \<or> ?ended), master_locked ?waiting q n)) u
      = Inr ((act, locked), t)"
    using assms(1) unfolding master_active_def Let_def bindS_run [where m = "master_at i", OF assms(2)] split
      bindS_run [where m = getTime, OF getTime_run]
    by (elim thenSE bindSE) (auto simp: master_at_eq)
  from r \<open>act\<close> have no: "\<not> endOfData m" "\<not> endOfTime (tp_time s) p m" "\<not> master_locked ?waiting q n" "\<not> locked"
    by (auto simp: thenS_eq_Inr)
  with u have "u = s" by simp
  with q assms(2) have "q = p" "n = m" by (simp_all add: master_at_eq)
  with no assms(3) show ?thesis
    by (auto simp: master_locked_def endOfData_def not_le word_gt_0)
qed

text \<open>Sending takes one more transaction when the packet needs a response, else none.\<close>

lemma still_discard: "keeps still (discard uid)"
  unfolding discard_def by (intro still_rules)

lemma counts_setp_master:
  assumes "master_counts i s = Some (toSend, maxOt, sent, ot)" and "setp i f s = Inr (x, t)"
    and "\<And>p m. pr_body p = Master m \<Longrightarrow> ms_toSend m = toSend \<Longrightarrow> ms_maxOt m = maxOt \<Longrightarrow>
      ms_sent m = sent \<Longrightarrow> pr_ot p = ot \<Longrightarrow> profile_counts (Some (f p)) = Some c"
  shows "counts t = (counts s)[unat i := Some c]"
proof -
  from assms(1) obtain p where "tp_profiles s ! unat i = Some p"
    and "profile_counts (Some p) = Some (toSend, maxOt, sent, ot)"
    by (cases "tp_profiles s ! unat i")
       (auto simp: master_counts_def counts_length counts_nth split: if_splits)
  moreover from this(2) obtain m where "pr_body p = Master m" "ms_toSend m = toSend"
      "ms_maxOt m = maxOt" "ms_sent m = sent" "pr_ot p = ot"
    by (auto simp: profile_counts.simps split: body.splits)
  ultimately show ?thesis using counts_setp [OF assms(2)] assms(3) by simp
qed

lemma counts_update_same: "master_counts i s = Some c \<Longrightarrow> (counts s)[unat i := Some c] = counts s"
  by (auto simp: master_counts_def split: if_splits) (metis list_update_id)

lemma master_counts_update:
  "counts t = (counts s)[unat i := c] \<Longrightarrow> master_counts i s = Some d \<Longrightarrow> master_counts i t = c"
  by (auto simp: master_counts_def split: if_splits)

lemma transmit_counts:
  assumes "transmit i now rt pk0 s = Inr (r, u)" and "master_counts i s = Some (toSend, maxOt, sent, ot)"
  shows "\<exists>ot' \<in> {ot, ot + 1}. counts u = (counts s)[unat i := Some (toSend, maxOt, sent, ot')]"
proof -
  obtain pk s1 p m x s2 where 1: "tag_packet i pk0 s = Inr (pk, s1)" and m: "master_at i s1 = Inr ((p, m), s1)"
    and 2: "(if pd_waitFor (ms_packetDesc m) \<noteq> CMD_NONE then
             thenS (setp i (\<lambda>p. p\<lparr>pr_ot := pr_ot p + 1\<rparr>))
             (thenS (wait (pr_id p) rt (pk_uid pk) RESPONSE) (returnS (False, False)))
           else
             bindS (fifo_receive_call i now (pk_size pk)) (\<lambda>(whole, u, ov).
             thenS (discard (pk_uid pk)) (returnS (u, ov)))) s1 = Inr (x, s2)"
    and 3: "setp i (on_master (\<lambda>m. m\<lparr>ms_pending := PNull\<rparr>)) s2 = Inr ((), u)"
    using assms(1) unfolding transmit_def
    by (elim bindSE) (auto elim!: bindSE thenSE simp: master_at_eq)
  have 4: "counts s = counts s1" by (rule still_run [OF still_tag_packet 1])
  have 5: "counts s2 = counts u" by (rule still_run [OF still_setp 3]) (simp add: same_on_master)
  show ?thesis
  proof (cases "pd_waitFor (ms_packetDesc m) = CMD_NONE")
    case True
    have "keeps still (bindS (fifo_receive_call i now (pk_size pk)) (\<lambda>(whole, u, ov).
       thenS (discard (pk_uid pk)) (returnS (u, ov))))"
      by (intro still_rules still_fifo_receive still_discard)
    with 2 True have "counts s1 = counts s2" by (auto intro: still_run)
    with 4 5 have "counts u = (counts s)[unat i := Some (toSend, maxOt, sent, ot)]"
      using counts_update_same [OF assms(2)] by simp
    then show ?thesis by blast
  next
    case False
    with 2 obtain s3 where a: "setp i (\<lambda>p. p\<lparr>pr_ot := pr_ot p + 1\<rparr>) s1 = Inr ((), s3)"
      and b: "wait (pr_id p) rt (pk_uid pk) RESPONSE s3 = Inr ((), s2)"
      by (auto elim!: thenSE)
    have "master_counts i s1 = Some (toSend, maxOt, sent, ot)"
      using assms(2) master_counts_cong [OF 4] by simp
    from counts_setp_master [OF this a] have "counts s3 = (counts s1)[unat i := Some (toSend, maxOt, sent, ot + 1)]"
      by (simp add: profile_counts.simps)
    with still_run [OF still_wait b] 4 5 show ?thesis by auto
  qed
qed

lemma count_sent_counts:
  assumes "count_sent i now pk s = Inr (r, u)" and "master_counts i s = Some (toSend, maxOt, sent, ot)"
  shows "if pk = None then counts u = counts s
    else counts u = (counts s)[unat i := Some (toSend, maxOt, sent + 1, ot)]
      \<and> (toSend = 0 \<or> sent + 1 \<le> toSend)"
proof (cases pk)
  case None
  with assms(1) have "counts s = counts u"
    by (auto simp: count_sent_def elim!: still_run [OF still_setp, rotated])
  with None show ?thesis by simp
next
  case (Some k)
  obtain s1 p m where 1: "setp i (\<lambda>p. on_master (\<lambda>m. m\<lparr>ms_sent := ms_sent m + 1\<rparr>)
      (p\<lparr>pr_stats := stats_send now (pk_size k) (pr_ot p) (pr_stats p)\<rparr>)) s = Inr ((), s1)"
    and m: "master_at i s1 = Inr ((p, m), u)" and b: "\<not> (ms_toSend m < ms_sent m \<and> 0 < ms_toSend m)"
    using assms(1) unfolding count_sent_def Some option.case
    by (elim bindSE thenSE) (auto simp: master_at_eq whenS_def split: if_splits)
  have c: "counts s1 = (counts s)[unat i := Some (toSend, maxOt, sent + 1, ot)]"
    by (rule counts_setp_master [OF assms(2) 1]) (simp add: profile_counts.simps on_master_def)
  moreover have "master_counts i s1 = Some (toSend, maxOt, sent + 1, ot)"
    by (rule master_counts_update [OF c assms(2)])
  moreover have "u = s1" using m by (simp add: master_at_eq)
  ultimately show ?thesis using Some b master_counts_at [OF m] by (simp add: not_less word_gt_0) blast
qed

text \<open>What one packet more means for the counts of master \<open>i\<close>, and how its limits bound it.\<close>

definition one_more :: "u64 \<Rightarrow> bool \<Rightarrow> tpm \<Rightarrow> tpm \<Rightarrow> bool" where
  "one_more i ok s t \<longleftrightarrow> (case master_counts i s of None \<Rightarrow> False
    | Some (toSend, maxOt, sent, ot) \<Rightarrow>
        if ok then (\<exists>ot' \<in> {ot, ot + 1}. counts t = (counts s)[unat i := Some (toSend, maxOt, sent + 1, ot')])
          \<and> (toSend = 0 \<or> sent + 1 \<le> toSend)
        else counts t = counts s)"

lemma one_more_cong:
  assumes "counts s = counts u" and "counts v = counts t"
  shows "one_more i ok s t = one_more i ok u v"
  unfolding one_more_def master_counts_cong [OF assms(1)] assms ..

lemma send_pending_counts:
  assumes "send_pending i now k s = Inr ((pk, r), t)"
    and "master_counts i s = Some (toSend, maxOt, sent, ot)"
  shows "if pk = None then counts t = counts s
    else \<exists>ot' \<in> {ot, ot + 1}. counts t = (counts s)[unat i := Some (toSend, maxOt, sent, ot')]"
proof -
  obtain ok u0 ov0 next0 rt v w where a: "fifo_send_call i now (pk_size k) s = Inr ((ok, u0, ov0, next0, rt), v)"
    and b: "(if ok then bindS (transmit i now rt k) (\<lambda>(pk', u', ov').
                 returnS (Some pk', next0, u0 \<or> u', ov0 \<or> ov'))
               else returnS (None, next0, u0, ov0)) v = Inr ((pk, r), w)"
    and d: "start_checkers i w = Inr ((), t)"
    using assms(1) unfolding send_pending_def
    by (elim bindSE) (auto elim!: bindSE thenSE)
  have v: "counts s = counts v" by (rule still_run [OF still_fifo_send a])
  have w: "counts w = counts t" by (rule still_run [OF still_start_checkers d])
  have mv: "master_counts i v = Some (toSend, maxOt, sent, ot)" using assms(2) master_counts_cong [OF v] by simp
  show ?thesis
  proof (cases ok)
    case False
    with b v w show ?thesis by simp
  next
    case True
    with b obtain k' u' ov' where "transmit i now rt k v = Inr ((k', u', ov'), w)" and k: "pk = Some k'"
      by (auto elim!: bindSE)
    from transmit_counts [OF this(1) mv] k v w show ?thesis by simp
  qed
qed

lemma master_try_counts:
  assumes "master_try rng i now s = Inr ((pk, next), t)" and "master_counts i s = Some c"
  shows "one_more i (pk \<noteq> None) s t"
proof -
  obtain toSend maxOt sent ot where c: "c = (toSend, maxOt, sent, ot)" by (cases c)
  obtain pending s1 r s2 where 1: "next_packet rng i now s = Inr (pending, s1)"
    and 2: "(case pending of None \<Rightarrow> returnS (None, 0, False, False) | Some pk \<Rightarrow> send_pending i now pk) s1
      = Inr (r, s2)"
    and 3: "(case r of (sent, next, u, ov) \<Rightarrow> thenS (count_sent i now sent)
      (thenS (fifo_stats i u ov) (returnS (sent, next)))) s2 = Inr ((pk, next), t)"
    using assms(1) unfolding master_try_def by (elim bindSE) (rule that)
  obtain u ov s3 where r: "r = (pk, next, u, ov)" and 3: "count_sent i now pk s2 = Inr ((), s3)"
    and 4: "fifo_stats i u ov s3 = Inr ((), t)"
    using 3 by (cases r) (clarsimp simp: thenS_eq_Inr)
  have s1: "counts s = counts s1" by (rule still_run [OF still_next_packet 1])
  have m1: "master_counts i s1 = Some (toSend, maxOt, sent, ot)"
    using assms(2) c master_counts_cong [OF s1] by simp
  have t: "counts s3 = counts t" by (rule still_run [OF still_fifo_stats 4])
  have "if pk = None then counts s2 = counts s1
    else \<exists>ot' \<in> {ot, ot + 1}. counts s2 = (counts s1)[unat i := Some (toSend, maxOt, sent, ot')]"
    using 2 by (cases pending) (auto simp: r dest!: send_pending_counts [OF _ m1] split: if_splits)
  then obtain ot' where o: "ot' \<in> {ot, ot + 1}" "pk = None \<longrightarrow> ot' = ot"
    and c2: "counts s2 = (counts s1)[unat i := Some (toSend, maxOt, sent, ot')]"
    using counts_update_same [OF m1, symmetric] by (cases "pk = None") fastforce+
  have m2: "master_counts i s2 = Some (toSend, maxOt, sent, ot')" by (rule master_counts_update [OF c2 m1])
  from count_sent_counts [OF 3 m2] have "one_more i (pk \<noteq> None) s1 s3"
    using o c2 m1 counts_update_same [OF m1] by (cases pk) (auto simp: one_more_def)
  with one_more_cong [OF s1 t] show ?thesis by simp
qed

lemma still_send_event: "keeps still
    (bindS (prof i) (\<lambda>p. thenS (whenS (\<not> pr_terminated p) (emitEvent tpm_event i e)) (returnS (x p))))"
  by (intro still_rules)

text \<open>
  \<^verbatim>\<open>send\<close> of a master. What it returns as the success is whether there is a packet. A refusal leaves
  every count as it was; a success is allowed by both limits.
\<close>

lemma master_send_counts:
  assumes "master_send rng i s = Inr ((ok, locked, pk, next), t)" and "master_at i s = Inr ((p, m), s)"
  shows "(ok \<longleftrightarrow> pk \<noteq> None) \<and> one_more i ok s t
    \<and> (ok \<and> \<not> pr_terminated p \<longrightarrow> (ms_toSend m = 0 \<or> ms_sent m \<noteq> ms_toSend m) \<and> (ms_maxOt m = 0 \<or> pr_ot p < ms_maxOt m))"
proof -
  obtain act u v where 1: "master_active i s = Inr ((act, locked), u)"
    and 2: "(if act then master_try rng i (tp_time s)
           else bindS (master_at i) (\<lambda>(p, m).
             returnS (None, if \<not> locked \<and> \<not> ms_halted m \<and> \<not> pr_terminated p
               then tp_time s + snd (fifo_getRate (pr_fifo p)) else 0))) u = Inr ((pk, next), v)"
    and 3: "bindS (prof i) (\<lambda>p. thenS (whenS (\<not> pr_terminated p)
      (emitEvent tpm_event i (if pk \<noteq> None then PROFILE_UNLOCKED else PROFILE_LOCKED)))
      (returnS (pk \<noteq> None, locked, pk, next))) v = Inr ((ok, locked, pk, next), t)"
    using assms(1) unfolding master_send_def
    by (elim bindSE) (auto elim!: bindSE thenSE simp: bindS_eq_Inr thenS_eq_Inr)
  have su: "counts s = counts u" by (rule still_run [OF still_master_active 1])
  have vt: "counts v = counts t" by (rule still_run [OF still_send_event 3])
  have ok: "ok \<longleftrightarrow> pk \<noteq> None" using 3 by (auto elim!: bindSE thenSE)
  have c: "master_counts i s = Some (ms_toSend m, ms_maxOt m, ms_sent m, pr_ot p)"
    by (rule master_counts_at [OF assms(2)])
  have cu: "master_counts i u = Some (ms_toSend m, ms_maxOt m, ms_sent m, pr_ot p)"
    using c master_counts_cong [OF su] by simp
  show ?thesis
  proof (cases act)
    case False
    with 2 have "pk = None" "v = u" by (auto elim!: bindSE simp: master_at_eq)
    with su vt ok c show ?thesis by (simp add: one_more_def)
  next
    case True
    with 2 have "one_more i (pk \<noteq> None) s t"
      using master_try_counts cu one_more_cong [OF su vt] by simp
    with ok master_active_result [OF 1 assms(2) _ True] show ?thesis by simp
  qed
qed

text \<open>A profile that has terminated is still so after its master has sent, and its id is the same.\<close>

lemma later_still: "keeps still m \<Longrightarrow> keeps later m"
  by (rule keeps_mono [where R = still]) (rule still_later)

lemmas later_rules = later.keeps_all later_setp later_still [OF still_prof] later_still [OF still_getTime]
  later_still [OF still_at(1)]

lemma same_ident_fields:
  "same_ident p (p\<lparr>pr_ot := n\<rparr>)" "same_profile p q \<Longrightarrow> same_ident p q"
  "same_ident p q \<Longrightarrow> same_ident p (on_master g q)"
  by (auto simp: same_ident_def same_profile_def on_master_def split: body.splits)

lemma later_transmit: "keeps later (transmit i t rt pk)"
  unfolding transmit_def
  by (intro later_rules later_still [OF still_tag_packet] later_still [OF still_wait]
      later_still [OF still_fifo_receive] later_still [OF still_discard])
     (simp_all add: same_ident_fields)

lemma later_master_send: "keeps later (master_send rng i)"
  unfolding master_send_def master_try_def send_pending_def count_sent_def
  by (intro later_rules later_transmit later_still [OF still_master_active] later_still [OF still_next_packet]
      later_still [OF still_fifo_send] later_still [OF still_start_checkers]
      later_still [OF still_fifo_stats] later_still [OF still_emit])
     (simp_all add: same_ident_fields)

lemma counts_master_body:
  "tp_profiles t ! unat i = Some q \<Longrightarrow> unat i < length (tp_profiles t) \<Longrightarrow>
    counts t ! unat i = Some (a, b, c, d) \<Longrightarrow>
    \<exists>n. pr_body q = Master n \<and> ms_toSend n = a \<and> ms_maxOt n = b \<and> ms_sent n = c \<and> pr_ot q = d"
  by (auto simp: counts_nth profile_counts.simps split: body.splits)

text \<open>
  C4. A master that has not terminated respects its limits. When \<^verbatim>\<open>send\<close> of master \<open>i\<close> returns, it
  reports success exactly when it hands out a packet. Then one more packet counts as sent, never
  more than the configured number, and there is at most one more outstanding transaction, never
  more than the configured limit. Without a packet no count changes, and the counts of all other
  masters are the same in either case, whatever events were emitted on the way.
\<close>

theorem master_stays_in_limits:
  assumes "master_send rng i s = Inr ((ok, locked, pk, next), t)"
    and "master_at i s = Inr ((p, m), s)" and "\<not> pr_terminated p"
  shows "\<exists>q n. master_at i t = Inr ((q, n), t) \<and> ok = (pk \<noteq> None)
    \<and> ms_toSend n = ms_toSend m \<and> ms_maxOt n = ms_maxOt m
    \<and> ms_sent n = (if ok then ms_sent m + 1 else ms_sent m)
    \<and> pr_ot q \<in> {pr_ot p, if ok then pr_ot p + 1 else pr_ot p}
    \<and> (ok \<and> ms_toSend m \<noteq> 0 \<longrightarrow> ms_sent m \<noteq> ms_toSend m \<and> ms_sent n \<le> ms_toSend m)
    \<and> (ok \<and> ms_maxOt m \<noteq> 0 \<longrightarrow> pr_ot p < ms_maxOt m \<and> pr_ot q \<le> ms_maxOt m)
    \<and> (\<forall>j. j \<noteq> unat i \<longrightarrow> counts t ! j = counts s ! j)"
proof -
  from master_send_counts [OF assms(1,2)] assms(3) have ok: "ok \<longleftrightarrow> pk \<noteq> None" and one: "one_more i ok s t"
    and lim: "ok \<Longrightarrow> (ms_toSend m = 0 \<or> ms_sent m \<noteq> ms_toSend m) \<and> (ms_maxOt m = 0 \<or> pr_ot p < ms_maxOt m)"
    by auto
  have c: "master_counts i s = Some (ms_toSend m, ms_maxOt m, ms_sent m, pr_ot p)"
    by (rule master_counts_at [OF assms(2)])
  obtain sent' ot' where t: "counts t = (counts s)[unat i := Some (ms_toSend m, ms_maxOt m, sent', ot')]"
    and s': "sent' = (if ok then ms_sent m + 1 else ms_sent m)"
    and o': "ot' \<in> {pr_ot p, if ok then pr_ot p + 1 else pr_ot p}"
    and up: "ok \<Longrightarrow> ms_toSend m = 0 \<or> ms_sent m + 1 \<le> ms_toSend m"
    using one counts_update_same [OF c] by (cases ok) (auto simp: one_more_def c)
  have mt: "master_counts i t = Some (ms_toSend m, ms_maxOt m, sent', ot')"
    by (rule master_counts_update [OF t c])
  have l: "unat i < length (tp_profiles t)" and n: "counts t ! unat i = Some (ms_toSend m, ms_maxOt m, sent', ot')"
    using mt by (auto simp: master_counts_def counts_length split: if_splits)
  obtain q where q: "tp_profiles t ! unat i = Some q"
    using n l by (cases "tp_profiles t ! unat i") (auto simp: counts_nth)
  from counts_master_body [OF q l n] obtain n where "pr_body q = Master n"
    and e: "ms_toSend n = ms_toSend m" "ms_maxOt n = ms_maxOt m" "ms_sent n = sent'" "pr_ot q = ot'"
    by blast
  with q l have m: "master_at i t = Inr ((q, n), t)" by (simp add: master_at_eq)
  have "pr_ot q \<le> ms_maxOt m" if "ok" "ms_maxOt m \<noteq> 0"
    using lim that o' e(4) by (auto intro: inc_le order_less_imp_le)
  moreover have "\<forall>j. j \<noteq> unat i \<longrightarrow> counts t ! j = counts s ! j" using t by simp
  ultimately show ?thesis using m ok e s' o' lim up by (intro exI [of _ q] exI [of _ n]) auto
qed

theorem master_stays_in_limits_witness:
  "\<exists>locked pk next t q n. master_send low_rng 0 demo = Inr ((True, locked, Some pk, next), t)
    \<and> master_at 0 t = Inr ((q, n), t) \<and> ms_sent n = 1 \<and> pr_ot q \<le> 1"
proof -
  have "case master_send low_rng 0 demo of Inr ((ok, l, pk, n), t) \<Rightarrow> ok \<and> pk \<noteq> None | Inl e \<Rightarrow> False"
    by code_simp
  then obtain locked pk nx t where r: "master_send low_rng 0 demo = Inr ((True, locked, Some pk, nx), t)"
    by (auto split: sum.splits prod.splits)
  have m: "master_at 0 demo = Inr ((demo_cpu, demo_master), demo)" "\<not> pr_terminated demo_cpu"
    by (simp_all add: master_at_eq demo_def demo_cpu_def demo_profile_def)
  from master_stays_in_limits [OF r m] show ?thesis using r
    by (auto simp: demo_master_def)
qed

end
