(* ===== verification/Engine_Laws.thy ===== *)
theory Engine_Laws
  imports Profile_Laws Config
begin

text \<open>
  Invariants of the whole engine, over every sequence of calls of its interface: each profile
  stands under its id, with the role of its class, and every master stays within its limits.
\<close>

section \<open>The invariant\<close>

definition in_limits :: "bool \<Rightarrow> (u64 \<times> u64 \<times> u64 \<times> u64) option \<Rightarrow> bool" where
  "in_limits terminated c \<longleftrightarrow> (case c of None \<Rightarrow> True
     | Some (toSend, maxOt, sent, ot) \<Rightarrow>
         (toSend = 0 \<or> sent \<le> toSend) \<and> (maxOt = 0 \<or> terminated \<or> ot \<le> maxOt))"

definition profile_ok :: "nat \<Rightarrow> profile \<Rightarrow> bool" where
  "profile_ok j p \<longleftrightarrow> pr_id p = of_nat j \<and> pr_role p = body_role (pr_body p)
    \<and> in_limits (pr_terminated p) (profile_counts (Some p))"

text \<open>And the clock has not gone back behind \<open>t0\<close>.\<close>

definition engine_ok :: "u64 \<Rightarrow> tpm \<Rightarrow> bool" where
  "engine_ok t0 s \<longleftrightarrow> t0 \<le> tp_time s \<and> (\<forall>j < length (tp_profiles s). \<forall>p. tp_profiles s ! j = Some p \<longrightarrow> profile_ok j p)"

abbreviation safe :: "u64 \<Rightarrow> (tpm, 'a) comp \<Rightarrow> bool" where
  "safe t0 \<equiv> preserves (\<lambda>e. True) (engine_ok t0)"

lemma engine_okI:
  "t0 \<le> tp_time s \<Longrightarrow> (\<And>j p. j < length (tp_profiles s) \<Longrightarrow> tp_profiles s ! j = Some p \<Longrightarrow> profile_ok j p) \<Longrightarrow>
    engine_ok t0 s"
  by (simp add: engine_ok_def)

lemma in_limits_mono: "in_limits b c \<Longrightarrow> (b \<longrightarrow> b') \<Longrightarrow> in_limits b' c"
  by (auto simp: in_limits_def split: option.splits)

lemma engine_ok_later:
  assumes "engine_ok t0 s" and "later s t"
    and c: "\<And>j q. j < length (tp_profiles t) \<Longrightarrow> tp_profiles t ! j = Some q \<Longrightarrow>
      counts t ! j = counts s ! j \<or> in_limits (pr_terminated q) (counts t ! j)"
  shows "engine_ok t0 t"
proof (rule engine_okI)
  show "t0 \<le> tp_time t" using assms(1,2) by (simp add: engine_ok_def later_def)
  fix j q
  assume j: "j < length (tp_profiles t)" and q: "tp_profiles t ! j = Some q"
  with assms(2) obtain p where p: "j < length (tp_profiles s)" "tp_profiles s ! j = Some p" "same_ident p q"
    by (auto simp: later_def list_all2_conv_all_nth elim!: option.rel_cases)
  with assms(1) have "profile_ok j p" by (simp add: engine_ok_def)
  moreover have "counts s ! j = profile_counts (Some p)" "counts t ! j = profile_counts (Some q)"
    using p q j by (simp_all add: counts_def)
  ultimately show "profile_ok j q" using c [OF j q] p(3)
    by (auto simp: profile_ok_def same_ident_def intro: in_limits_mono)
qed

lemma engine_ok_still: "engine_ok t0 s \<Longrightarrow> still s t \<Longrightarrow> engine_ok t0 t"
  by (rule engine_ok_later) (auto intro: still_later dest: still_counts)

lemma safe_still: "keeps still m \<Longrightarrow> safe t0 m"
  by (rule preservesI) (auto intro: engine_ok_still dest: keepsD)

lemma engine_ok_update:
  assumes ok: "engine_ok t0 s" and f: "\<And>p j. profile_ok j p \<Longrightarrow> profile_ok j (f p)"
    and t: "tp_profiles t = (tp_profiles s)[unat i := map_option f (tp_profiles s ! unat i)]"
      "tp_time t = tp_time s"
  shows "engine_ok t0 t"
proof (rule engine_okI)
  show "t0 \<le> tp_time t" using ok t by (simp add: engine_ok_def)
  fix j q
  assume "j < length (tp_profiles t)" and "tp_profiles t ! j = Some q"
  with ok f t show "profile_ok j q"
    by (cases "j = unat i") (auto simp: engine_ok_def)
qed

lemma safe_setp:
  assumes "\<And>p j. profile_ok j p \<Longrightarrow> profile_ok j (f p)"
  shows "safe t0 (setp i f)"
proof (rule preservesI)
  fix s x t
  assume ok: "engine_ok t0 s" and "setp i f s = Inr (x, t)"
  then have t: "tp_profiles t = (tp_profiles s)[unat i := map_option f (tp_profiles s ! unat i)]"
      "tp_time t = tp_time s"
    by (auto simp: setp_run)
  show "engine_ok t0 t" by (rule engine_ok_update [OF ok assms t])
qed simp

lemma safe_modify: "(\<And>s. tp_profiles (h s) = tp_profiles s) \<Longrightarrow> (\<And>s. tp_time (h s) = tp_time s) \<Longrightarrow> safe t0 (modifyS h)"
  by (rule preserves_modify) (simp add: engine_ok_def)

section \<open>Masters\<close>

lemma safe_master_send: "safe t0 (master_send rng i)"
proof (rule preservesI)
  fix s r t
  assume ok: "engine_ok t0 s" and r: "master_send rng i s = Inr (r, t)"
  obtain b locked pk nx where b: "r = (b, locked, pk, nx)" by (cases r)
  have l: "later s t" by (rule keepsD [OF later_master_send r])
  have "\<exists>p m. master_at i s = Inr ((p, m), s)"
    using r by (auto simp: master_send_def master_active_def Let_def master_at_eq elim!: bindSE)
  then obtain p m where m: "master_at i s = Inr ((p, m), s)" by blast
  have ok': "in_limits (pr_terminated p) (Some (ms_toSend m, ms_maxOt m, ms_sent m, pr_ot p))"
    using ok m by (auto simp: engine_ok_def profile_ok_def master_at_eq profile_counts.simps)
  have c: "master_counts i s = Some (ms_toSend m, ms_maxOt m, ms_sent m, pr_ot p)" by (rule master_counts_at [OF m])
  from master_send_counts [OF r [unfolded b] m] have one: "one_more i b s t"
    and lim: "b \<Longrightarrow> \<not> pr_terminated p \<Longrightarrow> ms_maxOt m = 0 \<or> pr_ot p < ms_maxOt m" by auto
  show "engine_ok t0 t"
  proof (rule engine_ok_later [OF ok l])
    fix j q
    assume j: "j < length (tp_profiles t)" "tp_profiles t ! j = Some q"
    show "counts t ! j = counts s ! j \<or> in_limits (pr_terminated q) (counts t ! j)"
    proof (cases "b \<and> j = unat i")
      case False
      with one show ?thesis by (cases b) (auto simp: one_more_def c)
    next
      case True
      with one obtain ot' where t: "counts t = (counts s)[unat i := Some (ms_toSend m, ms_maxOt m, ms_sent m + 1, ot')]"
        and o: "ot' = pr_ot p \<or> ot' = pr_ot p + 1" and n: "ms_toSend m = 0 \<or> ms_sent m + 1 \<le> ms_toSend m"
        by (auto simp: one_more_def c)
      have "counts t ! j = Some (ms_toSend m, ms_maxOt m, ms_sent m + 1, ot')"
        using t True j by (simp add: counts_length [symmetric])
      moreover have "pr_terminated p \<longrightarrow> pr_terminated q"
        using l j True m by (auto simp: later_def list_all2_conv_all_nth master_at_eq same_ident_def elim!: option.rel_cases)
      ultimately show ?thesis using o n lim True
        by (auto simp: in_limits_def intro: inc_le order_less_imp_le)
    qed
  qed
qed simp

lemma safe_lift: "safe t0 (liftS r)"
  and safe_fail: "safe t0 (failS e)"
  by (rule preserves_lift preserves_fail; simp)+

lemma safe_body:
  "(\<And>m. b = Master m \<Longrightarrow> safe t0 (f m)) \<Longrightarrow> (\<And>v. b = Slave v \<Longrightarrow> safe t0 (g v)) \<Longrightarrow>
    (b = Checker \<Longrightarrow> safe t0 c) \<Longrightarrow> (\<And>d. b = Delay d \<Longrightarrow> safe t0 (h d)) \<Longrightarrow>
    safe t0 (case b of Master m \<Rightarrow> f m | Slave v \<Rightarrow> g v | Checker \<Rightarrow> c | Delay d \<Rightarrow> h d)"
  by (cases b) simp_all

lemma safe_read: "safe t0 (readS g)"
  and safe_get: "safe t0 getS"
  and safe_return: "safe t0 (returnS x)"
  by (rule preserves_read preserves_get preserves_return)+

lemmas safe_rules = safe_lift safe_fail safe_read safe_get safe_return preserves_bind preserves_then
  preserves_when preserves_if preserves_option preserves_prod preserves_each safe_body
  safe_still [OF still_prof] safe_still [OF still_at(1)] safe_still [OF still_at(2)] safe_still [OF still_at(3)]
  safe_still [OF still_getTime] safe_still [OF still_getProfile] safe_still [OF still_wait]
  safe_still [OF still_signal] safe_still [OF still_emit] safe_still [OF still_activate]
  safe_still [OF still_fifo_send] safe_still [OF still_fifo_receive] safe_still [OF still_fifo_stats]
  safe_still [OF still_master_active]

lemma safe_catch: "safe t0 m \<Longrightarrow> safe t0 (catch_oor f m)"
  by (auto simp: preserves_def catch_oor_def split: sum.splits)

text \<open>A master that receives takes back a transaction it has.\<close>

lemma safe_take_back: "safe t0 (bindS (prof i) (\<lambda>p.
    thenS (whenS (pr_ot p = 0) (failS e))
    (thenS (setp i (\<lambda>p. p\<lparr>pr_ot := pr_ot p - 1\<rparr>)) (n p))))" if "\<And>p. safe t0 (n p)"
proof (rule preservesI)
  fix s x t
  assume ok: "engine_ok t0 s" and r: "bindS (prof i) (\<lambda>p. thenS (whenS (pr_ot p = 0) (failS e))
    (thenS (setp i (\<lambda>p. p\<lparr>pr_ot := pr_ot p - 1\<rparr>)) (n p))) s = Inr (x, t)"
  then obtain p u where p: "prof i s = Inr (p, s)" "pr_ot p \<noteq> 0"
    and u: "setp i (\<lambda>p. p\<lparr>pr_ot := pr_ot p - 1\<rparr>) s = Inr ((), u)" and t: "n p u = Inr (x, t)"
    by (auto elim!: bindSE thenSE simp: prof_eq_Inr whenS_def split: if_splits)
  have "engine_ok t0 u"
  proof (rule engine_okI)
    show "t0 \<le> tp_time u" using ok u by (auto simp: engine_ok_def setp_run)
    fix j q
    assume j: "j < length (tp_profiles u)" and q: "tp_profiles u ! j = Some q"
    show "profile_ok j q"
    proof (cases "j = unat i")
      case False
      with ok u j q show ?thesis by (auto simp: engine_ok_def setp_run)
    next
      case True
      with p u q have "q = p\<lparr>pr_ot := pr_ot p - 1\<rparr>" by (auto simp: setp_run prof_eq_Inr)
      moreover have "profile_ok j p" using ok p True by (auto simp: engine_ok_def prof_eq_Inr)
      moreover have "pr_ot p - 1 \<le> pr_ot p" using p(2) by (intro word_minus_le) (simp add: word_le_nat_alt Suc_le_eq unat_gt_0)
      ultimately show ?thesis
        by (auto simp: profile_ok_def in_limits_def profile_counts.simps split: body.splits intro: order.trans)
    qed
  qed
  with that t show "engine_ok t0 t" by (auto dest: preservesD)
qed simp

lemma safe_master_receive: "safe t0 (master_receive i pk dl)"
  unfolding master_receive_def
  by (intro safe_rules safe_take_back safe_still [OF still_setp]) simp_all

section \<open>Slaves, delays and checkers\<close>

lemma still_list:
  "keeps still m \<Longrightarrow> (\<And>x xs. keeps still (f x xs)) \<Longrightarrow> keeps still (case rs of [] \<Rightarrow> m | x # xs \<Rightarrow> f x xs)"
  by (cases rs) simp_all

lemma still_latency:
  "keeps still m \<Longrightarrow> (\<And>x. keeps still (f x)) \<Longrightarrow> (\<And>g u. keeps still (h g u)) \<Longrightarrow>
    keeps still (case l of LatencyUnset \<Rightarrow> m | LatencyStatic x \<Rightarrow> f x | LatencyRandom g u \<Rightarrow> h g u)"
  by (cases l) simp_all

lemma still_slave_send: "keeps still (slave_send i)"
  unfolding slave_send_def Let_def by (intro still_rules still_list still_fifo_receive) simp_all

lemma still_response_latency: "keeps still (response_latency rng i)"
  unfolding response_latency_def by (intro still_rules still_latency) simp_all

lemma still_slave_receive: "keeps still (slave_receive rng i pk)"
  unfolding slave_receive_def slave_active_def first_response_def Let_def
  by (intro still_rules still_fifo_send still_response_latency) simp_all

lemma same_delay: "same_profile p q \<Longrightarrow> same_profile p (on_delay h q)"
  by (auto simp: same_profile_def same_ident_def on_delay_def profile_counts.simps split: body.splits)

lemma still_delay_send: "keeps still (delay_send i)"
  unfolding delay_send_def delay_active_def Let_def
  by (intro still_rules) (simp_all add: same_delay)

text \<open>As long as \<open>i\<close> is not a master, its transactions are no counts of a master.\<close>

definition idle :: "u64 \<Rightarrow> tpm \<Rightarrow> tpm \<Rightarrow> bool" where
  "idle i s t \<longleftrightarrow> (master_counts i s = None \<longrightarrow> still s t)"

interpretation idle: step_relation "idle i" for i
proof unfold_locales
  show "idle i s s" for s by (simp add: idle_def still.R_refl)
  show "idle i s u" if "idle i s t" "idle i t u" for s t u
    using that master_counts_cong [OF still_counts, of s t i] by (auto simp: idle_def intro: still.R_trans)
qed

lemma idle_still: "keeps still m \<Longrightarrow> keeps (idle i) m"
  by (auto simp: keeps_def idle_def)

lemma idle_setp: "keeps (idle i) (setp i (\<lambda>p. p\<lparr>pr_ot := n p\<rparr>))"
proof (rule keepsI)
  fix s x t
  assume t: "setp i (\<lambda>p. p\<lparr>pr_ot := n p\<rparr>) s = Inr (x, t)"
  have "same_profile p (p\<lparr>pr_ot := n p\<rparr>)" if "profile_counts (Some p) = None" for p
    using that by (auto simp: same_profile_def same_ident_def profile_counts.simps split: body.splits)
  then have "rel_option same_profile y (map_option (\<lambda>p. p\<lparr>pr_ot := n p\<rparr>) y)" if "profile_counts y = None" for y
    using that by (cases y) simp_all
  then show "idle i s t" using t unfolding idle_def still_def
    by (cases "unat i < length (tp_profiles s)")
       (auto simp: setp_run master_counts_def counts_length counts_nth list_update_beyond
         intro!: list_all2_update_self list.rel_refl option.rel_refl)
qed

lemmas idle_rules = idle.keeps_all idle_setp idle_still [OF still_prof] idle_still [OF still_getTime]
  idle_still [OF still_fifo_send] idle_still [OF still_fifo_receive] idle_still [OF still_fifo_stats]

lemma still_checker_active: "keeps still (checker_active i)"
  unfolding checker_active_def Let_def by (intro still_rules) simp

lemma idle_checker_send: "keeps (idle i) (checker_send i pk)"
  unfolding checker_send_def
  by (intro idle_rules idle_still [OF still_checker_active] idle_still [OF still_setp]) simp_all

lemma idle_checker_receive: "keeps (idle i) (checker_receive i pk dl)"
  unfolding checker_receive_def
  by (intro idle_rules idle_still [OF still_checker_active] idle_still [OF still_setp]) simp_all

section \<open>All profiles\<close>

lemma master_counts_none:
  assumes "prof i s = Inr (p, s')" and "pr_body p = Checker"
  shows "master_counts i s = None"
  using assms by (simp add: prof_eq_Inr master_counts_def counts_length counts_nth profile_counts.simps)

lemma safe_profile_send: "safe t0 (profile_send rng i pk)"
proof (rule preservesI)
  fix s x t
  assume ok: "engine_ok t0 s" and r: "profile_send rng i pk s = Inr (x, t)"
  then obtain p where p: "prof i s = Inr (p, s)"
    and b: "(case pr_body p of Master _ \<Rightarrow> master_send rng i | Slave _ \<Rightarrow> slave_send i
       | Checker \<Rightarrow> checker_send i pk | Delay _ \<Rightarrow> delay_send i) s = Inr (x, t)"
    unfolding profile_send_def by (auto elim!: bindSE simp: prof_eq_Inr)
  show "engine_ok t0 t"
  proof (cases "pr_body p = Checker")
    case True
    with b have "checker_send i pk s = Inr (x, t)" by simp
    from keepsD [OF idle_checker_send this] master_counts_none [OF p True] ok show ?thesis
      by (auto simp: idle_def intro: engine_ok_still)
  next
    case False
    then have "safe t0 (case pr_body p of Master _ \<Rightarrow> master_send rng i | Slave _ \<Rightarrow> slave_send i
       | Checker \<Rightarrow> checker_send i pk | Delay _ \<Rightarrow> delay_send i)"
      by (intro safe_rules safe_master_send safe_still [OF still_slave_send] safe_still [OF still_delay_send]) simp
    with ok b show ?thesis by (auto dest: preservesD)
  qed
qed simp

lemma safe_profile_receive: "safe t0 (profile_receive rng i pk dl)"
proof (rule preservesI)
  fix s x t
  assume ok: "engine_ok t0 s" and r: "profile_receive rng i pk dl s = Inr (x, t)"
  then obtain p where p: "prof i s = Inr (p, s)"
    and b: "(case pr_body p of Master _ \<Rightarrow> master_receive i pk dl | Slave _ \<Rightarrow> slave_receive rng i pk
       | Checker \<Rightarrow> checker_receive i pk dl
       | Delay _ \<Rightarrow> failS (ErrorExit ''TrafficProfileDelay::receive'')) s = Inr (x, t)"
    unfolding profile_receive_def by (auto elim!: bindSE simp: prof_eq_Inr)
  show "engine_ok t0 t"
  proof (cases "pr_body p = Checker")
    case True
    with b have "checker_receive i pk dl s = Inr (x, t)" by simp
    from keepsD [OF idle_checker_receive this] master_counts_none [OF p True] ok show ?thesis
      by (auto simp: idle_def intro: engine_ok_still)
  next
    case False
    then have "safe t0 (case pr_body p of Master _ \<Rightarrow> master_receive i pk dl | Slave _ \<Rightarrow> slave_receive rng i pk
       | Checker \<Rightarrow> checker_receive i pk dl
       | Delay _ \<Rightarrow> failS (ErrorExit ''TrafficProfileDelay::receive''))"
      by (intro safe_rules safe_master_receive safe_still [OF still_slave_receive]) simp
    with ok b show ?thesis by (auto dest: preservesD)
  qed
qed simp

text \<open>Resetting a profile takes back its packets and its transactions.\<close>

lemma safe_subscribe_keys: "safe t0 (subscribe_keys i ks)"
  by (rule safe_still) (rule still_quiet [OF quiet_subscribe])

lemma tp_profiles_signalReset: "signalReset i s = Inr (x, t) \<Longrightarrow> tp_profiles t = tp_profiles s \<and> tp_time t = tp_time s"
  by (auto simp: signalReset_def bindS_eq_Inr catch_oor_eq_Inr prof_eq_Inr)

lemma safe_revive: "safe t0 (thenS (setp i (\<lambda>p. p\<lparr>pr_ot := 0, pr_started := False\<rparr>))
    (thenS (whenS b (signalReset k)) (setp i (\<lambda>p. p\<lparr>pr_terminated := False\<rparr>))))"
proof (rule preservesI)
  fix s x t
  assume ok: "engine_ok t0 s" and r: "thenS (setp i (\<lambda>p. p\<lparr>pr_ot := 0, pr_started := False\<rparr>))
    (thenS (whenS b (signalReset k)) (setp i (\<lambda>p. p\<lparr>pr_terminated := False\<rparr>))) s = Inr (x, t)"
  then obtain u v where u: "setp i (\<lambda>p. p\<lparr>pr_ot := 0, pr_started := False\<rparr>) s = Inr ((), u)"
    and v: "whenS b (signalReset k) u = Inr ((), v)"
    and t: "setp i (\<lambda>p. p\<lparr>pr_terminated := False\<rparr>) v = Inr ((), t)"
    by (auto elim!: thenSE)
  have vu: "tp_profiles v = tp_profiles u \<and> tp_time v = tp_time u"
    using v by (cases b) (auto dest: tp_profiles_signalReset)
  from vu u t have time: "tp_time t = tp_time s" by (auto simp: setp_run)
  from vu u t have "tp_profiles t = (tp_profiles s)[unat i := map_option
      ((\<lambda>p. p\<lparr>pr_terminated := False\<rparr>) \<circ> (\<lambda>p. p\<lparr>pr_ot := 0, pr_started := False\<rparr>)) (tp_profiles s ! unat i)]"
    by (cases "unat i < length (tp_profiles s)")
       (auto simp: setp_run option.map_comp list_update_beyond)
  then show "engine_ok t0 t"
    by (rule engine_ok_update [OF ok _ _ time, rotated])
       (auto simp: profile_ok_def in_limits_def profile_counts.simps split: body.splits)
qed simp

lemma safe_base_reset: "safe t0 (base_reset i)"
  unfolding base_reset_def
  by (intro preserves_bind preserves_then [where m = "subscribe_keys x y" for x y] preserves_then [where m = "setp i (\<lambda>p. p\<lparr>pr_em := f p\<rparr>)" for f]
      safe_revive safe_still [OF still_prof] safe_subscribe_keys safe_still [OF still_setp]) simp

lemma safe_reset_checker: "safe t0 (reset_checker c)"
  unfolding reset_checker_def checker_reset_def
  by (intro safe_rules safe_base_reset safe_still [OF still_setp]) simp_all

lemma profile_ok_same: "profile_ok j p \<Longrightarrow> same_profile p q \<Longrightarrow> profile_ok j q"
  by (auto simp: profile_ok_def same_profile_def same_ident_def intro: in_limits_mono)

lemma safe_unlocked_activation: "safe t0 m \<Longrightarrow> safe t0 (unlocked_activation i m)"
  unfolding unlocked_activation_def by (intro safe_rules)

lemma safe_master_reset: "safe t0 (master_reset i)"
  unfolding master_reset_def
  by (intro safe_rules safe_base_reset safe_reset_checker safe_unlocked_activation
      safe_still [OF still_setp [of "\<lambda>p. p\<lparr>pr_started := True\<rparr>"]] safe_setp)
     (auto simp: profile_ok_def in_limits_def on_master_def profile_counts.simps split: body.splits)

lemma same_slave: "same_profile p q \<Longrightarrow> same_profile p (on_slave h q)"
  by (auto simp: same_profile_def same_ident_def on_slave_def profile_counts.simps split: body.splits)

lemma safe_profile_reset: "safe t0 (profile_reset i)"
  unfolding profile_reset_def slave_reset_def checker_reset_def delay_reset_def
  by (intro safe_rules safe_master_reset safe_base_reset safe_unlocked_activation safe_still [OF still_setp])
     (simp_all add: same_slave same_delay)

section \<open>Streams\<close>

lemma same_stream [simp]: "same_profile p (p\<lparr>pr_streamId := k, pr_tagger := tg\<rparr>)"
  by (simp add: same_profile_def same_ident_def profile_counts.simps split: body.splits)

lemma still_stream_loop: "keeps still (stream_loop n rt queue visited)"
proof (induction n arbitrary: queue visited)
  case 0
  show ?case by (cases queue) (simp_all only: stream_loop.simps still.keeps_return still.keeps_fail)
next
  case (Suc n)
  show ?case
  proof (cases queue)
    case Nil
    then show ?thesis by (simp only: stream_loop.simps still.keeps_return)
  next
    case (Cons i rest)
    show ?thesis unfolding Cons stream_loop.simps Let_def addToStream_def
      by (intro still_rules Suc) simp_all
  qed
qed

lemma still_getStream: "keeps still (getStream rt)"
  unfolding getStream_def by (intro still_rules still_stream_loop) simp_all

lemma still_cacheUpdate: "keeps still streamCacheUpdate"
  unfolding streamCacheUpdate_def update_root_def by (intro still_rules still_getStream)

lemma safe_streamReset: "safe t0 (streamReset rt)"
  unfolding streamReset_def by (intro safe_rules safe_profile_reset safe_still [OF still_getStream])

lemma still_collect:
  assumes "\<And>x. keeps still (f x)"
  shows "keeps still (collectS f xs)"
proof (induction xs)
  case (Cons x xs)
  show ?case unfolding collectS.simps by (intro still_rules assms Cons)
qed (simp only: collectS.simps still.keeps_return)

lemma still_streamTerminated: "keeps still (streamTerminated rt)"
  unfolding streamTerminated_def by (intro still_rules still_getStream still_collect)

lemma still_reconfigure: "keeps still (reconfigure_nodes type limit base used nodes)"
proof (induction nodes arbitrary: base used)
  case (Cons node nodes)
  obtain i leaf where n: "node = (i, leaf)" by (cases node)
  have body: "(\<And>m. keeps still (f m)) \<Longrightarrow> keeps still g \<Longrightarrow>
    keeps still (case b of Master m \<Rightarrow> f m | _ \<Rightarrow> g)" for b f and g :: "(tpm, u64) comp"
    by (cases b) simp_all
  show ?case unfolding n reconfigure_nodes.simps
    by (intro still_rules body Cons) (simp_all add: same_on_master)
qed (simp add: still.keeps_return)

section \<open>Routing\<close>

lemma safe_set_time: "t0 \<le> t \<Longrightarrow> safe t0 (modifyS (\<lambda>s. s\<lparr>tp_time := t\<rparr>))"
  by (rule preserves_modify) (simp add: engine_ok_def)

lemma safe_setTime: "safe t0 (setTime t)"
  unfolding setTime_def by (rule preserves_modify) (auto simp: engine_ok_def)

text \<open>A read of the state tells that the clock has not gone back.\<close>

lemma safe_look: "(\<And>s. t0 \<le> tp_time s \<Longrightarrow> safe t0 (f s)) \<Longrightarrow> safe t0 (bindS getS f)"
  by (auto simp: preserves_def bindS_def engine_ok_def)

lemma still_slave_load: "keeps still (slave_load i)"
  unfolding slave_load_def Let_def by (intro still_rules still_latency)

lemma still_ensureKronos: "keeps still ensureKronos"
  unfolding ensureKronos_def initKronos_def autoKronosConfiguration_def Let_def
  by (intro still_rules still_collect still_slave_load) simp_all

lemma still_schedule: "keeps still (schedule e)"
  unfolding schedule_def by (intro still_rules) simp_all

lemma safe_by_type:
  "safe t0 m \<Longrightarrow> safe t0 n \<Longrightarrow> safe t0 (case ty of REQUEST \<Rightarrow> m | RESPONSE \<Rightarrow> n | NO_TYPE \<Rightarrow> failS e)"
  by (cases ty) (simp_all only: packet_type.case safe_fail)

lemma safe_updateCheckers: "safe t0 (updateCheckers rng i pk dl)"
  unfolding updateCheckers_def update_checker_def
  by (intro safe_rules safe_by_type safe_profile_send safe_profile_receive)

lemma safe_send_profile: "safe t0 (send_profile rng i)"
  unfolding send_profile_def push_next_def
  by (intro safe_rules safe_profile_send safe_updateCheckers safe_modify) simp_all

lemma safe_tpm_receive: "safe t0 (tpm_receive rng t pk)"
  unfolding tpm_receive_def push_next_def Let_def
  by (rule safe_look)
     (intro safe_rules safe_set_time safe_profile_receive safe_updateCheckers
        safe_still [OF still_ensureKronos] safe_still [OF still_schedule] safe_modify; simp)

lemma safe_route: "safe t0 (route rng pkt src dst)"
  unfolding route_def
  by (intro safe_rules safe_still [OF still_ensureKronos] safe_send_profile safe_tpm_receive safe_modify) simp_all

lemma safe_handle: "safe t0 (handle rng e)"
  unfolding handle_def by (intro safe_rules safe_catch safe_route)

lemma safe_dispatch: "safe t0 (dispatch rng i pk)"
  unfolding dispatch_def by (intro safe_rules safe_route)

lemma safe_burst: "safe t0 (burst rng n i)"
  by (induction n) (simp_all only: burst.simps, (intro safe_rules safe_send_profile safe_dispatch | assumption)+)

lemma safe_active_loop: "safe t0 (active_loop rng b n k)"
  by (induction n arbitrary: k)
     (simp_all only: active_loop.simps Let_def, (intro safe_rules safe_burst | assumption)+)

lemma safe_tpm_send: "safe t0 (tpm_send rng n t)"
  unfolding tpm_send_def
  by (rule preserves_then, rule safe_modify, simp, simp, rule safe_look)
     (intro safe_rules safe_set_time safe_still [OF still_cacheUpdate] safe_handle safe_active_loop safe_modify;
      auto simp: not_less intro: order.trans)

lemma safe_tick: "safe t0 (tick rng n)"
  unfolding tick_def by (intro safe_rules safe_tpm_send safe_still [OF still_schedule])

lemma safe_tick_loop: "safe t0 (tick_loop rng b n t)"
  by (induction n arbitrary: t)
     (simp_all only: tick_loop.simps, (intro safe_rules safe_tick safe_setTime | assumption)+)

lemma safe_tpm_loop: "safe t0 (tpm_loop rng b n)"
  unfolding tpm_loop_def by (intro safe_rules safe_still [OF still_ensureKronos] safe_tick_loop)

section \<open>Construction\<close>

text \<open>What the value that a computation returns satisfies.\<close>

definition yields :: "('a \<Rightarrow> bool) \<Rightarrow> ('s, 'a) comp \<Rightarrow> bool" where
  "yields Q m \<longleftrightarrow> (\<forall>s x t. m s = Inr (x, t) \<longrightarrow> Q x)"

lemma yields_return: "Q x \<Longrightarrow> yields Q (returnS x)"
  and yields_fail: "yields Q (failS e)"
  by (simp_all add: yields_def)

lemma yields_bind: "(\<And>x. yields Q (f x)) \<Longrightarrow> yields Q (bindS m f)"
  by (auto simp: yields_def bindS_eq_Inr)

lemma yields_then: "yields Q n \<Longrightarrow> yields Q (thenS m n)"
  by (auto simp: yields_def thenS_eq_Inr)

lemma yields_via: "yields P m \<Longrightarrow> (\<And>x. P x \<Longrightarrow> yields Q (f x)) \<Longrightarrow> yields Q (bindS m f)"
  by (fastforce simp: yields_def bindS_eq_Inr)

lemma yields_if: "(b \<Longrightarrow> yields Q m) \<Longrightarrow> (\<not> b \<Longrightarrow> yields Q n) \<Longrightarrow> yields Q (if b then m else n)"
  by simp

lemma yields_prod: "(\<And>x y. yields Q (f x y)) \<Longrightarrow> yields Q (case p of (x, y) \<Rightarrow> f x y)"
  by (cases p) simp

lemma yields_option:
  "yields Q m \<Longrightarrow> (\<And>x. yields Q (f x)) \<Longrightarrow> yields Q (case v of None \<Rightarrow> m | Some x \<Rightarrow> f x)"
  by (cases v) simp_all

lemmas yields_rules = yields_fail yields_then yields_if yields_prod yields_option

lemma safe_via: "safe t0 m \<Longrightarrow> yields Q m \<Longrightarrow> (\<And>x. Q x \<Longrightarrow> safe t0 (f x)) \<Longrightarrow> safe t0 (bindS m f)"
  by (rule preservesI) (fastforce simp: yields_def bindS_eq_Inr dest: preservesD(2))+

text \<open>A profile under construction, and one that is ready.\<close>

definition built :: "u64 \<Rightarrow> profile \<Rightarrow> bool" where
  "built i p \<longleftrightarrow> pr_id p = i \<and> pr_ot p = 0 \<and> pr_role p = ROLE_NONE"

definition ready :: "u64 \<Rightarrow> profile \<Rightarrow> bool" where
  "ready i p \<longleftrightarrow> pr_id p = i \<and> pr_ot p = 0 \<and> pr_role p = body_role (pr_body p)
    \<and> (\<forall>m. pr_body p = Master m \<longrightarrow> ms_sent m = 0)"

lemma ready_ok: "ready (of_nat j) p \<Longrightarrow> profile_ok j p"
  by (auto simp: ready_def profile_ok_def in_limits_def profile_counts.simps split: body.splits)

lemma yields_wait_for_all: "built i p \<Longrightarrow> yields (built i) (wait_for_all k ws p)"
proof (induction ws arbitrary: p)
  case (Cons w ws)
  have "yields (built i) (wait_new t j p)" for t j
    unfolding wait_new_def by (intro yields_then yields_return) (use Cons.prems in \<open>simp add: built_def\<close>)
  then show ?case unfolding wait_for_all.simps Let_def
    by (intro yields_rules yields_bind [where m = "getOrGeneratePid n" for n] yields_via [where P = "built i"] Cons.IH)
qed (simp add: yields_return del: returnS_run)

lemma yields_base: "yields (built i) (base_new i pf k)"
  unfolding base_new_def
  by (intro yields_via [where P = "built i"] yields_wait_for_all)
     (auto simp: built_def intro!: yields_bind yields_return)

lemma yields_fifo: "built i p \<Longrightarrow> yields (built i) (fifo_new_conf pf p)"
proof -
  assume "built i p"
  then have "built i (p\<lparr>pr_fifo := f\<rparr>)" for f by (simp add: built_def)
  then show ?thesis unfolding fifo_new_conf_def
    by (auto intro!: yields_fail yields_bind yields_then yields_return split: option.splits prod.splits)
qed

lemma yields_emit_new: "ready i p \<Longrightarrow> yields (ready i) (emit_new t p)"
  unfolding emit_new_def
  by (intro yields_bind yields_then yields_return) (simp add: ready_def)

lemma yields_activate_new: "ready i p \<Longrightarrow> yields (ready i) (activate_new p)"
  unfolding activate_new_def
  by (intro yields_via [OF yields_emit_new] yields_bind yields_return) (simp_all add: ready_def)

lemma yields_master_new: "yields (ready i) (master_new rng i pf k)"
proof -
  have tg: "built i p \<Longrightarrow> built i (p\<lparr>pr_tagger := tg\<rparr>)" for p tg by (simp add: built_def)
  have r: "ready i (q\<lparr>pr_role := ROLE_MASTER, pr_body := Master \<lparr>ms_toSend = a, ms_toStop = b,
      ms_maxOt = c, ms_sent = 0, ms_pending = PNull, ms_checkersFifoStarted = False,
      ms_halted = False, ms_packetDesc = d\<rparr>\<rparr>)" if "built i q" for q a b c d
    using that by (simp add: ready_def built_def)
  show ?thesis unfolding master_new_def Let_def
    by (rule yields_via [OF yields_base], rule yields_option [OF yields_fail],
        rule yields_bind, rule yields_prod, rule yields_bind, rule yields_prod, rule yields_prod,
        rule yields_via [OF yields_fifo [OF tg]], assumption)
       (intro yields_if yields_activate_new yields_return r)
qed

lemma yields_slave_new: "yields (ready i) (slave_new i pf sl k)"
proof -
  have r: "ready i (p\<lparr>pr_role := ROLE_SLAVE, pr_fifo := f, pr_body := Slave v\<rparr>)" if "built i p" for p f v
    using that by (simp add: ready_def built_def)
  show ?thesis unfolding slave_new_def Let_def
    by (rule yields_via [OF yields_base], rule yields_bind, rule yields_bind, rule yields_bind, rule yields_prod)
       (intro yields_then yields_activate_new r)
qed

lemma yields_watch_all: "built i p \<Longrightarrow> yields (built i) (watch_all k cs p)"
proof (induction cs arbitrary: p)
  case (Cons c cs)
  have "yields (built i) (wait_new t j p)" for t j
    unfolding wait_new_def by (intro yields_then yields_return) (use Cons.prems in \<open>simp add: built_def\<close>)
  then show ?case unfolding watch_all.simps
    by (intro yields_bind [where m = "getOrGeneratePid n" for n] yields_via [where P = "built i"] Cons.IH)
qed (simp add: yields_return del: returnS_run)

lemma yields_checker_new: "yields (ready i) (checker_new i pf k)"
  unfolding checker_new_def
  by (rule yields_via [OF yields_base], rule yields_via [OF yields_fifo], assumption)
     (intro yields_if yields_fail yields_via [OF yields_watch_all] yields_return, assumption,
      simp add: ready_def built_def)

lemma yields_delay_new: "yields (ready i) (delay_new i pf tm k)"
  unfolding delay_new_def Let_def
  by (rule yields_via [OF yields_base], rule yields_bind)
     (intro yields_if yields_emit_new yields_return; simp add: ready_def built_def)

lemma yields_add_to_master: "ready i p \<Longrightarrow> yields (ready i) (add_to_master k pf mid p)"
  unfolding add_to_master_def
  by (intro yields_bind yields_then yields_return) (simp add: ready_def)

section \<open>The tables change, the profiles do not\<close>

lemma safe_getOrGeneratePid: "safe t0 (getOrGeneratePid n)"
  by (rule preservesI)
     (auto simp: getOrGeneratePid_def engine_ok_def Let_def nth_append split: option.splits if_splits)

lemma safe_same: "(\<And>s x t. m s = Inr (x, t) \<Longrightarrow> tp_profiles t = tp_profiles s \<and> tp_time t = tp_time s) \<Longrightarrow> safe t0 m"
  by (rule preservesI) (auto simp: engine_ok_def)

lemma safe_getOrGenerateMid: "safe t0 (getOrGenerateMid n)"
  and safe_masterName: "safe t0 (masterName i)"
  and safe_masterId: "safe t0 (masterId n)"
  and safe_profileId: "safe t0 (profileId n)"
  and safe_getTimeScaleFactors: "safe t0 (getTimeScaleFactors i)"
  by (rule safe_same; auto simp: getOrGenerateMid_def masterName_def masterId_def profileId_def
      getTimeScaleFactors_def Let_def split: option.splits if_splits)+

lemmas safe_tables = safe_getOrGeneratePid safe_getOrGenerateMid safe_masterName safe_masterId
  safe_profileId safe_getTimeScaleFactors safe_subscribe_keys

lemma safe_wait_new: "safe t0 (wait_new t k p)"
  unfolding wait_new_def by (intro safe_rules safe_tables)

lemma safe_wait_for_all: "safe t0 (wait_for_all k ws p)"
proof (induction ws arbitrary: p)
  case (Cons w ws)
  show ?case unfolding wait_for_all.simps Let_def
    by (intro safe_rules safe_tables safe_wait_new Cons)
qed (simp only: wait_for_all.simps safe_return)

lemma safe_base_new: "safe t0 (base_new i pf k)"
  unfolding base_new_def by (intro safe_rules safe_wait_for_all)

lemma safe_parseRate: "safe t0 (parseRate i str)"
  unfolding parseRate_def Let_def by (intro safe_rules safe_tables)

lemma safe_parseTime: "safe t0 (parseTime str)"
  unfolding parseTime_def Let_def by (intro safe_rules)

lemma safe_fifo_new_conf: "safe t0 (fifo_new_conf pf p)"
  unfolding fifo_new_conf_def by (intro safe_rules safe_parseRate safe_tables)

lemma safe_tpm_event: "safe t0 (tpm_event e)"
  by (rule safe_still) (rule still_quiet [OF quiet_tpm_event])

lemma safe_emit_new: "safe t0 (emit_new t p)"
  unfolding emit_new_def emit_opt_def by (intro safe_rules safe_tpm_event)

lemma safe_activate_new: "safe t0 (activate_new p)"
  unfolding activate_new_def by (intro safe_rules safe_emit_new)

lemma safe_master_new: "safe t0 (master_new rng i pf k)"
  unfolding master_new_def master_limits_def Let_def
  by (intro safe_rules safe_base_new safe_parseTime safe_fifo_new_conf safe_activate_new)

lemma safe_registers: "safe t0 (registerMasterToSlave m i)" "safe t0 (registerSlaveAddressRange low high i)"
  unfolding registerMasterToSlave_def registerSlaveAddressRange_def
  by (intro safe_rules safe_tables safe_modify; simp)+

lemma safe_slave_new: "safe t0 (slave_new i pf sl k)"
  unfolding slave_new_def Let_def
  by (intro safe_rules safe_base_new safe_parseRate safe_parseTime safe_tables safe_registers safe_activate_new)

lemma safe_watch_all: "safe t0 (watch_all k cs p)"
proof (induction cs arbitrary: p)
  case (Cons c cs)
  show ?case unfolding watch_all.simps by (intro safe_rules safe_tables safe_wait_new Cons)
qed (simp only: watch_all.simps safe_return)

lemma safe_checker_new: "safe t0 (checker_new i pf k)"
  unfolding checker_new_def by (intro safe_rules safe_base_new safe_fifo_new_conf safe_watch_all)

lemma safe_delay_new: "safe t0 (delay_new i pf tm k)"
  unfolding delay_new_def Let_def by (intro safe_rules safe_base_new safe_parseTime safe_emit_new)

section \<open>Configuration\<close>

lemma safe_register_checks: "safe t0 (register_checks k i cs)"
proof (induction cs)
  case (Cons c cs)
  show ?case unfolding register_checks.simps
    by (intro safe_rules safe_tables safe_modify Cons) simp_all
qed (simp only: register_checks.simps safe_return)

lemma safe_add_to_master: "safe t0 (add_to_master i pf mid p)"
  unfolding add_to_master_def by (intro safe_rules safe_tables safe_modify) simp_all

definition built_profile :: "rng \<Rightarrow> u64 \<Rightarrow> profile_conf \<Rightarrow> u64 \<Rightarrow> (tpm, profile) comp" where
  "built_profile rng i pf k =
    (if pf_pattern pf \<noteq> None then master_new rng i pf k
     else case pf_slave pf of
       Some sl \<Rightarrow> bindS (slave_new i pf sl k) (\<lambda>p.
         thenS (modifyS (\<lambda>s. s\<lparr>tp_kronosEnabled := True\<rparr>)) (returnS p))
     | None \<Rightarrow> (case pf_delay pf of
         Some tm \<Rightarrow> delay_new i pf tm k
       | None \<Rightarrow>
           if pf_check pf = [] then failS (ErrorExit ''TrafficProfileManager::createProfile'')
           else bindS (checker_new i pf k) (\<lambda>p.
             thenS (modifyS (\<lambda>s. s\<lparr>tp_checkers := insort_insert i (tp_checkers s)\<rparr>))
             (thenS (register_checks k i (pf_check pf)) (returnS p)))))"

lemma safe_built_profile: "safe t0 (built_profile rng i pf k)"
  unfolding built_profile_def
  by (intro safe_rules safe_master_new safe_slave_new safe_delay_new safe_checker_new
      safe_register_checks safe_modify) simp_all

lemma yields_built_profile: "yields (ready i) (built_profile rng i pf k)"
  unfolding built_profile_def
  by (intro yields_if yields_option yields_fail yields_master_new yields_delay_new
      yields_via [OF yields_slave_new] yields_via [OF yields_checker_new] yields_then yields_return)

lemma safe_put:
  assumes "\<And>p. x = Some p \<Longrightarrow> profile_ok n p"
  shows "safe t0 (modifyS (\<lambda>s. s\<lparr>tp_profiles := (tp_profiles s)[n := x]\<rparr>))"
proof (rule preserves_modify)
  fix s
  assume ok: "engine_ok t0 s"
  show "engine_ok t0 (s\<lparr>tp_profiles := (tp_profiles s)[n := x]\<rparr>)"
  proof (rule engine_okI)
    show "t0 \<le> tp_time (s\<lparr>tp_profiles := (tp_profiles s)[n := x]\<rparr>)" using ok by (simp add: engine_ok_def)
    fix j p
    assume "j < length (tp_profiles (s\<lparr>tp_profiles := (tp_profiles s)[n := x]\<rparr>))"
      and "tp_profiles (s\<lparr>tp_profiles := (tp_profiles s)[n := x]\<rparr>) ! j = Some p"
    with ok assms show "profile_ok j p" by (cases "j = n") (auto simp: engine_ok_def)
  qed
qed

lemma safe_createProfile: "safe t0 (createProfile rng i pf k mid)"
proof -
  have store: "safe t0 (modifyS (\<lambda>s. s\<lparr>tp_profiles := (tp_profiles s)[unat i := Some q]\<rparr>))" if "ready i q" for q
    using that by (intro safe_put ready_ok) simp
  have body: "safe t0 (case b of Slave v \<Rightarrow> m | _ \<Rightarrow> n)" if "safe t0 m" "safe t0 n" for b and m n :: "(tpm, profile) comp"
    using that by (cases b) simp_all
  have body': "yields Q (case b of Slave v \<Rightarrow> m | _ \<Rightarrow> n)" if "yields Q m" "yields Q n"
    for Q b and m n :: "(tpm, profile) comp"
    using that by (cases b) simp_all
  show ?thesis
    unfolding createProfile_def built_profile_def [symmetric]
    by (rule preserves_bind [OF safe_get], rule preserves_then, intro safe_rules,
        rule safe_via [OF safe_built_profile yields_built_profile],
        rule safe_via [where Q = "ready i"])
       (intro body body' safe_rules safe_modify safe_add_to_master yields_add_to_master yields_then
          yields_return store; simp)+
qed

lemma safe_claim_id: "safe t0 (claim_id n overwrite)"
proof -
  have a: "safe t0 (modifyS (\<lambda>s. s\<lparr>tp_profiles := tp_profiles s @ [None],
      tp_profileMap := AList.update n i (tp_profileMap s)\<rparr>))" for i
    by (rule preserves_modify) (auto simp: engine_ok_def nth_append split: if_splits)
  have f: "safe t0 (modifyS (\<lambda>s. s\<lparr>tp_forwardDeclared := tp_forwardDeclared s - 1\<rparr>))"
    by (rule safe_modify) simp_all
  show ?thesis unfolding claim_id_def Let_def by (intro safe_rules a f safe_put) simp_all
qed

lemma safe_configureProfile: "safe t0 (configureProfile rng pf ts overwrite k mid)"
  unfolding configureProfile_def
  by (intro safe_rules safe_claim_id safe_createProfile safe_modify) simp_all

lemma safe_load_profiles: "safe t0 (load_profiles rng ts j pfs)"
proof (induction pfs arbitrary: j)
  case (Cons pf pfs)
  show ?case unfolding load_profiles.simps name_profile_def
    by (intro safe_rules safe_modify safe_configureProfile Cons) (simp_all add: store_profile_def Let_def)
qed (simp only: load_profiles.simps safe_return)

lemma safe_register_checkers: "safe t0 register_checkers"
  unfolding register_checkers_def
  by (intro safe_rules safe_still [OF still_setp]) 
     (simp add: same_profile_def same_ident_def profile_counts.simps split: body.splits)

lemma safe_loadConfiguration: "safe t0 (loadConfiguration rng c)"
  unfolding loadConfiguration_def loadTimeConfiguration_def loadTaggerConfiguration_def Let_def
  by (intro safe_rules safe_modify safe_load_profiles safe_register_checkers safe_still [OF still_cacheUpdate])
     (simp_all split: option.splits)

lemma safe_configure: "safe t0 (configure rng c)"
  unfolding configure_def by (intro safe_rules safe_modify safe_loadConfiguration) simp_all

lemma safe_tpm_reset: "safe 0 (tpm_reset rng)"
proof -
  have "safe 0 (modifyS tpm_clear)"
    by (rule preserves_modify) (simp add: engine_ok_def tpm_clear_def)
  moreover have "safe 0 (modifyS (\<lambda>s. s\<lparr>tp_stats := stats_reset (tp_stats s), tp_time := 0\<rparr>))"
    by (rule preserves_modify) (simp add: engine_ok_def)
  ultimately show ?thesis unfolding tpm_reset_def by (intro safe_rules safe_loadConfiguration)
qed

lemma safe_flush: "safe 0 (flush rng)"
  unfolding flush_def by (intro safe_rules safe_modify safe_tpm_reset) simp_all

lemma safe_collect:
  assumes "\<And>x. safe t0 (f x)"
  shows "safe t0 (collectS f xs)"
proof (induction xs)
  case (Cons x xs)
  show ?case unfolding collectS.simps by (intro safe_rules assms Cons)
qed (simp only: collectS.simps safe_return)

lemma safe_cloneStream: "safe t0 (cloneStream rng rt mid)"
  unfolding cloneStream_def clone_node_def Let_def
  by (intro safe_rules safe_collect safe_configureProfile safe_tables safe_register_checkers
      safe_still [OF still_getStream] safe_modify) (simp_all split: prod.splits)

lemma safe_uniqueStream: "safe t0 (uniqueStream rng rt mid)"
  unfolding uniqueStream_def
  by (intro safe_rules safe_tables safe_modify safe_cloneStream) simp_all

lemma safe_master_event: "safe t0 (master_event m e)"
  unfolding master_event_def by (intro safe_rules safe_catch safe_tpm_event)

section \<open>Sequences of calls\<close>

text \<open>
  The interface of the manager: a call that fails ends the sequence, as an error of the engine
  ends the program.
\<close>

datatype call =
  Configure configuration
| Send nat u64
| Receive u64 packet
| Loop nat nat
| Reset
| Flush
| ResetStream u64
| StreamTerminated u64
| ReconfigureStream u64 u64 u64 ptype
| CloneStream u64 u64
| UniqueStream u64 u64
| EventFor string event
| SetTime u64

definition exec :: "(tpm, 'a) comp \<Rightarrow> tpm \<Rightarrow> tpm res" where
  "exec m s = bindR (m s) (\<lambda>r. Inr (snd r))"

fun invoke :: "rng \<Rightarrow> call \<Rightarrow> tpm \<Rightarrow> tpm res" where
  "invoke rng (Configure c) = exec (configure rng c)"
| "invoke rng (Send n t) = exec (tpm_send rng n t)"
| "invoke rng (Receive t pk) = exec (tpm_receive rng t pk)"
| "invoke rng (Loop b n) = exec (tpm_loop rng b n)"
| "invoke rng Reset = exec (tpm_reset rng)"
| "invoke rng Flush = exec (flush rng)"
| "invoke rng (ResetStream rt) = exec (streamReset rt)"
| "invoke rng (StreamTerminated rt) = exec (streamTerminated rt)"
| "invoke rng (ReconfigureStream rt base limit ty) = exec (addressStreamReconfigure rt base limit ty)"
| "invoke rng (CloneStream rt mid) = exec (cloneStream rng rt mid)"
| "invoke rng (UniqueStream rt mid) = exec (uniqueStream rng rt mid)"
| "invoke rng (EventFor m e) = exec (master_event m e)"
| "invoke rng (SetTime t) = exec (setTime t)"

definition keeps_clock :: "call \<Rightarrow> bool" where
  "keeps_clock c \<longleftrightarrow> c \<noteq> Reset \<and> c \<noteq> Flush"

lemma exec_safe: "safe t0 m \<Longrightarrow> engine_ok t0 s \<Longrightarrow> exec m s = Inr t \<Longrightarrow> engine_ok t0 t"
  by (auto simp: exec_def bindR_eq_Inr dest: preservesD)

lemma still_addressReconfigure: "keeps still (addressStreamReconfigure rt base limit ty)"
  unfolding addressStreamReconfigure_def by (intro still_rules still_getStream still_reconfigure)

lemma invoke_ok:
  assumes "engine_ok t0 s" and "t0 = 0 \<or> keeps_clock c" and "invoke rng c s = Inr t"
  shows "engine_ok t0 t"
  using assms
  by (cases c)
     (auto simp: keeps_clock_def simp del: returnS_run elim!: exec_safe [rotated 2]
       intro: safe_configure safe_tpm_send safe_tpm_receive safe_tpm_loop safe_tpm_reset safe_flush
         safe_streamReset safe_cloneStream safe_uniqueStream safe_master_event safe_setTime
         safe_still [OF still_streamTerminated] safe_still [OF still_addressReconfigure])

interpretation engine: guarded_system "invoke rng" "\<lambda>c s. t0 = 0 \<or> keeps_clock c" "engine_ok t0" for rng t0
  by unfold_locales (rule invoke_ok)

lemma admissible_all: "list_all P cs \<Longrightarrow> admissible_run (\<lambda>c s. P c) step cs s"
  by (induction cs arbitrary: s) (auto split: sum.splits)

lemma new_engine_ok: "engine_ok 0 (tpm_new u0)"
  by (simp add: engine_ok_def tpm_new_def)

text \<open>
  C1. The engine keeps its masters within their limits. Start from a manager whose profiles are in
  order, a new one for instance, and make any sequence of calls: configurations, sends, receipts
  of any packets, runs of the main loop, resets, clones and reconfigurations of streams. If no call
  fails, every profile is stored under its own id with the role of its class, no master has sent
  more packets than it was configured for, and no master that still runs has more outstanding
  transactions than its limit allows.
\<close>

theorem engine_stays_in_limits:
  assumes "engine_ok 0 s" and "foldR (invoke rng) calls s = Inr t" and "prof i t = Inr (p, t')"
  shows "engine_ok 0 t \<and> pr_id p = i \<and> pr_role p = body_role (pr_body p)
    \<and> (\<forall>m. pr_body p = Master m \<longrightarrow>
        (ms_toSend m \<noteq> 0 \<longrightarrow> ms_sent m \<le> ms_toSend m)
        \<and> (ms_maxOt m \<noteq> 0 \<and> \<not> pr_terminated p \<longrightarrow> pr_ot p \<le> ms_maxOt m))
    \<and> engine_ok 0 (tpm_new u0)"
proof -
  have "engine_ok 0 t"
    by (rule engine.run_inv [OF assms(1) _ assms(2)]) (rule admissible_all, simp add: list_all_iff)
  moreover from this assms(3) have "profile_ok (unat i) p" by (auto simp: engine_ok_def prof_eq_Inr)
  ultimately show ?thesis using new_engine_ok
    by (auto simp: profile_ok_def in_limits_def profile_counts.simps split: body.splits)
qed

text \<open>
  C11. Time does not go back. Without a reset no sequence of calls moves the clock of the manager
  backwards, and a send or a receipt at an earlier time than the clock is refused with an error.
\<close>

theorem clock_never_goes_back:
  assumes "engine_ok 0 s" and "list_all keeps_clock calls" and "foldR (invoke rng) calls s = Inr t"
  shows "tp_time s \<le> tp_time t
    \<and> (\<forall>u < tp_time t. \<exists>e. tpm_send rng n u t = Inl e)
    \<and> (\<forall>u < tp_time t. \<exists>e. tpm_receive rng u pk t = Inl e)"
proof -
  have "engine_ok (tp_time s) s" using assms(1) by (simp add: engine_ok_def)
  then have "engine_ok (tp_time s) t"
    by (rule engine.run_inv [OF _ admissible_all assms(3)]) (use assms(2) in \<open>simp add: list_all_iff\<close>)
  then have "tp_time s \<le> tp_time t" by (simp add: engine_ok_def)
  moreover have "\<exists>e. tpm_send rng n u t = Inl e" if "u < tp_time t" for u
    using that by (simp add: tpm_send_def thenS_run bindS_def thenS_def)
  moreover have "\<exists>e. tpm_receive rng u pk t = Inl e" if "u < tp_time t" for u
    using that by (simp add: tpm_receive_def bindS_def)
  ultimately show ?thesis by blast
qed

lemma demo_ok: "engine_ok 0 demo"
  by (auto simp: engine_ok_def demo_def demo_cpu_def demo_pause_def demo_profile_def profile_ok_def
      in_limits_def profile_counts.simps demo_master_def nth_Cons split: nat.splits)

definition demo_calls :: "call list" where
  "demo_calls = [Send 4 0, SetTime 10, Send 4 40]"

lemma demo_calls_run: "case foldR (invoke low_rng) demo_calls demo of Inr t \<Rightarrow> tp_time t = 40
    \<and> (case prof 0 t of Inr (p, t') \<Rightarrow> pr_ot p = 1 | Inl e \<Rightarrow> False) | Inl e \<Rightarrow> False"
  by code_simp

theorem engine_stays_in_limits_witness:
  "\<exists>t p m. foldR (invoke low_rng) demo_calls demo = Inr t \<and> prof 0 t = Inr (p, t)
    \<and> pr_ot p = 1 \<and> pr_id p = 0"
proof -
  obtain t p where t: "foldR (invoke low_rng) demo_calls demo = Inr t" and p: "prof 0 t = Inr (p, t)" "pr_ot p = 1"
    using demo_calls_run by (auto split: sum.splits prod.splits simp: prof_eq_Inr)
  from engine_stays_in_limits [OF demo_ok t p(1)] t p show ?thesis by auto
qed

theorem clock_never_goes_back_witness:
  "\<exists>t. foldR (invoke low_rng) demo_calls demo = Inr t \<and> (\<exists>e. tpm_send low_rng 1 39 t = Inl e)"
proof -
  obtain t where t: "foldR (invoke low_rng) demo_calls demo = Inr t" and m: "tp_time t = 40"
    using demo_calls_run by (auto split: sum.splits)
  have "list_all keeps_clock demo_calls" by (simp add: demo_calls_def keeps_clock_def)
  from clock_never_goes_back [OF demo_ok this t, of 1] t m show ?thesis by simp
qed

end
