(* ===== verification/Stream_Laws.thy ===== *)
theory Stream_Laws
  imports Demo
begin

text \<open>
  The traversal behind \<^verbatim>\<open>getStream\<close>: it ends, and it finds every profile that is reachable from
  the root through awaited terminations, each one once.
\<close>

section \<open>Reachability\<close>

definition follows :: "tpm \<Rightarrow> (u64 \<times> u64) set" where
  "follows s = {(i, j). j \<in> set (followers s i)}"

definition stream_of :: "tpm \<Rightarrow> u64 \<Rightarrow> u64 set" where
  "stream_of s rt = {i. (rt, i) \<in> (follows s)\<^sup>*}"

lemma stream_of_root: "rt \<in> stream_of s rt"
  by (simp add: stream_of_def)

lemma stream_of_step: "i \<in> stream_of s rt \<Longrightarrow> j \<in> set (followers s i) \<Longrightarrow> j \<in> stream_of s rt"
  by (auto simp: stream_of_def follows_def intro: rtrancl_into_rtrancl)

lemma stream_of_closed:
  assumes "rt \<in> X" and "\<And>i j. i \<in> X \<Longrightarrow> j \<in> set (followers s i) \<Longrightarrow> j \<in> X"
  shows "stream_of s rt \<subseteq> X"
proof
  fix i
  assume "i \<in> stream_of s rt"
  then have "(rt, i) \<in> (follows s)\<^sup>*" by (simp add: stream_of_def)
  then show "i \<in> X" by induction (auto simp: follows_def assms)
qed

text \<open>
  The profiles visited are those that are done, in order, and then those in the queue. All are
  part of the stream, none occurs twice, and the followers of what is done have been visited.
\<close>

definition traversal :: "tpm \<Rightarrow> u64 \<Rightarrow> u64 list \<Rightarrow> u64 list \<Rightarrow> bool" where
  "traversal s rt fin queue \<longleftrightarrow> rt \<in> set (fin @ queue) \<and> distinct (fin @ queue)
    \<and> set (fin @ queue) \<subseteq> stream_of s rt
    \<and> (\<forall>i \<in> set fin. set (followers s i) \<subseteq> set (fin @ queue))"

lemma followers_cong:
  assumes "tp_waitEventMap t = tp_waitEventMap s"
  shows "followers t = followers s" and "is_leaf t = is_leaf s" and "stream_of t = stream_of s"
    and "traversal t = traversal s"
proof -
  show f: "followers t = followers s" and "is_leaf t = is_leaf s"
    by (rule ext, simp add: followers_def is_leaf_def assms)+
  show st: "stream_of t = stream_of s" by (rule ext) (simp add: stream_of_def follows_def f)
  show "traversal t = traversal s" by (intro ext) (simp add: traversal_def f st)
qed

section \<open>The queue\<close>

lemma enqueue_adds:
  "\<exists>new. enqueue xs queue visited = (queue @ new, visited @ new) \<and> distinct new
    \<and> set new = set xs - set visited"
proof (induction xs arbitrary: queue visited)
  case (Cons x xs)
  show ?case
  proof (cases "x \<in> set visited")
    case True
    with Cons [of queue visited] show ?thesis by auto
  next
    case False
    obtain new where "enqueue xs (queue @ [x]) (visited @ [x]) = (queue @ [x] @ new, visited @ [x] @ new)"
      and "distinct new" and "set new = set xs - set (visited @ [x])"
      using Cons [of "queue @ [x]" "visited @ [x]"] by auto
    with False show ?thesis by (intro exI [of _ "x # new"]) auto
  qed
qed simp

lemma traversal_step:
  assumes "traversal s rt fin (i # queue)"
    and "enqueue (followers s i) queue (fin @ i # queue) = (queue', visited')"
  shows "traversal s rt (fin @ [i]) queue' \<and> visited' = (fin @ [i]) @ queue'"
proof -
  obtain new where new: "queue' = queue @ new" "visited' = fin @ i # queue @ new" "distinct new"
    "set new = set (followers s i) - set (fin @ i # queue)"
    using enqueue_adds [of "followers s i" queue "fin @ i # queue"] assms(2) by auto
  moreover have "set new \<subseteq> stream_of s rt"
    using assms(1) new(4) stream_of_step [of i s rt] by (auto simp: traversal_def)
  ultimately show ?thesis using assms(1) by (auto simp: traversal_def)
qed

lemma traversal_end:
  assumes "traversal s rt fin []"
  shows "set fin = stream_of s rt"
proof
  show "set fin \<subseteq> stream_of s rt" using assms by (simp add: traversal_def)
  show "stream_of s rt \<subseteq> set fin"
    using assms by (intro stream_of_closed) (auto simp: traversal_def)
qed

lemma traversal_bound:
  assumes "traversal s rt fin queue" and "\<And>i. i \<in> stream_of s rt \<Longrightarrow> unat i < n"
  shows "length (fin @ queue) \<le> n"
proof -
  have "length (fin @ queue) = card (set (fin @ queue))"
    using assms(1) by (simp add: traversal_def distinct_card del: set_append)
  also have "\<dots> = card (unat ` set (fin @ queue))"
    by (rule card_image [symmetric]) (simp add: inj_on_def word_unat_eq_iff)
  also have "\<dots> \<le> card {..< n}"
    using assms by (intro card_mono) (auto simp: traversal_def)
  finally show ?thesis by simp
qed

section \<open>The loop\<close>

definition present :: "tpm \<Rightarrow> u64 \<Rightarrow> bool" where
  "present s i \<longleftrightarrow> unat i < length (tp_profiles s) \<and> tp_profiles s ! unat i \<noteq> None"

lemma present_setp: "setp j f s = Inr (x, t) \<Longrightarrow> present s i \<Longrightarrow> present t i"
  by (cases "unat j = unat i") (auto simp: present_def setp_run)

text \<open>One step of the loop marks the first of the queue and goes on with its followers.\<close>

lemma stream_loop_step:
  assumes tr: "traversal s rt fin (i # q)" and pres: "\<And>i. i \<in> stream_of s rt \<Longrightarrow> present s i" and v: "isValid rt"
    and cache: "map_of (tp_streamCache s) rt = Some (map (\<lambda>i. (i, is_leaf s i)) fin)"
  shows "\<exists>s' new. stream_loop (Suc n) rt (i # q) (fin @ i # q) s
      = stream_loop n rt (q @ new) ((fin @ [i]) @ q @ new) s'
    \<and> traversal s rt (fin @ [i]) (q @ new) \<and> tp_waitEventMap s' = tp_waitEventMap s
    \<and> length (tp_profiles s') = length (tp_profiles s) \<and> (\<forall>j. present s j \<longrightarrow> present s' j)
    \<and> map_of (tp_streamCache s') rt = Some (map (\<lambda>i. (i, is_leaf s i)) (fin @ [i]))"
proof -
  obtain queue' visited' where e: "enqueue (followers s i) q (fin @ i # q) = (queue', visited')"
    by (cases "enqueue (followers s i) q (fin @ i # q)")
  from traversal_step [OF _ e, of rt] tr
  have tr': "traversal s rt (fin @ [i]) queue'" and vis: "visited' = (fin @ [i]) @ queue'" by auto
  obtain new where new: "queue' = q @ new" using enqueue_adds [of "followers s i" q "fin @ i # q"] e by auto
  have "i \<in> stream_of s rt" using tr by (simp add: traversal_def)
  then obtain p where p: "prof i s = Inr (p, s)" using pres by (auto simp: present_def prof_eq_Inr)
  define f where "f p = p\<lparr>pr_streamId := rt,
      pr_tagger := Some ((the_default (tagger_new 0) (pr_tagger p))\<lparr>tg_stream_id := rt\<rparr>)\<rparr>" for p :: profile
  define s1 where "s1 = s\<lparr>tp_profiles := (tp_profiles s)[unat i := map_option f (tp_profiles s ! unat i)]\<rparr>"
  define s2 where "s2 = s1\<lparr>tp_streamCache := AList.update rt
         (the_default [] (map_of (tp_streamCache s1) rt) @ [(i, is_leaf s i)]) (tp_streamCache s1),
       tp_streamLeavesCache := (if is_leaf s i
         then AList.update rt (the_default [] (map_of (tp_streamLeavesCache s1) rt) @ [i]) (tp_streamLeavesCache s1)
         else tp_streamLeavesCache s1)\<rparr>"
  have a: "addToStream rt i s = Inr ((), s1)"
    using v p by (simp add: addToStream_def bindS_run [where m = "prof i", OF p] setp_run s1_def f_def [abs_def])
  have ls: "is_leaf s1 = is_leaf s" by (rule followers_cong(2)) (simp add: s1_def)
  have "stream_loop (Suc n) rt (i # q) (fin @ i # q) s = stream_loop n rt queue' ((fin @ [i]) @ queue') s2"
    unfolding stream_loop.simps
    by (simp add: bindS_def e vis thenS_run [where m = "addToStream rt i", OF a] s2_def) (simp add: thenS_def bindS_def ls)
  moreover have "present s2 j" if "present s j" for j
    using present_setp [of i f s "()" s1 j] that by (simp add: setp_run s1_def) (simp add: present_def s2_def s1_def)
  moreover have "map_of (tp_streamCache s2) rt = Some (map (\<lambda>i. (i, is_leaf s i)) (fin @ [i]))"
    using cache by (simp add: s2_def s1_def)
  ultimately show ?thesis using tr' by (intro exI [of _ s2] exI [of _ new]) (simp add: new s2_def s1_def)
qed

lemma stream_loop_complete:
  assumes "traversal s rt fin queue" and "\<And>i. i \<in> stream_of s rt \<Longrightarrow> present s i" and "isValid rt"
    and "length (tp_profiles s) \<le> n + length fin"
    and "map_of (tp_streamCache s) rt = Some (map (\<lambda>i. (i, is_leaf s i)) fin)"
  shows "\<exists>t rest. stream_loop n rt queue (fin @ queue) s = Inr ((), t)
    \<and> tp_waitEventMap t = tp_waitEventMap s \<and> length (tp_profiles t) = length (tp_profiles s)
    \<and> map_of (tp_streamCache t) rt = Some (map (\<lambda>i. (i, is_leaf s i)) (fin @ queue @ rest))
    \<and> distinct (fin @ queue @ rest) \<and> set (fin @ queue @ rest) = stream_of s rt"
  using assms
proof (induction n arbitrary: s fin queue)
  case 0
  have "length (fin @ queue) \<le> length (tp_profiles s)"
    by (rule traversal_bound [OF 0(1)]) (use 0(2) in \<open>simp add: present_def\<close>)
  then have "length queue = 0" using 0(4) unfolding length_append by linarith
  then have "queue = []" by simp
  with 0(1) have "set fin = stream_of s rt" "distinct fin" by (simp_all add: traversal_end) (simp add: traversal_def)
  with 0(5) \<open>queue = []\<close> show ?case by simp
next
  case (Suc n)
  show ?case
  proof (cases queue)
    case Nil
    with Suc.prems(1) have "set fin = stream_of s rt" "distinct fin" by (simp_all add: traversal_end) (simp add: traversal_def)
    with Suc.prems(5) Nil show ?thesis by simp
  next
    case (Cons i q)
    from stream_loop_step [of s rt fin i q n] Suc.prems Cons obtain s' new where
      run: "stream_loop (Suc n) rt queue (fin @ queue) s = stream_loop n rt (q @ new) ((fin @ [i]) @ q @ new) s'"
      and tr: "traversal s rt (fin @ [i]) (q @ new)" and w: "tp_waitEventMap s' = tp_waitEventMap s"
        "length (tp_profiles s') = length (tp_profiles s)" and pr: "\<And>j. present s j \<Longrightarrow> present s' j"
      and cache: "map_of (tp_streamCache s') rt = Some (map (\<lambda>i. (i, is_leaf s i)) (fin @ [i]))" by blast
    note eq = followers_cong [OF w(1)]
    have "\<exists>t rest. stream_loop n rt (q @ new) ((fin @ [i]) @ q @ new) s' = Inr ((), t)
      \<and> tp_waitEventMap t = tp_waitEventMap s' \<and> length (tp_profiles t) = length (tp_profiles s')
      \<and> map_of (tp_streamCache t) rt = Some (map (\<lambda>i. (i, is_leaf s' i)) ((fin @ [i]) @ (q @ new) @ rest))
      \<and> distinct ((fin @ [i]) @ (q @ new) @ rest) \<and> set ((fin @ [i]) @ (q @ new) @ rest) = stream_of s' rt"
      by (rule Suc.IH [OF _ _ Suc.prems(3)]) (use tr cache pr w Suc.prems in \<open>simp_all add: eq\<close>)
    then obtain t rest where "stream_loop n rt (q @ new) ((fin @ [i]) @ q @ new) s' = Inr ((), t)"
      "tp_waitEventMap t = tp_waitEventMap s" "length (tp_profiles t) = length (tp_profiles s)"
      "map_of (tp_streamCache t) rt = Some (map (\<lambda>i. (i, is_leaf s i)) (fin @ queue @ new @ rest))"
      "distinct (fin @ queue @ new @ rest)" "set (fin @ queue @ new @ rest) = stream_of s rt"
      unfolding w eq Cons by auto
    then show ?thesis unfolding run by blast
  qed
qed

section \<open>Streams\<close>

text \<open>
  C9. The stream of a root is complete. When the profiles that follow one another from a root are
  all built, \<^verbatim>\<open>getStream\<close> of a root that is not cached returns: its traversal needs no more steps than
  there are profiles, whatever cycles the awaited terminations form. The result starts with the
  root, lists each profile reachable through awaited terminations exactly once and nothing else,
  tells for each whether it is a leaf, and is what the cache holds from then on.
\<close>

theorem getStream_finds_reachable:
  assumes "isValid rt" and "\<And>i. i \<in> stream_of s rt \<Longrightarrow> present s i"
    and "map_of (tp_streamCache s) rt = None"
  shows "\<exists>is t. getStream rt s = Inr (map (\<lambda>i. (i, is_leaf s i)) (rt # is), t)
    \<and> distinct (rt # is) \<and> set (rt # is) = stream_of s rt
    \<and> getStream rt t = Inr (map (\<lambda>i. (i, is_leaf s i)) (rt # is), t)"
proof -
  let ?s = "s\<lparr>tp_streamCache := AList.update rt [] (tp_streamCache s)\<rparr>"
  have w: "tp_waitEventMap ?s = tp_waitEventMap s" by simp
  note eq = followers_cong [OF w]
  have "present s rt" using assms(2) stream_of_root by blast
  then have l: "unat rt < length (tp_profiles s)" by (simp add: present_def)
  have "\<exists>t rest. stream_loop (length (tp_profiles s)) rt [rt] ([] @ [rt]) ?s = Inr ((), t)
    \<and> tp_waitEventMap t = tp_waitEventMap ?s \<and> length (tp_profiles t) = length (tp_profiles ?s)
    \<and> map_of (tp_streamCache t) rt = Some (map (\<lambda>i. (i, is_leaf ?s i)) ([] @ [rt] @ rest))
    \<and> distinct ([] @ [rt] @ rest) \<and> set ([] @ [rt] @ rest) = stream_of ?s rt"
  proof (rule stream_loop_complete)
    show "traversal ?s rt [] [rt]" by (simp add: traversal_def stream_of_root)
    show "present ?s i" if "i \<in> stream_of ?s rt" for i
      using assms(2) [of i] that by (simp add: eq present_def)
  qed (use assms(1) in simp_all)
  then obtain t rest where t: "stream_loop (length (tp_profiles s)) rt [rt] [rt] ?s = Inr ((), t)"
    and c: "map_of (tp_streamCache t) rt = Some (map (\<lambda>i. (i, is_leaf s i)) (rt # rest))"
    and d: "distinct (rt # rest)" "set (rt # rest) = stream_of s rt"
    and lt: "length (tp_profiles t) = length (tp_profiles s)"
    by (auto simp: eq)
  have "getStream rt s = Inr (map (\<lambda>i. (i, is_leaf s i)) (rt # rest), t)"
    using l assms(3) t c by (simp add: getStream_def bindS_def thenS_def)
  moreover have "getStream rt t = Inr (map (\<lambda>i. (i, is_leaf s i)) (rt # rest), t)"
    using l lt c by (simp add: getStream_def bindS_def thenS_def)
  ultimately show ?thesis using d by blast
qed

lemma demo_stream: "stream_of demo 0 = {0, 2}"
proof
  have f: "followers demo 0 = [2]" "followers demo 2 = []"
    by (simp_all add: followers_def demo_def)
  show "stream_of demo 0 \<subseteq> {0, 2}" by (rule stream_of_closed) (auto simp: f)
  show "{0, 2} \<subseteq> stream_of demo 0" using stream_of_root stream_of_step [of 0 demo 0 2] by (simp add: f)
qed

lemma demo_fresh: "map_of (tp_streamCache demo) 0 = None"
  by (simp add: demo_def tpm_new_def)

theorem getStream_finds_reachable_witness:
  "\<exists>t. getStream 0 demo = Inr ([(0, False), (2, True)], t)"
proof -
  have "present demo 0 \<and> present demo 2" by (simp add: present_def demo_def)
  then have "present demo i" if "i \<in> stream_of demo 0" for i
    using that by (auto simp: demo_stream)
  then obtain js t where g: "getStream 0 demo = Inr (map (\<lambda>i. (i, is_leaf demo i)) (0 # js), t)"
    and d: "distinct (0 # js)" "set (0 # js) = {0, 2}"
    using getStream_finds_reachable [of 0 demo] demo_fresh by (auto simp: demo_stream isValid_def invalid_id_def)
  have "set js = set (0 # js) - {0}" using d(1) by simp
  then have "set js = {2}" unfolding d(2) by auto
  moreover have "distinct js" using d by simp
  ultimately have "js = [2]" by (cases js; cases "tl js") auto
  moreover have "\<not> is_leaf demo 0" "is_leaf demo 2" by (simp_all add: is_leaf_def demo_def)
  ultimately show ?thesis using g by simp
qed

end
