(* ===== verification/Slave_Laws.thy ===== *)
theory Slave_Laws
  imports Engine_Laws
begin

text \<open>
  A slave is a timed queue: an accepted request puts its response at the end, to be sent when the
  latency has passed; responses leave in order and never early.
\<close>

section \<open>The abstract queue\<close>

text \<open>Sending: the first response, if its time has come. The next time is that of the new first one.\<close>

definition tq_send :: "u64 \<Rightarrow> packet list \<Rightarrow> packet option \<times> packet list" where
  "tq_send t q = (case q of [] \<Rightarrow> (None, []) | r # rs \<Rightarrow> if pk_time r \<le> t then (Some r, rs) else (None, r # rs))"

definition tq_next :: "packet list \<Rightarrow> u64" where
  "tq_next q = (case q of [] \<Rightarrow> 0 | r # rs \<Rightarrow> pk_time r)"

definition response_to :: "u64 \<Rightarrow> packet \<Rightarrow> packet" where
  "response_to t pk = pk\<lparr>pk_cmd := (if pk_cmd pk = READ_REQ then READ_RESP else WRITE_RESP), pk_time := t\<rparr>"

section \<open>What events and FIFOs leave alone\<close>

definition slave_of :: "profile \<Rightarrow> slave option" where
  "slave_of p = (case pr_body p of Slave v \<Rightarrow> Some v | _ \<Rightarrow> None)"

lemma slave_of_Some [simp]: "slave_of p = Some v \<longleftrightarrow> pr_body p = Slave v"
  by (simp add: slave_of_def split: body.splits)

definition serving :: "tpm \<Rightarrow> slave option option list \<times> (u64 \<times> u64 \<times> u64) list \<times> u64" where
  "serving s = (map (map_option slave_of) (tp_profiles s), tp_waitedRequest s, tp_time s)"

interpretation same: step_relation "\<lambda>s t. serving s = serving t"
  by unfold_locales simp_all

lemma same_quiet: "keeps (\<lambda>s t. view s = view t) m \<Longrightarrow> keeps (\<lambda>s t. serving s = serving t) m"
proof (erule keeps_mono [rotated])
  fix s t
  assume v: "view s = view t"
  have q: "slave_of (quiet_profile p) = slave_of p" for p
    by (simp add: slave_of_def quiet_profile_def on_master_def split: body.splits)
  have "map (map_option quiet_profile) (tp_profiles s) = map (map_option quiet_profile) (tp_profiles t)"
    using arg_cong [OF v, of tp_profiles] by (simp add: view_def)
  from arg_cong [OF this, of "map (map_option slave_of)"]
  have "map (map_option slave_of) (tp_profiles s) = map (map_option slave_of) (tp_profiles t)"
    by (simp add: option.map_comp comp_def q)
  moreover have "tp_waitedRequest s = tp_waitedRequest t"
    using arg_cong [OF v, of tp_waitedRequest] by (simp add: view_def)
  ultimately show "serving s = serving t" using view_eqD(2) [OF v] by (simp add: serving_def)
qed

lemma serving_setp: "setp i f s = Inr (x, t) \<Longrightarrow>
    serving t = ((map (map_option slave_of) (tp_profiles s))
      [unat i := map_option (slave_of \<circ> f) (tp_profiles s ! unat i)], tp_waitedRequest s, tp_time s)"
  by (auto simp: setp_run serving_def map_update option.map_comp)

lemma same_setp:
  assumes "\<And>p. slave_of (f p) = slave_of p"
  shows "keeps (\<lambda>s t. serving s = serving t) (setp i f)"
proof (rule keepsI)
  fix s x t
  assume t: "setp i f s = Inr (x, t)"
  have "slave_of \<circ> f = slave_of" using assms by auto
  with serving_setp [OF t] show "serving s = serving t"
    by (cases "unat i < length (tp_profiles s)")
       (simp_all add: serving_def list_update_beyond map_update [symmetric])
qed

lemma same_fifo_send: "keeps (\<lambda>s t. serving s = serving t) (fifo_send_call i t d)"
  unfolding fifo_send_call_def
  by (intro same.keeps_all same_quiet [OF quiet_prof] same_setp same_quiet [OF quiet_fifo_event])
     (simp add: slave_of_def)

lemma same_fifo_receive: "keeps (\<lambda>s t. serving s = serving t) (fifo_receive_call i t d)"
  unfolding fifo_receive_call_def
  by (intro same.keeps_all same_quiet [OF quiet_prof] same_setp same_quiet [OF quiet_fifo_event])
     (simp add: slave_of_def)

lemmas same_run = keepsD [where R = "\<lambda>s t. serving s = serving t"]

definition slave_state :: "u64 \<Rightarrow> tpm \<Rightarrow> slave option" where
  "slave_state i s = (if unat i < length (tp_profiles s)
     then (case tp_profiles s ! unat i of None \<Rightarrow> None | Some p \<Rightarrow> slave_of p) else None)"

lemma slave_state_at: "slave_state i s = Some v \<longleftrightarrow> (\<exists>p. slave_at i s = Inr ((p, v), s))"
  by (auto simp: slave_state_def slave_at_eq split: option.splits)

lemma serving_slave_state:
  assumes "serving s = serving t"
  shows "slave_state i s = slave_state i t" and "tp_waitedRequest s = tp_waitedRequest t" and "tp_time s = tp_time t"
proof -
  have m: "map (map_option slave_of) (tp_profiles s) = map (map_option slave_of) (tp_profiles t)"
    using assms by (simp add: serving_def)
  have j: "(case x of None \<Rightarrow> None | Some p \<Rightarrow> slave_of p)
      = (case map_option slave_of x of None \<Rightarrow> None | Some y \<Rightarrow> y)" for x
    by (cases x) simp_all
  have l: "length (tp_profiles s) = length (tp_profiles t)" using m by (metis length_map)
  show "slave_state i s = slave_state i t"
    using arg_cong [OF m, of "\<lambda>xs. xs ! unat i"] l
    by (cases "unat i < length (tp_profiles t)") (simp_all add: slave_state_def j)
  show "tp_waitedRequest s = tp_waitedRequest t" "tp_time s = tp_time t" using assms by (simp_all add: serving_def)
qed

lemma slave_state_set:
  assumes "setp i (on_slave f) s = Inr (x, t)" and "slave_state i s = Some v"
  shows "slave_state i t = Some (f v) \<and> tp_waitedRequest t = tp_waitedRequest s \<and> tp_time t = tp_time s"
proof -
  from assms(2) obtain p where "unat i < length (tp_profiles s)" "tp_profiles s ! unat i = Some p" "pr_body p = Slave v"
    by (auto simp: slave_state_def split: if_splits option.splits)
  with assms(1) show ?thesis by (auto simp: setp_run slave_state_def on_slave_def)
qed

section \<open>The operations\<close>

lemma slave_at_state: "slave_at i s = Inr ((p, v), u) \<Longrightarrow> u = s \<and> slave_state i s = Some v"
  by (auto simp: slave_at_eq slave_state_def)

lemma slave_send_result:
  assumes r: "slave_send i s = Inr ((ok, locked, out, next), t)" and v: "slave_state i s = Some v"
  shows "\<exists>w. slave_state i t = Some w \<and> tq_send (tp_time s) (sv_responses v) = (out, sv_responses w)
    \<and> ok = (out \<noteq> None) \<and> next = tq_next (sv_responses w)"
proof -
  obtain p where p: "slave_at i s = Inr ((p, v), s)" using v by (auto simp: slave_state_at)
  show ?thesis
  proof (cases "sv_responses v")
    case Nil
    with r p v show ?thesis
      by (auto simp: slave_send_def bindS_run [where m = "slave_at i", OF p] tq_send_def tq_next_def)
         (auto simp: bindS_def p)
  next
    case (Cons x xs)
    obtain u q w where u: "whenS (pk_time x \<le> tp_time s)
          (thenS (setp i (on_slave (\<lambda>v. v\<lparr>sv_responses := xs\<rparr>)))
          (bindS (liftS (slave_units v (pk_size x))) (\<lambda>n.
           thenS (fifo_receive_call i (tp_time s) n) (returnS ())))) s = Inr ((), u)"
      and q: "slave_at i u = Inr ((q, w), t)"
      and e: "ok = (pk_time x \<le> tp_time s)" "out = (if ok then Some x else None)"
        "next = (if sv_responses w = [] then 0 else pk_time (hd (sv_responses w)))"
      using r unfolding slave_send_def
      by (auto simp: bindS_run [where m = getTime, OF getTime_run] bindS_run [where m = "slave_at i", OF p]
            Cons Let_def elim!: thenSE bindSE)
    from slave_at_state [OF q] have t: "t = u" "slave_state i u = Some w" by auto
    show ?thesis
    proof (cases "pk_time x \<le> tp_time s")
      case False
      with u t v have "w = v" "t = s" by simp_all
      with e False Cons v show ?thesis by (auto simp: tq_send_def tq_next_def)
    next
      case True
      with u obtain s1 where s1: "setp i (on_slave (\<lambda>v. v\<lparr>sv_responses := xs\<rparr>)) s = Inr ((), s1)"
        and b: "bindS (liftS (slave_units v (pk_size x))) (\<lambda>n.
           thenS (fifo_receive_call i (tp_time s) n) (returnS ())) s1 = Inr ((), u)"
        by (auto elim!: thenSE)
      have "serving s1 = serving u"
        by (rule same_run [where m = "bindS (liftS (slave_units v (pk_size x))) (\<lambda>n.
           thenS (fifo_receive_call i (tp_time s) n) (returnS ()))", OF _ b])
           (intro same.keeps_all same_fifo_receive)
      with slave_state_set [OF s1 v] t have "w = v\<lparr>sv_responses := xs\<rparr>"
        using serving_slave_state(1) [of s1 u i] by simp
      with e True Cons t show ?thesis
        by (cases xs) (auto simp: tq_send_def tq_next_def)
    qed
  qed
qed

lemma first_response_eq: "first_response i s = Inr (r, t) \<longleftrightarrow>
    t = s \<and> (\<exists>v. slave_state i s = Some v
      \<and> r = (case sv_responses v of [] \<Rightarrow> None | r # rs \<Rightarrow> Some (pk_time r)))"
  by (auto simp: first_response_def bindS_eq_Inr slave_state_at dest: slave_at_state)

text \<open>
  The two halves of \<^verbatim>\<open>receive\<close>: a slave that is not locked asks its FIFO, then it answers. The
  refusals: a locked slave does not ask its FIFO.
\<close>

abbreviation slave_locked :: "profile \<Rightarrow> slave \<Rightarrow> bool" where
  "slave_locked p v \<equiv> sv_maxOt v \<le> fifo_getOt (pr_fifo p) \<and> 0 < sv_maxOt v"

abbreviation slave_asks :: "u64 \<Rightarrow> bool \<Rightarrow> u64 \<Rightarrow> u64 \<Rightarrow> (tpm, bool \<times> u64) comp" where
  "slave_asks i locked now n \<equiv> if \<not> locked
     then bindS (fifo_send_call i now n) (\<lambda>(ok, u, ov, next, rt). returnS (ok, next)) else returnS (False, 0)"

abbreviation slave_answers :: "rng \<Rightarrow> u64 \<Rightarrow> packet \<Rightarrow> profile \<Rightarrow> u64 \<Rightarrow> bool \<Rightarrow> bool \<Rightarrow> u64 \<Rightarrow> (tpm, bool \<times> u64) comp" where
  "slave_answers rng i pk p now locked ok nx \<equiv> if ok then
       bindS (response_latency rng i) (\<lambda>latency.
       thenS (setp i (on_slave (\<lambda>v. v\<lparr>sv_responses := sv_responses v @ [response_to (now + latency) pk]\<rparr>)))
          (bindS (first_response i) (\<lambda>r.
           thenS (signal (pr_id p) (pk_uid pk) REQUEST)
           (returnS (True, the_default 0 r)))))
     else
       bindS (first_response i) (\<lambda>r.
       thenS (wait (pr_id p) now (pk_uid pk) REQUEST)
       (returnS (False, case r of None \<Rightarrow> nx | Some x \<Rightarrow> if locked \<or> nx = 0 then x else nx)))"

lemma slave_receive_halves:
  assumes r: "slave_receive rng i pk s = Inr ((ok, next), t)" and p: "slave_at i s = Inr ((p, v), s)"
  shows "(pk_cmd pk = READ_REQ \<or> pk_cmd pk = WRITE_REQ)
    \<and> (\<exists>n nx u. slave_units v (pk_size pk) = Inr n
        \<and> slave_asks i (slave_locked p v) (tp_time s) n s = Inr ((ok, nx), u)
        \<and> slave_answers rng i pk p (tp_time s) (slave_locked p v) ok nx u = Inr ((ok, next), t))"
proof -
  let ?check = "whenS (pk_cmd pk \<noteq> READ_REQ \<and> pk_cmd pk \<noteq> WRITE_REQ) (failS (ErrorExit ''TrafficProfileSlave::receive''))"
  let ?ask = "\<lambda>n. slave_asks i (slave_locked p v) (tp_time s) n"
  let ?answer = "slave_answers rng i pk p (tp_time s) (slave_locked p v)"
  have sa: "slave_active i s = Inr ((\<not> slave_locked p v, slave_locked p v), s)"
    by (simp add: slave_active_def bindS_run [where m = "slave_at i", OF p] Let_def)
  obtain n where units: "slave_units v (pk_size pk) = Inr n" and n: "thenS ?check (bindS (slave_active i) (\<lambda>(act, locked).
     bindS (if act then bindS (fifo_send_call i (tp_time s) n) (\<lambda>(ok, u, ov, next, rt). returnS (ok, next))
            else returnS (False, 0)) (\<lambda>(ok, nx). slave_answers rng i pk p (tp_time s) locked ok nx))) s = Inr ((ok, next), t)"
    using r unfolding slave_receive_def Let_def response_to_def bindS_run [where m = getTime, OF getTime_run]
      bindS_run [where m = "slave_at i", OF p] split
    by (elim bindSE) (simp add: liftS_eq_Inr)
  have cmd: "pk_cmd pk = READ_REQ \<or> pk_cmd pk = WRITE_REQ"
    using n by (rule thenSE) (auto simp: whenS_def split: if_split_asm)
  then have w: "?check s = Inr ((), s)" by auto
  from n have r: "bindS (?ask n) (\<lambda>(ok, nx). ?answer ok nx) s = Inr ((ok, next), t)"
    unfolding thenS_run [where m = ?check, OF w] bindS_run [where m = "slave_active i", OF sa] split .
  from r obtain ok' nx u where f: "?ask n s = Inr ((ok', nx), u)" and c: "?answer ok' nx u = Inr ((ok, next), t)"
    by (elim bindSE) (simp only: split_paired_all split)
  have "ok' = ok" using c by (cases ok') (auto elim!: bindSE thenSE)
  with f c cmd units show ?thesis by blast
qed

text \<open>The FIFO grants the units of a packet when it has room for them after its update.\<close>

definition slave_has_room :: "u64 \<Rightarrow> profile \<Rightarrow> slave \<Rightarrow> packet \<Rightarrow> bool" where
  "slave_has_room t p v pk \<longleftrightarrow> (\<exists>n u ov f. slave_units v (pk_size pk) = Inr n
     \<and> fifo_update t (pr_fifo p) = Inr (u, ov, f) \<and> can_send n f)"

lemma fifo_send_granted:
  "fifo_send t n f = Inr (ok, u, ov, nx, rt, f') \<Longrightarrow> \<exists>u ov f1. fifo_update t f = Inr (u, ov, f1) \<and> ok = can_send n f1"
  unfolding fifo_send_def Let_def by (auto elim!: bindRE split: prod.splits if_splits)

lemma slave_asks_room:
  assumes p: "slave_at i s = Inr ((p, v), s)" and n: "slave_units v (pk_size pk) = Inr n"
    and r: "slave_asks i locked now n s = Inr ((ok, nx), u)"
  shows "ok \<longleftrightarrow> \<not> locked \<and> slave_has_room now p v pk"
proof (cases locked)
  case False
  have prof: "prof i s = Inr (p, s)" using p by (auto simp: slave_at_eq prof_def)
  from r False obtain a b c rt f where "fifo_send now n (pr_fifo p) = Inr (ok, a, b, c, rt, f)"
    by (auto simp: fifo_send_call_def prof liftS_eq_Inr elim!: bindSE thenSE)
  from fifo_send_granted [OF this] n False show ?thesis by (auto simp: slave_has_room_def)
qed (use r in simp)

lemma slave_asks_serving:
  assumes "slave_asks i locked now n s = Inr (x, u)"
  shows "serving s = serving u"
proof (cases locked)
  case False
  have "keeps (\<lambda>s t. serving s = serving t)
      (bindS (fifo_send_call i now n) (\<lambda>(ok, u, ov, next, rt). returnS (ok, next)))"
    by (intro same.keeps_all same_fifo_send)
  with assms False show ?thesis by (auto intro: same_run)
qed (use assms in simp)

lemma slave_refusal:
  assumes "slave_answers rng i pk p now locked False nx u = Inr ((ok, next), t)"
  shows "slave_state i t = slave_state i u \<and> map_of (tp_waitedRequest t) (pk_uid pk) \<noteq> None"
proof -
  from assms obtain x where "wait (pr_id p) now (pk_uid pk) REQUEST u = Inr ((), t)"
    by (auto elim!: bindSE thenSE simp: first_response_def slave_at_eq)
  then show ?thesis by (auto simp: wait_def slave_state_def wait_table_def)
qed

lemma slave_acceptance:
  assumes c: "slave_answers rng i pk p now locked True nx u = Inr ((True, next), t)"
    and v: "slave_state i u = Some v" and l: "sv_latency v = LatencyStatic lat"
  defines "w \<equiv> v\<lparr>sv_responses := sv_responses v @ [response_to (now + lat) pk]\<rparr>"
  shows "slave_state i t = Some w \<and> next = tq_next (sv_responses w) \<and> map_of (tp_waitedRequest t) (pk_uid pk) = None"
proof -
  from v obtain q where q: "slave_at i u = Inr ((q, v), u)" by (auto simp: slave_state_at)
  have lat: "response_latency rng i u = Inr (lat, u)"
    by (simp add: response_latency_def bindS_run [where m = "slave_at i", OF q] l)
  obtain u1 rr where u1: "setp i (on_slave (\<lambda>v. v\<lparr>sv_responses := sv_responses v @ [response_to (now + lat) pk]\<rparr>)) u = Inr ((), u1)"
    and rr: "first_response i u1 = Inr (rr, u1)" and t: "signal (pr_id p) (pk_uid pk) REQUEST u1 = Inr ((), t)"
    and nx: "next = the_default 0 rr"
    using c by (auto simp: bindS_run [where m = "response_latency rng i", OF lat] first_response_eq
        elim!: bindSE thenSE)
  have "slave_state i u1 = Some w" using slave_state_set [OF u1 v] by (simp add: w_def)
  moreover have "slave_state i t = slave_state i u1" "map_of (tp_waitedRequest t) (pk_uid pk) = None"
    using t by (auto simp: signal_def slave_state_def)
  ultimately show ?thesis using rr nx by (auto simp: first_response_eq tq_next_def split: list.splits)
qed

lemma slave_receive_result:
  assumes r: "slave_receive rng i pk s = Inr ((ok, next), t)" and p: "slave_at i s = Inr ((p, v), s)"
    and l: "sv_latency v = LatencyStatic lat"
  shows "\<exists>w. slave_state i t = Some w \<and> (pk_cmd pk = READ_REQ \<or> pk_cmd pk = WRITE_REQ)
    \<and> (ok \<longleftrightarrow> \<not> slave_locked p v \<and> slave_has_room (tp_time s) p v pk)
    \<and> (if ok then sv_responses w = sv_responses v @ [response_to (tp_time s + lat) pk]
          \<and> next = tq_next (sv_responses w)
          \<and> map_of (tp_waitedRequest t) (pk_uid pk) = None
        else sv_responses w = sv_responses v \<and> map_of (tp_waitedRequest t) (pk_uid pk) \<noteq> None)"
proof -
  obtain n nx u where units: "slave_units v (pk_size pk) = Inr n" and cmd: "pk_cmd pk = READ_REQ \<or> pk_cmd pk = WRITE_REQ"
    and f: "slave_asks i (slave_locked p v) (tp_time s) n s = Inr ((ok, nx), u)"
    and c: "slave_answers rng i pk p (tp_time s) (slave_locked p v) ok nx u = Inr ((ok, next), t)"
    using slave_receive_halves [OF r p] by blast
  note room = slave_asks_room [OF p units f]
  have v: "slave_state i u = Some v"
    using slave_at_state [OF p] serving_slave_state [OF slave_asks_serving [OF f]] by simp
  show ?thesis
  proof (cases ok)
    case False
    with c have "slave_answers rng i pk p (tp_time s) (slave_locked p v) False nx u = Inr ((False, next), t)" by simp
    from slave_refusal [OF this] False v cmd room show ?thesis by (intro exI [of _ v]) simp
  next
    case True
    with c have "slave_answers rng i pk p (tp_time s) (slave_locked p v) True nx u = Inr ((True, next), t)" by simp
    from slave_acceptance [OF this v l] True cmd room show ?thesis
      by (intro exI [of _ "v\<lparr>sv_responses := sv_responses v @ [response_to (tp_time s + lat) pk]\<rparr>"]) simp
  qed
qed

section \<open>Refinement\<close>

text \<open>
  C25. A slave with a static latency refines a timed queue. \<^verbatim>\<open>active\<close> says whether the slave is locked by its limit of
  outstanding transactions. A request is accepted exactly when the slave is not locked and its FIFO, updated to the
  present, has room for the request in units of the slave's width. An accepted request puts its response at the end of the queue,
  stamped with the current time plus the latency, and is no longer waited for; a refused one leaves the queue as it was
  and is waited for. Only read and write requests are received at all. Sending takes the first response if its
  time has come and nothing otherwise, so responses leave in the order of their requests and never early;
  and both tell when the first response that is left will be due.
\<close>

theorem slave_refines_timed_queue:
  assumes "slave_at i s = Inr ((p, v), s)" and "sv_latency v = LatencyStatic lat"
  shows "slave_active i s = Inr ((\<not> slave_locked p v, slave_locked p v), s)
    \<and> (slave_receive rng i pk s = Inr ((ok, next), t) \<longrightarrow>
      (pk_cmd pk = READ_REQ \<or> pk_cmd pk = WRITE_REQ)
      \<and> (ok \<longleftrightarrow> \<not> slave_locked p v \<and> slave_has_room (tp_time s) p v pk)
      \<and> (\<exists>q w. slave_at i t = Inr ((q, w), t)
        \<and> (if ok then sv_responses w = sv_responses v @ [response_to (tp_time s + lat) pk]
            \<and> next = tq_next (sv_responses w) \<and> map_of (tp_waitedRequest t) (pk_uid pk) = None
          else sv_responses w = sv_responses v \<and> map_of (tp_waitedRequest t) (pk_uid pk) \<noteq> None)))
    \<and> (slave_send i s = Inr ((sent, locked, out, due), u) \<longrightarrow>
      (\<exists>q w. slave_at i u = Inr ((q, w), u) \<and> (out, sv_responses w) = tq_send (tp_time s) (sv_responses v)
        \<and> sent = (out \<noteq> None) \<and> due = tq_next (sv_responses w)))"
proof (intro conjI [of "slave_active i s = _"] conjI [of "_ \<longrightarrow> _"] impI)
  show "slave_active i s = Inr ((\<not> slave_locked p v, slave_locked p v), s)"
    by (simp add: slave_active_def bindS_run [where m = "slave_at i", OF assms(1)] Let_def)
next
  assume "slave_receive rng i pk s = Inr ((ok, next), t)"
  from slave_receive_result [OF this assms]
  obtain w where w: "slave_state i t = Some w" "pk_cmd pk = READ_REQ \<or> pk_cmd pk = WRITE_REQ"
    "ok \<longleftrightarrow> \<not> slave_locked p v \<and> slave_has_room (tp_time s) p v pk"
    "if ok then sv_responses w = sv_responses v @ [response_to (tp_time s + lat) pk]
          \<and> next = tq_next (sv_responses w) \<and> map_of (tp_waitedRequest t) (pk_uid pk) = None
        else sv_responses w = sv_responses v \<and> map_of (tp_waitedRequest t) (pk_uid pk) \<noteq> None"
    by blast
  from w(1) obtain q where "slave_at i t = Inr ((q, w), t)" by (auto simp: slave_state_at)
  with w(2,3,4) show "(pk_cmd pk = READ_REQ \<or> pk_cmd pk = WRITE_REQ)
      \<and> (ok \<longleftrightarrow> \<not> slave_locked p v \<and> slave_has_room (tp_time s) p v pk)
      \<and> (\<exists>q w. slave_at i t = Inr ((q, w), t)
        \<and> (if ok then sv_responses w = sv_responses v @ [response_to (tp_time s + lat) pk]
            \<and> next = tq_next (sv_responses w) \<and> map_of (tp_waitedRequest t) (pk_uid pk) = None
          else sv_responses w = sv_responses v \<and> map_of (tp_waitedRequest t) (pk_uid pk) \<noteq> None))" by blast
next
  assume r: "slave_send i s = Inr ((sent, locked, out, due), u)"
  have "slave_state i s = Some v" using slave_at_state [OF assms(1)] by simp
  from slave_send_result [OF r this]
  show "\<exists>q w. slave_at i u = Inr ((q, w), u) \<and> (out, sv_responses w) = tq_send (tp_time s) (sv_responses v)
        \<and> sent = (out \<noteq> None) \<and> due = tq_next (sv_responses w)"
    by (auto simp: slave_state_at)
qed

definition demo_request :: packet where
  "demo_request = new_packet\<lparr>pk_cmd := READ_REQ, pk_addr := 4096, pk_size := 64, pk_uid := 7\<rparr>"

theorem slave_refines_timed_queue_witness:
  "\<exists>next t q w p. slave_receive low_rng 1 demo_request demo = Inr ((True, next), t)
    \<and> slave_at 1 demo = Inr ((p, demo_slave), demo) \<and> slave_has_room 0 p demo_slave demo_request
    \<and> slave_at 1 t = Inr ((q, w), t) \<and> sv_responses w = [response_to 80 demo_request] \<and> next = 80"
proof -
  have "case slave_receive low_rng 1 demo_request demo of Inr ((ok, next), t) \<Rightarrow> ok | Inl e \<Rightarrow> False"
    by code_simp
  then obtain nx t where r: "slave_receive low_rng 1 demo_request demo = Inr ((True, nx), t)"
    by (auto split: sum.splits prod.splits)
  obtain p where p: "slave_at 1 demo = Inr ((p, demo_slave), demo)" "tp_time demo = 0"
    by (auto simp: slave_at_eq demo_def demo_profile_def tpm_new_def)
  have l: "sv_latency demo_slave = LatencyStatic 80" "sv_responses demo_slave = []" by (simp_all add: demo_slave_def)
  from mp [OF conjunct1 [OF conjunct2 [OF slave_refines_timed_queue [OF p(1) l(1)]]] r]
  obtain q w where "slave_has_room 0 p demo_slave demo_request" "slave_at 1 t = Inr ((q, w), t)"
    "sv_responses w = [response_to 80 demo_request]" "nx = tq_next (sv_responses w)"
    by (auto simp: l(2) p(2))
  then show ?thesis using r p(1) by (simp add: tq_next_def response_to_def)
qed

end
