(* ===== verification/Config_Laws.thy ===== *)
theory Config_Laws
  imports Config Tpm_Registry_Laws
begin

text \<open>
  What a reset of the manager does not take back: the address ranges of the slaves. The profiles
  are built anew from the stored configurations, and each slave with a range registers it again.
\<close>

text \<open>
  A reset does not free the address ranges of slaves. Once a slave has registered a range, the
  manager refuses that range after the part of \<^verbatim>\<open>reset\<close> that clears its tables, whichever slave asks
  for it. Reloading a configuration with
  such a slave, which is how \<^verbatim>\<open>reset\<close> continues, therefore ends in the error of overlapping ranges.
\<close>

theorem reset_refuses_registered_ranges:
  assumes "registerSlaveAddressRange low high i s = Inr ((), t)" and "low \<le> high"
  shows "tp_slaveAddressRanges (tpm_clear t) = range_insert low (high, i) (tp_slaveAddressRanges s)
    \<and> registerSlaveAddressRange low high k (tpm_clear t)
      = Inl (ErrorExit ''TrafficProfileManager::registerSlaveAddressRange'')"
proof -
  have t: "tp_slaveAddressRanges t = range_insert low (high, i) (tp_slaveAddressRanges s)"
    using assms(1) by (auto simp: registerSlaveAddressRange_def bindS_eq_Inr thenS_eq_Inr whenS_def split: if_splits)
  then have "\<not> bound_free low (tp_slaveAddressRanges (tpm_clear t))"
    using bound_free_insert [OF assms(2)] by (simp add: tpm_clear_def)
  then show ?thesis
    by (simp add: registerSlaveAddressRange_def bindS_def thenS_def) (simp add: tpm_clear_def t)
qed

theorem reset_refuses_registered_ranges_witness:
  "\<exists>t. registerSlaveAddressRange 4096 8191 1 (tpm_new 0) = Inr ((), t)
    \<and> registerSlaveAddressRange 4096 8191 1 (tpm_clear t)
      = Inl (ErrorExit ''TrafficProfileManager::registerSlaveAddressRange'')"
proof -
  obtain t where t: "registerSlaveAddressRange 4096 8191 1 (tpm_new 0) = Inr ((), t)"
    by (simp add: registerSlaveAddressRange_def bindS_def thenS_def tpm_new_def)
  from reset_refuses_registered_ranges [OF t, of 1] t show ?thesis by auto
qed

end
