(* ===== verification/Logger.thy ===== *)
theory Logger
  imports Prelude
begin

text \<open>
  The logger (\<^verbatim>\<open>logger.hh\<close>, \<^verbatim>\<open>logger.cc\<close>): what a message of a level writes to the output
  stream, and when an error ends the program. The arguments of a message are given as the texts
  the stream operator makes of them. The colour flag stands for \<^verbatim>\<open>getColours\<close>, which also asks
  whether the standard output is a terminal.
\<close>

datatype level = DEBUG_LEVEL | WARNING_LEVEL | ERROR_LEVEL | PRINT_LEVEL | PROMPT_LEVEL

fun level_code :: "level \<Rightarrow> nat" where
  "level_code DEBUG_LEVEL = 0"
| "level_code WARNING_LEVEL = 1"
| "level_code ERROR_LEVEL = 2"
| "level_code PRINT_LEVEL = 3"
| "level_code PROMPT_LEVEL = 4"

record logger =
  lg_level :: level
  lg_colours :: bool
  lg_exitOnErrors :: bool

definition logger_new :: logger where
  "logger_new = \<lparr>lg_level = ERROR_LEVEL, lg_colours = False, lg_exitOnErrors = True\<rparr>"

definition ESC :: char where "ESC = CHR 0x1B"
definition newline :: string where "newline = [CHR 0x0A]"

fun colour :: "level \<Rightarrow> string" where
  "colour ERROR_LEVEL = ESC # ''[31m''"
| "colour WARNING_LEVEL = ESC # ''[33m''"
| "colour PRINT_LEVEL = ESC # ''[36m''"
| "colour PROMPT_LEVEL = ESC # ''[35m''"
| "colour DEBUG_LEVEL = []"

definition COLOR_RESET :: string where "COLOR_RESET = ESC # ''[0m''"

fun level_prefix :: "level \<Rightarrow> string" where
  "level_prefix ERROR_LEVEL = ''ERROR:''"
| "level_prefix WARNING_LEVEL = ''WARNING:''"
| "level_prefix PROMPT_LEVEL = ''#engine>''"
| "level_prefix _ = []"

text \<open>The recursion over the arguments and its end.\<close>

fun log_args :: "logger \<Rightarrow> level \<Rightarrow> string list \<Rightarrow> string" where
  "log_args lg lvl [] =
    (if lg_colours lg \<and> lvl \<noteq> DEBUG_LEVEL then COLOR_RESET else []) @
    (if lvl \<noteq> PROMPT_LEVEL then newline else [])"
| "log_args lg lvl (x # xs) = '' '' @ x @ log_args lg lvl xs"

definition log_text :: "logger \<Rightarrow> level \<Rightarrow> string list \<Rightarrow> string" where
  "log_text lg lvl args =
    (if level_code (lg_level lg) \<le> level_code lvl
     then (if lg_colours lg then colour lvl else []) @ level_prefix lvl @ log_args lg lvl args
     else [])"

text \<open>
  The macro \<^verbatim>\<open>ERROR\<close>: the text it writes, and whether it ends the program. The other macros
  only write \<open>log_text\<close> of their level.
\<close>

definition log_error :: "logger \<Rightarrow> string list \<Rightarrow> string \<times> bool" where
  "log_error lg args = (log_text lg ERROR_LEVEL args,
     level_code (lg_level lg) \<le> level_code ERROR_LEVEL \<and> lg_exitOnErrors lg)"

lemma log_text_prompt: "log_text lg PROMPT_LEVEL args =
    (if lg_colours lg then colour PROMPT_LEVEL else []) @ ''#engine>'' @ log_args lg PROMPT_LEVEL args"
  by (cases "lg_level lg") (simp_all add: log_text_def)

end
