(* ===== verification/Shell_Line.thy ===== *)
theory Shell_Line
  imports Computations Logger
begin

text \<open>
  The line of input of the shell: class \<^verbatim>\<open>Shell::Line\<close> (\<^verbatim>\<open>shell.hh\<close>, \<^verbatim>\<open>shell.cc\<close>). Its
  two fields are the record \<open>line\<close>. Its operations also read the standard input and write to the
  standard output, with the prompt of the logger, so they are computations on \<open>console\<close>, which
  extends the line by the bytes still to come, the text written so far and the logger.

  Sizes are natural numbers: the cursor never passes the end of the content
  (\<open>line_ok\<close>), so no difference of sizes wraps around.
\<close>

record line =
  ln_content :: string
  ln_cursor :: nat

record console = line +
  cn_input :: string
  cn_output :: string
  cn_logger :: logger

type_synonym ('z, 'a) editing = "('z console_scheme, 'a) comp"

section \<open>Input and output\<close>

definition put_text :: "string \<Rightarrow> ('z, unit) editing" where
  "put_text t = modifyS (\<lambda>s. s\<lparr>cn_output := cn_output s @ t\<rparr>)"

definition prompt :: "string list \<Rightarrow> ('z, unit) editing" where
  "prompt args = modifyS (\<lambda>s. s\<lparr>cn_output := cn_output s @ log_text (cn_logger s) PROMPT_LEVEL args\<rparr>)"

text \<open>
  At the end of the input \<^verbatim>\<open>cin.get()\<close> gives the value -1, whose conversion to
  \<^verbatim>\<open>unsigned char\<close> is 255.
\<close>

definition getNextChar :: "('z, char) editing" where
  "getNextChar = bindS getS (\<lambda>s. case cn_input s of
     [] \<Rightarrow> returnS (CHR 0xFF)
   | c # cs \<Rightarrow> thenS (modifyS (\<lambda>s. s\<lparr>cn_input := cs\<rparr>)) (returnS c))"

section \<open>Cursor\<close>

definition moveCursorBackward :: "nat \<Rightarrow> ('z, unit) editing" where
  "moveCursorBackward n = bindS getS (\<lambda>s.
    whenS (ln_content s \<noteq> [] \<and> n \<le> ln_cursor s)
      (thenS (put_text (concat (replicate n (ESC # ''[1D''))))
      (modifyS (\<lambda>s. s\<lparr>ln_cursor := ln_cursor s - n\<rparr>))))"

definition moveCursorForward :: "nat \<Rightarrow> ('z, unit) editing" where
  "moveCursorForward n = bindS getS (\<lambda>s.
    whenS (ln_cursor s + n \<le> length (ln_content s))
      (thenS (put_text (concat (replicate n (ESC # ''[1C''))))
      (modifyS (\<lambda>s. s\<lparr>ln_cursor := ln_cursor s + n\<rparr>))))"

definition moveCursorToEnd :: "('z, unit) editing" where
  "moveCursorToEnd = bindS getS (\<lambda>s. moveCursorForward (length (ln_content s) - ln_cursor s))"

definition moveCursorToStart :: "('z, unit) editing" where
  "moveCursorToStart = bindS getS (\<lambda>s. moveCursorBackward (ln_cursor s))"

definition isCursorAtEnd :: "'z line_scheme \<Rightarrow> bool" where
  "isCursorAtEnd s \<longleftrightarrow> ln_cursor s = length (ln_content s)"

definition endsWith :: "char \<Rightarrow> 'z line_scheme \<Rightarrow> bool" where
  "endsWith c s \<longleftrightarrow> ln_content s \<noteq> [] \<and> last (ln_content s) = c"

section \<open>Content\<close>

definition refresh :: "('z, unit) editing" where
  "refresh =
    thenS (put_text [CHR 0x0D]) (thenS (prompt [''''])
    (bindS getS (\<lambda>s. thenS (put_text (ln_content s))
    (modifyS (\<lambda>s. s\<lparr>ln_cursor := length (ln_content s)\<rparr>)))))"

definition refresh_at :: "nat \<Rightarrow> ('z, unit) editing" where
  "refresh_at n = thenS refresh (bindS getS (\<lambda>s. moveCursorBackward (length (ln_content s) - n)))"

definition end_line :: "('z, unit) editing" where
  "end_line = thenS (put_text newline) (modifyS (\<lambda>s. s\<lparr>ln_cursor := 0\<rparr>))"

definition clear_line :: "('z, unit) editing" where
  "clear_line = thenS moveCursorToStart
    (bindS getS (\<lambda>s. put_text (replicate (length (ln_content s)) (CHR '' ''))))"

definition assign_line :: "string \<Rightarrow> ('z, unit) editing" where
  "assign_line t = thenS clear_line (thenS (modifyS (\<lambda>s. s\<lparr>ln_content := t\<rparr>)) refresh)"

text \<open>\<^verbatim>\<open>string::insert\<close> and \<^verbatim>\<open>string::erase\<close> throw for a position past the end.\<close>

definition insert_char :: "char \<Rightarrow> ('z, unit) editing" where
  "insert_char c = bindS getS (\<lambda>s.
    let k = ln_cursor s
    in if length (ln_content s) < k then failS (Uncaught ''string::insert'')
       else thenS (modifyS (\<lambda>s. s\<lparr>ln_content := take k (ln_content s) @ c # drop k (ln_content s)\<rparr>))
         (refresh_at (k + 1)))"

definition append_text :: "string \<Rightarrow> ('z, unit) editing" where
  "append_text t = bindS getS (\<lambda>s. whenS (isCursorAtEnd s)
    (thenS (modifyS (\<lambda>s. s\<lparr>ln_content := ln_content s @ t\<rparr>)) refresh))"

definition backspace :: "('z, unit) editing" where
  "backspace = bindS getS (\<lambda>s.
    let k = ln_cursor s - 1
    in whenS (ln_content s \<noteq> [] \<and> ln_cursor s \<noteq> 0)
      (thenS clear_line
      (if length (ln_content s) < k then failS (Uncaught ''string::erase'')
       else thenS (modifyS (\<lambda>s. s\<lparr>ln_content := take k (ln_content s) @ drop (k + 1) (ln_content s)\<rparr>))
         (refresh_at k))))"

section \<open>What the operations do to the line\<close>

definition line_ok :: "'z line_scheme \<Rightarrow> bool" where
  "line_ok s \<longleftrightarrow> ln_cursor s \<le> length (ln_content s)"

text \<open>
  \<open>edits f m\<close>: from a line whose cursor is in the content, \<open>m\<close> returns with the content and the
  cursor that \<open>f\<close> gives, the cursor again in the content; of the rest of the state it changes
  the output only.
\<close>

definition same_else :: "'z console_scheme \<Rightarrow> 'z console_scheme \<Rightarrow> bool" where
  "same_else s t \<longleftrightarrow> cn_input t = cn_input s \<and> cn_logger t = cn_logger s \<and> console.more t = console.more s"

definition edits :: "(string \<Rightarrow> nat \<Rightarrow> string \<times> nat) \<Rightarrow> ('z, unit) editing \<Rightarrow> bool" where
  "edits f m \<longleftrightarrow> (\<forall>s. line_ok s \<longrightarrow>
    (\<exists>t. m s = Inr ((), t) \<and> line_ok t \<and> same_else s t
      \<and> (ln_content t, ln_cursor t) = f (ln_content s) (ln_cursor s)))"

lemma editsI:
  assumes "\<And>s. line_ok s \<Longrightarrow> \<exists>t. m s = Inr ((), t) \<and> line_ok t \<and> same_else s t
      \<and> (ln_content t, ln_cursor t) = f (ln_content s) (ln_cursor s)"
  shows "edits f m"
  using assms by (simp add: edits_def)

lemma edits_run:
  assumes "edits f m" and "line_ok s"
  obtains t where "m s = Inr ((), t)" and "line_ok t" and "same_else s t"
    and "(ln_content t, ln_cursor t) = f (ln_content s) (ln_cursor s)"
  using assms by (auto simp: edits_def)

lemma same_else_trans: "same_else s t \<Longrightarrow> same_else t u \<Longrightarrow> same_else s u"
  by (simp add: same_else_def)

lemma edits_then:
  assumes "edits f m" and "edits g n"
  shows "edits (\<lambda>c k. case f c k of (c', k') \<Rightarrow> g c' k') (thenS m n)"
proof (rule editsI, goal_cases)
  case (1 s)
  from edits_run [OF assms(1) 1] obtain t where t: "m s = Inr ((), t)" "line_ok t" "same_else s t"
    "f (ln_content s) (ln_cursor s) = (ln_content t, ln_cursor t)" by metis
  from edits_run [OF assms(2) t(2)] obtain u where "n t = Inr ((), u)" "line_ok u" "same_else t u"
    "(ln_content u, ln_cursor u) = g (ln_content t) (ln_cursor t)" by metis
  with t show ?case by (auto simp: thenS_run [where m = m, OF t(1)] intro: same_else_trans)
qed

lemma edits_eq: "edits g m \<Longrightarrow> (\<And>c k. k \<le> length c \<Longrightarrow> f c k = g c k) \<Longrightarrow> edits f m"
  by (auto simp: edits_def line_ok_def)

lemma edits_get:
  assumes "\<And>s. line_ok s \<Longrightarrow> edits (f (ln_content s) (ln_cursor s)) (m s)"
  shows "edits (\<lambda>c k. f c k c k) (bindS getS m)"
  using assms by (simp add: edits_def bindS_def)

lemma edits_put: "edits Pair (put_text t)"
  by (rule editsI) (simp add: put_text_def line_ok_def same_else_def)

lemma edits_prompt: "edits Pair (prompt args)"
  by (rule editsI) (simp add: prompt_def line_ok_def same_else_def)

lemma edits_modify:
  assumes "\<And>s. line_ok s \<Longrightarrow> line_ok (h s) \<and> same_else s (h s)
      \<and> (ln_content (h s), ln_cursor (h s)) = f (ln_content s) (ln_cursor s)"
  shows "edits f (modifyS h)"
  by (rule editsI) (simp add: assms)

lemma edits_when: "(b \<Longrightarrow> edits f m) \<Longrightarrow> edits (\<lambda>c k. if b then f c k else (c, k)) (whenS b m)"
  by (auto simp: edits_def whenS_def same_else_def)

lemma edits_backward: "edits (\<lambda>c k. (c, if n \<le> k then k - n else k)) (moveCursorBackward n)"
  by (rule editsI) (auto simp: moveCursorBackward_def line_ok_def same_else_def bindS_def thenS_def whenS_def put_text_def)

lemma edits_forward: "edits (\<lambda>c k. (c, if k + n \<le> length c then k + n else k)) (moveCursorForward n)"
  by (rule editsI) (auto simp: moveCursorForward_def line_ok_def same_else_def bindS_def thenS_def whenS_def put_text_def)

lemma edits_refresh: "edits (\<lambda>c k. (c, length c)) refresh"
  by (rule editsI) (simp add: refresh_def line_ok_def same_else_def bindS_def thenS_def put_text_def prompt_def)

lemma edits_refresh_at: "edits (\<lambda>c k. (c, min n (length c))) (refresh_at n)"
  unfolding refresh_at_def
  by (rule edits_eq [OF edits_then [OF edits_refresh edits_get [OF edits_backward]]]) (auto simp: min_def)

lemma edits_end: "edits (\<lambda>c k. (c, 0)) end_line"
  by (rule editsI) (simp add: end_line_def line_ok_def same_else_def thenS_def bindS_def put_text_def)

lemma edits_clear: "edits (\<lambda>c k. (c, 0)) clear_line"
  unfolding clear_line_def moveCursorToStart_def
  by (rule edits_eq [OF edits_then [OF edits_get [OF edits_backward] edits_get [OF edits_put]]]) auto

lemma edits_assign: "edits (\<lambda>c k. (t, length t)) (assign_line t)"
proof -
  have "edits (\<lambda>c k. (t, length t)) (thenS (modifyS (\<lambda>s. s\<lparr>ln_content := t\<rparr>)) refresh)"
    by (rule editsI) (simp add: refresh_def line_ok_def same_else_def bindS_def thenS_def put_text_def prompt_def)
  from edits_then [OF edits_clear this] show ?thesis unfolding assign_line_def
    by (rule edits_eq) simp
qed

lemma edits_insert: "edits (\<lambda>c k. (take k c @ x # drop k c, k + 1)) (insert_char x)"
proof (rule editsI, goal_cases)
  case (1 s)
  let ?t = "s\<lparr>ln_content := take (ln_cursor s) (ln_content s) @ x # drop (ln_cursor s) (ln_content s)\<rparr>"
  from 1 have k: "ln_cursor s \<le> length (ln_content s)" by (simp add: line_ok_def)
  then have "line_ok ?t" by (simp add: line_ok_def)
  from edits_run [OF edits_refresh_at this, of "ln_cursor s + 1"] obtain u where
    "refresh_at (ln_cursor s + 1) ?t = Inr ((), u)" "line_ok u" "same_else ?t u"
    "(ln_content u, ln_cursor u) = (ln_content ?t, min (ln_cursor s + 1) (length (ln_content ?t)))" by metis
  with k show ?case
    by (intro exI [of _ u]) (simp add: insert_char_def bindS_def thenS_def same_else_def Let_def)
qed

lemma edits_append:
  "edits (\<lambda>c k. if k = length c then (c @ t, length c + length t) else (c, k)) (append_text t)"
  by (rule editsI) (simp add: append_text_def isCursorAtEnd_def bindS_def thenS_def whenS_def refresh_def
      put_text_def prompt_def line_ok_def same_else_def)

lemma edits_backspace:
  "edits (\<lambda>c k. if k = 0 then (c, k) else (take (k - 1) c @ drop k c, k - 1)) backspace"
proof (rule editsI, goal_cases)
  case (1 s)
  from 1 have k: "ln_cursor s \<le> length (ln_content s)" by (simp add: line_ok_def)
  show ?case
  proof (cases "ln_cursor s = 0")
    case True
    with 1 show ?thesis by (simp add: backspace_def bindS_def whenS_def same_else_def)
  next
    case False
    let ?k = "ln_cursor s - 1"
    from edits_run [OF edits_clear 1] obtain t where t: "clear_line s = Inr ((), t)" "line_ok t" "same_else s t"
      "ln_content t = ln_content s" "ln_cursor t = 0" by (metis prod.inject)
    let ?t = "t\<lparr>ln_content := take ?k (ln_content t) @ drop (?k + 1) (ln_content t)\<rparr>"
    have "line_ok ?t" using t(5) by (simp add: line_ok_def)
    from edits_run [OF edits_refresh_at this, of ?k] obtain u where u:
      "refresh_at ?k ?t = Inr ((), u)" "line_ok u" "same_else ?t u"
      "(ln_content u, ln_cursor u) = (ln_content ?t, min ?k (length (ln_content ?t)))" by metis
    from False k have ne: "ln_content s \<noteq> []" by auto
    have "backspace s = Inr ((), u)" using False k ne t(1,4) u(1)
      by (simp add: backspace_def bindS_run [where m = getS] Let_def whenS_def thenS_run [where m = clear_line, OF t(1)])
        (simp add: thenS_def bindS_def)
    then show ?thesis using False k t u(2-4) by (auto simp: same_else_def)
  qed
qed

text \<open>Reading a byte leaves the line alone.\<close>

lemma getNextChar_Cons [simp]:
  "cn_input s = c # cs \<Longrightarrow> getNextChar s = Inr (c, s\<lparr>cn_input := cs\<rparr>)"
  and getNextChar_Nil [simp]: "cn_input s = [] \<Longrightarrow> getNextChar s = Inr (CHR 0xFF, s)"
  by (simp_all add: getNextChar_def bindS_def thenS_def)

end
