(* ===== verification/Shell.thy ===== *)
theory Shell
  imports Config Routing Utilities Shell_Line
begin

text \<open>
  The interactive shell (\<^verbatim>\<open>shell.hh\<close>, \<^verbatim>\<open>shell.cc\<close>) with the part of the test suite class that
  it calls (\<^verbatim>\<open>TestAtp\<close> of \<^verbatim>\<open>test_atp.cc\<close>: loading a file and running the engine against an
  internal slave). The state extends the console by the fields of the shell and the manager the
  test suite owns.

  The shell switches off the exit on errors. Errors of the functions that only look something up
  or convert a text are therefore values here, as the code goes on with a default result; their
  messages are not part of the output. An \<^verbatim>\<open>ERROR\<close> inside an operation of the manager that
  changes its state ends the run of the model, although the code would go on from the state reached.

  What the shell takes from outside is the record \<open>surroundings\<close>: the parser of configuration files,
  the terminal calls, the order in which an \<^verbatim>\<open>unordered_map\<close> is walked (\<open>sr_walk\<close>), the text of
  statistics, the random numbers, two indeterminate values and the fuel of the engine loop.
\<close>

section \<open>State\<close>

datatype atp_file = NoFile | Malformed | Parsed configuration

record surroundings =
  sr_rng :: rng
  sr_burst :: nat
  sr_ticks :: nat
  sr_u0 :: u64
  sr_iommu :: u64
  sr_flow :: u64
  sr_file :: "string \<Rightarrow> atp_file"
  sr_dump :: "stats \<Rightarrow> string"
  sr_walk :: "string list \<Rightarrow> string list"
  sr_isatty :: bool
  sr_getattr :: bool
  sr_setattr :: bool

record shell = console +
  sh_test :: bool
  sh_tpm :: "tpm option"
  sh_slaveBandwidth :: string
  sh_slaveLatency :: string
  sh_atpFiles :: "string list"
  sh_isVerbose :: bool
  sh_isProfilesAsMasters :: bool
  sh_inRichMode :: bool
  sh_commandHistory :: "string list"
  sh_historyIter :: nat

definition shell_new :: "logger \<Rightarrow> string \<Rightarrow> shell" where
  "shell_new lg input = \<lparr>ln_content = [], ln_cursor = 0, cn_input = input, cn_output = [], cn_logger = lg,
     sh_test = False, sh_tpm = None, sh_slaveBandwidth = ''32GB/s'', sh_slaveLatency = ''80ns'',
     sh_atpFiles = [], sh_isVerbose = False, sh_isProfilesAsMasters = False, sh_inRichMode = False,
     sh_commandHistory = [], sh_historyIter = 0\<rparr>"

definition setTest :: "shell \<Rightarrow> shell" where
  "setTest s = s\<lparr>sh_test := True\<rparr>"

section \<open>The manager of the test suite\<close>

definition getTpm :: "surroundings \<Rightarrow> (shell, unit) comp" where
  "getTpm sr = modifyS (\<lambda>s. case sh_tpm s of None \<Rightarrow> s\<lparr>sh_tpm := Some (tpm_new (sr_u0 sr))\<rparr> | Some _ \<Rightarrow> s)"

definition on_tpm :: "(tpm, 'a) comp \<Rightarrow> (shell, 'a) comp" where
  "on_tpm m s = (case sh_tpm s of
     None \<Rightarrow> Inl (Undefined ''TestAtp::tpm'')
   | Some t \<Rightarrow> (case m t of Inl e \<Rightarrow> Inl e | Inr (x, t') \<Rightarrow> Inr (x, s\<lparr>sh_tpm := Some t'\<rparr>)))"

text \<open>A look-up that reports an error and goes on with a default.\<close>

definition or_default :: "'a \<Rightarrow> (tpm, 'a) comp \<Rightarrow> (tpm, 'a) comp" where
  "or_default d m s = (case m s of Inl (ErrorExit f) \<Rightarrow> Inr (d, s) | r \<Rightarrow> r)"

definition shell_profileId :: "string \<Rightarrow> (shell, u64) comp" where
  "shell_profileId n = on_tpm (or_default invalid_id (profileId n))"

definition shell_masterId :: "string \<Rightarrow> (shell, u64) comp" where
  "shell_masterId n = on_tpm (or_default invalid_id (masterId n))"

text \<open>The pointer \<^verbatim>\<open>getProfile\<close> returns is null for an id out of range and for a declared profile.\<close>

definition has_profile :: "u64 \<Rightarrow> (shell, bool) comp" where
  "has_profile i = on_tpm (readS (\<lambda>t. unat i < length (tp_profiles t) \<and> tp_profiles t ! unat i \<noteq> None))"

definition profile_name :: "u64 \<Rightarrow> (shell, string) comp" where
  "profile_name i = on_tpm (bindS (prof i) (\<lambda>p. returnS (pr_name p)))"

definition tpm_load :: "surroundings \<Rightarrow> string \<Rightarrow> (tpm, bool) comp" where
  "tpm_load sr f = (case sr_file sr f of
     NoFile \<Rightarrow> returnS False
   | Malformed \<Rightarrow> thenS (modifyS (\<lambda>t. t\<lparr>tp_initialized := True\<rparr>)) (returnS True)
   | Parsed c \<Rightarrow> thenS (loadConfiguration (sr_rng sr) c)
       (thenS (modifyS (\<lambda>t. t\<lparr>tp_initialized := True\<rparr>)) (returnS True)))"

definition buildManager_fromFile :: "surroundings \<Rightarrow> string \<Rightarrow> (shell, bool) comp" where
  "buildManager_fromFile sr f = thenS (getTpm sr) (on_tpm (tpm_load sr f))"

definition print :: "string list \<Rightarrow> ('z, unit) editing" where
  "print args = modifyS (\<lambda>s. s\<lparr>cn_output := cn_output s @ log_text (cn_logger s) PRINT_LEVEL args\<rparr>)"

definition dumpStats :: "surroundings \<Rightarrow> (shell, unit) comp" where
  "dumpStats sr = bindS getS (\<lambda>s. whenS (sh_tpm s \<noteq> None)
     (bindS (on_tpm getS) (\<lambda>t.
      thenS (print [''Global TPM Stats:'', sr_dump sr (tp_stats t)])
      (eachS (\<lambda>m. bindS (on_tpm (getMasterStats m)) (\<lambda>st. print [m, ''Stats:'', sr_dump sr st]))
        (sr_walk sr (remdups (tp_masters t)))))))"

text \<open>
  The profile of the internal slave. The description it is made from has no initial values for
  the two ids, which \<^verbatim>\<open>makeProfile\<close> reads.
\<close>

definition makeProfile :: "surroundings \<Rightarrow> string \<Rightarrow> ptype \<Rightarrow> string option \<Rightarrow> string list \<Rightarrow> profile_conf" where
  "makeProfile sr name type mst waits =
    \<lparr>pf_type = Some type, pf_master_id = Some (the_default name mst), pf_fifo = None, pf_slave = None,
     pf_delay = None, pf_wait_for = waits, pf_pattern = None, pf_name = Some name, pf_check = [],
     pf_iommu_id = (if sr_iommu sr \<noteq> 0 then Some (ucast (sr_iommu sr)) else None),
     pf_flow_id = (if sr_flow sr \<noteq> 0 then Some (sr_flow sr) else None)\<rparr>"

definition internal_slave :: "surroundings \<Rightarrow> string \<Rightarrow> string \<Rightarrow> string list \<Rightarrow> profile_conf" where
  "internal_slave sr rate latency ms = (makeProfile sr ''TestAtp::InternalSlave::'' P_READ None [])
    \<lparr>pf_slave := Some \<lparr>sl_rate = rate, sl_latency = Some latency, sl_random_latency = None,
       sl_random_latency_unit = ''ns'', sl_ot_limit = Some 0, sl_txnlimit = None,
       sl_granularity = Some 64, sl_txnsize = None, sl_master = ms, sl_low_address = None,
       sl_high_address = None, sl_address_range = None\<rparr>\<rparr>"

definition testAgainstInternalSlave :: "surroundings \<Rightarrow> string \<Rightarrow> string \<Rightarrow> (shell, unit) comp" where
  "testAgainstInternalSlave sr rate latency =
    thenS (print [''ATP Engine running in standalone execution mode. '' @ ''Internal slave configuration:'', rate, latency])
    (bindS (on_tpm getS) (\<lambda>t. bindS (on_tpm getMasterSlaves) (\<lambda>ms.
     let free = filter (\<lambda>m. map_of ms m = None) (sr_walk sr (remdups (tp_masters t)))
     in thenS (on_tpm (configureProfile (sr_rng sr) (internal_slave sr rate latency free) (1, 1) True 0 invalid_id))
        (thenS (on_tpm (tpm_loop (sr_rng sr) (sr_burst sr) (sr_ticks sr)))
        (dumpStats sr)))))"

section \<open>Arguments\<close>

text \<open>The words the extraction operator reads from a stream.\<close>

function words :: "string \<Rightarrow> string list" where
  "words s = (let r = dropWhile is_space s
     in if r = [] then [] else takeWhile (\<lambda>c. \<not> is_space c) r # words (dropWhile (\<lambda>c. \<not> is_space c) r))"
  by pat_completeness auto
termination
proof (relation "measure length", goal_cases)
  case (2 s r)
  from 2(2) obtain c cs where r: "r = c # cs" by (cases r) simp_all
  with 2 have "\<not> is_space c" by (metis dropWhile_eq_Cons_conv)
  moreover have "length (dropWhile (\<lambda>c. \<not> is_space c) cs) \<le> length cs" by (rule length_dropWhile_le)
  moreover have "Suc (length cs) \<le> length s"
    using length_dropWhile_le [of is_space s] 2(1) r by (metis length_Cons)
  ultimately show ?case by (simp add: r)
qed simp

declare words.simps [simp del]

definition word_or :: "string \<Rightarrow> nat \<Rightarrow> string list \<Rightarrow> string" where
  "word_or d i ws = (if i < length ws then ws ! i else d)"

text \<open>\<^verbatim>\<open>stoull\<close> with base 0, where the text tells the base.\<close>

definition digit_in :: "nat \<Rightarrow> char \<Rightarrow> nat option" where
  "digit_in b c = (let n = (of_char c :: nat);
      v = (if is_digit c then n - 48 else if 97 \<le> n \<and> n \<le> 122 then n - 87
           else if 65 \<le> n \<and> n \<le> 90 then n - 55 else b)
    in if v < b then Some v else None)"

fun read_digits :: "nat \<Rightarrow> nat \<Rightarrow> string \<Rightarrow> nat" where
  "read_digits b acc [] = acc"
| "read_digits b acc (c # cs) = (case digit_in b c of None \<Rightarrow> acc | Some d \<Rightarrow> read_digits b (acc * b + d) cs)"

definition detect_base :: "string \<Rightarrow> nat \<times> string" where
  "detect_base s =
    (if 2 < length s \<and> s ! 0 = CHR ''0'' \<and> (s ! 1 = CHR ''x'' \<or> s ! 1 = CHR ''X'') \<and> digit_in 16 (s ! 2) \<noteq> None
     then (16, drop 2 s)
     else if s \<noteq> [] \<and> hd s = CHR ''0'' then (8, s) else (10, s))"

definition stoull0 :: "string \<Rightarrow> u64 res" where
  "stoull0 s =
    (let r = dropWhile is_space s;
         neg = (r \<noteq> [] \<and> hd r = CHR ''-'');
         r' = (if neg \<or> (r \<noteq> [] \<and> hd r = CHR ''+'') then tl r else r);
         (b, ds) = detect_base r';
         v = int (read_digits b 0 ds)
     in if ds = [] \<or> digit_in b (hd ds) = None \<or> 2 ^ 64 \<le> v then Inl (Uncaught ''stoull'')
        else Inr (of_int (if neg then - v else v)))"

text \<open>The conversions of the utilities, going on after an error.\<close>

definition shell_toBytes :: "string \<Rightarrow> double res" where
  "shell_toBytes s =
    (let (pos, mult0) = parseUnits 0 s byteUnits;
         mult = (if pos = None \<and> isNumber s then 1 else fl_of_u64 mult0);
         (b, scale) = (case toUnsignedWithScale_fl (trim (before pos s)) of None \<Rightarrow> (0, 1) | Some r \<Rightarrow> r)
     in case fl_div (fl_mul b mult) scale of
          None \<Rightarrow> Inl (Undefined ''Utilities::toBytes'')
        | Some x \<Rightarrow> Inr x)"

definition shell_timeToHz :: "string \<Rightarrow> double" where
  "shell_timeToHz t =
    (let (pos, mult) = parseUnits 0 t frequencyUnits;
         (time, scale) = (if pos = Some 0 then (1, 1)
           else case toUnsignedWithScale_fl (trim (before pos t)) of None \<Rightarrow> (0, 1) | Some r \<Rightarrow> r)
     in if 0 < time then fl_mul (fl_mul (rnd64 (1 / time)) (fl_of_u64 mult)) scale else 0)"

text \<open>Of the rate only the first component is used.\<close>

definition shell_rate :: "string \<Rightarrow> double" where
  "shell_rate s =
    (let pos = (case find_separator rateSeparators s of
           Some sep \<Rightarrow> fst (parseUnits 0 s byteUnits)
         | None \<Rightarrow> if isNumber s then None else Some 0)
     in case toUnsignedWithScale_fl (trim (before pos s)) of None \<Rightarrow> 0 | Some (r, scale) \<Rightarrow> r)"

definition parse_type :: "string \<Rightarrow> ptype" where
  "parse_type s = (if s = ''READ'' then P_READ else if s = ''WRITE'' then P_WRITE else P_NONE)"

end
