(* ===== verification/Shell_Commands.thy ===== *)
theory Shell_Commands
  imports Shell
begin

text \<open>
  The commands of the shell (\<^verbatim>\<open>shell.hh\<close> for the tables, \<^verbatim>\<open>shell.cc\<close> for the rest): the tables of
  commands and command groups, the routine of each command, completion, history, reading a line
  and the main loop.
\<close>

section \<open>Tables\<close>

datatype routine =
    Hello | Help | Quit | Load | TestAgainstSlave | Flush | Verbose | SetSlave | Reset | ProfilesAsMasters
  | LsProfiles | LsMasters | LsFiles | LsStreams
  | StreamStatus | StreamActivate | StreamReset | StreamReconfigure | UniqueStream

text \<open>A command with the flag of \<^verbatim>\<open>makeTpmCommand\<close>, its routine and its description.\<close>

type_synonym command_map = "(string \<times> bool \<times> routine \<times> string) list"

definition commands :: command_map where
  "commands =
    [(''hello'', False, Hello, ''does nothing''),
     (''help'', False, Help, ''shows this help''),
     (''exit'', False, Quit, ''exit the shell''),
     (''quit'', False, Quit, ''quits the shell''),
     (''load'', False, Load, ''loads an atp file''),
     (''test'', True, TestAgainstSlave, ''plays loaded atp files''),
     (''flush'', True, Flush, ''flushes loaded ATP profiles''),
     (''verbose'', False, Verbose, ''enable verbose debug mode''),
     (''slave'', False, SetSlave, ''sets the ATP slave bandwidth and latency parameters''),
     (''reset'', True, Reset, ''Resets the TPM, causing profiles to be re-loaded''),
     (''pam'', True, ProfilesAsMasters, ''Toggles ATP FIFO to be instantiated as ATP Masters, and resets the TPM'')]"

definition commandGroups :: "(string \<times> string \<times> command_map) list" where
  "commandGroups =
    [(''ls'', ''lists items based on the specified keyword'',
      [(''profiles'', True, LsProfiles, ''lists profiles''),
       (''masters'', True, LsMasters, ''lists masters''),
       (''files'', True, LsFiles, ''lists loaded ATP files''),
       (''streams'', True, LsStreams, ''lists loaded Stream roots'')]),
     (''stream'', ''Runs stream commands'',
      [(''status'', True, StreamStatus, ''Prints the status of a stream''),
       (''info'', True, StreamStatus, ''Prints the status of a stream''),
       (''activate'', True, StreamActivate, ''Activates a stream''),
       (''reset'', True, StreamReset, ''Resets a stream''),
       (''reconfigure'', True, StreamReconfigure,
        ''Reconfigures the profile stream. Usage: reconfigure root base range <type:NONE|READ|WRITE>''),
       (''unique'', True, UniqueStream,
        ''Creates a unique instance of a stream optionally associated to a master. Usage: unique root master'')])]"

definition isCommandGroup :: "string \<Rightarrow> bool" where
  "isCommandGroup cmd \<longleftrightarrow> map_of commandGroups cmd \<noteq> None"

definition isValidCommand :: "string \<Rightarrow> bool" where
  "isValidCommand cmd \<longleftrightarrow> map_of commands cmd \<noteq> None \<or> isCommandGroup cmd"

definition sub_commands :: "string \<Rightarrow> command_map res" where
  "sub_commands cmd = (case map_of commandGroups cmd of
     None \<Rightarrow> Inl (Uncaught ''unordered_map::at'') | Some (d, m) \<Rightarrow> Inr m)"

definition isValidSubCommand :: "string \<Rightarrow> string \<Rightarrow> bool res" where
  "isValidSubCommand cmd sub_cmd = bindR (sub_commands cmd) (\<lambda>m. Inr (map_of m sub_cmd \<noteq> None))"

section \<open>Routines\<close>

definition on_off :: "bool \<Rightarrow> string \<Rightarrow> string \<Rightarrow> string" where
  "on_off b x y = (if b then x else y)"

definition vee :: string where "vee = [CHR 0x5C, CHR ''/'']"

definition hello :: "string \<Rightarrow> (shell, unit) comp" where
  "hello world = thenS (prompt [''The world is'', world, newline]) (eachS (\<lambda>t. prompt [t @ newline])
    [''    (        )'', ''    O        O'', ''    ()      ()'', ''     Oo.nn.oO'', ''      _mmmm_'',
     ''    '' @ vee @ ''_mmmm_'' @ vee, ''    '' @ vee @ ''_mmmm_'' @ vee, ''    '' @ vee @ ''_mmmm_'' @ vee,
     ''    '' @ vee @ '' mmmm '' @ vee, ''        nn'',
     ''        ()'', ''        ()'', ''         ()    /'', ''     mat  ()__()'', ''           '' @ [CHR 0x27] @ ''--'' @ [CHR 0x27]])"

definition describe :: "(string \<times> string) list \<Rightarrow> ('z, unit) editing" where
  "describe = eachS (\<lambda>(n, d). prompt [n, '':'', d, newline])"

text \<open>A table in the order the program walks it, each name with its description.\<close>

definition walked :: "surroundings \<Rightarrow> (string \<times> 'a) list \<Rightarrow> ('a \<Rightarrow> string) \<Rightarrow> (string \<times> string) list" where
  "walked sr m f = map (\<lambda>n. (n, case map_of m n of None \<Rightarrow> [] | Some v \<Rightarrow> f v)) (sr_walk sr (map fst m))"

definition shell_help :: "surroundings \<Rightarrow> string \<Rightarrow> ('z, unit) editing" where
  "shell_help sr what =
    (if what \<noteq> ''help'' \<and> isValidCommand what then
       case map_of commandGroups what of
         Some (d, m) \<Rightarrow> thenS (prompt [d, newline]) (describe (walked sr m (\<lambda>(t, r, d). d)))
       | None \<Rightarrow> (case map_of commands what of
           None \<Rightarrow> failS (Uncaught ''unordered_map::at'')
         | Some (t, r, d) \<Rightarrow> prompt [d, newline])
     else thenS (describe (walked sr commands (\<lambda>(t, r, d). d))) (describe (walked sr commandGroups fst)))"

definition load :: "surroundings \<Rightarrow> string \<Rightarrow> (shell, unit) comp" where
  "load sr f = bindS getS (\<lambda>s. whenS (sh_test s)
    (bindS (buildManager_fromFile sr f) (\<lambda>ok. whenS ok
      (thenS (modifyS (\<lambda>s. s\<lparr>sh_atpFiles := sh_atpFiles s @ [f]\<rparr>)) (prompt [''Loaded file'', f, newline])))))"

definition shell_test :: "surroundings \<Rightarrow> (shell, unit) comp" where
  "shell_test sr = bindS getS (\<lambda>s. testAgainstInternalSlave sr (sh_slaveBandwidth s) (sh_slaveLatency s))"

definition shell_reset :: "surroundings \<Rightarrow> (shell, unit) comp" where
  "shell_reset sr = thenS (on_tpm (tpm_reset (sr_rng sr))) (prompt [''TPM has been reset'' @ newline])"

definition verbose :: "(shell, unit) comp" where
  "verbose =
    thenS (modifyS (\<lambda>s. s\<lparr>sh_isVerbose := \<not> sh_isVerbose s\<rparr>))
    (thenS (modifyS (\<lambda>s. s\<lparr>cn_logger := (cn_logger s)\<lparr>lg_level := (if sh_isVerbose s then DEBUG_LEVEL else ERROR_LEVEL)\<rparr>\<rparr>))
    (bindS getS (\<lambda>s. prompt [''Verbose mode'', on_off (sh_isVerbose s) ''on'' ''off'', newline])))"

definition profilesAsMasters :: "surroundings \<Rightarrow> (shell, unit) comp" where
  "profilesAsMasters sr =
    thenS (modifyS (\<lambda>s. s\<lparr>sh_isProfilesAsMasters := \<not> sh_isProfilesAsMasters s\<rparr>))
    (bindS getS (\<lambda>s.
     thenS (on_tpm (modifyS (\<lambda>t. t\<lparr>tp_profilesAsMasters := sh_isProfilesAsMasters s\<rparr>)))
     (thenS (prompt [''Profiles as masters mode'', on_off (sh_isProfilesAsMasters s) ''on.'' ''off.'', ''Resetting TPM'' @ newline])
     (on_tpm (tpm_reset (sr_rng sr))))))"

definition streamActivate :: "string \<Rightarrow> (shell, unit) comp" where
  "streamActivate rt = bindS (shell_profileId rt) (\<lambda>i. bindS (has_profile i) (\<lambda>ok. whenS ok
    (thenS (on_tpm (activate tpm_event i)) (prompt [''Activated stream'', rt, newline]))))"

definition shell_streamReset :: "string \<Rightarrow> (shell, unit) comp" where
  "shell_streamReset rt = bindS (shell_profileId rt) (\<lambda>i.
    thenS (on_tpm (streamReset i)) (prompt [''Reset stream'', rt, newline]))"

definition setSlave :: "string \<Rightarrow> (shell, unit) comp" where
  "setSlave line = bindS getS (\<lambda>s.
    if line \<noteq> ''slave'' then
      (let bandwidth = word_or [] 0 (words line); latency = word_or [] 1 (words line)
      in if shell_timeToHz latency \<noteq> 0 \<and> 0 < shell_rate bandwidth
         then modifyS (\<lambda>s. s\<lparr>sh_slaveBandwidth := bandwidth, sh_slaveLatency := latency\<rparr>)
         else prompt [''Unrecognised slave configuration'', line, newline])
    else prompt [''Current slave configuration'', sh_slaveBandwidth s, sh_slaveLatency s, newline])"

definition streamReconfigure :: "string \<Rightarrow> (shell, unit) comp" where
  "streamReconfigure line =
    (let ws = words line; rt = word_or [] 0 ws; bs = word_or [] 1 ws; rs = word_or [] 2 ws;
         ts = word_or ''NONE'' 3 ws; type = parse_type ts
     in bindS (liftS (stoull0 bs)) (\<lambda>base. bindS (liftS (shell_toBytes rs)) (\<lambda>limit.
        bindS (shell_profileId rt) (\<lambda>i. whenS (isValid i)
        (bindS (has_profile i) (\<lambda>ok. whenS ok
        (bindS (liftS (to_u64 ''Shell::streamReconfigure'' limit)) (\<lambda>limit.
         bindS (on_tpm (addressStreamReconfigure i base limit type)) (\<lambda>_.
         prompt [''Stream'', rt, ''reconfigured with base'', bs, ''range'', rs,
           if type \<noteq> P_NONE then ''filtering non-'' @ ts @ '' profiles'' @ newline else newline])))))))))"

definition node_kind :: "u64 \<Rightarrow> u64 \<times> bool \<Rightarrow> string" where
  "node_kind rt n = (if fst n = rt then ''root'' else if snd n then ''leaf'' else ''intermediate'')"

definition streamStatus :: "string \<Rightarrow> (shell, unit) comp" where
  "streamStatus rt = bindS (shell_profileId rt) (\<lambda>i. whenS (isValid i)
    (bindS (on_tpm (readS tp_streamCache)) (\<lambda>cache. case map_of cache i of
       None \<Rightarrow> returnS ()
     | Some nodes \<Rightarrow>
         thenS (eachS (\<lambda>n. bindS (profile_name (fst n)) (\<lambda>name. prompt [name, node_kind i n, newline])) nodes)
         (bindS (on_tpm (streamTerminated i)) (\<lambda>t.
          prompt [''The stream is'', on_off t (''terminated'' @ newline) (''not terminated'' @ newline)])))))"

definition shell_uniqueStream :: "surroundings \<Rightarrow> string \<Rightarrow> (shell, unit) comp" where
  "shell_uniqueStream sr line = (case words line of
     [] \<Rightarrow> failS (Uncaught ''vector::at'')
   | rt # args \<Rightarrow> bindS (shell_profileId rt) (\<lambda>i. whenS (isValid i)
       (bindS (case args of
           [] \<Rightarrow> on_tpm (uniqueStream (sr_rng sr) i invalid_id)
         | m # _ \<Rightarrow> bindS (shell_masterId m) (\<lambda>mid.
             if isValid mid then on_tpm (uniqueStream (sr_rng sr) i mid) else returnS invalid_id)) (\<lambda>k.
        whenS (isValid k)
          (if i = k then prompt [''Using default stream instance with ID'', to_string i, newline]
           else prompt [''Cloned stream instance ID'', to_string k, newline])))))"

definition shell_flush :: "surroundings \<Rightarrow> (shell, unit) comp" where
  "shell_flush sr = thenS (on_tpm (flush (sr_rng sr))) (modifyS (\<lambda>s. s\<lparr>sh_atpFiles := []\<rparr>))"

definition prompt_each :: "string list \<Rightarrow> ('z, unit) editing" where
  "prompt_each = eachS (\<lambda>t. prompt [t, newline])"

definition lsProfiles :: "surroundings \<Rightarrow> (shell, unit) comp" where
  "lsProfiles sr = bindS (on_tpm getS) (\<lambda>t. prompt_each (sr_walk sr (map fst (tp_profileMap t))))"

definition lsMasters :: "surroundings \<Rightarrow> (shell, unit) comp" where
  "lsMasters sr = bindS (on_tpm getS) (\<lambda>t. prompt_each (sr_walk sr (remdups (tp_masters t))))"

text \<open>The stream cache is an ordered map.\<close>

definition lsStreams :: "(shell, unit) comp" where
  "lsStreams = bindS (on_tpm getS) (\<lambda>t.
     eachS (\<lambda>i. bindS (profile_name i) (\<lambda>n. prompt [n, newline])) (sort (map fst (tp_streamCache t))))"

definition lsFiles :: "(shell, unit) comp" where
  "lsFiles = bindS getS (\<lambda>s. prompt_each (sh_atpFiles s))"

section \<open>Execution\<close>

fun run_routine :: "surroundings \<Rightarrow> routine \<Rightarrow> string \<Rightarrow> (shell, unit) comp" where
  "run_routine sr Hello arg = hello arg"
| "run_routine sr Help arg = shell_help sr arg"
| "run_routine sr Quit arg = returnS ()"
| "run_routine sr Load arg = load sr arg"
| "run_routine sr TestAgainstSlave arg = shell_test sr"
| "run_routine sr Flush arg = shell_flush sr"
| "run_routine sr Verbose arg = verbose"
| "run_routine sr SetSlave arg = setSlave arg"
| "run_routine sr Reset arg = shell_reset sr"
| "run_routine sr ProfilesAsMasters arg = profilesAsMasters sr"
| "run_routine sr LsProfiles arg = lsProfiles sr"
| "run_routine sr LsMasters arg = lsMasters sr"
| "run_routine sr LsFiles arg = lsFiles"
| "run_routine sr LsStreams arg = lsStreams"
| "run_routine sr StreamStatus arg = streamStatus arg"
| "run_routine sr StreamActivate arg = streamActivate arg"
| "run_routine sr StreamReset arg = shell_streamReset arg"
| "run_routine sr StreamReconfigure arg = streamReconfigure arg"
| "run_routine sr UniqueStream arg = shell_uniqueStream sr arg"

text \<open>The result tells whether the program goes on; \<^verbatim>\<open>quit\<close> ends it.\<close>

definition run_command :: "surroundings \<Rightarrow> bool \<times> routine \<times> string \<Rightarrow> string \<Rightarrow> (shell, bool) comp" where
  "run_command sr cmd arg = (case cmd of (needs_tpm, r, d) \<Rightarrow>
     bindS getS (\<lambda>s.
     thenS (if needs_tpm then whenS (sh_test s) (thenS (getTpm sr) (run_routine sr r arg)) else run_routine sr r arg)
     (returnS (r \<noteq> Quit))))"

definition updateHistory :: "string \<Rightarrow> (shell, unit) comp" where
  "updateHistory cmd = modifyS (\<lambda>s.
     let h = sh_commandHistory s @ [trimOuter cmd] in s\<lparr>sh_commandHistory := h, sh_historyIter := length h\<rparr>)"

definition executeCommand :: "surroundings \<Rightarrow> string \<Rightarrow> string \<Rightarrow> (shell, bool) comp" where
  "executeCommand sr cmd args = (case map_of commands cmd of
     None \<Rightarrow> failS (Uncaught ''unordered_map::at'')
   | Some c \<Rightarrow> bindS (run_command sr c args) (\<lambda>on.
       thenS (whenS on (updateHistory (cmd @ '' '' @ args))) (returnS on)))"

definition executeSubCommand :: "surroundings \<Rightarrow> string \<Rightarrow> string \<Rightarrow> string \<Rightarrow> (shell, bool) comp" where
  "executeSubCommand sr cmd sub_cmd args = bindS (liftS (sub_commands cmd)) (\<lambda>m. case map_of m sub_cmd of
     None \<Rightarrow> failS (Uncaught ''unordered_map::at'')
   | Some c \<Rightarrow> bindS (run_command sr c args) (\<lambda>on.
       thenS (whenS on (updateHistory (cmd @ '' '' @ sub_cmd @ '' '' @ args))) (returnS on)))"

section \<open>Completion\<close>

function complete_loop :: "string \<Rightarrow> nat \<Rightarrow> string list \<Rightarrow> string list" where
  "complete_loop elem pos compls =
    (if pos < length elem \<and> compls \<noteq> []
     then complete_loop elem (Suc pos) (filter (\<lambda>c. pos < length c \<and> elem ! pos = c ! pos) compls)
     else compls)"
  by pat_completeness auto
termination by (relation "measure (\<lambda>(elem, pos, compls). length elem - pos)") auto

declare complete_loop.simps [simp del]

definition complete :: "string \<Rightarrow> string list \<Rightarrow> ('z, unit) editing" where
  "complete elem compls = (case complete_loop elem 0 compls of
     [] \<Rightarrow> returnS ()
   | [c] \<Rightarrow> append_text (drop (length elem) c)
   | cs \<Rightarrow> thenS end_line (thenS (prompt [concat (map (\<lambda>c. c @ '' '') cs) @ newline]) refresh))"

definition completeCommand :: "surroundings \<Rightarrow> string \<Rightarrow> ('z, unit) editing" where
  "completeCommand sr cmd = complete cmd (sr_walk sr (map fst commands) @ sr_walk sr (map fst commandGroups))"

definition completeSubCommand :: "surroundings \<Rightarrow> string \<Rightarrow> string \<Rightarrow> ('z, unit) editing" where
  "completeSubCommand sr cmd sub_cmd = bindS (liftS (sub_commands cmd)) (\<lambda>m.
     complete sub_cmd (sr_walk sr (map fst m)))"

definition completeLine :: "surroundings \<Rightarrow> ('z, unit) editing" where
  "completeLine sr = bindS getS (\<lambda>s.
    let content = ln_content s; cmd = extractHead content; args = extractTail content
    in if cmd = [] then thenS end_line (thenS (shell_help sr ''help'') refresh)
       else if \<not> isValidCommand cmd then
         whenS (\<not> endsWith (CHR '' '') s \<and> args = []) (completeCommand sr cmd)
       else whenS (isCommandGroup cmd)
         (let sub_cmd = extractHead args
          in bindS (liftS (isValidSubCommand cmd sub_cmd)) (\<lambda>valid. whenS (\<not> valid)
             (whenS (extractTail args = [] \<and> (\<not> endsWith (CHR '' '') s \<or> sub_cmd = []))
               (completeSubCommand sr cmd sub_cmd)))))"

section \<open>History\<close>

definition recall :: "(shell, unit) comp" where
  "recall = bindS getS (\<lambda>s. if sh_historyIter s < length (sh_commandHistory s)
     then assign_line (sh_commandHistory s ! sh_historyIter s) else failS (Uncaught ''vector::at''))"

definition previousCommand :: "(shell, unit) comp" where
  "previousCommand = bindS getS (\<lambda>s. whenS (sh_commandHistory s \<noteq> [] \<and> sh_historyIter s \<noteq> 0)
     (thenS (modifyS (\<lambda>s. s\<lparr>sh_historyIter := sh_historyIter s - 1\<rparr>)) recall))"

definition nextCommand :: "(shell, unit) comp" where
  "nextCommand = bindS getS (\<lambda>s.
     whenS (sh_commandHistory s \<noteq> [] \<and> sh_historyIter s < length (sh_commandHistory s) - 1)
     (thenS (modifyS (\<lambda>s. s\<lparr>sh_historyIter := sh_historyIter s + 1\<rparr>)) recall))"

section \<open>Reading a line\<close>

definition iscntrl :: "char \<Rightarrow> bool" where
  "iscntrl c \<longleftrightarrow> (of_char c :: nat) < 32 \<or> c = CHR 0x7F"

definition escape_key :: "(shell, unit) comp" where
  "escape_key = bindS getNextChar (\<lambda>c. whenS (c = CHR ''['') (bindS getNextChar (\<lambda>d.
     if d = CHR ''A'' then previousCommand
     else if d = CHR ''B'' then nextCommand
     else if d = CHR ''C'' then moveCursorForward 1
     else if d = CHR ''D'' then moveCursorBackward 1
     else returnS ())))"

text \<open>One iteration of the loop of \<^verbatim>\<open>getNextLine\<close>: \<open>Some\<close> of the result when it ends.\<close>

definition key_step :: "surroundings \<Rightarrow> (shell, (bool \<times> string) option) comp" where
  "key_step sr = bindS getNextChar (\<lambda>c.
    if \<not> iscntrl c then thenS (insert_char c) (returnS None)
    else if c = CHR 0x03 \<or> c = CHR 0x04 then thenS end_line (returnS (Some (False, [])))
    else if c = CHR 0x08 \<or> c = CHR 0x7F then thenS backspace (returnS None)
    else if c = CHR 0x09 then thenS (bindS getS (\<lambda>s. whenS (isCursorAtEnd s) (completeLine sr))) (returnS None)
    else if c = CHR 0x0A \<or> c = CHR 0x0D then
      thenS end_line (bindS (readS ln_content) (\<lambda>t. returnS (Some (True, t))))
    else if c = ESC then thenS escape_key (returnS None)
    else returnS None)"

partial_function (option) read_keys ::
  "surroundings \<Rightarrow> shell \<Rightarrow> ((bool \<times> string) \<times> shell) res option" where
  "read_keys sr s = (case key_step sr s of
     Inl e \<Rightarrow> Some (Inl e)
   | Inr r \<Rightarrow> (case fst r of Some x \<Rightarrow> Some (Inr (x, snd r)) | None \<Rightarrow> read_keys sr (snd r)))"

definition getNextLine :: "surroundings \<Rightarrow> shell \<Rightarrow> ((bool \<times> string) \<times> shell) res option" where
  "getNextLine sr s = (case refresh (s\<lparr>ln_content := [], ln_cursor := 0\<rparr>) of
     Inl e \<Rightarrow> Some (Inl e) | Inr (_, t) \<Rightarrow> read_keys sr t)"

text \<open>The reader for a shell without line editing.\<close>

definition plain_line :: "shell \<Rightarrow> ((bool \<times> string) \<times> shell) res option" where
  "plain_line s =
    (let input = cn_input s; l = takeWhile (\<lambda>c. c \<noteq> CHR 0x0A) input
     in case prompt [''''] s of
          Inl e \<Rightarrow> Some (Inl e)
        | Inr (_, t) \<Rightarrow> Some (Inr ((input \<noteq> [], l), t\<lparr>cn_input := drop (Suc (length l)) input\<rparr>)))"

section \<open>The main loop\<close>

definition console_error :: "string \<Rightarrow> string \<Rightarrow> (shell, unit) comp" where
  "console_error f msg = bindS getS (\<lambda>s. let (t, quits) = log_error (cn_logger s) [msg]
     in thenS (put_text t) (whenS quits (failS (ErrorExit f))))"

definition tryEnableRichMode :: "surroundings \<Rightarrow> (shell, bool) comp" where
  "tryEnableRichMode sr =
    (if \<not> sr_isatty sr then
       thenS (console_error ''Shell::tryEnableRichMode'' ''Shell::tryEnableRichMode: STDIN is not a terminal'') (returnS False)
     else if \<not> sr_getattr sr then
       thenS (console_error ''Shell::tryEnableRichMode''
         ''Shell::tryEnableRichMode: Could not retrieve original terminal attributes'') (returnS False)
     else if \<not> sr_setattr sr then
       thenS (console_error ''Shell::tryEnableRichMode''
         ''Shell::tryEnableRichMode: Could not configure shell terminal attributes'') (returnS False)
     else thenS (modifyS (\<lambda>s. s\<lparr>sh_inRichMode := True\<rparr>)) (returnS True))"

definition disableRichMode :: "surroundings \<Rightarrow> (shell, unit) comp" where
  "disableRichMode sr =
    (if \<not> sr_setattr sr then console_error ''Shell::disableRichMode''
       ''Shell::disableRichMode: Could not restore original terminal attributes''
     else modifyS (\<lambda>s. s\<lparr>sh_inRichMode := False\<rparr>))"

definition exitHandler :: "surroundings \<Rightarrow> (shell, unit) comp" where
  "exitHandler sr = bindS getS (\<lambda>s. whenS (sh_inRichMode s) (disableRichMode sr))"

text \<open>What the loop does with a line.\<close>

definition handle_line :: "surroundings \<Rightarrow> string \<Rightarrow> (shell, bool) comp" where
  "handle_line sr line =
    (let cmd = extractHead line; args = extractTail line; sub_cmd = extractHead args
     in if line = [] then returnS True
        else if \<not> isValidCommand cmd then
          thenS (prompt [''Unsupported command:'', cmd, newline]) (returnS True)
        else if isCommandGroup cmd then
          bindS (liftS (isValidSubCommand cmd sub_cmd)) (\<lambda>valid.
          if \<not> valid then
            thenS (prompt [''Unsupported sub-command for command group:'', cmd, sub_cmd, newline]) (returnS True)
          else executeSubCommand sr cmd sub_cmd (extractTail args))
        else executeCommand sr cmd args)"

partial_function (option) command_loop :: "(shell \<Rightarrow> ((bool \<times> string) \<times> shell) res option)
    \<Rightarrow> surroundings \<Rightarrow> shell \<Rightarrow> (unit \<times> shell) res option" where
  "command_loop get_next_line sr s = Option.bind (get_next_line s) (\<lambda>r. case r of
     Inl e \<Rightarrow> Some (Inl e)
   | Inr x \<Rightarrow> (if fst (fst x) then (case handle_line sr (snd (fst x)) (snd x) of
         Inl e \<Rightarrow> Some (Inl e)
       | Inr y \<Rightarrow> (if fst y then command_loop get_next_line sr (snd y) else Some (exitHandler sr (snd y))))
     else Some (exitHandler sr (snd x))))"

definition shell_loop :: "surroundings \<Rightarrow> shell \<Rightarrow> (unit \<times> shell) res option" where
  "shell_loop sr s =
    (case thenS (modifyS (\<lambda>s. s\<lparr>cn_logger := (cn_logger s)\<lparr>lg_level := WARNING_LEVEL\<rparr>\<rparr>))
       (thenS (prompt [newline @ '' '' @ ''******* ATP ENGINE SHELL ****'' @ newline,
          ''** by Matteo Andreozzi ****'' @ newline, ''***************************'' @ newline,
          '' type help for a list of '' @ newline, '' useful commands         '' @ newline @ newline])
       (bindS (tryEnableRichMode sr) (\<lambda>rich.
        thenS (modifyS (\<lambda>s. s\<lparr>cn_logger := (cn_logger s)\<lparr>lg_exitOnErrors := False\<rparr>\<rparr>)) (returnS rich)))) s of
       Inl e \<Rightarrow> Some (Inl e)
     | Inr (rich, t) \<Rightarrow> command_loop (if rich then getNextLine sr else plain_line) sr t)"

end
