(* ===== verification/Shell_Laws.thy ===== *)
theory Shell_Laws
  imports Shell_Commands
begin

text \<open>
  Laws of the shell: completion filters by prefix, the line editor refines a buffer that is split
  at the cursor, and reading a line does not end once the input has.
\<close>

section \<open>Completion\<close>

abbreviation fits :: "string \<Rightarrow> string \<Rightarrow> bool" where
  "fits elem c \<equiv> take (length elem) c = elem"

lemma complete_loop_filter:
  assumes "pos \<le> length elem" and "\<forall>c \<in> set compls. take pos c = take pos elem"
  shows "complete_loop elem pos compls = filter (fits elem) compls"
  using assms
proof (induction elem pos compls rule: complete_loop.induct)
  case (1 elem pos compls)
  show ?case
  proof (cases "pos < length elem \<and> compls \<noteq> []")
    case False
    with 1(2,3) show ?thesis by (subst complete_loop.simps) (auto simp: filter_id_conv)
  next
    case True
    let ?q = "\<lambda>c. pos < length c \<and> elem ! pos = c ! pos"
    have step: "take (Suc pos) c = take (Suc pos) elem \<longleftrightarrow> ?q c" if "take pos c = take pos elem" for c
    proof -
      have "length (take pos c) = length (take pos elem)" using that by simp
      then have "pos \<le> length c" using True by simp
      then show ?thesis using that True
        by (cases "pos < length c") (auto simp: take_Suc_conv_app_nth dest: arg_cong [where f = length])
    qed
    have "fits elem c \<Longrightarrow> ?q c" for c
      using True by (metis nth_take length_take min_less_iff_conj)
    then have "filter (fits elem) (filter ?q compls) = filter (fits elem) compls"
      by (auto intro: filter_cong)
    moreover have "\<forall>c \<in> set (filter ?q compls). take (Suc pos) c = take (Suc pos) elem"
      using step 1(3) by auto
    ultimately show ?thesis
      using 1(1) [OF True] True by (subst complete_loop.simps) simp
  qed
qed

lemma complete_loop_0: "complete_loop elem 0 compls = filter (fits elem) compls"
  by (rule complete_loop_filter) simp_all

text \<open>What completion makes of a line: the names that could stand at its end, and the part of
  the line that a name has to start with.\<close>

definition completions :: "string \<Rightarrow> string \<times> string list" where
  "completions c = (let cmd = extractHead c; args = extractTail c; sub_cmd = extractHead args;
      open_end = (c = [] \<or> last c \<noteq> CHR '' '')
    in if cmd = [] then ([], [])
       else if \<not> isValidCommand cmd then
         (cmd, if open_end \<and> args = [] then map fst commands @ map fst commandGroups else [])
       else case map_of commandGroups cmd of
         None \<Rightarrow> ([], [])
       | Some (d, m) \<Rightarrow> (sub_cmd, if map_of m sub_cmd = None \<and> extractTail args = [] \<and> (open_end \<or> sub_cmd = [])
           then map fst m else []))"

definition completed :: "string \<Rightarrow> string" where
  "completed c = (case completions c of (elem, names) \<Rightarrow>
     case filter (fits elem) names of [n] \<Rightarrow> c @ drop (length elem) n | _ \<Rightarrow> c)"

definition walks :: "surroundings \<Rightarrow> bool" where
  "walks sr \<longleftrightarrow> (\<forall>xs. mset (sr_walk sr xs) = mset xs)"

lemma filter_singleton_mset:
  assumes "mset xs = mset ys" and "filter p ys = [y]"
  shows "filter p xs = [y]"
proof -
  have "mset (filter p xs) = mset (filter p ys)" by (simp add: mset_filter assms(1))
  then show ?thesis unfolding assms(2) by (metis mset_single_iff_right mset.simps)
qed

lemma two_or_more:
  assumes "length xs = Suc (Suc n)"
  obtains x y zs where "xs = x # y # zs"
  using assms by (cases xs; cases "tl xs") auto

lemma edits_each: "(\<And>x. x \<in> set xs \<Longrightarrow> edits Pair (f x)) \<Longrightarrow> edits Pair (eachS f xs)"
proof (induction xs)
  case Nil
  show ?case by (rule editsI) (simp add: same_else_def)
next
  case (Cons x xs)
  then have "edits Pair (f x)" "edits Pair (eachS f xs)" by simp_all
  from edits_then [OF this] show ?case by simp
qed

lemma edits_describe: "edits Pair (describe xs)"
  unfolding describe_def by (rule edits_each) (auto intro: edits_prompt)

lemma edits_help: "edits Pair (shell_help sr ''help'')"
  using edits_then [OF edits_describe edits_describe] by (simp add: shell_help_def)

lemma edits_around:
  assumes "edits Pair m"
  shows "edits (\<lambda>c k. (c, length c)) (thenS end_line (thenS m refresh))"
  using edits_then [OF edits_end edits_then [OF assms edits_refresh]] by simp

lemma at_end_ok: "isCursorAtEnd s \<Longrightarrow> line_ok s"
  by (simp add: isCursorAtEnd_def line_ok_def)

lemma same_else_refl [simp]: "same_else s s"
  by (simp add: same_else_def)

lemma around_run:
  assumes "edits Pair m" and "isCursorAtEnd s"
  shows "\<exists>t. thenS end_line (thenS m refresh) s = Inr ((), t) \<and> isCursorAtEnd t \<and> same_else s t
    \<and> ln_content t = ln_content s"
  using edits_run [OF edits_around [OF assms(1)] at_end_ok [OF assms(2)]]
  by (metis isCursorAtEnd_def prod.inject)

lemma complete_run:
  assumes "isCursorAtEnd s" and "mset compls = mset names"
  shows "\<exists>t. complete elem compls s = Inr ((), t) \<and> isCursorAtEnd t \<and> same_else s t
    \<and> ln_content t = (case filter (fits elem) names of
        [n] \<Rightarrow> ln_content s @ drop (length elem) n | _ \<Rightarrow> ln_content s)"
proof -
  consider (none) "filter (fits elem) names = []" | (one) n where "filter (fits elem) names = [n]"
    | (more) m n ns where "filter (fits elem) names = m # n # ns" by (metis neq_Nil_conv)
  then show ?thesis
  proof cases
    case none
    have "mset (filter (fits elem) compls) = mset (filter (fits elem) names)" by (simp add: mset_filter assms(2))
    then have "filter (fits elem) compls = []" using none by (metis mset_zero_iff)
    then show ?thesis using none assms(1) by (simp add: complete_def complete_loop_0)
  next
    case one
    have "filter (fits elem) compls = [n]" by (rule filter_singleton_mset [OF assms(2) one])
    moreover have "\<exists>t. append_text (drop (length elem) n) s = Inr ((), t) \<and> isCursorAtEnd t \<and> same_else s t
        \<and> ln_content t = ln_content s @ drop (length elem) n"
      by (rule edits_run [OF edits_append at_end_ok [OF assms(1)], of "drop (length elem) n"])
        (use assms(1) in \<open>auto simp: isCursorAtEnd_def\<close>)
    ultimately show ?thesis using one by (simp add: complete_def complete_loop_0)
  next
    case more
    have "length (filter (fits elem) compls) = length (filter (fits elem) names)"
      by (metis assms(2) mset_filter size_mset)
    then have "length (filter (fits elem) compls) = Suc (Suc (length ns))" using more by simp
    then obtain x y zs where "filter (fits elem) compls = x # y # zs" by (rule two_or_more)
    then have run: "complete elem compls = thenS end_line
        (thenS (prompt [concat (map (\<lambda>c. c @ '' '') (x # y # zs)) @ newline]) refresh)"
      by (simp add: complete_def complete_loop_0)
    show ?thesis unfolding run more list.case by (rule around_run [OF edits_prompt assms(1)])
  qed
qed

lemma completeLine_run:
  assumes "walks sr" and "isCursorAtEnd s"
  shows "\<exists>t. completeLine sr s = Inr ((), t) \<and> isCursorAtEnd t \<and> same_else s t
    \<and> ln_content t = completed (ln_content s)"
proof -
  let ?c = "ln_content s"
  have open_end: "\<not> endsWith (CHR '' '') s \<longleftrightarrow> ln_content s = [] \<or> last (ln_content s) \<noteq> CHR '' ''"
    by (auto simp: endsWith_def)
  have w: "mset (sr_walk sr xs) = mset xs" for xs using assms(1) by (simp add: walks_def)
  have all: "mset (sr_walk sr xs @ sr_walk sr ys) = mset (xs @ ys)" for xs ys by (simp add: w)
  consider (empty) "extractHead ?c = []" | (unknown) "extractHead ?c \<noteq> []" "\<not> isValidCommand (extractHead ?c)"
    | (plain) "extractHead ?c \<noteq> []" "isValidCommand (extractHead ?c)" "map_of commandGroups (extractHead ?c) = None"
    | (group) d m where "extractHead ?c \<noteq> []" "isValidCommand (extractHead ?c)"
        "map_of commandGroups (extractHead ?c) = Some (d, m)"
    by (metis option.exhaust prod.exhaust)
  then show ?thesis
  proof cases
    case empty
    with around_run [OF edits_help assms(2), of sr] show ?thesis
      by (simp add: completeLine_def completed_def completions_def bindS_def Let_def)
  next
    case unknown
    with complete_run [OF assms(2) all, of "extractHead ?c" "map fst commands" "map fst commandGroups"] assms(2)
    show ?thesis
      by (simp add: completeLine_def completed_def completions_def bindS_def Let_def open_end whenS_def completeCommand_def)
  next
    case plain
    with assms(2) show ?thesis
      by (simp add: completeLine_def completed_def completions_def bindS_def Let_def whenS_def isCommandGroup_def)
  next
    case group
    with complete_run [OF assms(2) w, of "extractHead (extractTail ?c)" "map fst m"] assms(2)
    show ?thesis
      by (cases "map_of m (extractHead (extractTail ?c)) = None")
        (simp_all del: not_None_eq not_Some_eq add: completeLine_def completed_def completions_def bindS_def Let_def whenS_def isCommandGroup_def
          open_end completeSubCommand_def isValidSubCommand_def sub_commands_def, blast)
  qed
qed

section \<open>The line editor\<close>

text \<open>
  The specification: a buffer is the text before and the text after the cursor, and the place in
  the history of commands. A key is what the terminal sends for it.
\<close>

datatype key = Type char | Rubout | CursorLeft | CursorRight | Older | Newer | Complete

type_synonym buffer = "string \<times> string \<times> nat"

fun key_bytes :: "key \<Rightarrow> string" where
  "key_bytes (Type c) = [c]"
| "key_bytes Rubout = [CHR 0x7F]"
| "key_bytes CursorLeft = ESC # ''[D''"
| "key_bytes CursorRight = ESC # ''[C''"
| "key_bytes Older = ESC # ''[A''"
| "key_bytes Newer = ESC # ''[B''"
| "key_bytes Complete = [CHR 0x09]"

fun press :: "string list \<Rightarrow> key \<Rightarrow> buffer \<Rightarrow> buffer" where
  "press h (Type c) (l, r, i) = (l @ [c], r, i)"
| "press h Rubout (l, r, i) = (butlast l, r, i)"
| "press h CursorLeft (l, r, i) = (if l = [] then (l, r, i) else (butlast l, last l # r, i))"
| "press h CursorRight (l, r, i) = (if r = [] then (l, r, i) else (l @ [hd r], tl r, i))"
| "press h Older (l, r, i) = (if i = 0 then (l, r, i) else (h ! (i - 1), [], i - 1))"
| "press h Newer (l, r, i) = (if i + 1 < length h then (h ! (i + 1), [], i + 1) else (l, r, i))"
| "press h Complete (l, r, i) = (if r = [] then (completed l, r, i) else (l, r, i))"

fun typable :: "key \<Rightarrow> bool" where
  "typable (Type c) \<longleftrightarrow> \<not> iscntrl c"
| "typable _ \<longleftrightarrow> True"

fun holds :: "buffer \<Rightarrow> shell \<Rightarrow> bool" where
  "holds (l, r, i) s \<longleftrightarrow> ln_content s = l @ r \<and> ln_cursor s = length l \<and> sh_historyIter s = i
    \<and> i \<le> length (sh_commandHistory s)"

lemma same_else_shell:
  fixes s t :: shell
  assumes "same_else s t"
  shows "sh_commandHistory t = sh_commandHistory s" "sh_historyIter t = sh_historyIter s" "cn_input t = cn_input s"
  using assms by (cases s; cases t; simp add: same_else_def)+

lemma holds_edit:
  assumes "edits f m" and "holds (l, r, i) s" and "f (l @ r) (length l) = (l' @ r', length l')"
  shows "\<exists>t. m s = Inr ((), t) \<and> holds (l', r', i) t \<and> cn_input t = cn_input s
    \<and> sh_commandHistory t = sh_commandHistory s"
proof -
  have "line_ok s" using assms(2) by (simp add: line_ok_def)
  from edits_run [OF assms(1) this] obtain t where "m s = Inr ((), t)" "same_else s t"
    "(ln_content t, ln_cursor t) = f (ln_content s) (ln_cursor s)" by metis
  with assms(2,3) show ?thesis by (auto simp: same_else_shell [of s t])
qed

lemma recall_run:
  assumes "holds (l, r, j) s" and "i < length (sh_commandHistory s)"
  shows "\<exists>t. recall (s\<lparr>sh_historyIter := i\<rparr>) = Inr ((), t) \<and> holds (sh_commandHistory s ! i, [], i) t
    \<and> cn_input t = cn_input s \<and> sh_commandHistory t = sh_commandHistory s"
proof -
  let ?u = "s\<lparr>sh_historyIter := i\<rparr>"
  have "holds (l, r, i) ?u" using assms by simp
  from holds_edit [OF edits_assign this, of "sh_commandHistory s ! i" "sh_commandHistory s ! i" "[]"]
  show ?thesis using assms(2) by (simp add: recall_def bindS_def)
qed

lemma control_bytes: "iscntrl (CHR 0x7F)" "iscntrl ESC" "iscntrl (CHR 0x09)" "iscntrl (CHR 0x0D)" "iscntrl (CHR 0x0A)"
  by (simp_all add: iscntrl_def ESC_def)

text \<open>The operation behind a key.\<close>

fun key_operation :: "surroundings \<Rightarrow> key \<Rightarrow> (shell, unit) comp" where
  "key_operation sr (Type c) = insert_char c"
| "key_operation sr Rubout = backspace"
| "key_operation sr CursorLeft = moveCursorBackward 1"
| "key_operation sr CursorRight = moveCursorForward 1"
| "key_operation sr Older = previousCommand"
| "key_operation sr Newer = nextCommand"
| "key_operation sr Complete = bindS getS (\<lambda>s. whenS (isCursorAtEnd s) (completeLine sr))"

lemma key_step_operation:
  assumes "typable k" and "cn_input s = key_bytes k @ rest"
  shows "key_step sr s = thenS (key_operation sr k) (returnS None) (s\<lparr>cn_input := rest\<rparr>)"
  using assms
  by (cases k) (simp_all add: key_step_def escape_key_def bindS_def thenS_def control_bytes, simp_all add: ESC_def)

lemma key_operation_run:
  assumes "walks sr" and "holds (l, r, i) s"
  shows "\<exists>t. key_operation sr k s = Inr ((), t) \<and> holds (press (sh_commandHistory s) k (l, r, i)) t
    \<and> cn_input t = cn_input s \<and> sh_commandHistory t = sh_commandHistory s"
proof (cases k)
  case (Type c)
  show ?thesis using holds_edit [OF edits_insert assms(2), of c "l @ [c]" r] by (simp add: Type)
next
  case Rubout
  show ?thesis using holds_edit [OF edits_backspace assms(2), of "butlast l" r] by (auto simp: Rubout butlast_conv_take)
next
  case CursorLeft
  show ?thesis
  proof (cases l rule: rev_cases)
    case Nil
    with holds_edit [OF edits_backward assms(2), of 1 l r] show ?thesis by (simp add: CursorLeft)
  next
    case (snoc l' x)
    with holds_edit [OF edits_backward assms(2), of 1 l' "x # r"] show ?thesis by (simp add: CursorLeft)
  qed
next
  case CursorRight
  show ?thesis
  proof (cases r)
    case Nil
    with holds_edit [OF edits_forward assms(2), of 1 l r] show ?thesis by (simp add: CursorRight)
  next
    case (Cons x r')
    with holds_edit [OF edits_forward assms(2), of 1 "l @ [x]" r'] show ?thesis by (simp add: CursorRight)
  qed
next
  case Older
  show ?thesis using recall_run [OF assms(2), of "i - 1"] assms(2)
    by (cases "i = 0") (auto simp: Older previousCommand_def bindS_def thenS_def whenS_def)
next
  case Newer
  show ?thesis using recall_run [OF assms(2), of "i + 1"] assms(2)
    by (cases "i + 1 < length (sh_commandHistory s)") (auto simp: Newer nextCommand_def bindS_def thenS_def whenS_def)
next
  case Complete
  show ?thesis
  proof (cases "r = []")
    case True
    with assms(2) have "isCursorAtEnd s" "ln_content s = l" by (simp_all add: isCursorAtEnd_def)
    with completeLine_run [OF assms(1) this(1)] assms(2) True show ?thesis
      by (auto simp: Complete bindS_def whenS_def isCursorAtEnd_def same_else_shell)
  next
    case False
    with assms(2) have "\<not> isCursorAtEnd s" by (simp add: isCursorAtEnd_def)
    with assms(2) False show ?thesis by (simp add: Complete bindS_def whenS_def)
  qed
qed

lemma key_step_run:
  assumes "walks sr" and "typable k" and "holds (l, r, i) s" and "cn_input s = key_bytes k @ rest"
  shows "\<exists>t. key_step sr s = Inr (None, t) \<and> holds (press (sh_commandHistory s) k (l, r, i)) t \<and> cn_input t = rest
    \<and> sh_commandHistory t = sh_commandHistory s"
proof -
  let ?s = "s\<lparr>cn_input := rest\<rparr>"
  have "holds (l, r, i) ?s" using assms(3) by simp
  from key_operation_run [OF assms(1) this, of k] obtain t where
    t: "key_operation sr k ?s = Inr ((), t)" "holds (press (sh_commandHistory s) k (l, r, i)) t"
      "cn_input t = rest" "sh_commandHistory t = sh_commandHistory s" by auto
  then show ?thesis
    by (simp add: key_step_operation [OF assms(2,4)] thenS_run [where m = "key_operation sr k", OF t(1)])
qed

lemma read_keys_keys:
  assumes "walks sr" and "\<forall>k \<in> set ks. typable k" and "holds b s"
    and "cn_input s = concat (map key_bytes ks) @ CHR 0x0D # rest"
  shows "\<exists>l r i t. fold (press (sh_commandHistory s)) ks b = (l, r, i)
    \<and> read_keys sr s = Some (Inr ((True, l @ r), t)) \<and> cn_input t = rest
    \<and> sh_commandHistory t = sh_commandHistory s \<and> sh_historyIter t = i \<and> i \<le> length (sh_commandHistory t)"
  using assms(2-)
proof (induction ks arbitrary: b s)
  case Nil
  obtain l r i where b: "b = (l, r, i)" by (cases b)
  let ?s = "s\<lparr>cn_input := rest\<rparr>"
  have "holds (l, r, i) ?s" using Nil(2) by (simp add: b)
  from holds_edit [OF edits_end this, of "[]" "l @ r"] obtain t where
    t: "end_line ?s = Inr ((), t)" "holds ([], l @ r, i) t" "cn_input t = rest"
      "sh_commandHistory t = sh_commandHistory s" by auto
  have "key_step sr s = Inr (Some (True, l @ r), t)" using Nil(3) t
    by (simp add: key_step_def bindS_def thenS_def control_bytes ESC_def)
  with t b show ?case by (subst read_keys.simps) auto
next
  case (Cons k ks)
  obtain l r i where b: "b = (l, r, i)" by (cases b)
  from key_step_run [OF assms(1) _ Cons(3) [unfolded b], of k "concat (map key_bytes ks) @ CHR 0x0D # rest"] Cons(2,4)
  obtain t where t: "key_step sr s = Inr (None, t)" "holds (press (sh_commandHistory s) k b) t"
    "cn_input t = concat (map key_bytes ks) @ CHR 0x0D # rest" "sh_commandHistory t = sh_commandHistory s"
    by (auto simp: b)
  have "read_keys sr s = read_keys sr t" by (subst read_keys.simps) (simp add: t(1))
  with Cons(1) [OF _ t(2,3)] Cons(2) t(4) show ?case by auto
qed

text \<open>A reader whose input has no end of line in it never returns: it inserts the byte 255 forever.\<close>

lemma read_keys_stuck:
  assumes "walks sr" and "\<forall>k \<in> set ks. typable k" and "holds b s" and "cn_input s = concat (map key_bytes ks)"
  shows "read_keys sr s = None"
proof (rule ccontr)
  let ?stuck = "\<lambda>s. \<exists>ks b. (\<forall>k \<in> set ks. typable k) \<and> holds b s \<and> cn_input s = concat (map key_bytes ks)"
  assume "read_keys sr s \<noteq> None"
  then obtain y where y: "read_keys sr s = Some y" by blast
  have "\<not> (walks sr \<and> ?stuck s)"
  proof (rule read_keys.raw_induct [OF _ y], goal_cases)
    case (1 f sr s y)
    show ?case
    proof
      assume "walks sr \<and> ?stuck s"
      then obtain ks b where *: "walks sr" "\<forall>k \<in> set ks. typable k" "holds b s"
        "cn_input s = concat (map key_bytes ks)" by blast
      obtain l r i where b: "b = (l, r, i)" by (cases b)
      have "\<exists>t. key_step sr s = Inr (None, t) \<and> ?stuck t"
      proof (cases ks)
        case Nil
        from holds_edit [OF edits_insert *(3) [unfolded b], of "CHR 0xFF" "l @ [CHR 0xFF]" r] obtain t where
          t: "insert_char (CHR 0xFF) s = Inr ((), t)" "holds (l @ [CHR 0xFF], r, i) t" "cn_input t = []"
          using *(4) Nil by auto
        have "key_step sr s = Inr (None, t)" using *(4) Nil t(1)
          by (simp add: key_step_def bindS_def thenS_def iscntrl_def)
        moreover have "?stuck t"
          using t(2,3) by (intro exI [of _ "[] :: key list"] exI [of _ "(l @ [CHR 0xFF], r, i)"]) simp
        ultimately show ?thesis by blast
      next
        case (Cons k ks')
        with key_step_run [OF *(1) _ *(3) [unfolded b], of k "concat (map key_bytes ks')"] *(2,4) obtain t where
          t: "key_step sr s = Inr (None, t)" "holds (press (sh_commandHistory s) k (l, r, i)) t"
          "cn_input t = concat (map key_bytes ks')" by auto
        have "\<forall>k \<in> set ks'. typable k" using *(2) Cons by simp
        with t show ?thesis by blast
      qed
      with 1 *(1) show False by fastforce
    qed
  qed
  with assms show False by blast
qed

text \<open>The empty line the reader starts from.\<close>

lemma getNextLine_start:
  assumes "sh_historyIter s \<le> length (sh_commandHistory s)"
  shows "\<exists>t. getNextLine sr s = read_keys sr t \<and> holds ([], [], sh_historyIter s) t \<and> cn_input t = cn_input s
    \<and> sh_commandHistory t = sh_commandHistory s"
proof -
  have "holds ([], [], sh_historyIter s) (s\<lparr>ln_content := [], ln_cursor := 0\<rparr>)" using assms by simp
  from holds_edit [OF edits_refresh this, of "[]" "[]"] show ?thesis by (auto simp: getNextLine_def)
qed

section \<open>Properties\<close>

text \<open>
  C26. The line editor of the shell refines a buffer split at the cursor. Whatever keys are typed
  before the end of the line, printable bytes, rubouts, cursor keys, history keys and requests for
  completion in any order, reading the line returns the text the buffer has after those keys, with
  everything behind the end of the line still unread, the history as before and the place in it
  where the history keys left it. The order in which the program walks its hash tables of commands
  has no influence.
\<close>

theorem line_editor_refines_buffer:
  assumes "\<forall>xs. mset (sr_walk sr xs) = mset xs" and "\<forall>k \<in> set ks. typable k"
    and "sh_historyIter s \<le> length (sh_commandHistory s)"
    and "cn_input s = concat (map key_bytes ks) @ CHR 0x0D # rest"
  shows "\<exists>l r i t. fold (press (sh_commandHistory s)) ks ([], [], sh_historyIter s) = (l, r, i)
    \<and> getNextLine sr s = Some (Inr ((True, l @ r), t)) \<and> cn_input t = rest
    \<and> sh_commandHistory t = sh_commandHistory s \<and> sh_historyIter t = i \<and> i \<le> length (sh_commandHistory t)"
proof -
  have "walks sr" using assms(1) by (simp add: walks_def)
  moreover obtain t where "getNextLine sr s = read_keys sr t" "holds ([], [], sh_historyIter s) t"
    "cn_input t = cn_input s" "sh_commandHistory t = sh_commandHistory s"
    using getNextLine_start [OF assms(3)] by blast
  ultimately show ?thesis using read_keys_keys [of sr ks "([], [], sh_historyIter s)" t rest] assms(2,4) by auto
qed

definition demo_surroundings :: surroundings where
  "demo_surroundings = \<lparr>sr_rng = (\<lambda>_. 0), sr_burst = 10, sr_ticks = 10, sr_u0 = 0, sr_iommu = 0, sr_flow = 0,
     sr_file = (\<lambda>_. NoFile), sr_dump = (\<lambda>_. []), sr_walk = rev, sr_isatty = True, sr_getattr = True,
     sr_setattr = True\<rparr>"

definition demo_keys :: "key list" where
  "demo_keys = [Type (CHR ''s''), Type (CHR ''r''), CursorLeft, Type (CHR ''t''), Rubout, Type (CHR ''t''), CursorRight, Complete]"

theorem line_editor_refines_buffer_witness:
  "\<exists>t. getNextLine demo_surroundings (shell_new logger_new (concat (map key_bytes demo_keys) @ [CHR 0x0D, CHR ''x'']))
      = Some (Inr ((True, ''stream''), t)) \<and> cn_input t = ''x''"
proof -
  have "\<forall>xs. mset (sr_walk demo_surroundings xs) = mset xs" by (simp add: demo_surroundings_def)
  moreover have "\<forall>k \<in> set demo_keys. typable k" by (simp add: demo_keys_def iscntrl_def)
  moreover have "fold (press []) demo_keys ([], [], 0) = (''stream'', [], 0)" by code_simp
  ultimately show ?thesis
    using line_editor_refines_buffer [of demo_surroundings demo_keys
      "shell_new logger_new (concat (map key_bytes demo_keys) @ [CHR 0x0D, CHR ''x''])" "''x''"]
    by (auto simp: shell_new_def)
qed

text \<open>
  C27. Reading a line does not return when the input ends before the line does, whatever keys came
  before: the value that marks the end of the input is taken for the printable byte 255 and
  inserted over and over.
\<close>

theorem end_of_input_is_never_seen:
  assumes "\<forall>xs. mset (sr_walk sr xs) = mset xs" and "\<forall>k \<in> set ks. typable k"
    and "sh_historyIter s \<le> length (sh_commandHistory s)"
    and "cn_input s = concat (map key_bytes ks)"
  shows "getNextLine sr s = None"
proof -
  have "walks sr" using assms(1) by (simp add: walks_def)
  moreover obtain t where "getNextLine sr s = read_keys sr t" "holds ([], [], sh_historyIter s) t"
    "cn_input t = cn_input s" "sh_commandHistory t = sh_commandHistory s"
    using getNextLine_start [OF assms(3)] by blast
  ultimately show ?thesis using read_keys_stuck [of sr ks "([], [], sh_historyIter s)" t] assms(2,4) by simp
qed

theorem end_of_input_is_never_seen_witness:
  "getNextLine demo_surroundings (shell_new logger_new ''quit'') = None"
  using end_of_input_is_never_seen [of demo_surroundings "map Type ''quit''" "shell_new logger_new ''quit''"]
  by (simp add: demo_surroundings_def shell_new_def iscntrl_def)

text \<open>
  The reader for input that is no terminal is never used: while errors still end the program, a
  standard input that is no terminal is one.
\<close>

theorem shell_needs_a_terminal:
  assumes "\<not> sr_isatty sr \<or> \<not> sr_getattr sr \<or> \<not> sr_setattr sr" and "lg_exitOnErrors (cn_logger s)"
  shows "shell_loop sr s = Some (Inl (ErrorExit ''Shell::tryEnableRichMode''))"
  using assms by (auto simp: shell_loop_def tryEnableRichMode_def console_error_def log_error_def thenS_def bindS_def
      prompt_def put_text_def whenS_def)

end
