(* ===== verification/Tracer.thy ===== *)
theory Tracer
  imports Profiles Logger
begin

text \<open>
  The packet tracer (\<^verbatim>\<open>packet_tracer.hh\<close>, \<^verbatim>\<open>packet_tracer.cc\<close>): one file per master and kind of trace,
  a line per packet in the file of its command, and for a packet somebody waits for a line with the
  latency and a line with the outstanding transactions. The record \<open>tracer\<close> has the fields of
  \<^verbatim>\<open>PacketTracer\<close>: \<open>tr_traces\<close> holds the streams that are open, one for each master id and kind of trace,
  and \<open>tr_files\<close> is what the file system holds under each path. A stream goes on writing to the file it was
  opened with, at its own position, whatever becomes of the output directory or of the name of the
  master. Whether a file can be opened is the parameter \<open>can_open\<close>. The tracer reads the manager and does not change it. The engine model
  does not call it; the calls are in \<^verbatim>\<open>TrafficProfileManager::send\<close> and \<^verbatim>\<open>receive\<close>.
\<close>

section \<open>Decimal output of a double\<close>

text \<open>
  An output stream shows six significant digits, the last one rounded from the exact value with ties
  to even, without trailing zeros, and with an exponent below \<open>10 powi -4\<close> and from \<open>10 ^ 6\<close> on.
\<close>

function log10_up :: "rat \<Rightarrow> int" where
  "log10_up x = (if 10 \<le> x then 1 + log10_up (x / 10) else 0)"
  by pat_completeness auto
termination
proof (relation "measure (\<lambda>x. nat \<lfloor>x\<rfloor>)", goal_cases)
  case (2 x)
  then have "\<lfloor>x / 10\<rfloor> < \<lfloor>x\<rfloor>" by linarith
  moreover have "0 < \<lfloor>x\<rfloor>" using 2 by linarith
  ultimately show ?case by simp
qed simp

function log10_dn :: "rat \<Rightarrow> int" where
  "log10_dn x = (if 0 < x \<and> x < 1 then log10_dn (10 * x) - 1 else 0)"
  by pat_completeness auto
termination
proof (relation "measure (\<lambda>x. nat \<lfloor>1 / x\<rfloor>)", goal_cases)
  case (2 x)
  define y where "y = 1 / x"
  from 2 have "1 < y" by (simp add: y_def)
  then have pos: "1 \<le> \<lfloor>y\<rfloor>" by simp
  then have "\<lfloor>y / 10\<rfloor> < \<lfloor>y\<rfloor>" by linarith
  moreover have "1 / (10 * x) = y / 10" "1 / x = y" by (simp_all add: y_def)
  ultimately show ?case using pos unfolding in_measure prod.case by (simp only: nat_less_eq_zless)
qed simp

declare log10_up.simps [simp del] log10_dn.simps [simp del]

definition significant :: "rat \<Rightarrow> nat \<times> int" where
  "significant x = (let e = (if 1 \<le> x then log10_up x else log10_dn x);
     n = nat (round_even (x / 10 powi (e - 5)))
   in if n = 1000000 then (100000, e + 1) else (n, e))"

definition rstrip_zeros :: "string \<Rightarrow> string" where
  "rstrip_zeros s = rev (dropWhile (\<lambda>c. c = CHR ''0'') (rev s))"

definition with_point :: "string \<Rightarrow> string \<Rightarrow> string" where
  "with_point a b = (let b' = rstrip_zeros b in if b' = [] then a else a @ ''.'' @ b')"

definition show_positive :: "rat \<Rightarrow> string" where
  "show_positive x = (let (n, e) = significant x; ds = dec_digits n [] in
     if e < -4 \<or> 6 \<le> e then with_point (take 1 ds) (drop 1 ds) @ ''e'' @ (if e < 0 then ''-'' else ''+'')
       @ (if \<bar>e\<bar> < 10 then ''0'' else '''') @ dec_digits (nat \<bar>e\<bar>) []
     else if 0 \<le> e then with_point (take (nat e + 1) ds) (drop (nat e + 1) ds)
     else with_point ''0'' (replicate (nat (- e) - 1) (CHR ''0'') @ ds))"

definition show_double :: "double \<Rightarrow> string" where
  "show_double x = (if x = 0 then ''0'' else if 0 < x then show_positive x else ''-'' @ show_positive (- x))"

text \<open>A quotient of doubles; a division by zero is shown as an infinity or as no number.\<close>

definition show_quotient :: "double \<Rightarrow> double \<Rightarrow> string" where
  "show_quotient x y = (case fl_div x y of
     Some q \<Rightarrow> show_double q
   | None \<Rightarrow> if x = 0 then ''-nan'' else if 0 < x then ''inf'' else ''-inf'')"

section \<open>State\<close>

datatype trace_type = Cmd command | OT | LATENCY

fun traceName :: "trace_type \<Rightarrow> string" where
  "traceName (Cmd CMD_INVALID) = ''INVALID''"
| "traceName (Cmd CMD_NONE) = ''NONE''"
| "traceName (Cmd READ_REQ) = ''READ_REQ''"
| "traceName (Cmd WRITE_REQ) = ''WRITE_REQ''"
| "traceName (Cmd READ_RESP) = ''READ_RESP''"
| "traceName (Cmd WRITE_RESP) = ''WRITE_RESP''"
| "traceName OT = ''OT''"
| "traceName LATENCY = ''LATENCY''"

definition trace_types :: "trace_type list" where
  "trace_types = map Cmd [CMD_INVALID, CMD_NONE, READ_REQ, WRITE_REQ, READ_RESP, WRITE_RESP] @ [OT, LATENCY]"

definition traceExt :: string where "traceExt = ''.trace''"

text \<open>An open stream: the path it was opened with and the position of the next character.\<close>

type_synonym trace_stream = "string \<times> nat"

record tracer =
  tr_enabled :: bool
  tr_timeUnit :: time_unit
  tr_latencyUnit :: time_unit
  tr_outDir :: string
  tr_traces :: "((u64 \<times> trace_type) \<times> trace_stream) list"
  tr_files :: "(string \<times> string) list"

definition tracer_new :: "(string \<times> string) list \<Rightarrow> tracer" where
  "tracer_new files = \<lparr>tr_enabled = False, tr_timeUnit = SEC, tr_latencyUnit = NS, tr_outDir = '''',
     tr_traces = [], tr_files = files\<rparr>"

definition setOutDir :: "string \<Rightarrow> tracer \<Rightarrow> tracer" where
  "setOutDir dir tr = tr\<lparr>tr_outDir := buildPath [dir]\<rparr>"

definition setTimeUnit :: "time_unit \<Rightarrow> tracer \<Rightarrow> tracer" where
  "setTimeUnit t tr = tr\<lparr>tr_timeUnit := t\<rparr>"

definition setLatencyUnit :: "time_unit \<Rightarrow> tracer \<Rightarrow> tracer" where
  "setLatencyUnit l tr = tr\<lparr>tr_latencyUnit := l\<rparr>"

definition tracer_enable :: "tracer \<Rightarrow> tracer" where
  "tracer_enable tr = tr\<lparr>tr_enabled := True\<rparr>"

definition loadTracerConfiguration :: "configuration \<Rightarrow> tracer \<Rightarrow> tracer" where
  "loadTracerConfiguration c tr = (if cf_tracing c = Some True
     then (case cf_trace_dir c of None \<Rightarrow> tracer_enable tr | Some d \<Rightarrow> setOutDir d (tracer_enable tr))
     else tr)"

definition enableTracer :: "string \<Rightarrow> tracer \<Rightarrow> tracer" where
  "enableTracer out tr = setOutDir out (tracer_enable tr)"

section \<open>Tracing\<close>

type_synonym 'a tracing = "(tracer, 'a) comp"

text \<open>A constant method of the manager.\<close>

definition ask :: "tpm \<Rightarrow> (tpm, 'a) comp \<Rightarrow> 'a tracing" where
  "ask t m = liftS (case m t of Inl e \<Rightarrow> Inl e | Inr (x, t') \<Rightarrow> Inr x)"

definition trace_path :: "tracer \<Rightarrow> string \<Rightarrow> trace_type \<Rightarrow> string" where
  "trace_path tr master k = buildPath [tr_outDir tr, master @ ''.'' @ traceName k @ traceExt]"

text \<open>What a file holds. Opening a file for output empties it and starts at its first character.\<close>

definition file_text :: "tracer \<Rightarrow> string \<Rightarrow> string" where
  "file_text tr p = the_default [] (map_of (tr_files tr) p)"

definition open_trace :: "(string \<Rightarrow> bool) \<Rightarrow> u64 \<Rightarrow> trace_type \<Rightarrow> string \<Rightarrow> unit tracing" where
  "open_trace can_open mId k path = (if can_open path
     then modifyS (\<lambda>tr. tr\<lparr>tr_files := AList.update path [] (tr_files tr),
       tr_traces := AList.update (mId, k) (path, 0) (tr_traces tr)\<rparr>)
     else failS (ErrorExit ''PacketTracer::getTraceFiles''))"

definition has_traces :: "u64 \<Rightarrow> tracer \<Rightarrow> bool" where
  "has_traces mId tr \<longleftrightarrow> list_ex (\<lambda>x. fst (fst x) = mId) (tr_traces tr)"

definition getTraceFiles :: "(string \<Rightarrow> bool) \<Rightarrow> tpm \<Rightarrow> u64 \<Rightarrow> unit tracing" where
  "getTraceFiles can_open t mId = bindS getS (\<lambda>tr.
     if has_traces mId tr then returnS ()
     else bindS (ask t (masterName mId)) (\<lambda>m.
       eachS (\<lambda>k. open_trace can_open mId k (trace_path tr m k)) trace_types))"

text \<open>
  Characters at a position of a file. When another stream has emptied the file in between, the gap
  before the position reads as null characters.
\<close>

definition write_at :: "nat \<Rightarrow> string \<Rightarrow> string \<Rightarrow> string" where
  "write_at n l c = take n c @ replicate (n - length c) (CHR 0x00) @ l @ drop (n + length l) c"

text \<open>A line on a stream; on a stream that is not open nothing happens.\<close>

definition write_trace :: "u64 \<Rightarrow> trace_type \<Rightarrow> string \<Rightarrow> unit tracing" where
  "write_trace mId k l = modifyS (\<lambda>tr. case map_of (tr_traces tr) (mId, k) of
     None \<Rightarrow> tr
   | Some (p, n) \<Rightarrow> tr\<lparr>tr_files := AList.update p (write_at n (l @ newline) (file_text tr p)) (tr_files tr),
       tr_traces := AList.update (mId, k) (p, n + length (l @ newline)) (tr_traces tr)\<rparr>)"

definition trace_prefix :: "tracer \<Rightarrow> tpm \<Rightarrow> packet \<Rightarrow> string" where
  "trace_prefix tr t pk =
     show_quotient (fl_of_u64 (pk_time pk)) (fl_of_u64 (toFrequency (tp_timeResolution t) div toFrequency (tr_timeUnit tr)))
     @ ''  '' @ toHex (pk_addr pk) @ '' ''"

text \<open>The latency is cut to an \<^verbatim>\<open>int\<close>; it has no meaning when it does not fit.\<close>

definition latency_value :: "tracer \<Rightarrow> tpm \<Rightarrow> double \<Rightarrow> int option" where
  "latency_value tr t dl =
    (case fl_div (fl_of_u64 (toFrequency (tp_timeResolution t))) (fl_of_u64 (toFrequency (tr_latencyUnit tr))) of
       None \<Rightarrow> None
     | Some scale \<Rightarrow> (case fl_div dl scale of
         None \<Rightarrow> None
       | Some x \<Rightarrow> let v = (if 0 \<le> x then \<lfloor>x\<rfloor> else \<lceil>x\<rceil>) in if -2147483648 \<le> v \<and> v < 2147483648 then Some v else None))"

definition trace_waited :: "tpm \<Rightarrow> u64 \<Rightarrow> packet \<Rightarrow> u64 \<Rightarrow> u64 option \<Rightarrow> unit tracing" where
  "trace_waited t mId pk dest rt = bindS getS (\<lambda>tr.
     let now_t = fl_of_u64 (tp_time t);
         dl = fl_sub now_t (case rt of None \<Rightarrow> now_t | Some r \<Rightarrow> fl_of_u64 r)
     in case latency_value tr t dl of
       None \<Rightarrow> failS (Undefined ''PacketTracer::trace'')
     | Some v \<Rightarrow>
         thenS (write_trace mId LATENCY (trace_prefix tr t pk @ show_double (rnd64 (of_int v))))
         (bindS (ask t (getOt dest)) (\<lambda>ot.
          write_trace mId OT (trace_prefix tr t pk @ to_string ot))))"

definition trace :: "(string \<Rightarrow> bool) \<Rightarrow> tpm \<Rightarrow> packet \<Rightarrow> unit tracing" where
  "trace can_open t pk = bindS getS (\<lambda>tr. whenS (tr_enabled tr)
     (bindS (ask t (masterId (pk_master_id pk))) (\<lambda>mId.
      thenS (getTraceFiles can_open t mId)
      (thenS (write_trace mId (Cmd (pk_cmd pk)) (trace_prefix tr t pk @ to_string (pk_size pk)))
      (case getDestinationProfile pk t of
         None \<Rightarrow> returnS ()
       | Some (dest, rt) \<Rightarrow> trace_waited t mId pk dest rt)))))"

end
