(* ===== verification/Tracer_Laws.thy ===== *)
theory Tracer_Laws
  imports Tracer Routing Demo
begin

text \<open>
  What the tracer writes, and that it ends the program on a packet that the engine drops.
\<close>

lemma ask_ok: "m t = Inr (x, t') \<Longrightarrow> ask t m tr = Inr (x, tr)"
  by (simp add: ask_def liftS_def)

lemma ask_error: "m t = Inl e \<Longrightarrow> ask t m tr = Inl e"
  by (simp add: ask_def liftS_def)

text \<open>The paths of the open streams, and the invariant of a tracer: the streams of a master are opened together,
  no two streams share a file, and each stands at the end of its file.\<close>

definition path_of :: "tracer \<Rightarrow> u64 \<times> trace_type \<Rightarrow> string option" where
  "path_of tr x = map_option fst (map_of (tr_traces tr) x)"

definition tracer_ok :: "tracer \<Rightarrow> bool" where
  "tracer_ok tr \<longleftrightarrow> (\<forall>i k. has_traces i tr \<longrightarrow> path_of tr (i, k) \<noteq> None)
     \<and> (\<forall>x y. path_of tr x \<noteq> None \<and> path_of tr x = path_of tr y \<longrightarrow> x = y)
     \<and> (\<forall>x p n. map_of (tr_traces tr) x = Some (p, n) \<longrightarrow> n = length (file_text tr p))"

definition same_units :: "tracer \<Rightarrow> tracer \<Rightarrow> bool" where
  "same_units tr tr' \<longleftrightarrow> tr_timeUnit tr' = tr_timeUnit tr \<and> tr_latencyUnit tr' = tr_latencyUnit tr"

lemma same_units_fun:
  "same_units tr tr' \<Longrightarrow> trace_prefix tr' = trace_prefix tr"
  "same_units tr tr' \<Longrightarrow> latency_value tr' = latency_value tr"
  by (simp_all add: same_units_def trace_prefix_def latency_value_def fun_eq_iff)

lemma has_traces_path: "has_traces i tr \<longleftrightarrow> (\<exists>k. path_of tr (i, k) \<noteq> None)"
  by (force simp: has_traces_def path_of_def list_ex_iff map_of_eq_None_iff)

lemma trace_types_UNIV: "set trace_types = UNIV"
proof (rule UNIV_eq_I [symmetric])
  fix k :: trace_type
  show "k \<in> set trace_types"
  proof (cases k)
    case (Cmd c)
    then show ?thesis by (cases c) (simp_all add: trace_types_def)
  qed (simp_all add: trace_types_def)
qed

text \<open>The kinds of traces have names of their own, and so have the files of a master.\<close>

lemma traceName_inj: "traceName j = traceName k \<Longrightarrow> j = k"
  by (induction j rule: traceName.induct; induction k rule: traceName.induct; simp)

lemma trace_path_inj: "trace_path tr m j = trace_path tr m k \<Longrightarrow> j = k"
proof -
  let ?x = "\<lambda>k. m @ CHR ''.'' # traceName k @ traceExt"
  have x: "?x k \<noteq> []" "?x k \<noteq> '' ''" "1 < length (?x k)"
    "hd (?x k) = (if m = [] then CHR ''.'' else hd m)" for k
    by (auto simp: traceExt_def last_append append_eq_Cons_conv)
  define q where "q = (if tr_outDir tr = [] \<or> tr_outDir tr = '' '' then []
    else if last (tr_outDir tr) = CHR ''/'' then tr_outDir tr else tr_outDir tr @ ''/'')"
  define c where "c = (if q \<noteq> [] \<and> m \<noteq> [] \<and> hd m = CHR ''/'' then 1 else 0 :: nat)"
  have step: "build_path (sp # sps) p = (if sp = [] \<or> sp = '' '' then build_path sps p
      else let r = p @ drop (if p \<noteq> [] \<and> hd sp = CHR ''/'' \<and> 1 < length sp then 1 else 0) sp
        in build_path sps (if last r = CHR ''/'' then r else r @ ''/''))" for sp sps p
    by (simp only: build_path.simps Let_def)
  have c1: "(if q \<noteq> [] \<and> hd (?x k) = CHR ''/'' \<and> 1 < length (?x k) then 1 else 0) = c" for k
    using x(3,4) by (auto simp: c_def)
  have fin: "r \<noteq> [] \<Longrightarrow> build_path [] (r @ ''/'') = r" for r by simp
  have "build_path [?x k] q = q @ drop c (?x k)" for k
  proof -
    have "c \<le> length m" by (cases m) (simp_all add: c_def)
    then have "drop c (?x k) \<noteq> []" "last (drop c (?x k)) = CHR ''e''" by (simp_all add: traceExt_def)
    then have y: "q @ drop c (?x k) \<noteq> []" "last (q @ drop c (?x k)) \<noteq> CHR ''/''" by (simp_all del: drop_append)
    show ?thesis
      unfolding step [of "?x k"] c1 Let_def if_not_P [OF y(2)] by (simp only: x(1,2) fin [OF y(1)] simp_thms if_False)
  qed
  moreover have "trace_path tr m k = build_path [?x k] q" for k
    by (simp add: trace_path_def buildPath_def q_def Let_def del: build_path.simps(2) add: step [of "tr_outDir tr"])
  ultimately have q: "trace_path tr m k = q @ drop c (?x k)" for k by simp
  have c: "c = 0 \<or> c = 1 \<and> m \<noteq> []" by (simp add: c_def)
  assume "trace_path tr m j = trace_path tr m k"
  then have "drop c (?x j) = drop c (?x k)" by (simp only: q same_append_eq)
  then have "traceName j @ traceExt = traceName k @ traceExt" using c by (cases m) auto
  then show ?thesis by (auto intro: traceName_inj)
qed

text \<open>One line.\<close>

definition line_on :: "tracer \<Rightarrow> u64 \<Rightarrow> (trace_type \<times> string) list \<Rightarrow> string \<Rightarrow> string" where
  "line_on tr i ls p = concat (map (\<lambda>(k, l). l @ newline) (filter (\<lambda>(k, l). path_of tr (i, k) = Some p) ls))"

definition appended :: "u64 \<Rightarrow> (trace_type \<times> string) list \<Rightarrow> tracer \<Rightarrow> tracer \<Rightarrow> bool" where
  "appended i ls tr tr' \<longleftrightarrow> same_units tr tr' \<and> tracer_ok tr' \<and> path_of tr' = path_of tr
     \<and> (\<forall>p. file_text tr' p = file_text tr p @ line_on tr i ls p)"

lemma appended_trans: "appended i ls tr t1 \<Longrightarrow> appended i ls' t1 t2 \<Longrightarrow> appended i (ls @ ls') tr t2"
  by (simp add: appended_def line_on_def same_units_def)

lemma appended_Nil: "tracer_ok tr \<Longrightarrow> appended i [] tr tr"
  by (simp add: appended_def line_on_def same_units_def)

lemma appended_has: "appended i ls tr tr' \<Longrightarrow> has_traces j tr' = has_traces j tr"
  by (simp add: appended_def has_traces_path)

lemma file_text_update:
  "file_text (tr\<lparr>tr_files := AList.update p c (tr_files tr), tr_traces := T\<rparr>) = (file_text tr)(p := c)"
  by (simp add: file_text_def fun_eq_iff)

lemma write_trace_run:
  assumes ok: "tracer_ok tr" and i: "has_traces i tr"
  shows "\<exists>tr'. write_trace i k l tr = Inr ((), tr') \<and> appended i [(k, l)] tr tr'"
proof -
  from ok i have "path_of tr (i, k) \<noteq> None" by (simp add: tracer_ok_def)
  then obtain p n where p: "map_of (tr_traces tr) (i, k) = Some (p, n)"
    by (auto simp: path_of_def)
  with ok have n: "n = length (file_text tr p)" unfolding tracer_ok_def by blast
  define T where "T = AList.update (i, k) (p, n + length (l @ newline)) (tr_traces tr)"
  define tr' where "tr' = tr\<lparr>tr_files := AList.update p (file_text tr p @ l @ newline) (tr_files tr), tr_traces := T\<rparr>"
  have w: "write_at n (l @ newline) (file_text tr p) = file_text tr p @ l @ newline"
    by (simp add: write_at_def n)
  have run: "write_trace i k l tr = Inr ((), tr')"
    unfolding write_trace_def modifyS_def p option.case prod.case w by (simp only: tr'_def T_def)
  have content: "file_text tr' = (file_text tr)(p := file_text tr p @ l @ newline)"
    unfolding tr'_def by (rule file_text_update)
  have path: "path_of tr' = path_of tr" by (auto simp: path_of_def tr'_def T_def p fun_eq_iff)
  have inj: "path_of tr x \<noteq> None \<Longrightarrow> path_of tr x = path_of tr y \<Longrightarrow> x = y" for x y
    using ok unfolding tracer_ok_def by blast
  have "m = length (file_text tr' q)" if q: "map_of (tr_traces tr') x = Some (q, m)" for x q m
  proof (cases "x = (i, k)")
    case True
    with q have "q = p" "m = n + length (l @ newline)" by (simp_all add: tr'_def T_def)
    then show ?thesis by (simp add: content n)
  next
    case False
    with q have x: "map_of (tr_traces tr) x = Some (q, m)" by (simp add: tr'_def T_def)
    with False inj [of x "(i, k)"] p have "q \<noteq> p" by (auto simp: path_of_def)
    moreover have "m = length (file_text tr q)" using ok x unfolding tracer_ok_def by blast
    ultimately show ?thesis by (simp add: content)
  qed
  with ok have "tracer_ok tr'" by (simp add: tracer_ok_def has_traces_path path)
  moreover have "same_units tr tr'" by (simp add: same_units_def tr'_def)
  ultimately have "appended i [(k, l)] tr tr'"
    by (auto simp: appended_def path content line_on_def path_of_def p)
  with run show ?thesis by blast
qed

text \<open>Opening the traces of a master empties their files.\<close>

lemma open_traces:
  "(\<And>k. can_open (f k)) \<Longrightarrow>
    \<exists>tr'. eachS (\<lambda>k. open_trace can_open i k (f k)) ks tr = Inr ((), tr')
      \<and> file_text tr' = (\<lambda>p. if p \<in> f ` set ks then [] else file_text tr p)
      \<and> map_of (tr_traces tr') = (\<lambda>x. if fst x = i \<and> snd x \<in> set ks then Some (f (snd x), 0) else map_of (tr_traces tr) x)
      \<and> same_units tr tr'"
proof (induction ks arbitrary: tr)
  case Nil
  then show ?case by (simp add: returnS_def same_units_def)
next
  case (Cons k ks)
  let ?t1 = "tr\<lparr>tr_files := AList.update (f k) [] (tr_files tr), tr_traces := AList.update (i, k) (f k, 0) (tr_traces tr)\<rparr>"
  have "open_trace can_open i k (f k) tr = Inr ((), ?t1)"
    using Cons.prems by (simp add: open_trace_def modifyS_def)
  moreover from Cons.IH [of ?t1] Cons.prems obtain tr' where
      "eachS (\<lambda>k. open_trace can_open i k (f k)) ks ?t1 = Inr ((), tr')"
      "file_text tr' = (\<lambda>p. if p \<in> f ` set ks then [] else file_text ?t1 p)"
      "map_of (tr_traces tr') = (\<lambda>x. if fst x = i \<and> snd x \<in> set ks then Some (f (snd x), 0) else map_of (tr_traces ?t1) x)"
      "same_units ?t1 tr'"
    by blast
  ultimately show ?case by (auto simp: thenS_def bindS_def file_text_update same_units_def fun_eq_iff)
qed

text \<open>Whatever the state of the streams, opening and writing do not fail and leave the units alone.\<close>

lemma getTraceFiles_units:
  assumes "masterName i t = Inr (m, t)" "\<And>p. can_open p"
  shows "\<exists>tr'. getTraceFiles can_open t i tr = Inr ((), tr') \<and> same_units tr tr'"
  using ask_ok [where m = "masterName i", OF assms(1)] assms(2) open_traces [of can_open "trace_path tr m" i trace_types tr]
  by (auto simp: getTraceFiles_def bindS_def getS_def returnS_def same_units_def)

lemma write_trace_units: "\<exists>tr'. write_trace i k l tr = Inr ((), tr') \<and> same_units tr tr'"
  by (auto simp: write_trace_def modifyS_def same_units_def split: option.split)

text \<open>
  The path of a trace of a master: the one its stream was opened with, or the one it gets now. The
  files of a master that is traced for the first time start empty.
\<close>

definition stream_path :: "tracer \<Rightarrow> u64 \<Rightarrow> string \<Rightarrow> trace_type \<Rightarrow> string" where
  "stream_path tr i m k = the_default (trace_path tr m k) (path_of tr (i, k))"

definition opened_text :: "tracer \<Rightarrow> u64 \<Rightarrow> string \<Rightarrow> string \<Rightarrow> string" where
  "opened_text tr i m p = (if \<not> has_traces i tr \<and> p \<in> trace_path tr m ` set trace_types then [] else file_text tr p)"

definition new_paths_free :: "tracer \<Rightarrow> u64 \<Rightarrow> string \<Rightarrow> bool" where
  "new_paths_free tr i m \<longleftrightarrow> has_traces i tr \<or> (\<forall>x k. path_of tr x \<noteq> Some (trace_path tr m k))"

lemma getTraceFiles_run:
  assumes m: "masterName i t = Inr (m, t)" and op: "\<And>p. can_open p"
    and ok: "tracer_ok tr" and free: "new_paths_free tr i m"
  shows "\<exists>tr'. getTraceFiles can_open t i tr = Inr ((), tr') \<and> tracer_ok tr' \<and> same_units tr tr' \<and> has_traces i tr'
    \<and> file_text tr' = opened_text tr i m
    \<and> path_of tr' = (\<lambda>x. if fst x = i then Some (stream_path tr i m (snd x)) else path_of tr x)"
proof (cases "has_traces i tr")
  case True
  with ok have "\<exists>p. path_of tr (i, k) = Some p" for k by (simp add: tracer_ok_def)
  then have "the_default d (path_of tr (i, k)) = the (path_of tr (i, k)) \<and> path_of tr (i, k) \<noteq> None" for d k
    by (metis option.case(2) option.sel option.simps(3) the_default_def)
  then have "path_of tr = (\<lambda>x. if fst x = i then Some (stream_path tr i m (snd x)) else path_of tr x)"
    by (auto simp: fun_eq_iff stream_path_def)
  with True ok show ?thesis
    by (auto simp: getTraceFiles_def bindS_def getS_def returnS_def opened_text_def same_units_def fun_eq_iff)
next
  case False
  then have none: "path_of tr (i, k) = None" for k by (simp add: has_traces_path)
  have "ask t (masterName i) tr = Inr (m, tr)" by (rule ask_ok) (rule m)
  moreover from op obtain tr' where tr':
      "eachS (\<lambda>k. open_trace can_open i k (trace_path tr m k)) trace_types tr = Inr ((), tr')"
      "file_text tr' = (\<lambda>p. if p \<in> trace_path tr m ` set trace_types then [] else file_text tr p)"
      "map_of (tr_traces tr') = (\<lambda>x. if fst x = i then Some (trace_path tr m (snd x), 0) else map_of (tr_traces tr) x)"
      "same_units tr tr'"
    using open_traces [of can_open "trace_path tr m" i trace_types tr] unfolding trace_types_UNIV by auto
  moreover have content: "file_text tr' = opened_text tr i m" by (rule ext) (simp add: tr'(2) opened_text_def False)
  moreover have path: "path_of tr' = (\<lambda>x. if fst x = i then Some (stream_path tr i m (snd x)) else path_of tr x)"
    by (auto simp: path_of_def tr'(3) fun_eq_iff stream_path_def none [unfolded path_of_def])
  moreover have has: "has_traces j tr' \<longleftrightarrow> j = i \<or> has_traces j tr" for j
    by (auto simp: has_traces_path path)
  moreover have "tracer_ok tr'" unfolding tracer_ok_def
  proof (intro conjI allI impI, goal_cases)
    case (1 j k)
    with ok has show ?case by (auto simp: path tracer_ok_def)
  next
    case (2 x y)
    have inj: "path_of tr u \<noteq> None \<Longrightarrow> path_of tr u = path_of tr v \<Longrightarrow> u = v" for u v
      using ok unfolding tracer_ok_def by blast
    have new: "path_of tr u \<noteq> Some (trace_path tr m k)" for u k
      using free False unfolding new_paths_free_def by blast
    have at: "path_of tr' u = (if fst u = i then Some (trace_path tr m (snd u)) else path_of tr u)" for u
      by (cases u) (simp add: path stream_path_def none)
    show ?case
    proof (cases "fst x = i"; cases "fst y = i")
      assume "fst x = i" "fst y = i"
      with 2 show ?thesis by (auto simp: at prod_eq_iff intro: trace_path_inj)
    next
      assume "fst x \<noteq> i" "fst y \<noteq> i"
      with 2 inj [of x y] show ?thesis by (metis at)
    next
      assume "fst x = i" "fst y \<noteq> i"
      with 2 new [of y "snd x"] show ?thesis by (simp add: at)
    next
      assume "fst x \<noteq> i" "fst y = i"
      with 2 new [of x "snd y"] show ?thesis by (simp add: at)
    qed
  next
    case (3 x p n)
    show ?case
    proof (cases "fst x = i")
      case True
      with 3 show ?thesis by (auto simp: tr'(2,3) trace_types_UNIV)
    next
      case outside: False
      with 3 have x: "map_of (tr_traces tr) x = Some (p, n)" by (simp add: tr'(3))
      with ok have "n = length (file_text tr p)" unfolding tracer_ok_def by blast
      moreover from x have "path_of tr x = Some p" by (simp add: path_of_def)
      then have "p \<notin> range (trace_path tr m)" using free False unfolding new_paths_free_def by blast
      ultimately show ?thesis by (simp add: tr'(2) trace_types_UNIV)
    qed
  qed
  ultimately show ?thesis using False by (auto simp: getTraceFiles_def bindS_def getS_def)
qed

text \<open>The lines of a packet: its kind of trace and the text.\<close>

definition packet_lines :: "tracer \<Rightarrow> tpm \<Rightarrow> packet \<Rightarrow> (u64 \<times> int \<times> u64) option \<Rightarrow> (trace_type \<times> string) list" where
  "packet_lines tr t pk w = (let pre = trace_prefix tr t pk in
    (Cmd (pk_cmd pk), pre @ to_string (pk_size pk)) #
    (case w of None \<Rightarrow> []
     | Some (dest, v, ot) \<Rightarrow> [(LATENCY, pre @ show_double (rnd64 (of_int v))), (OT, pre @ to_string ot)]))"

lemma trace_waited_run:
  assumes ok: "tracer_ok tr" and i: "has_traces i tr" and "prof dest t = Inr (pr, t)"
    and "latency_value tr t (fl_sub (fl_of_u64 (tp_time t)) (fl_of_u64 (the_default (tp_time t) rt))) = Some v"
  shows "\<exists>tr'. trace_waited t i pk dest rt tr = Inr ((), tr')
    \<and> appended i (tl (packet_lines tr t pk (Some (dest, v, pr_ot pr)))) tr tr'"
proof -
  let ?pre = "trace_prefix tr t pk"
  obtain t1 where t1: "write_trace i LATENCY (?pre @ show_double (rnd64 (of_int v))) tr = Inr ((), t1)"
      "appended i [(LATENCY, ?pre @ show_double (rnd64 (of_int v)))] tr t1"
    using write_trace_run [OF ok i] by blast
  then have "tracer_ok t1" "has_traces i t1" using i by (simp_all add: appended_has) (simp add: appended_def)
  then obtain t2 where t2: "write_trace i OT (?pre @ to_string (pr_ot pr)) t1 = Inr ((), t2)"
      "appended i [(OT, ?pre @ to_string (pr_ot pr))] t1 t2"
    using write_trace_run by blast
  have ot: "ask t (getOt dest) t1 = Inr (pr_ot pr, t1)"
    by (rule ask_ok [where t' = t]) (simp add: getOt_def bindS_def assms(3) returnS_def)
  have "appended i ([(LATENCY, ?pre @ show_double (rnd64 (of_int v)))] @ [(OT, ?pre @ to_string (pr_ot pr))]) tr t2"
    by (rule appended_trans [OF t1(2) t2(2)])
  moreover from assms(4) t1(1) t2(1) ot have "trace_waited t i pk dest rt tr = Inr ((), t2)"
    by (cases rt) (simp_all add: trace_waited_def bindS_def getS_def thenS_def Let_def)
  ultimately show ?thesis by (simp add: packet_lines_def Let_def)
qed

text \<open>
  C28. An enabled tracer adds to the trace files of the master of a packet exactly the lines of the packet:
  a line with its size for its command and, when a profile waits for it, its latency and the
  outstanding transactions of that profile. A line goes to the end of the file its stream was opened with,
  whatever the output directory and the name of the master are by now; a master that is traced for the
  first time gets its files in the present directory, and they start empty. No other file changes, and
  the tracer stays in its invariant. The invariant is that no two open streams share a file and each stands at the end of
  its file; it holds of a new tracer and needs that the files of a new master are not open already.
\<close>

theorem packet_is_traced:
  assumes "tr_enabled tr" "map_of (tp_masterMap t) (pk_master_id pk) = Some mId"
    and m: "masterName mId t = Inr (m, t)" and op: "\<And>p. can_open p"
    and ok: "tracer_ok tr" and free: "new_paths_free tr mId m"
    and w: "case getDestinationProfile pk t of None \<Rightarrow> w = None
      | Some (dest, rt) \<Rightarrow> \<exists>v pr. w = Some (dest, v, pr_ot pr) \<and> prof dest t = Inr (pr, t)
          \<and> latency_value tr t (fl_sub (fl_of_u64 (tp_time t)) (fl_of_u64 (the_default (tp_time t) rt))) = Some v"
  shows "\<exists>tr'. trace can_open t pk tr = Inr ((), tr') \<and> tracer_ok tr'
    \<and> (\<forall>i k. path_of tr' (i, k) = (if i = mId then Some (stream_path tr mId m k) else path_of tr (i, k)))
    \<and> (\<forall>p. file_text tr' p = opened_text tr mId m p
         @ concat (map (\<lambda>(k, l). l @ newline) (filter (\<lambda>(k, l). stream_path tr mId m k = p) (packet_lines tr t pk w))))"
proof -
  let ?pre = "trace_prefix tr t pk"
  have mid: "ask t (masterId (pk_master_id pk)) tr = Inr (mId, tr)"
    by (rule ask_ok [where t' = t]) (simp add: masterId_def assms(2))
  obtain t1 where t1: "getTraceFiles can_open t mId tr = Inr ((), t1)" "tracer_ok t1" "same_units tr t1" "has_traces mId t1"
      "file_text t1 = opened_text tr mId m"
      "path_of t1 = (\<lambda>x. if fst x = mId then Some (stream_path tr mId m (snd x)) else path_of tr x)"
    using getTraceFiles_run [where can_open = can_open, OF m op ok free] by blast
  obtain t2 where t2: "write_trace mId (Cmd (pk_cmd pk)) (?pre @ to_string (pk_size pk)) t1 = Inr ((), t2)"
      "appended mId [(Cmd (pk_cmd pk), ?pre @ to_string (pk_size pk))] t1 t2"
    using write_trace_run [OF t1(2,4)] by blast
  have ok2: "tracer_ok t2" "has_traces mId t2" and same2: "same_units tr t2"
    using t1(3,4) t2(2) by (simp_all add: appended_has) (simp_all add: appended_def same_units_def)
  have run: "trace can_open t pk tr = (case getDestinationProfile pk t of None \<Rightarrow> Inr ((), t2)
      | Some (dest, rt) \<Rightarrow> trace_waited t mId pk dest rt t2)"
    by (simp add: trace_def bindS_def getS_def whenS_def assms(1) thenS_def mid t1(1) t2(1) returnS_def split: option.splits)
  have "\<exists>tr'. trace can_open t pk tr = Inr ((), tr') \<and> appended mId (packet_lines tr t pk w) t1 tr'"
  proof (cases "getDestinationProfile pk t")
    case None
    with w have "w = None" by simp
    with None t2(2) show ?thesis by (simp add: run packet_lines_def Let_def)
  next
    case (Some d)
    obtain dest rt where d: "d = (dest, rt)" by (cases d)
    with Some w obtain v pr where v: "w = Some (dest, v, pr_ot pr)" "prof dest t = Inr (pr, t)"
        "latency_value t2 t (fl_sub (fl_of_u64 (tp_time t)) (fl_of_u64 (the_default (tp_time t) rt))) = Some v"
      by (auto simp: same_units_fun [OF same2])
    from trace_waited_run [OF ok2 v(2,3), of pk] obtain t3 where
      t3: "trace_waited t mId pk dest rt t2 = Inr ((), t3)"
        "appended mId (tl (packet_lines t2 t pk w)) t2 t3"
      by (auto simp: v(1))
    from appended_trans [OF t2(2) t3(2)] have "appended mId (packet_lines tr t pk w) t1 t3"
      by (simp add: packet_lines_def Let_def same_units_fun [OF same2])
    with t3(1) show ?thesis by (simp add: run Some d)
  qed
  then show ?thesis by (auto simp: appended_def line_on_def t1(5,6))
qed

text \<open>Examples of the decimal output.\<close>

lemmas significant_simps = significant_def log10_up.simps log10_dn.simps round_even_def power_int_def
  power_one_over Let_def

lemma show_examples:
  "show_double 0 = ''0''" "show_double 2 = ''2''" "show_double (1 / 200) = ''0.005''"
proof -
  have "significant 2 = (200000, 0)" "significant (1 / 200) = (500000, -3)"
    by (simp_all add: significant_simps)
  moreover have "dec_digits 200000 [] = ''200000''" "dec_digits 500000 [] = ''500000''"
    by (simp add: dec_digits.simps, code_simp)+
  ultimately show "show_double 2 = ''2''" "show_double (1 / 200) = ''0.005''" "show_double 0 = ''0''"
    by (simp_all add: show_double_def show_positive_def with_point_def rstrip_zeros_def numeral_2_eq_2)
qed

definition demo_traced :: tpm where
  "demo_traced = demo\<lparr>tp_timeResolution := NS\<rparr>"

definition demo_request :: packet where
  "demo_request = new_packet\<lparr>pk_cmd := READ_REQ, pk_uid := 5, pk_addr := 4096, pk_size := 64,
     pk_time := 2000000000, pk_master_id := ''cpu''\<rparr>"

definition demo_tracer :: tracer where
  "demo_tracer = enableTracer ''out'' (tracer_new [])"

lemma demo_prefix: "trace_prefix demo_tracer demo_traced demo_request = ''2  0x1000 ''"
proof -
  have "fl_of_u64 2000000000 = 2000000000" "fl_of_u64 1000000000 = 1000000000" "rnd64 2 = 2"
    using rnd64_int [of 2000000000] rnd64_int [of 1000000000] rnd64_int [of 2] by (simp_all add: fl_of_u64_def)
  then have "show_quotient (fl_of_u64 2000000000) (fl_of_u64 1000000000) = ''2''"
    by (simp add: show_quotient_def fl_div_def show_examples)
  moreover have "toHex 4096 = ''0x1000''" by code_simp
  ultimately show ?thesis
    by (simp add: trace_prefix_def demo_tracer_def demo_traced_def demo_request_def enableTracer_def setOutDir_def
        tracer_enable_def tracer_new_def)
qed

lemma demo_latency: "latency_value demo_tracer demo_traced 0 = Some 0"
proof -
  have "fl_of_u64 1000000000 = 1000000000" "rnd64 1 = 1" "rnd64 0 = 0"
    using rnd64_int [of 1000000000] rnd64_int [of 1] rnd64_int [of 0] by (simp_all add: fl_of_u64_def)
  then show ?thesis
    by (simp add: latency_value_def fl_div_def demo_tracer_def demo_traced_def enableTracer_def setOutDir_def
        tracer_enable_def tracer_new_def)
qed

lemma demo_paths: "list_all (\<lambda>k. trace_path demo_tracer ''cpu'' k = ''out/cpu.'' @ traceName k @ ''.trace'') trace_types"
  by code_simp

lemma tracer_new_ok: "tracer_ok (tracer_new files)"
  by (simp add: tracer_ok_def has_traces_def path_of_def tracer_new_def)

text \<open>The directory is of no account for what is open.\<close>

lemma setOutDir_ok [simp]:
  "tracer_ok (setOutDir d tr) = tracer_ok tr" "path_of (setOutDir d tr) = path_of tr"
  by (simp_all add: tracer_ok_def has_traces_def path_of_def file_text_def setOutDir_def fun_eq_iff)

lemma demo_tracer_ok: "tracer_ok demo_tracer" "new_paths_free demo_tracer i m" "path_of demo_tracer x = None"
    "\<not> has_traces i demo_tracer" "file_text demo_tracer p = []"
  by (simp_all add: tracer_ok_def new_paths_free_def has_traces_def path_of_def file_text_def demo_tracer_def enableTracer_def
      setOutDir_def tracer_enable_def tracer_new_def)

theorem packet_is_traced_witness:
  "\<exists>tr'. trace (\<lambda>p. True) demo_traced demo_request demo_tracer = Inr ((), tr')
     \<and> file_text tr' ''out/cpu.READ_REQ.trace'' = ''2  0x1000 64'' @ newline
     \<and> file_text tr' ''out/cpu.LATENCY.trace'' = ''2  0x1000 0'' @ newline
     \<and> file_text tr' ''out/cpu.OT.trace'' = ''2  0x1000 0'' @ newline
     \<and> file_text tr' ''out/cpu.READ_RESP.trace'' = []"
proof -
  have dest: "getDestinationProfile demo_request demo_traced = Some (1, None)" by code_simp
  obtain pr where pr: "prof 1 demo_traced = Inr (pr, demo_traced)" "pr_ot pr = 0"
    by (simp add: prof_def demo_traced_def demo_def demo_profile_def)
  have zero: "fl_sub x x = 0" for x by (simp add: fl_sub_def rnd64_def)
  have str: "to_string 64 = ''64''" "to_string 0 = ''0''" by code_simp+
  have path: "stream_path demo_tracer 0 ''cpu'' k = trace_path demo_tracer ''cpu'' k" for k
    by (simp add: stream_path_def demo_tracer_ok)
  have empty: "opened_text demo_tracer 0 ''cpu'' p = []" for p by (simp add: opened_text_def demo_tracer_ok)
  have lines: "packet_lines demo_tracer demo_traced demo_request (Some (1, 0, 0)) = [(Cmd READ_REQ, ''2  0x1000 64''),
      (LATENCY, ''2  0x1000 0''), (OT, ''2  0x1000 0'')]"
    using rnd64_int [of 0] by (simp add: packet_lines_def demo_prefix str show_examples) (simp add: demo_request_def str)
  have "tr_enabled demo_tracer" "map_of (tp_masterMap demo_traced) (pk_master_id demo_request) = Some 0"
      "masterName 0 demo_traced = Inr (''cpu'', demo_traced)"
    by (simp_all add: demo_tracer_def enableTracer_def setOutDir_def tracer_enable_def tracer_new_def demo_traced_def
        demo_def demo_request_def masterName_def)
  from packet_is_traced [OF this, of "\<lambda>p. True" "Some (1, 0, 0)"] dest pr zero demo_latency obtain tr' where
      run: "trace (\<lambda>p. True) demo_traced demo_request demo_tracer = Inr ((), tr')" and
      tr': "\<And>p. file_text tr' p = concat (map (\<lambda>(k, l). l @ newline) (filter (\<lambda>(k, l). trace_path demo_tracer ''cpu'' k = p)
        (packet_lines demo_tracer demo_traced demo_request (Some (1, 0, 0)))))"
    by (auto simp: empty path demo_tracer_ok)
  from run show ?thesis using demo_paths by (auto simp: tr' lines trace_types_def)
qed

text \<open>
  C29. A master that does not wait for responses has the engine discard the response to its packet.
  The engine drops that response; with tracing enabled the tracer asks for the outstanding
  transactions of the profile it is for, which does not exist, and the exception ends the program.
\<close>

theorem traced_discard_is_fatal:
  assumes "tr_enabled tr" "map_of (tp_masterMap t) (pk_master_id pk) = Some mId"
    and "masterName mId t = Inr (m, t)" "\<And>p. can_open p" "length (tp_profiles t) < 2 ^ 64"
    and "packetType (pk_cmd pk) = RESPONSE" "map_of (tp_waitedResponse t) (pk_uid pk) = None"
    and dis: "discard (pk_uid pk) t = Inr (u, t1)" and later: "t2 = t1\<lparr>tp_time := now_t\<rparr>"
    and lat: "latency_value tr t2 (fl_sub (fl_of_u64 now_t) (fl_of_u64 (tp_time t))) = Some v"
  shows "dispatch rng i pk t2 = Inr ([], t2) \<and> trace can_open t2 pk tr = Inl (Uncaught ''vector::at'')"
proof -
  have t2: "t2 = t\<lparr>tp_waitedResponse := AList.update (pk_uid pk) (invalid_id, tp_time t) (tp_waitedResponse t), tp_time := now_t\<rparr>"
    using dis later assms(7) by (auto simp: discard_def getTime_def wait_def wait_table_def comp_defs)
  have dest: "getDestinationProfile pk t2 = Some (invalid_id, Some (tp_time t))"
    by (simp add: getDestinationProfile_def assms(6) t2)
  have m: "masterName mId t2 = Inr (m, t2)"
    using assms(3) by (auto simp: masterName_def t2 split: if_splits)
  have mid: "ask t2 (masterId (pk_master_id pk)) tr = Inr (mId, tr)"
    by (rule ask_ok [where t' = t2]) (simp add: masterId_def assms(2) t2)
  obtain a where a: "getTraceFiles can_open t2 mId tr = Inr ((), a)" "same_units tr a"
    using getTraceFiles_units [where can_open = can_open, OF m assms(4)] by blast
  obtain b where b: "write_trace mId (Cmd (pk_cmd pk)) (trace_prefix tr t2 pk @ to_string (pk_size pk)) a = Inr ((), b)"
      "same_units a b"
    using write_trace_units by blast
  have "same_units tr b" using a(2) b(2) by (simp add: same_units_def)
  note b_units = same_units_fun(2) [OF this]
  have "unat invalid_id = 2 ^ 64 - 1" 
    by (simp add: invalid_id_def unsigned_minus_1_eq_mask mask_eq_exp_minus_1)
  then have "prof invalid_id t2 = Inl (Uncaught ''vector::at'')"
    using assms(5) by (simp add: prof_def t2)
  then have ot: "ask t2 (getOt invalid_id) c = Inl (Uncaught ''vector::at'')" for c
    by (intro ask_error) (simp add: getOt_def bindS_def)
  obtain c where c: "write_trace mId LATENCY (trace_prefix b t2 pk @ show_double (rnd64 (of_int v))) b = Inr ((), c)"
    using write_trace_units by blast
  have lat': "latency_value b t2 (fl_sub (fl_of_u64 now_t) (fl_of_u64 (tp_time t))) = Some v"
    using lat by (simp add: b_units)
  have "trace_waited t2 mId pk invalid_id (Some (tp_time t)) b = Inl (Uncaught ''vector::at'')"
    using lat' c ot by (simp add: trace_waited_def bindS_def getS_def thenS_def t2)
  then have "trace can_open t2 pk tr = Inl (Uncaught ''vector::at'')"
    by (simp add: trace_def bindS_def getS_def whenS_def assms(1) thenS_def mid a(1) b(1) dest)
  then show ?thesis by (simp add: dispatch_def bindS_def getS_def dest isValid_def)
qed

text \<open>The response of \<open>mem\<close> to a packet the master \<open>cpu\<close> does not wait for.\<close>

theorem traced_discard_is_fatal_witness:
  "let pk = demo_request\<lparr>pk_cmd := READ_RESP\<rparr>; t = demo_traced\<lparr>tp_waitedResponse := [(5, invalid_id, 0)]\<rparr>
   in discard 5 demo_traced = Inr ((), t) \<and> dispatch low_rng 1 pk t = Inr ([], t)
     \<and> trace (\<lambda>p. True) t pk demo_tracer = Inl (Uncaught ''vector::at'')"
proof -
  let ?t = "demo_traced\<lparr>tp_waitedResponse := [(5, invalid_id, 0)]\<rparr>"
  have dis: "discard 5 demo_traced = Inr ((), ?t)"
    by (simp add: discard_def wait_def wait_table_def getTime_def comp_defs demo_traced_def demo_def tpm_new_def)
  have now_t: "?t = ?t\<lparr>tp_time := 0\<rparr>" "tp_time demo_traced = 0" by (simp_all add: demo_traced_def demo_def tpm_new_def)
  have "fl_sub x x = 0" for x by (simp add: fl_sub_def rnd64_def)
  moreover have "latency_value demo_tracer ?t = latency_value demo_tracer demo_traced"
    by (simp add: latency_value_def fun_eq_iff)
  ultimately have lat: "latency_value demo_tracer ?t (fl_sub (fl_of_u64 0) (fl_of_u64 (tp_time demo_traced))) = Some 0"
    using demo_latency now_t(2) by simp
  show ?thesis
    using traced_discard_is_fatal [of demo_tracer demo_traced "demo_request\<lparr>pk_cmd := READ_RESP\<rparr>" 0 "''cpu''"
        "\<lambda>p. True" "()" ?t ?t 0 0 low_rng 1] dis now_t(1) lat
    by (simp add: demo_tracer_def enableTracer_def setOutDir_def tracer_enable_def tracer_new_def demo_request_def)
      (simp add: demo_traced_def demo_def tpm_new_def masterName_def)
qed

end
