(* ===== verification/Adapter.thy ===== *)
theory Adapter
  imports Config Routing Utilities
begin

text \<open>
  The adaptor between the engine and the gem5 simulator: class \<^verbatim>\<open>ProfileGen\<close>
  (\<^verbatim>\<open>gem5/profile_gen.hh\<close>, \<^verbatim>\<open>gem5/profile_gen.cc\<close>). It asks the manager for packets at the times
  the manager names, hands them to memory ports that may refuse them, keeps one refused packet per
  port for a retry, and finds the request a response answers in a routing table. The record
  \<open>adapter\<close> has its fields, with the manager (\<open>ad_tpm\<close>), the clock of the simulator, which only
  gem5 changes (\<open>ad_tick\<close>), and what the adaptor has told gem5: the calls of
  \<^verbatim>\<open>sendTimingReq\<close> (\<open>ad_attempts\<close>), the reasons given to \<^verbatim>\<open>exitSimLoop\<close>
  (\<open>ad_exits\<close>) and the lines of the M3I traces.

  gem5 is not part of the repository. The record \<open>platform\<close> stands for it: \<open>pl_accepts\<close> decides from
  the calls so far whether the last one is accepted, \<open>pl_unit\<close> is the number of ticks of a time
  unit as a \<^verbatim>\<open>double\<close>, and \<open>pl_slot\<close> is the position an element gets in the iteration order of a
  hash set. A termination callback is a \<^verbatim>\<open>std::function\<close>; the type variable \<open>'c\<close> stands for it
  and the operations that call one take the function that runs it. Debug output, the packet trace
  and the gem5 statistics are left out.
\<close>

section \<open>State\<close>

datatype gem5_command = ReadReq | WriteReq

record request =
  rq_addr :: u64
  rq_size :: u64
  rq_requestor :: u64
  rq_pc :: u64
  rq_streamId :: "u32 option"
  rq_substreamId :: "u32 option"
  rq_taskId :: "u32 option"
  rq_partition :: "u64 option"

record gpacket =
  gp_cmd :: gem5_command
  gp_req :: request

text \<open>The response to a packet: what the adaptor reads of it.\<close>

record response =
  rs_addr :: u64
  rs_size :: u64
  rs_requestor :: u64
  rs_isRead :: bool
  rs_isWrite :: bool

type_synonym attempt = "nat \<times> gpacket"

record platform =
  pl_rng :: rng
  pl_burst :: nat
  pl_accepts :: "attempt list \<Rightarrow> bool"
  pl_unit :: "time_unit \<Rightarrow> double"
  pl_second :: u64
  pl_requestorId :: "string \<Rightarrow> u64"
  pl_requestorName :: "u64 \<Rightarrow> string"
  pl_isMemAddr :: "u64 \<Rightarrow> bool"
  pl_isTimingMode :: bool
  pl_slot :: "u64 list \<Rightarrow> u64 \<Rightarrow> nat"
  pl_partitions :: bool
  pl_file :: "string \<Rightarrow> configuration option"

record 'c adapter =
  ad_tpm :: tpm
  ad_tick :: u64
  ad_nextAtpTime :: u64
  ad_nextPacketTick :: u64
  ad_locked :: bool
  ad_ports :: nat
  ad_interface :: "(u64 \<times> nat) list"
  ad_localBuffer :: "(string \<times> packet) list"
  ad_retryPkt :: "(nat \<times> gpacket) list"
  ad_retryPktTick :: "(nat \<times> u64) list"
  ad_routingTable :: "(u64 \<times> (u64 \<times> (command \<times> u64) list) list) list"
  ad_updateEvent :: "u64 option"
  ad_watchdogEvent :: "u64 option"
  ad_watchdogTimer :: u64
  ad_draining :: bool
  ad_debugFlag :: bool
  ad_exitWhenDone :: bool
  ad_outOfRangeAddresses :: bool
  ad_exitWhenOneMasterEnds :: bool
  ad_traceM3i :: bool
  ad_traceM3iBusWidth :: u64
  ad_traceM3iLastTick :: u64
  ad_profilesAsMasters :: bool
  ad_trackerLatency :: bool
  ad_initOnly :: bool
  ad_disableWatchdog :: bool
  ad_disableMemCheck :: bool
  ad_timeUnit :: time_unit
  ad_activeStreams :: "u64 list"
  ad_onTerminate :: "(u64 \<times> bool \<times> 'c option) list"
  ad_onBuildReq :: "(u64 \<times> (request \<Rightarrow> request) option) list"
  ad_attempts :: "attempt list"
  ad_exits :: "string list"
  ad_m3i :: "(string \<times> string) list"

type_synonym ('c, 'z, 'a) adapting = "(('c, 'z) adapter_scheme, 'a) comp"

abbreviation MaxTick :: u64 where "MaxTick \<equiv> - 1"

definition on_engine :: "(tpm, 'a) comp \<Rightarrow> ('c, 'z, 'a) adapting" where
  "on_engine m s = (case m (ad_tpm s) of Inl e \<Rightarrow> Inl e | Inr (x, t) \<Rightarrow> Inr (x, s\<lparr>ad_tpm := t\<rparr>))"

text \<open>\<^verbatim>\<open>fatal\<close> and \<^verbatim>\<open>panic\<close> of gem5 end the simulator.\<close>

definition fatal :: "string \<Rightarrow> ('s, 'a) comp" where
  "fatal f = failS (ErrorExit f)"

definition exitSimLoop :: "string \<Rightarrow> ('c, 'z, unit) adapting" where
  "exitSimLoop reason = modifyS (\<lambda>s. s\<lparr>ad_exits := ad_exits s @ [reason]\<rparr>)"

section \<open>Time\<close>

text \<open>The numbers of ticks of a unit; cycles are not converted.\<close>

definition to_atp :: "platform \<Rightarrow> time_unit \<Rightarrow> u64 \<Rightarrow> u64 res" where
  "to_atp pl u ticks =
    (case (if u = CYCLES then Some (fl_of_u64 ticks) else fl_div (fl_of_u64 ticks) (pl_unit pl u)) of
       None \<Rightarrow> Inl (Undefined ''ProfileGen::getAtpTime'')
     | Some t \<Rightarrow> (case fl_to_u64 t of None \<Rightarrow> Inl (Undefined ''ProfileGen::getAtpTime'') | Some v \<Rightarrow> Inr v))"

definition getAtpTime :: "platform \<Rightarrow> ('c, 'z, u64) adapting" where
  "getAtpTime pl = bindS getS (\<lambda>s. bindS (liftS (to_atp pl (ad_timeUnit s) (ad_tick s))) (\<lambda>v.
     returnS (max v (tp_time (ad_tpm s)))))"

definition getSimTicks :: "platform \<Rightarrow> u64 \<Rightarrow> ('c, 'z, u64) adapting" where
  "getSimTicks pl atpTime = bindS getS (\<lambda>s.
     case fl_to_u64 (if ad_timeUnit s = CYCLES then fl_of_u64 atpTime
       else fl_mul (fl_of_u64 atpTime) (pl_unit pl (ad_timeUnit s))) of
       None \<Rightarrow> failS (Undefined ''ProfileGen::getSimTicks'') | Some v \<Rightarrow> returnS v)"

section \<open>Packets\<close>

definition getGem5Command :: "packet \<Rightarrow> gem5_command res" where
  "getGem5Command p = (case pk_cmd p of
     READ_REQ \<Rightarrow> Inr ReadReq
   | WRITE_REQ \<Rightarrow> Inr WriteReq
   | _ \<Rightarrow> Inl (ErrorExit ''ProfileGen::getGem5Command''))"

definition getAtpCommand :: "response \<Rightarrow> command res" where
  "getAtpCommand p = (if rs_isRead p then Inr READ_RESP
     else if rs_isWrite p then Inr WRITE_RESP
     else Inl (ErrorExit ''ProfileGen::getAtpCommand''))"

text \<open>
  A stream id that is not set reads as zero. The look-up of the callback inserts an empty one.
\<close>

definition buildGEM5Packet :: "platform \<Rightarrow> packet \<Rightarrow> ('c, 'z, gpacket) adapting" where
  "buildGEM5Packet pl p = bindS getS (\<lambda>s.
    let rid = pl_requestorId pl (pk_master_id p);
        streamId = the_default 0 (pk_stream_id p);
        req = \<lparr>rq_addr = pk_addr p, rq_size = pk_size p, rq_requestor = rid, rq_pc = push_bit 2 rid,
          rq_streamId = pk_iommu_id p, rq_substreamId = None, rq_taskId = None,
          rq_partition = (if pl_partitions pl then pk_flow_id p else None)\<rparr>;
        cb = the_default None (map_of (ad_onBuildReq s) streamId);
        req' = (case cb of None \<Rightarrow> req | Some f \<Rightarrow> f req)
    in thenS (modifyS (\<lambda>s. s\<lparr>ad_onBuildReq := AList.update streamId cb (ad_onBuildReq s)\<rparr>))
       (bindS (liftS (getGem5Command p)) (\<lambda>cmd. returnS \<lparr>gp_cmd = cmd, gp_req = req'\<rparr>)))"

section \<open>Routing of responses\<close>

text \<open>
  For each requestor and address the ids of the requests under way, by the command of the response.
  Of several entries with one command \<^verbatim>\<open>multimap::find\<close> may return any; the model takes the oldest, as
  libstdc++ does.
\<close>

definition response_command :: "packet \<Rightarrow> command" where
  "response_command p = (if pk_cmd p = READ_REQ then READ_RESP else WRITE_RESP)"

definition addRoutingEntry :: "platform \<Rightarrow> packet \<Rightarrow> ('c, 'z, unit) adapting" where
  "addRoutingEntry pl p = modifyS (\<lambda>s.
    let mId = pl_requestorId pl (pk_master_id p);
        masterTable = the_default [] (map_of (ad_routingTable s) mId);
        entries = the_default [] (map_of masterTable (pk_addr p));
        masterTable' = AList.update (pk_addr p) (entries @ [(response_command p, pk_uid p)]) masterTable
    in s\<lparr>ad_routingTable := AList.update mId masterTable' (ad_routingTable s)\<rparr>)"

fun remove_first :: "'k \<Rightarrow> ('k \<times> 'v) list \<Rightarrow> ('k \<times> 'v) list" where
  "remove_first k [] = []"
| "remove_first k (x # xs) = (if fst x = k then xs else x # remove_first k xs)"

definition lookupAndRemoveRoutingEntry :: "response \<Rightarrow> ('c, 'z, u64) adapting" where
  "lookupAndRemoveRoutingEntry p = bindS getS (\<lambda>s.
    case map_of (ad_routingTable s) (rs_requestor p) of
      None \<Rightarrow> fatal ''ProfileGen::lookupAndRemoveRoutingEntry''
    | Some masterTable \<Rightarrow> (case map_of masterTable (rs_addr p) of
        None \<Rightarrow> fatal ''ProfileGen::lookupAndRemoveRoutingEntry''
      | Some entries \<Rightarrow> bindS (liftS (getAtpCommand p)) (\<lambda>cmd. case map_of entries cmd of
          None \<Rightarrow> failS (Undefined ''multimap::find'')
        | Some uid \<Rightarrow>
            let entries' = remove_first cmd entries;
                masterTable' = (if entries' = [] then AList.delete (rs_addr p) masterTable
                  else AList.update (rs_addr p) entries' masterTable);
                table' = (if masterTable' = [] then AList.delete (rs_requestor p) (ad_routingTable s)
                  else AList.update (rs_requestor p) masterTable' (ad_routingTable s))
            in thenS (modifyS (\<lambda>s. s\<lparr>ad_routingTable := table'\<rparr>)) (returnS uid))))"

definition buildATPPacket :: "platform \<Rightarrow> response \<Rightarrow> ('c, 'z, packet) adapting" where
  "buildATPPacket pl p =
    bindS (lookupAndRemoveRoutingEntry p) (\<lambda>uid.
    bindS (getAtpTime pl) (\<lambda>t.
    bindS (liftS (getAtpCommand p)) (\<lambda>cmd.
    returnS (new_packet\<lparr>pk_uid := uid, pk_addr := rs_addr p, pk_size := rs_size p, pk_time := t,
      pk_master_id := pl_requestorName pl (rs_requestor p), pk_cmd := cmd\<rparr>))))"

section \<open>Scheduling\<close>

text \<open>\<^verbatim>\<open>reschedule\<close> of gem5 sets the time of an event, scheduled or not.\<close>

definition scheduleUpdate :: "platform \<Rightarrow> u64 \<Rightarrow> ('c, 'z, unit) adapting" where
  "scheduleUpdate pl due = modifyS (\<lambda>s.
    if \<not> pl_isTimingMode pl then s
    else case ad_updateEvent s of
      None \<Rightarrow> s\<lparr>ad_nextAtpTime := MaxTick, ad_updateEvent := Some due\<rparr>
    | Some w \<Rightarrow> if due < w then s\<lparr>ad_nextAtpTime := MaxTick, ad_updateEvent := Some due\<rparr> else s)"

definition scheduleNow :: "platform \<Rightarrow> ('c, 'z, unit) adapting" where
  "scheduleNow pl = bindS getS (\<lambda>s. scheduleUpdate pl (ad_tick s))"

definition traceM3iPacket :: "platform \<Rightarrow> gpacket \<Rightarrow> ('c, 'z, unit) adapting" where
  "traceM3iPacket pl pkt = bindS getS (\<lambda>s.
    thenS (whenS (ad_traceM3i s)
      (let V = ad_tick s - ad_traceM3iLastTick s;
           file = pl_requestorName pl (rq_requestor (gp_req pkt)) @ ''.m3i''
       in if ad_traceM3iBusWidth s = 0 then failS (Undefined ''ProfileGen::traceM3iPacket'')
          else modifyS (\<lambda>s. s\<lparr>ad_m3i := ad_m3i s @ [(file,
            (if gp_cmd pkt = ReadReq then ''AR'' else ''AW'') @ '' '' @ toHex (rq_addr (gp_req pkt))
            @ '' L'' @ to_string (rq_size (gp_req pkt) div ad_traceM3iBusWidth s)
            @ '' incr C0000 ID00 P000 V'' @ to_string V)]\<rparr>)))
    (modifyS (\<lambda>s. s\<lparr>ad_traceM3iLastTick := ad_tick s\<rparr>)))"

definition sendTimingReq :: "platform \<Rightarrow> nat \<Rightarrow> gpacket \<Rightarrow> ('c, 'z, bool) adapting" where
  "sendTimingReq pl pId pkt =
    thenS (modifyS (\<lambda>s. s\<lparr>ad_attempts := ad_attempts s @ [(pId, pkt)]\<rparr>))
    (readS (\<lambda>s. pl_accepts pl (ad_attempts s)))"

end
