(* ===== verification/Adapter_Update.thy ===== *)
theory Adapter_Update
  imports Adapter
begin

text \<open>
  The work of the adaptor (\<^verbatim>\<open>gem5/profile_gen.cc\<close>): the update that asks the manager for packets
  and serves the ports, retries, responses, the watchdog, draining, initialisation and the
  interface for streams.
\<close>

section \<open>Serving the ports\<close>

text \<open>
  One packet of one master on its port. A refused packet stays in \<open>ad_retryPkt\<close>. The result is the
  address of a packet that was suppressed because it is no memory address.
\<close>

definition serve :: "platform \<Rightarrow> nat \<Rightarrow> packet \<Rightarrow> ('c, 'z, u64 option) adapting" where
  "serve pl pId p = bindS getS (\<lambda>s.
    if ad_disableMemCheck s \<or> pl_isMemAddr pl (pk_addr p) then
      bindS (buildGEM5Packet pl p) (\<lambda>pkt.
      thenS (modifyS (\<lambda>s. s\<lparr>ad_retryPkt := AList.update pId pkt (ad_retryPkt s)\<rparr>))
      (thenS (addRoutingEntry pl p)
      (bindS (sendTimingReq pl pId pkt) (\<lambda>ok.
       thenS (if \<not> ok then modifyS (\<lambda>s. s\<lparr>ad_retryPktTick := AList.update pId (ad_tick s) (ad_retryPktTick s)\<rparr>)
         else thenS (traceM3iPacket pl pkt)
           (modifyS (\<lambda>s. s\<lparr>ad_retryPkt := AList.delete pId (ad_retryPkt s),
             ad_retryPktTick := AList.delete pId (ad_retryPktTick s)\<rparr>)))
       (returnS None)))))
    else returnS (Some (pk_addr p)))"

text \<open>
  The loop goes round the masters that are still to be served; a master leaves the round when its
  port is busy or it has no packets. \<open>toServe\<close> starts at the iterator of the code. Each round takes
  a packet from the buffer or a master from the round, so their number bounds the rounds.
\<close>

fun serve_loop :: "platform \<Rightarrow> nat \<Rightarrow> (u64 \<times> nat) list \<Rightarrow> u64 option \<Rightarrow> ('c, 'z, u64 option) adapting" where
  "serve_loop pl n [] suppressed = returnS suppressed"
| "serve_loop pl n ((mId, pId) # toServe) suppressed = bindS getS (\<lambda>s.
    if ad_localBuffer s = [] then returnS suppressed
    else case n of 0 \<Rightarrow> failS OutOfFuel | Suc n \<Rightarrow>
      let m = pl_requestorName pl mId
      in case map_of (ad_localBuffer s) m of
           None \<Rightarrow> serve_loop pl n toServe suppressed
         | Some p \<Rightarrow>
             if map_of (ad_retryPkt s) pId \<noteq> None then serve_loop pl n toServe suppressed
             else bindS (serve pl pId p) (\<lambda>sup.
               thenS (modifyS (\<lambda>s. s\<lparr>ad_localBuffer := remove_first m (ad_localBuffer s)\<rparr>))
               (serve_loop pl n (toServe @ [(mId, pId)]) (if sup = None then suppressed else sup))))"

definition serve_ports :: "platform \<Rightarrow> ('c, 'z, u64 option) adapting" where
  "serve_ports pl = bindS getS (\<lambda>s.
    serve_loop pl (length (ad_localBuffer s) + length (ad_interface s)) (ad_interface s) None)"

section \<open>Streams\<close>

text \<open>
  A hash set as a list in iteration order. An iterator is the element it stands at; \<open>None\<close> is the
  end.
\<close>

definition emplace :: "platform \<Rightarrow> u64 \<Rightarrow> u64 list \<Rightarrow> u64 list" where
  "emplace pl x xs = (if x \<in> set xs then xs else let k = pl_slot pl xs x in take k xs @ x # drop k xs)"

fun successor :: "u64 \<Rightarrow> u64 list \<Rightarrow> u64 option" where
  "successor x [] = None"
| "successor x (y # ys) = (if y = x then (case ys of [] \<Rightarrow> None | z # zs \<Rightarrow> Some z) else successor x ys)"

text \<open>
  The callback a stream was activated with; with automatic reset it first resets the stream. The
  look-up inserts an empty callback when there is none.
\<close>

definition run_terminate :: "platform \<Rightarrow> ('c \<Rightarrow> ('c, 'z, unit) adapting) \<Rightarrow> u64 \<Rightarrow> ('c, 'z, unit) adapting" where
  "run_terminate pl run i = bindS getS (\<lambda>s.
    let (reset, cb) = the_default (False, None) (map_of (ad_onTerminate s) i)
    in thenS (modifyS (\<lambda>s. s\<lparr>ad_onTerminate := AList.update i (reset, cb) (ad_onTerminate s)\<rparr>))
       (thenS (whenS reset (on_engine (streamReset i)))
       (case cb of None \<Rightarrow> returnS () | Some c \<Rightarrow> run c)))"

fun streams_loop :: "platform \<Rightarrow> ('c \<Rightarrow> ('c, 'z, unit) adapting) \<Rightarrow> nat \<Rightarrow> u64 option \<Rightarrow> ('c, 'z, unit) adapting" where
  "streams_loop pl run n None = returnS ()"
| "streams_loop pl run 0 (Some i) = failS OutOfFuel"
| "streams_loop pl run (Suc n) (Some i) =
    bindS (on_engine (streamTerminated i)) (\<lambda>t.
    if t then bindS (readS (\<lambda>s. successor i (ad_activeStreams s))) (\<lambda>next.
      thenS (modifyS (\<lambda>s. s\<lparr>ad_activeStreams := remove1 i (ad_activeStreams s)\<rparr>))
      (thenS (run_terminate pl run i) (streams_loop pl run n next)))
    else bindS (readS (\<lambda>s. successor i (ad_activeStreams s))) (streams_loop pl run n))"

definition terminated_streams :: "platform \<Rightarrow> ('c \<Rightarrow> ('c, 'z, unit) adapting) \<Rightarrow> nat \<Rightarrow> ('c, 'z, unit) adapting" where
  "terminated_streams pl run n = bindS getS (\<lambda>s.
    streams_loop pl run n (case ad_activeStreams s of [] \<Rightarrow> None | i # is \<Rightarrow> Some i))"

section \<open>The update\<close>

definition request_at :: "platform \<Rightarrow> u64 \<Rightarrow> ('c, 'z, unit) adapting" where
  "request_at pl t =
    bindS (on_engine (tpm_send (pl_rng pl) (pl_burst pl) t)) (\<lambda>(pkts, locked, next).
    thenS (modifyS (\<lambda>s. s\<lparr>ad_localBuffer := ad_localBuffer s @ pkts, ad_locked := locked\<rparr>))
    (if next = 0 then modifyS (\<lambda>s. s\<lparr>ad_nextAtpTime := MaxTick, ad_nextPacketTick := MaxTick\<rparr>)
     else bindS (getSimTicks pl next) (\<lambda>w.
       modifyS (\<lambda>s. s\<lparr>ad_nextAtpTime := next, ad_nextPacketTick := w\<rparr>))))"

definition request_packets :: "platform \<Rightarrow> ('c, 'z, unit) adapting" where
  "request_packets pl = bindS getS (\<lambda>s.
    bindS (if ad_nextAtpTime s = MaxTick then getAtpTime pl else returnS (ad_nextAtpTime s)) (request_at pl))"

text \<open>The two ways an update asks gem5 to leave the simulation, and the watchdog.\<close>

definition exit_on_master :: "('c, 'z, unit) adapting" where
  "exit_on_master = bindS getS (\<lambda>s. whenS (ad_exitWhenOneMasterEnds s)
    (eachS (\<lambda>m. bindS (on_engine (isTerminated m)) (\<lambda>t.
       whenS t (exitSimLoop (''AMBA TPM signals master '' @ m @ '' is terminated.''))))
     (remdups (tp_masters (ad_tpm s)))))"

definition nothing_left :: "('c, 'z) adapter_scheme \<Rightarrow> bool" where
  "nothing_left s \<longleftrightarrow> ad_exitWhenDone s \<and> ad_retryPkt s = [] \<and> ad_localBuffer s = [] \<and> \<not> ad_locked s
     \<and> ad_nextPacketTick s = MaxTick \<and> \<not> tpm_waiting (ad_tpm s)"

definition exit_when_done :: "u64 option \<Rightarrow> ('c, 'z, unit) adapting" where
  "exit_when_done suppressed = bindS getS (\<lambda>s.
    let alert = (suppressed \<noteq> None \<and> \<not> ad_outOfRangeAddresses s)
    in whenS (alert \<or> nothing_left s)
      (exitSimLoop (if alert then '' ALERT! ProfileGen detected and suppressed packet with address ''
           @ to_string (the_default 0 suppressed) @ [CHR 0x0A]
           @ ''with out-of-memory addresses, check your ATP files!'' @ [CHR 0x0A]
         else ''AMBA TPM signals no more profiles are active.'')))"

definition watchdog :: "('c, 'z, unit) adapting" where
  "watchdog = modifyS (\<lambda>s.
    if \<not> ad_disableWatchdog s \<and> ad_tick s < ad_tick s + ad_watchdogTimer s
    then s\<lparr>ad_watchdogEvent := Some (ad_tick s + ad_watchdogTimer s)\<rparr>
    else s\<lparr>ad_watchdogEvent := None\<rparr>)"

text \<open>
  gem5 has taken the event off its queue when it calls \<^verbatim>\<open>update\<close>. The bound \<open>n\<close> is for the loop over
  the active streams, to which callbacks may add.
\<close>

definition update :: "platform \<Rightarrow> ('c \<Rightarrow> ('c, 'z, unit) adapting) \<Rightarrow> nat \<Rightarrow> ('c, 'z, unit) adapting" where
  "update pl run n =
    thenS (modifyS (\<lambda>s. s\<lparr>ad_updateEvent := None\<rparr>))
    (thenS (request_packets pl)
    (bindS (serve_ports pl) (\<lambda>suppressed.
     bindS (getAtpTime pl) (\<lambda>t.
     thenS (on_engine (setTime t))
     (thenS (terminated_streams pl run n)
     (thenS (bindS getS (\<lambda>s. whenS (ad_nextPacketTick s \<noteq> MaxTick) (scheduleUpdate pl (ad_nextPacketTick s))))
     (thenS exit_on_master
     (thenS (exit_when_done suppressed) watchdog))))))))"

definition watchDog :: "('c, 'z, unit) adapting" where
  "watchDog = bindS getS (\<lambda>s.
    if \<not> ad_debugFlag s
    then modifyS (\<lambda>s. s\<lparr>ad_debugFlag := True, ad_watchdogEvent := Some (ad_tick s + ad_watchdogTimer s)\<rparr>)
    else thenS (modifyS (\<lambda>s. s\<lparr>ad_watchdogEvent := None\<rparr>)) (exitSimLoop ''ProfileGen::watchDog TRIGGERED!''))"

section \<open>Retries and responses\<close>

definition recvReqRetry :: "platform \<Rightarrow> nat \<Rightarrow> ('c, 'z, unit) adapting" where
  "recvReqRetry pl idx = bindS getS (\<lambda>s. case map_of (ad_retryPkt s) idx of
     None \<Rightarrow> returnS ()
   | Some pkt \<Rightarrow> bindS (sendTimingReq pl idx pkt) (\<lambda>ok. whenS ok
       (thenS (traceM3iPacket pl pkt)
       (thenS (modifyS (\<lambda>s. s\<lparr>ad_retryPkt := AList.delete idx (ad_retryPkt s),
          ad_retryPktTick := AList.delete idx (ad_retryPktTick s)\<rparr>))
       (if ad_draining s then modifyS (\<lambda>s. s\<lparr>ad_nextPacketTick := MaxTick, ad_draining := False\<rparr>)
        else scheduleNow pl)))))"

definition recvTimingResp :: "platform \<Rightarrow> response \<Rightarrow> ('c, 'z, bool) adapting" where
  "recvTimingResp pl p =
    bindS (buildATPPacket pl p) (\<lambda>pk. bindS (getAtpTime pl) (\<lambda>t.
    bindS (on_engine (tpm_receive (pl_rng pl) t pk)) (\<lambda>received.
    thenS (whenS received (scheduleNow pl)) (returnS True))))"

section \<open>Draining and checkpoints\<close>

text \<open>Whether the adaptor is drained at once.\<close>

definition drain :: "('c, 'z, bool) adapting" where
  "drain = bindS getS (\<lambda>s.
    if ad_updateEvent s = None then returnS True
    else if ad_retryPkt s = [] then
      thenS (modifyS (\<lambda>s. s\<lparr>ad_nextPacketTick := MaxTick, ad_updateEvent := None\<rparr>)) (returnS True)
    else thenS (modifyS (\<lambda>s. s\<lparr>ad_draining := True\<rparr>)) (returnS False))"

definition serialize :: "('c, 'z) adapter_scheme \<Rightarrow> u64 \<times> u64" where
  "serialize s = (the_default 0 (ad_updateEvent s), ad_nextPacketTick s)"

definition unserialize :: "platform \<Rightarrow> u64 \<times> u64 \<Rightarrow> ('c, 'z, unit) adapting" where
  "unserialize pl cp =
    thenS (whenS (fst cp \<noteq> 0) (scheduleUpdate pl (fst cp))) (modifyS (\<lambda>s. s\<lparr>ad_nextPacketTick := snd cp\<rparr>))"

section \<open>Initialisation\<close>

text \<open>
  The parameters gem5 creates the adaptor with, and the adaptor as its constructor leaves it, with
  an engine that was just made, at tick 0.
\<close>

record params =
  pm_ports :: nat
  pm_exit_when_done :: bool
  pm_out_of_range_addresses :: bool
  pm_exit_when_one_master_ends :: bool
  pm_trace_m3i :: bool
  pm_trace_m3i_bus :: u64
  pm_profiles_as_masters :: bool
  pm_tracker_latency :: bool
  pm_init_only :: bool
  pm_disable_watchdog :: bool
  pm_disable_mem_check :: bool

definition adapter_new :: "params \<Rightarrow> 'c adapter" where
  "adapter_new p = \<lparr>ad_tpm = tpm_new 0, ad_tick = 0, ad_nextAtpTime = MaxTick, ad_nextPacketTick = 0,
     ad_locked = False, ad_ports = pm_ports p, ad_interface = [], ad_localBuffer = [], ad_retryPkt = [],
     ad_retryPktTick = [], ad_routingTable = [], ad_updateEvent = None, ad_watchdogEvent = None,
     ad_watchdogTimer = 0, ad_draining = False, ad_debugFlag = False, ad_exitWhenDone = pm_exit_when_done p,
     ad_outOfRangeAddresses = pm_out_of_range_addresses p,
     ad_exitWhenOneMasterEnds = pm_exit_when_one_master_ends p, ad_traceM3i = pm_trace_m3i p,
     ad_traceM3iBusWidth = pm_trace_m3i_bus p, ad_traceM3iLastTick = 0,
     ad_profilesAsMasters = pm_profiles_as_masters p, ad_trackerLatency = pm_tracker_latency p,
     ad_initOnly = pm_init_only p, ad_disableWatchdog = pm_disable_watchdog p,
     ad_disableMemCheck = pm_disable_mem_check p, ad_timeUnit = CYCLES, ad_activeStreams = [],
     ad_onTerminate = [], ad_onBuildReq = [], ad_attempts = [], ad_exits = [], ad_m3i = []\<rparr>"

text \<open>Every other port is unknown, which is fatal.\<close>

definition getPort :: "string \<Rightarrow> nat \<Rightarrow> ('c, 'z, nat) adapting" where
  "getPort if_name idx = bindS getS (\<lambda>s. if if_name = ''port'' \<and> idx < ad_ports s then returnS idx
     else fatal ''SimObject::getPort'')"

text \<open>
  The masters in the order of their names get ports and requestor ids. The file loader is that of
  the manager; a file that cannot be opened only warns.
\<close>

fun load_files :: "platform \<Rightarrow> string list \<Rightarrow> ('c, 'z, unit) adapting" where
  "load_files pl [] = returnS ()"
| "load_files pl (f # fs) = thenS (on_engine (case pl_file pl f of
     None \<Rightarrow> returnS ()
   | Some c \<Rightarrow> thenS (loadConfiguration (pl_rng pl) c) (modifyS (\<lambda>t. t\<lparr>tp_initialized := True\<rparr>))))
     (load_files pl fs)"

fun less_string :: "string \<Rightarrow> string \<Rightarrow> bool" where
  "less_string [] ys \<longleftrightarrow> ys \<noteq> []"
| "less_string (x # xs) [] \<longleftrightarrow> False"
| "less_string (x # xs) (y # ys) \<longleftrightarrow> (of_char x :: nat) < of_char y \<or> x = y \<and> less_string xs ys"

fun insert_name :: "string \<Rightarrow> string list \<Rightarrow> string list" where
  "insert_name x [] = [x]"
| "insert_name x (y # ys) = (if x = y then y # ys else if less_string x y then x # y # ys else y # insert_name x ys)"

fun insert_port :: "u64 \<Rightarrow> nat \<Rightarrow> (u64 \<times> nat) list \<Rightarrow> (u64 \<times> nat) list" where
  "insert_port m p [] = [(m, p)]"
| "insert_port m p ((k, q) # xs) = (if m = k then (k, p) # xs else if m < k then (m, p) # (k, q) # xs
     else (k, q) # insert_port m p xs)"

definition register_master :: "platform \<Rightarrow> string \<Rightarrow> ('c, 'z, unit) adapting" where
  "register_master pl m = bindS getS (\<lambda>s.
    if length (ad_interface s) < ad_ports s
    then modifyS (\<lambda>s. s\<lparr>ad_interface := insert_port (pl_requestorId pl m) (length (ad_interface s)) (ad_interface s)\<rparr>)
    else fatal ''ProfileGen::init'')"

definition init :: "platform \<Rightarrow> string list \<Rightarrow> ('c, 'z, unit) adapting" where
  "init pl files = bindS getS (\<lambda>s.
    thenS (whenS (ad_profilesAsMasters s) (on_engine (modifyS (\<lambda>t. t\<lparr>tp_profilesAsMasters := True\<rparr>))))
    (thenS (whenS (ad_trackerLatency s) (on_engine (modifyS (\<lambda>t. t\<lparr>tp_trackerLatency := True\<rparr>))))
    (thenS (load_files pl files)
    (thenS (modifyS (\<lambda>s. s\<lparr>ad_timeUnit := tp_timeResolution (ad_tpm s)\<rparr>))
    (thenS (bindS getS (\<lambda>s. eachS (register_master pl) (fold insert_name (tp_masters (ad_tpm s)) [])))
    (modifyS (\<lambda>s. s\<lparr>ad_watchdogTimer := pl_second pl\<rparr>)))))))"

definition startup :: "platform \<Rightarrow> ('c, 'z, unit) adapting" where
  "startup pl = bindS getS (\<lambda>s. whenS (\<not> ad_initOnly s) (scheduleNow pl))"

section \<open>Statistics\<close>

text \<open>What gem5 is told of a master at a dump; a rate over no time is no number.\<close>

record master_report =
  mr_sent :: u64
  mr_received :: u64
  mr_sendRate :: "double option"
  mr_receiveRate :: "double option"
  mr_latency :: "double option"
  mr_jitter :: "double option"
  mr_underruns :: u64
  mr_overruns :: u64
  mr_ot :: u64
  mr_fifoLevel :: u64
  mr_startTime :: "double option"
  mr_finishTime :: "double option"
  mr_runTime :: "double option"

definition report_of :: "stats \<Rightarrow> master_report" where
  "report_of s = \<lparr>mr_sent = st_sent s, mr_received = st_received s, mr_sendRate = sendRate s,
     mr_receiveRate = receiveRate s, mr_latency = avgLatency s, mr_jitter = avgJitter s,
     mr_underruns = st_underruns s, mr_overruns = st_overruns s, mr_ot = avgOt s,
     mr_fifoLevel = avgFifoLevel s, mr_startTime = stats_getStartTime s, mr_finishTime = stats_getTime s,
     mr_runTime = (case (stats_getTime s, stats_getStartTime s) of
       (Some t, Some u) \<Rightarrow> Some (fl_sub t u) | _ \<Rightarrow> None)\<rparr>"

definition recordAtpStats :: "platform \<Rightarrow> ('c, 'z, (nat \<times> master_report) list) adapting" where
  "recordAtpStats pl = bindS getS (\<lambda>s. collectS (\<lambda>(m, p).
     bindS (on_engine (getMasterStats (pl_requestorName pl m))) (\<lambda>st. returnS (p, report_of st))) (ad_interface s))"

section \<open>The interface for streams\<close>

definition adapter_uniqueStream :: "platform \<Rightarrow> string \<Rightarrow> string \<Rightarrow> ('c, 'z, u64) adapting" where
  "adapter_uniqueStream pl master_name root_name =
    bindS (on_engine (profileId root_name)) (\<lambda>rt. bindS (on_engine (masterId master_name)) (\<lambda>m.
    on_engine (uniqueStream (pl_rng pl) rt m)))"

definition configureStream :: "u64 \<Rightarrow> u64 \<Rightarrow> u64 \<Rightarrow> ptype \<Rightarrow> ('c, 'z, unit) adapting" where
  "configureStream i base limit type = bindS (on_engine (addressStreamReconfigure i base limit type)) (\<lambda>_. returnS ())"

definition activateStream :: "platform \<Rightarrow> u64 \<Rightarrow> 'c option \<Rightarrow> (request \<Rightarrow> request) option \<Rightarrow> bool \<Rightarrow> ('c, 'z, unit) adapting" where
  "activateStream pl i on_terminate on_build auto_reset =
    thenS (on_engine (bindS (getProfile i) (\<lambda>p. activate tpm_event i)))
    (thenS (modifyS (\<lambda>s. s\<lparr>ad_activeStreams := emplace pl i (ad_activeStreams s),
        ad_onTerminate := AList.update i (auto_reset, on_terminate) (ad_onTerminate s),
        ad_onBuildReq := AList.update i on_build (ad_onBuildReq s)\<rparr>))
    (scheduleNow pl))"

definition initStream :: "platform \<Rightarrow> string \<Rightarrow> string \<Rightarrow> u64 \<Rightarrow> u64 \<Rightarrow> u64 \<Rightarrow> u64 \<Rightarrow> u32 \<Rightarrow> ('c, 'z, unit) adapting" where
  "initStream pl master_name root_name read_base read_range write_base write_range task_id =
    bindS (adapter_uniqueStream pl master_name root_name) (\<lambda>i.
    thenS (whenS (read_base \<noteq> MaxTick \<and> read_range \<noteq> MaxTick) (configureStream i read_base read_range P_READ))
    (thenS (whenS (write_base \<noteq> MaxTick \<and> write_range \<noteq> MaxTick) (configureStream i write_base write_range P_WRITE))
    (activateStream pl i None (Some (\<lambda>r. r\<lparr>rq_taskId := Some task_id\<rparr>)) False)))"

end
