(* ===== verification/Atp_Device.thy ===== *)
theory Atp_Device
  imports Adapter_Update
begin

text \<open>
  The programmable device of gem5 (\<^verbatim>\<open>gem5/atp_device.hh\<close>, \<^verbatim>\<open>gem5/atp_device.cc\<close>): software writes a
  request into memory-mapped registers, the device plays a stream through the adaptor, and when the
  stream has terminated it publishes the id of the request and raises an interrupt. The record
  \<open>device\<close> extends the adaptor with the fields of class \<^verbatim>\<open>ATP::Device\<close>. The callback the device gives
  the adaptor calls \<open>servedRequestHandler\<close>; it is the pair of the stream and the request it captures.

  The memory system of gem5 is not part of the repository. \<open>dv_dma\<close> holds the operation that
  \<^verbatim>\<open>dmaRead\<close> has started, and \<open>dma_done\<close> is its completion with the bytes that were read. The state of
  the interrupt line is \<open>dv_interrupt\<close>; \<open>dv_warnings\<close> are the calls of \<^verbatim>\<open>warn\<close>, by function and address.
\<close>

section \<open>State\<close>

datatype offset = STREAM_NAME_BASE | STREAM_NAME_RANGE | READ_BASE | READ_RANGE | WRITE_BASE
  | WRITE_RANGE | STREAM_ID | TASK_ID | IN_REQUEST_ID | OUT_REQUEST_ID | CONTROL | STATUS

fun offset_addr :: "offset \<Rightarrow> u64" where
  "offset_addr STREAM_NAME_BASE = 0x00"
| "offset_addr STREAM_NAME_RANGE = 0x08"
| "offset_addr READ_BASE = 0x10"
| "offset_addr READ_RANGE = 0x18"
| "offset_addr WRITE_BASE = 0x20"
| "offset_addr WRITE_RANGE = 0x28"
| "offset_addr STREAM_ID = 0x30"
| "offset_addr TASK_ID = 0x38"
| "offset_addr IN_REQUEST_ID = 0x3c"
| "offset_addr OUT_REQUEST_ID = 0x40"
| "offset_addr CONTROL = 0x44"
| "offset_addr STATUS = 0x45"

text \<open>The cases of the two handlers.\<close>

definition decode_offset :: "u64 \<Rightarrow> offset option" where
  "decode_offset a = List.find (\<lambda>r. offset_addr r = a) [STREAM_NAME_BASE, STREAM_NAME_RANGE, READ_BASE,
     READ_RANGE, WRITE_BASE, WRITE_RANGE, STREAM_ID, TASK_ID, IN_REQUEST_ID, OUT_REQUEST_ID, CONTROL, STATUS]"

record registers =
  rg_streamNameBase :: u64
  rg_streamNameRange :: u64
  rg_readBase :: u64
  rg_readRange :: u64
  rg_writeBase :: u64
  rg_writeRange :: u64
  rg_streamId :: u64
  rg_taskId :: u32
  rg_inRequestId :: u32
  rg_outRequestId :: u32
  rg_control :: "8 word"
  rg_status :: "8 word"

datatype dma_operation = DMA_READ | DMA_WRITE | DMA_RDWR

record play_request =
  pq_readBase :: u64
  pq_readRange :: u64
  pq_writeBase :: u64
  pq_writeRange :: u64
  pq_id :: u32
  pq_taskId :: u32
  pq_dmaOp :: dma_operation

record stream =
  st_active :: bool
  st_pending :: "play_request list"

record device = "(u64 \<times> u32) adapter" +
  dv_pioAddr :: u64
  dv_atpId :: string
  dv_sid :: u32
  dv_ssid :: u32
  dv_regs :: registers
  dv_streamNameBuffer :: string
  dv_streams :: "(u64 \<times> stream) list"
  dv_servedRequests :: "u32 list"
  dv_intAckPending :: bool
  dv_interrupt :: bool
  dv_dma :: "(u64 \<times> u64) option"
  dv_warnings :: "(string \<times> u64) list"

text \<open>The constructor leaves the registers as they are.\<close>

definition device_new :: "u64 \<Rightarrow> string \<Rightarrow> u32 \<Rightarrow> u32 \<Rightarrow> registers \<Rightarrow> (u64 \<times> u32) adapter \<Rightarrow> device" where
  "device_new pioAddr atpId sid ssid regs a = adapter.extend a \<lparr>dv_pioAddr = pioAddr, dv_atpId = atpId,
     dv_sid = sid, dv_ssid = ssid, dv_regs = regs, dv_streamNameBuffer = '''', dv_streams = [],
     dv_servedRequests = [], dv_intAckPending = False, dv_interrupt = False, dv_dma = None,
     dv_warnings = []\<rparr>"

type_synonym ('z, 'a) device_op = "('z device_scheme, 'a) comp"

definition set_regs :: "(registers \<Rightarrow> registers) \<Rightarrow> ('z, unit) device_op" where
  "set_regs f = modifyS (\<lambda>s. s\<lparr>dv_regs := f (dv_regs s)\<rparr>)"

definition warning :: "string \<Rightarrow> u64 \<Rightarrow> ('z, unit) device_op" where
  "warning f a = modifyS (\<lambda>s. s\<lparr>dv_warnings := dv_warnings s @ [(f, a)]\<rparr>)"

text \<open>\<^verbatim>\<open>streams.at\<close> throws when the stream is unknown.\<close>

definition stream_at :: "u64 \<Rightarrow> ('z, stream) device_op" where
  "stream_at i = bindS getS (\<lambda>s. case map_of (dv_streams s) i of
     None \<Rightarrow> failS (Uncaught ''std::out_of_range'') | Some str \<Rightarrow> returnS str)"

definition set_stream :: "u64 \<Rightarrow> stream \<Rightarrow> ('z, unit) device_op" where
  "set_stream i str = modifyS (\<lambda>s. s\<lparr>dv_streams := AList.update i str (dv_streams s)\<rparr>)"

section \<open>Serving requests\<close>

definition extractDmaOp :: "8 word \<Rightarrow> dma_operation res" where
  "extractDmaOp c = (if \<not> bit c 0 \<and> \<not> bit c 1 then Inr DMA_READ
     else if bit c 0 \<and> \<not> bit c 1 then Inr DMA_WRITE
     else if \<not> bit c 0 \<and> bit c 1 then Inr DMA_RDWR
     else Inl (ErrorExit ''ATP::Device::extractDmaOp''))"

definition configureDmaOp :: "u64 \<Rightarrow> play_request \<Rightarrow> ('z, unit) device_op" where
  "configureDmaOp i req =
    thenS (whenS (pq_dmaOp req = DMA_READ \<or> pq_dmaOp req = DMA_RDWR)
      (configureStream i (pq_readBase req) (pq_readRange req) P_READ))
    (whenS (pq_dmaOp req = DMA_WRITE \<or> pq_dmaOp req = DMA_RDWR)
      (configureStream i (pq_writeBase req) (pq_writeRange req) P_WRITE))"

definition annotateRequest :: "u32 \<Rightarrow> u32 \<Rightarrow> u32 \<Rightarrow> request \<Rightarrow> request" where
  "annotateRequest sid ssid task r =
     r\<lparr>rq_streamId := Some sid, rq_substreamId := Some ssid, rq_taskId := Some task\<rparr>"

definition serveRequest :: "platform \<Rightarrow> u64 \<Rightarrow> play_request \<Rightarrow> ('z, unit) device_op" where
  "serveRequest pl i req =
    thenS (stream_at i)
    (thenS (configureDmaOp i req)
    (bindS getS (\<lambda>s.
     thenS (activateStream pl i (Some (i, pq_id req))
       (Some (annotateRequest (dv_sid s) (dv_ssid s) (pq_taskId req))) False)
     (bindS (stream_at i) (\<lambda>str. set_stream i (str\<lparr>st_active := True\<rparr>))))))"

definition notifyServedRequest :: "u32 \<Rightarrow> ('z, unit) device_op" where
  "notifyServedRequest r = modifyS (\<lambda>s. s\<lparr>dv_regs := (dv_regs s)\<lparr>rg_outRequestId := r\<rparr>,
     dv_interrupt := True, dv_intAckPending := True\<rparr>)"

definition servedRequestHandler :: "platform \<Rightarrow> u64 \<times> u32 \<Rightarrow> ('z, unit) device_op" where
  "servedRequestHandler pl c = (case c of (i, r) \<Rightarrow>
    bindS (stream_at i) (\<lambda>str.
    thenS (set_stream i (str\<lparr>st_active := False\<rparr>))
    (thenS (bindS getS (\<lambda>s. if \<not> dv_intAckPending s \<and> dv_servedRequests s = [] then notifyServedRequest r
       else modifyS (\<lambda>s. s\<lparr>dv_servedRequests := dv_servedRequests s @ [r]\<rparr>)))
    (case st_pending str of [] \<Rightarrow> returnS ()
     | req # _ \<Rightarrow> thenS (serveRequest pl i req)
        (bindS (stream_at i) (\<lambda>str. set_stream i (str\<lparr>st_pending := tl (st_pending str)\<rparr>)))))))"

definition intAckHandler :: "('z, unit) device_op" where
  "intAckHandler =
    thenS (modifyS (\<lambda>s. s\<lparr>dv_interrupt := False, dv_intAckPending := False\<rparr>))
    (bindS getS (\<lambda>s. case dv_servedRequests s of [] \<Rightarrow> returnS ()
     | r # rs \<Rightarrow> thenS (notifyServedRequest r) (modifyS (\<lambda>s. s\<lparr>dv_servedRequests := rs\<rparr>))))"

definition request_of :: "registers \<Rightarrow> dma_operation \<Rightarrow> play_request" where
  "request_of g dmaop = \<lparr>pq_readBase = rg_readBase g, pq_readRange = rg_readRange g,
     pq_writeBase = rg_writeBase g, pq_writeRange = rg_writeRange g, pq_id = rg_inRequestId g,
     pq_taskId = rg_taskId g, pq_dmaOp = dmaop\<rparr>"

definition submit :: "platform \<Rightarrow> u64 \<Rightarrow> stream \<Rightarrow> play_request \<Rightarrow> ('z, unit) device_op" where
  "submit pl i str req =
    (if st_active str then set_stream i (str\<lparr>st_pending := st_pending str @ [req]\<rparr>)
     else serveRequest pl i req)"

definition playStreamHandler :: "platform \<Rightarrow> ('z, unit) device_op" where
  "playStreamHandler pl = bindS getS (\<lambda>s. let g = dv_regs s; i = rg_streamId g in
    case map_of (dv_streams s) i of
      None \<Rightarrow> fatal ''ATP::Device::playStreamHandler''
    | Some str \<Rightarrow> bindS (liftS (extractDmaOp (rg_control g))) (\<lambda>dmaop.
        thenS (submit pl i str (request_of g dmaop)) (set_regs (\<lambda>g. g\<lparr>rg_status := 1\<rparr>))))"

section \<open>Unique streams\<close>

text \<open>\<^verbatim>\<open>resize\<close> keeps the bytes the buffer holds and fills it with zeros.\<close>

definition uniqueStreamHandler :: "('z, unit) device_op" where
  "uniqueStreamHandler = modifyS (\<lambda>s. let n = unat (rg_streamNameRange (dv_regs s)); b = dv_streamNameBuffer s in
    s\<lparr>dv_streamNameBuffer := take n b @ replicate (n - length b) (CHR 0x00),
      dv_dma := Some (rg_streamNameBase (dv_regs s), rg_streamNameRange (dv_regs s))\<rparr>)"

definition streamNameHandler :: "platform \<Rightarrow> ('z, unit) device_op" where
  "streamNameHandler pl = bindS getS (\<lambda>s.
    bindS (adapter_uniqueStream pl (dv_atpId s) (dv_streamNameBuffer s)) (\<lambda>i.
    modifyS (\<lambda>s. s\<lparr>dv_regs := (dv_regs s)\<lparr>rg_streamId := i, rg_status := 1\<rparr>,
      dv_streams := (if map_of (dv_streams s) i = None
        then (i, \<lparr>st_active = False, st_pending = []\<rparr>) # dv_streams s else dv_streams s),
      dv_streamNameBuffer := ''''\<rparr>)))"

definition dma_done :: "platform \<Rightarrow> string \<Rightarrow> ('z, unit) device_op" where
  "dma_done pl bytes =
    thenS (modifyS (\<lambda>s. s\<lparr>dv_streamNameBuffer := bytes, dv_dma := None\<rparr>)) (streamNameHandler pl)"

section \<open>Access to the registers\<close>

definition readOnly :: "u64 \<Rightarrow> ('z, unit) device_op" where
  "readOnly a = warning ''readOnly'' a"

definition writeOnly :: "u64 \<Rightarrow> ('z, unit) device_op" where
  "writeOnly a = warning ''writeOnly'' a"

definition unexpectedAddr :: "u64 \<Rightarrow> ('z, unit) device_op" where
  "unexpectedAddr a = warning ''unexpectedAddr'' a"

text \<open>\<^verbatim>\<open>panic\<close> ends the run, so what follows the check of the size is done for the right size only.\<close>

definition sized :: "nat \<Rightarrow> nat \<Rightarrow> ('z, 'a) device_op \<Rightarrow> ('z, 'a) device_op" where
  "sized len n m = (if len \<noteq> n then failS (ErrorExit ''ATP::Device::Registers::invalidSize'') else m)"

text \<open>The value of a read goes into the response in \<open>len\<close> bytes.\<close>

definition mmio_read :: "u64 \<Rightarrow> nat \<Rightarrow> ('z, u64) device_op" where
  "mmio_read address len = bindS getS (\<lambda>s. let addr = address - dv_pioAddr s; g = dv_regs s in
    case decode_offset addr of
      None \<Rightarrow> thenS (unexpectedAddr addr) (returnS 0)
    | Some STREAM_ID \<Rightarrow> sized len 8 (returnS (rg_streamId g))
    | Some OUT_REQUEST_ID \<Rightarrow> sized len 4 (returnS (ucast (rg_outRequestId g)))
    | Some STATUS \<Rightarrow> sized len 1 (returnS (ucast (rg_status g)))
    | Some _ \<Rightarrow> thenS (writeOnly addr) (returnS 0))"

definition control_handler :: "platform \<Rightarrow> ('z, unit) device_op" where
  "control_handler pl = bindS getS (\<lambda>s. let c = rg_control (dv_regs s) in
    if bit c 2 \<and> \<not> bit c 3 then playStreamHandler pl
    else if \<not> bit c 2 \<and> bit c 3 then intAckHandler
    else if bit c 2 \<and> bit c 3 then
      (if dv_dma s \<noteq> None then failS (ErrorExit ''ATP::Device::write'') else uniqueStreamHandler)
    else returnS ())"

definition write_register :: "platform \<Rightarrow> u64 \<Rightarrow> offset option \<Rightarrow> nat \<Rightarrow> u64 \<Rightarrow> ('z, unit) device_op" where
  "write_register pl addr r len data = (case r of
      None \<Rightarrow> unexpectedAddr addr
    | Some OUT_REQUEST_ID \<Rightarrow> readOnly addr
    | Some STREAM_NAME_BASE \<Rightarrow> sized len 8 (set_regs (\<lambda>g. g\<lparr>rg_streamNameBase := data\<rparr>))
    | Some STREAM_NAME_RANGE \<Rightarrow> sized len 8 (set_regs (\<lambda>g. g\<lparr>rg_streamNameRange := data\<rparr>))
    | Some READ_BASE \<Rightarrow> sized len 8 (set_regs (\<lambda>g. g\<lparr>rg_readBase := data\<rparr>))
    | Some READ_RANGE \<Rightarrow> sized len 8 (set_regs (\<lambda>g. g\<lparr>rg_readRange := data\<rparr>))
    | Some WRITE_BASE \<Rightarrow> sized len 8 (set_regs (\<lambda>g. g\<lparr>rg_writeBase := data\<rparr>))
    | Some WRITE_RANGE \<Rightarrow> sized len 8 (set_regs (\<lambda>g. g\<lparr>rg_writeRange := data\<rparr>))
    | Some STREAM_ID \<Rightarrow> sized len 8 (set_regs (\<lambda>g. g\<lparr>rg_streamId := data\<rparr>))
    | Some TASK_ID \<Rightarrow> sized len 4 (set_regs (\<lambda>g. g\<lparr>rg_taskId := ucast data\<rparr>))
    | Some IN_REQUEST_ID \<Rightarrow> sized len 4 (set_regs (\<lambda>g. g\<lparr>rg_inRequestId := ucast data\<rparr>))
    | Some CONTROL \<Rightarrow> sized len 1 (thenS (set_regs (\<lambda>g. g\<lparr>rg_control := ucast data\<rparr>)) (control_handler pl))
    | Some STATUS \<Rightarrow> sized len 1
        (thenS (whenS (data \<noteq> 0) (warning ''write'' addr)) (set_regs (\<lambda>g. g\<lparr>rg_status := 0\<rparr>))))"

definition mmio_write :: "platform \<Rightarrow> u64 \<Rightarrow> nat \<Rightarrow> u64 \<Rightarrow> ('z, unit) device_op" where
  "mmio_write pl address len data = bindS getS (\<lambda>s.
    write_register pl (address - dv_pioAddr s) (decode_offset (address - dv_pioAddr s)) len data)"

text \<open>An update of the adaptor, which runs the callbacks of the device.\<close>

definition device_update :: "platform \<Rightarrow> nat \<Rightarrow> ('z, unit) device_op" where
  "device_update pl n = update pl (servedRequestHandler pl) n"

end
