(* ===== verification/Demo_Device.thy ===== *)
theory Demo_Device
  imports Atp_Device Demo
begin

text \<open>
  The small system of theory \<open>Demo\<close> behind an adaptor and a programmable device, for witnesses: a
  port that accepts the first packet and refuses the next one, a simulator of 1000 ticks per time
  unit, and a device for the master \<open>cpu\<close> whose stream 0 is known.
\<close>

definition demo_platform :: platform where
  "demo_platform = \<lparr>pl_rng = low_rng, pl_burst = 4, pl_accepts = (\<lambda>a. odd (length a)), pl_unit = (\<lambda>u. 1000),
     pl_second = 1000000, pl_requestorId = (\<lambda>m. if m = ''cpu'' then 7 else 8),
     pl_requestorName = (\<lambda>r. if r = 7 then ''cpu'' else ''other''), pl_isMemAddr = (\<lambda>a. a < 1048576),
     pl_isTimingMode = True, pl_slot = (\<lambda>xs x. 0), pl_partitions = False, pl_file = (\<lambda>f. None)\<rparr>"

definition demo_registers :: registers where
  "demo_registers = \<lparr>rg_streamNameBase = 0, rg_streamNameRange = 0, rg_readBase = 0, rg_readRange = 0,
     rg_writeBase = 0, rg_writeRange = 0, rg_streamId = 0, rg_taskId = 0, rg_inRequestId = 0,
     rg_outRequestId = 0, rg_control = 0, rg_status = 0\<rparr>"

definition demo_device :: device where
  "demo_device = \<lparr>ad_tpm = demo, ad_tick = 5000, ad_nextAtpTime = MaxTick, ad_nextPacketTick = 0,
     ad_locked = False, ad_ports = 1, ad_interface = [(7, 0)], ad_localBuffer = [], ad_retryPkt = [],
     ad_retryPktTick = [], ad_routingTable = [], ad_updateEvent = None, ad_watchdogEvent = None,
     ad_watchdogTimer = 1000000, ad_draining = False, ad_debugFlag = False, ad_exitWhenDone = False,
     ad_outOfRangeAddresses = False, ad_exitWhenOneMasterEnds = False, ad_traceM3i = False,
     ad_traceM3iBusWidth = 8, ad_traceM3iLastTick = 0, ad_profilesAsMasters = False,
     ad_trackerLatency = False, ad_initOnly = True, ad_disableWatchdog = False,
     ad_disableMemCheck = False, ad_timeUnit = PS, ad_activeStreams = [], ad_onTerminate = [],
     ad_onBuildReq = [], ad_attempts = [], ad_exits = [], ad_m3i = [],
     dv_pioAddr = 65536, dv_atpId = ''cpu'', dv_sid = 11, dv_ssid = 12, dv_regs = demo_registers,
     dv_streamNameBuffer = '''', dv_streams = [(0, \<lparr>st_active = False, st_pending = []\<rparr>)],
     dv_servedRequests = [], dv_intAckPending = False, dv_interrupt = False, dv_dma = None,
     dv_warnings = []\<rparr>"

definition demo_read :: "u64 \<Rightarrow> packet" where
  "demo_read a = new_packet\<lparr>pk_uid := a, pk_addr := a, pk_size := 64, pk_master_id := ''cpu'', pk_cmd := READ_REQ\<rparr>"

text \<open>
  The master alone with its device, and a simulator in which everything happens at tick 0: memory
  accepts every packet, and no stream is known yet.
\<close>

definition demo_bus :: platform where
  "demo_bus = demo_platform\<lparr>pl_accepts := (\<lambda>a. True), pl_burst := 8\<rparr>"

definition demo_alone :: tpm where
  "demo_alone = demo\<lparr>tp_profiles := [Some (demo_profile 0 ''cpu'' ROLE_MASTER (Master demo_master))],
     tp_profileMap := [(''cpu'', 0)], tp_waitEventMap := [], tp_activeList := [], tp_slaves := [],
     tp_slaveAddressRanges := []\<rparr>"

definition demo_adapter :: "(u64 \<times> u32) adapter" where
  "demo_adapter = adapter.truncate (demo_device\<lparr>ad_tpm := demo_alone, ad_tick := 0, ad_timeUnit := CYCLES\<rparr>)"

definition demo_start :: device where
  "demo_start = device_new 65536 ''cpu'' 11 12 demo_registers demo_adapter"

definition demo_response :: "u64 \<Rightarrow> response" where
  "demo_response a = \<lparr>rs_addr = a, rs_size = 64, rs_requestor = 7, rs_isRead = True, rs_isWrite = False\<rparr>"

end
