(* ===== verification/Adapter_Laws.thy ===== *)
theory Adapter_Laws
  imports Demo_Device
begin

text \<open>
  Laws of the adaptor to gem5: its table routes responses to the oldest request they can answer, the
  loop over the ports ends with every port busy or drained, and no time is ever kept for the next
  update.
\<close>

section \<open>Routing\<close>

text \<open>
  What the nested tables hold: for a requestor, an address and the command of a response, the ids
  of the requests under way, the oldest first.
\<close>

type_synonym routes = "u64 \<times> u64 \<times> command \<Rightarrow> u64 list"

definition routes_of :: "('c, 'z) adapter_scheme \<Rightarrow> routes" where
  "routes_of s = (\<lambda>(m, a, c). map snd (filter (\<lambda>e. fst e = c)
     (the_default [] (map_of (the_default [] (map_of (ad_routingTable s) m)) a))))"

lemma filter_remove_first:
  "filter (\<lambda>e. fst e = k) (remove_first c xs) =
    (if k = c then tl (filter (\<lambda>e. fst e = k) xs) else filter (\<lambda>e. fst e = k) xs)"
  by (induction xs) auto

lemma map_of_filter: "map_of xs c = (case filter (\<lambda>e. fst e = c) xs of [] \<Rightarrow> None | e # es \<Rightarrow> Some (snd e))"
  by (induction xs) auto

lemma routes_of_update:
  "routes_of (s\<lparr>ad_routingTable := AList.update m (AList.update a es (the_default [] (map_of (ad_routingTable s) m)))
      (ad_routingTable s)\<rparr>) (m', a', c) =
    (if m' = m \<and> a' = a then map snd (filter (\<lambda>e. fst e = c) es) else routes_of s (m', a', c))"
  by (simp add: routes_of_def)

lemma routes_of_delete:
  "routes_of (s\<lparr>ad_routingTable := (let t = AList.delete a (the_default [] (map_of (ad_routingTable s) m)) in
      if t = [] then AList.delete m (ad_routingTable s) else AList.update m t (ad_routingTable s))\<rparr>) (m', a', c) =
    (if m' = m \<and> a' = a then [] else routes_of s (m', a', c))"
proof -
  define t where "t = AList.delete a (the_default [] (map_of (ad_routingTable s) m))"
  have m: "map_of t x = (if x = a then None else map_of (the_default [] (map_of (ad_routingTable s) m)) x)" for x
    by (simp add: t_def)
  show ?thesis
  proof (cases "t = []")
    case True
    with m have "map_of (the_default [] (map_of (ad_routingTable s) m)) x = None" if "x \<noteq> a" for x
      using that by (metis map_of.simps(1))
    with True show ?thesis by (auto simp: routes_of_def t_def [symmetric])
  next
    case False
    with m show ?thesis by (auto simp: routes_of_def t_def [symmetric])
  qed
qed

lemma addRoutingEntry_run:
  "addRoutingEntry pl p s = Inr ((), t) \<Longrightarrow>
    routes_of t (m, a, c) = routes_of s (m, a, c)
      @ (if (m, a, c) = (pl_requestorId pl (pk_master_id p), pk_addr p, response_command p) then [pk_uid p] else [])"
  unfolding addRoutingEntry_def modifyS_run Let_def
  by (auto simp: routes_of_update routes_of_def)

lemma lookup_run:
  assumes c: "getAtpCommand p = Inr c" and u: "routes_of s (rs_requestor p, rs_addr p, c) = u # us"
  shows "\<exists>t. lookupAndRemoveRoutingEntry p s = Inr (u, t)
    \<and> routes_of t = (routes_of s)((rs_requestor p, rs_addr p, c) := us)"
proof -
  let ?m = "rs_requestor p" and ?a = "rs_addr p"
  from u obtain mt where mt: "map_of (ad_routingTable s) ?m = Some mt"
    by (cases "map_of (ad_routingTable s) ?m") (auto simp: routes_of_def)
  with u obtain es where es: "map_of mt ?a = Some es"
    by (cases "map_of mt ?a") (auto simp: routes_of_def)
  with mt u obtain d e where d: "filter (\<lambda>e. fst e = c) es = d # e" "snd d = u" "map snd e = us"
    by (auto simp: routes_of_def map_eq_Cons_conv)
  then have uid: "map_of es c = Some u" by (simp add: map_of_filter)
  from d have e: "map snd (tl (filter (\<lambda>e. fst e = c) es)) = us" by simp
  have dm: "the_default [] (map_of (ad_routingTable s) ?m) = mt" by (simp add: mt)
  have r: "routes_of s (?m, ?a, k) = map snd (filter (\<lambda>e. fst e = k) es)" for k
    by (simp add: routes_of_def mt es)
  show ?thesis
  proof (cases "remove_first c es = []")
    case True
    have "routes_of (s\<lparr>ad_routingTable := (let t = AList.delete ?a mt in
        if t = [] then AList.delete ?m (ad_routingTable s) else AList.update ?m t (ad_routingTable s))\<rparr>)
      = (routes_of s)((?m, ?a, c) := us)" (is "routes_of ?t = _")
    proof (rule ext)
      fix x :: "u64 \<times> u64 \<times> command"
      obtain m a k where x: "x = (m, a, k)" by (cases x)
      have "map snd (filter (\<lambda>e. fst e = k) es) = (if k = c then u # us else [])"
        using filter_remove_first [of k c es] True u r [of c] by (auto split: if_splits)
      then show "routes_of ?t x = ((routes_of s)((?m, ?a, c) := us)) x"
        using routes_of_delete [where a = ?a and m = ?m and s = s and m' = m and a' = a and c = k] filter_remove_first [of c c es] True e
        by (auto simp: x dm r)
    qed
    with True show ?thesis
      by (simp add: lookupAndRemoveRoutingEntry_def bindS_def thenS_def mt es c uid Let_def split: if_splits)
  next
    case False
    have n: "AList.update ?a (remove_first c es) mt \<noteq> []" by (cases mt) auto
    have "routes_of (s\<lparr>ad_routingTable := AList.update ?m (AList.update ?a (remove_first c es) mt) (ad_routingTable s)\<rparr>)
      = (routes_of s)((?m, ?a, c) := us)" (is "routes_of ?t = _")
    proof (rule ext)
      fix x :: "u64 \<times> u64 \<times> command"
      obtain m a k where x: "x = (m, a, k)" by (cases x)
      show "routes_of ?t x = ((routes_of s)((?m, ?a, c) := us)) x"
        using routes_of_update [where a = ?a and m = ?m and s = s and es = "remove_first c es" and m' = m and a' = a and c = k] e
        by (auto simp: x dm r filter_remove_first)
    qed
    with False n show ?thesis
      by (simp add: lookupAndRemoveRoutingEntry_def bindS_def thenS_def mt es c uid Let_def)
  qed
qed

lemma lookup_fails:
  assumes "routes_of s (rs_requestor p, rs_addr p, c) = []" and "getAtpCommand p = Inr c"
  shows "\<exists>e. lookupAndRemoveRoutingEntry p s = Inl e"
  using assms by (auto simp: lookupAndRemoveRoutingEntry_def routes_of_def fatal_def map_of_filter
      bindS_def split: option.splits)

text \<open>
  C14. The routing table of the adaptor implements a queue of request ids for each requestor, address
  and kind of response: a packet that is sent puts its id at the end of its queue, and a response
  takes the oldest id of its queue, or ends the simulation when the queue is empty.
\<close>

theorem routing_table_is_queues:
  assumes "getAtpCommand p = Inr c"
  shows "(\<exists>t. addRoutingEntry pl pk s = Inr ((), t) \<and> routes_of t =
      (let k = (pl_requestorId pl (pk_master_id pk), pk_addr pk, response_command pk)
       in (routes_of s)(k := routes_of s k @ [pk_uid pk])))
    \<and> (case routes_of s (rs_requestor p, rs_addr p, c) of
         [] \<Rightarrow> \<exists>e. lookupAndRemoveRoutingEntry p s = Inl e
       | u # us \<Rightarrow> \<exists>t. lookupAndRemoveRoutingEntry p s = Inr (u, t)
           \<and> routes_of t = (routes_of s)((rs_requestor p, rs_addr p, c) := us))"
proof
  obtain t where t: "addRoutingEntry pl pk s = Inr ((), t)" by (simp add: addRoutingEntry_def)
  show "\<exists>t. addRoutingEntry pl pk s = Inr ((), t) \<and> routes_of t =
      (let k = (pl_requestorId pl (pk_master_id pk), pk_addr pk, response_command pk)
       in (routes_of s)(k := routes_of s k @ [pk_uid pk]))"
    using t addRoutingEntry_run [OF t] by (intro exI [of _ t]) (auto simp: Let_def fun_eq_iff)
  show "case routes_of s (rs_requestor p, rs_addr p, c) of
         [] \<Rightarrow> \<exists>e. lookupAndRemoveRoutingEntry p s = Inl e
       | u # us \<Rightarrow> \<exists>t. lookupAndRemoveRoutingEntry p s = Inr (u, t)
           \<and> routes_of t = (routes_of s)((rs_requestor p, rs_addr p, c) := us)"
    by (auto split: list.split intro: lookup_fails [OF _ assms] lookup_run [OF assms])
qed

section \<open>The ports\<close>

definition sendable :: "packet \<Rightarrow> bool" where
  "sendable p \<longleftrightarrow> pk_cmd p = READ_REQ \<or> pk_cmd p = WRITE_REQ"

definition traceable :: "('c, 'z) adapter_scheme \<Rightarrow> bool" where
  "traceable s \<longleftrightarrow> (ad_traceM3i s \<longrightarrow> ad_traceM3iBusWidth s \<noteq> 0)"

abbreviation busy :: "('c, 'z) adapter_scheme \<Rightarrow> nat \<Rightarrow> bool" where
  "busy s q \<equiv> map_of (ad_retryPkt s) q \<noteq> None"

definition to_memory :: "platform \<Rightarrow> ('c, 'z) adapter_scheme \<Rightarrow> packet \<Rightarrow> bool" where
  "to_memory pl s p \<longleftrightarrow> ad_disableMemCheck s \<or> pl_isMemAddr pl (pk_addr p)"

text \<open>The packets of one master in the buffer.\<close>

abbreviation packets_of :: "string \<Rightarrow> (string \<times> packet) list \<Rightarrow> (string \<times> packet) list" where
  "packets_of m \<equiv> filter (\<lambda>e. fst e = m)"

text \<open>
  The request to gem5 that a packet stands for, as the callback of its stream changes it, and the attempt to send
  it: on a port of the master of the packet, with the command and the request of the packet.
\<close>

definition plain_request :: "platform \<Rightarrow> packet \<Rightarrow> request" where
  "plain_request pl p = \<lparr>rq_addr = pk_addr p, rq_size = pk_size p, rq_requestor = pl_requestorId pl (pk_master_id p),
     rq_pc = pl_requestorId pl (pk_master_id p) * 4, rq_streamId = pk_iommu_id p, rq_substreamId = None, rq_taskId = None,
     rq_partition = (if pl_partitions pl then pk_flow_id p else None)\<rparr>"

definition stream_request :: "platform \<Rightarrow> ('c, 'z) adapter_scheme \<Rightarrow> packet \<Rightarrow> request" where
  "stream_request pl s p = (case map_of (ad_onBuildReq s) (the_default 0 (pk_stream_id p)) of
     Some (Some f) \<Rightarrow> f (plain_request pl p) | _ \<Rightarrow> plain_request pl p)"

definition attempt_of :: "platform \<Rightarrow> ('c, 'z) adapter_scheme \<Rightarrow> string \<times> packet \<Rightarrow> attempt \<Rightarrow> bool" where
  "attempt_of pl s e a \<longleftrightarrow> (\<exists>r. (r, fst a) \<in> set (ad_interface s) \<and> pl_requestorName pl r = fst e)
     \<and> getGem5Command (snd e) = Inr (gp_cmd (snd a)) \<and> gp_req (snd a) = stream_request pl s (snd e)"

text \<open>What the loop does not change.\<close>

definition same_setup :: "('c, 'z) adapter_scheme \<Rightarrow> ('c, 'z) adapter_scheme \<Rightarrow> bool" where
  "same_setup s t \<longleftrightarrow> (\<forall>pl. to_memory pl t = to_memory pl s) \<and> traceable t = traceable s
     \<and> ad_interface t = ad_interface s \<and> (\<forall>pl. stream_request pl t = stream_request pl s)"

lemma same_setup_attempt: "same_setup s t \<Longrightarrow> attempt_of pl t = attempt_of pl s"
  by (simp add: same_setup_def attempt_of_def fun_eq_iff)

text \<open>The fields that the setup depends on.\<close>

lemma same_setupI:
  "ad_disableMemCheck t = ad_disableMemCheck s \<Longrightarrow> ad_traceM3i t = ad_traceM3i s \<Longrightarrow>
    ad_traceM3iBusWidth t = ad_traceM3iBusWidth s \<Longrightarrow> ad_interface t = ad_interface s \<Longrightarrow>
    ad_onBuildReq t = ad_onBuildReq s \<Longrightarrow> same_setup s t"
  by (simp add: same_setup_def to_memory_def traceable_def stream_request_def fun_eq_iff)

lemma packets_of_Nil: "packets_of m b = [] \<longleftrightarrow> map_of b m = None"
  by (auto simp: map_of_filter split: list.splits)

lemma getGem5Command_total: "sendable p \<Longrightarrow> \<exists>c. getGem5Command p = Inr c"
  by (auto simp: sendable_def getGem5Command_def)

lemma buildGEM5Packet_run:
  assumes "getGem5Command p = Inr c"
  obtains g t where "buildGEM5Packet pl p s = Inr (g, t)" and "g = \<lparr>gp_cmd = c, gp_req = stream_request pl s p\<rparr>"
    and "same_setup s t" and "ad_retryPkt t = ad_retryPkt s" and "ad_localBuffer t = ad_localBuffer s" and "ad_attempts t = ad_attempts s"
proof -
  define k where "k = the_default 0 (pk_stream_id p)"
  define cb where "cb = the_default None (map_of (ad_onBuildReq s) k)"
  let ?t = "s\<lparr>ad_onBuildReq := AList.update k cb (ad_onBuildReq s)\<rparr>"
  have req: "(case cb of None \<Rightarrow> plain_request pl p | Some f \<Rightarrow> f (plain_request pl p)) = stream_request pl s p"
    by (simp add: stream_request_def cb_def k_def the_default_def split: option.split)
  have "buildGEM5Packet pl p s = Inr (\<lparr>gp_cmd = c, gp_req = stream_request pl s p\<rparr>, ?t)"
    using req [unfolded plain_request_def] by (simp add: buildGEM5Packet_def bindS_def thenS_def Let_def assms
        k_def [symmetric] cb_def [symmetric] push_bit_eq_mult)
  moreover have "same_setup s ?t"
    by (auto simp: same_setup_def to_memory_def traceable_def fun_eq_iff stream_request_def cb_def the_default_def split: option.split)
  ultimately have "\<exists>g t. buildGEM5Packet pl p s = Inr (g, t) \<and> g = \<lparr>gp_cmd = c, gp_req = stream_request pl s p\<rparr> \<and> same_setup s t
    \<and> ad_retryPkt t = ad_retryPkt s \<and> ad_localBuffer t = ad_localBuffer s \<and> ad_attempts t = ad_attempts s"
    by (intro exI [of _ "\<lparr>gp_cmd = c, gp_req = stream_request pl s p\<rparr>"] exI [of _ ?t]) simp
  with that show ?thesis by blast
qed

lemma traceM3iPacket_run:
  assumes "traceable s"
  obtains t where "traceM3iPacket pl g s = Inr ((), t)" and "same_setup s t"
    and "ad_retryPkt t = ad_retryPkt s" and "ad_localBuffer t = ad_localBuffer s" and "ad_attempts t = ad_attempts s"
proof -
  obtain m where m: "traceM3iPacket pl g s = Inr ((), s\<lparr>ad_m3i := m, ad_traceM3iLastTick := ad_tick s\<rparr>)"
  proof (cases "ad_traceM3i s")
    case False
    then have "traceM3iPacket pl g s = Inr ((), s\<lparr>ad_m3i := ad_m3i s, ad_traceM3iLastTick := ad_tick s\<rparr>)"
      by (simp add: traceM3iPacket_def bindS_def thenS_def Let_def)
    then show ?thesis by (rule that)
  next
    case True
    with assms have "\<exists>m. traceM3iPacket pl g s = Inr ((), s\<lparr>ad_m3i := m, ad_traceM3iLastTick := ad_tick s\<rparr>)"
      by (simp add: traceM3iPacket_def bindS_def thenS_def Let_def traceable_def) blast
    with that show ?thesis by blast
  qed
  show ?thesis by (rule that [OF m same_setupI]) simp_all
qed

lemma same_setup_trans: "same_setup s t \<Longrightarrow> same_setup t u \<Longrightarrow> same_setup s u"
  by (simp add: same_setup_def)

text \<open>One packet on a free port.\<close>

definition served :: "platform \<Rightarrow> nat \<Rightarrow> string \<times> packet \<Rightarrow> ('c, 'z) adapter_scheme \<Rightarrow> ('c, 'z) adapter_scheme \<Rightarrow> bool" where
  "served pl q e s t \<longleftrightarrow> same_setup s t \<and> ad_localBuffer t = ad_localBuffer s
    \<and> (\<forall>k. k \<noteq> q \<longrightarrow> map_of (ad_retryPkt t) k = map_of (ad_retryPkt s) k)
    \<and> (\<exists>sent. ad_attempts t = ad_attempts s @ sent \<and> list_all2 (attempt_of pl s) (filter (to_memory pl s \<circ> snd) [e]) sent)"

lemma serve_run:
  assumes p: "sendable p" and tr: "traceable s" and port: "(r, q) \<in> set (ad_interface s)" "pl_requestorName pl r = m"
  obtains sp t where "serve pl q p s = Inr (sp, t)" and "served pl q (m, p) s t"
proof (cases "to_memory pl s p")
  case False
  then have "serve pl q p s = Inr (Some (pk_addr p), s)" by (simp add: serve_def to_memory_def bindS_def)
  then show ?thesis by (rule that) (use False in \<open>simp add: served_def same_setup_def\<close>)
next
  case True
  from getGem5Command_total [OF p] obtain c where c: "getGem5Command p = Inr c" by blast
  obtain g s1 where s1: "buildGEM5Packet pl p s = Inr (g, s1)" "g = \<lparr>gp_cmd = c, gp_req = stream_request pl s p\<rparr>" "same_setup s s1"
    "ad_retryPkt s1 = ad_retryPkt s" "ad_localBuffer s1 = ad_localBuffer s" "ad_attempts s1 = ad_attempts s"
    by (rule buildGEM5Packet_run [OF c])
  obtain s2 where s2: "addRoutingEntry pl p (s1\<lparr>ad_retryPkt := AList.update q g (ad_retryPkt s1)\<rparr>) = Inr ((), s2)"
    "same_setup s1 s2" "ad_retryPkt s2 = AList.update q g (ad_retryPkt s1)" "ad_localBuffer s2 = ad_localBuffer s1"
    "ad_attempts s2 = ad_attempts s1"
    by (simp add: addRoutingEntry_def Let_def same_setupI)
  let ?s3 = "s2\<lparr>ad_attempts := ad_attempts s2 @ [(q, g)]\<rparr>"
  have s: "serve pl q p s = bindS (sendTimingReq pl q g) (\<lambda>ok.
       thenS (if \<not> ok then modifyS (\<lambda>s. s\<lparr>ad_retryPktTick := AList.update q (ad_tick s) (ad_retryPktTick s)\<rparr>)
         else thenS (traceM3iPacket pl g)
           (modifyS (\<lambda>s. s\<lparr>ad_retryPkt := AList.delete q (ad_retryPkt s),
             ad_retryPktTick := AList.delete q (ad_retryPktTick s)\<rparr>)))
       (returnS None)) s2"
    using True s1(1) s2(1) by (simp add: serve_def bindS_def thenS_def to_memory_def)
  have set3: "same_setup s ?s3"
    by (rule same_setup_trans [OF s1(3)], rule same_setup_trans [OF s2(2)], rule same_setupI) simp_all
  then have tr3: "traceable ?s3" using tr by (simp add: same_setup_def)
  have att: "attempt_of pl s (m, p) (q, g)" using s1(2) c port by (auto simp: attempt_of_def)
  show ?thesis
  proof (cases "pl_accepts pl (ad_attempts ?s3)")
    case False
    let ?t = "?s3\<lparr>ad_retryPktTick := AList.update q (ad_tick ?s3) (ad_retryPktTick ?s3)\<rparr>"
    have "serve pl q p s = Inr (None, ?t)"
      using False by (simp add: s bindS_def thenS_def sendTimingReq_def)
    moreover have "same_setup s ?t" by (rule same_setup_trans [OF set3], rule same_setupI) simp_all
    then have "served pl q (m, p) s ?t" using att s1 s2 True by (auto simp: served_def)
    ultimately show ?thesis by (rule that)
  next
    case ok: True
    obtain u where u: "traceM3iPacket pl g ?s3 = Inr ((), u)" "same_setup ?s3 u" "ad_retryPkt u = ad_retryPkt ?s3"
      "ad_localBuffer u = ad_localBuffer ?s3" "ad_attempts u = ad_attempts ?s3"
      by (rule traceM3iPacket_run [OF tr3])
    let ?t = "u\<lparr>ad_retryPkt := AList.delete q (ad_retryPkt u), ad_retryPktTick := AList.delete q (ad_retryPktTick u)\<rparr>"
    have "serve pl q p s = Inr (None, ?t)"
      using ok u(1) by (simp add: s bindS_def thenS_def sendTimingReq_def)
    moreover have "same_setup s ?t"
      by (rule same_setup_trans [OF same_setup_trans [OF set3 u(2)]], rule same_setupI) simp_all
    then have "served pl q (m, p) s ?t" using att s1 s2 u True by (auto simp: served_def)
    ultimately show ?thesis by (rule that)
  qed
qed

text \<open>
  The loop: what it takes from the buffer it takes in the order of each master, every packet it
  takes for the memory system is tried once, a busy port stays busy, and each master of the round
  ends with a busy port or without packets.
\<close>

definition ports_done :: "platform \<Rightarrow> (u64 \<times> nat) list \<Rightarrow> ('c, 'z) adapter_scheme \<Rightarrow> ('c, 'z) adapter_scheme \<Rightarrow> bool" where
  "ports_done pl ports s t \<longleftrightarrow> same_setup s t
    \<and> (\<forall>q. busy s q \<longrightarrow> busy t q)
    \<and> (\<forall>(r, q) \<in> set ports. busy t q \<or> map_of (ad_localBuffer t) (pl_requestorName pl r) = None)
    \<and> (\<exists>taken sent. (\<forall>m. packets_of m (ad_localBuffer s) = packets_of m taken @ packets_of m (ad_localBuffer t))
         \<and> ad_attempts t = ad_attempts s @ sent
         \<and> list_all2 (attempt_of pl s) (filter (to_memory pl s \<circ> snd) taken) sent)"

lemma ports_done_refl:
  "(\<And>r q. (r, q) \<in> set ports \<Longrightarrow> map_of (ad_localBuffer s) (pl_requestorName pl r) = None) \<Longrightarrow>
    ports_done pl ports s s"
  unfolding ports_done_def same_setup_def
  by (intro conjI exI [of _ "[]"]) auto

lemma ports_done_Cons:
  assumes t: "ports_done pl ports s t"
    and r: "busy s q \<or> map_of (ad_localBuffer s) (pl_requestorName pl r) = None"
  shows "ports_done pl ((r, q) # ports) s t"
proof -
  from t obtain taken where p: "packets_of m (ad_localBuffer s) = packets_of m taken @ packets_of m (ad_localBuffer t)" for m
    by (auto simp: ports_done_def)
  have "busy t q \<or> map_of (ad_localBuffer t) (pl_requestorName pl r) = None"
    using r t p [of "pl_requestorName pl r"]
    by (auto simp: ports_done_def packets_of_Nil [symmetric])
  with t show ?thesis by (auto simp: ports_done_def)
qed

lemma packets_of_remove_first:
  "map_of b m = Some p \<Longrightarrow>
    packets_of k b = (if k = m then [(m, p)] else []) @ packets_of k (remove_first m b)"
  by (induction b) (auto split: if_splits)

lemma length_remove_first: "map_of b m = Some p \<Longrightarrow> Suc (length (remove_first m b)) = length b"
  by (induction b) (auto split: if_splits)

lemma set_remove_first: "set (remove_first m b) \<subseteq> set b"
  by (induction b) auto

lemma ports_done_take:
  assumes s1: "served pl q (m, p) s s1" and free: "\<not> busy s q" and p: "map_of (ad_localBuffer s) m = Some p"
    and t: "ports_done pl ports (s1\<lparr>ad_localBuffer := remove_first m (ad_localBuffer s1)\<rparr>) t" (is "ports_done _ _ ?s2 t")
  shows "ports_done pl ports s t"
proof -
  from s1 have "same_setup s s1" by (simp add: served_def)
  then have same: "same_setup s ?s2" by (rule same_setup_trans) (rule same_setupI; simp)
  then have mem: "to_memory pl ?s2 = to_memory pl s" by (simp add: same_setup_def)
  note att = same_setup_attempt [OF same, of pl]
  from s1 obtain sent1 where a1: "ad_attempts s1 = ad_attempts s @ sent1"
    "list_all2 (attempt_of pl s) (filter (to_memory pl s \<circ> snd) [(m, p)]) sent1"
    by (auto simp: served_def)
  from t obtain taken sent where taken:
    "\<And>k. packets_of k (ad_localBuffer ?s2) = packets_of k taken @ packets_of k (ad_localBuffer t)"
    "ad_attempts t = ad_attempts ?s2 @ sent" "list_all2 (attempt_of pl s) (filter (to_memory pl s \<circ> snd) taken) sent"
    by (auto simp: ports_done_def mem att)
  have "packets_of k (ad_localBuffer s) = packets_of k ((m, p) # taken) @ packets_of k (ad_localBuffer t)" for k
    using packets_of_remove_first [OF p, of k] taken(1) [of k] s1 by (auto simp: served_def)
  moreover have "ad_attempts t = ad_attempts s @ sent1 @ sent" using a1 taken by simp
  moreover have "list_all2 (attempt_of pl s) (filter (to_memory pl s \<circ> snd) ((m, p) # taken)) (sent1 @ sent)"
    using list_all2_appendI [OF a1(2) taken(3)] by (simp split: if_splits)
  moreover have "\<forall>k. busy s k \<longrightarrow> busy t k"
  proof (intro allI impI)
    fix k
    assume k: "busy s k"
    with free have "k \<noteq> q" by auto
    with k s1 have "busy ?s2 k" by (simp add: served_def)
    with t show "busy t k" by (simp add: ports_done_def)
  qed
  moreover from t have "same_setup s t" by (intro same_setup_trans [OF same]) (simp add: ports_done_def)
  moreover from t have "\<forall>(r, k) \<in> set ports. busy t k \<or> map_of (ad_localBuffer t) (pl_requestorName pl r) = None"
    by (simp add: ports_done_def)
  ultimately show ?thesis unfolding ports_done_def
    by (intro conjI exI [of _ "(m, p) # taken"] exI [of _ "sent1 @ sent"]) simp_all
qed

lemma serve_loop_run:
  assumes "length (ad_localBuffer s) + length ports \<le> n" and "traceable s"
    and "\<forall>e \<in> set (ad_localBuffer s). sendable (snd e)" and "set ports \<subseteq> set (ad_interface s)"
  shows "\<exists>sp' t. serve_loop pl n ports sp s = Inr (sp', t) \<and> ports_done pl ports s t"
  using assms
proof (induction n arbitrary: ports sp s)
  case 0
  then show ?case by (auto intro!: ports_done_refl)
next
  case (Suc k)
  show ?case
  proof (cases "ports = [] \<or> ad_localBuffer s = []")
    case True
    then have "serve_loop pl (Suc k) ports sp s = Inr (sp, s)" by (cases ports) (auto simp: bindS_def)
    with True show ?thesis by (auto intro!: ports_done_refl)
  next
    case False
    then obtain r q ports' where ports: "ports = (r, q) # ports'" by (cases ports) auto
    let ?m = "pl_requestorName pl r"
    show ?thesis
    proof (cases "map_of (ad_localBuffer s) ?m = None \<or> busy s q")
      case True
      have "serve_loop pl (Suc k) ports sp s = serve_loop pl k ports' sp s"
        using False True by (auto simp: ports bindS_def Let_def split: option.split)
      moreover have "\<exists>sp' t. serve_loop pl k ports' sp s = Inr (sp', t) \<and> ports_done pl ports' s t"
        using Suc.prems by (intro Suc.IH) (auto simp: ports)
      ultimately show ?thesis using True by (auto simp: ports intro: ports_done_Cons)
    next
      case serving: False
      then obtain p where p: "map_of (ad_localBuffer s) ?m = Some p" by auto
      with Suc.prems(3) have "sendable p" by (force dest: map_of_SomeD)
      then obtain sp1 s1 where s1: "serve pl q p s = Inr (sp1, s1)" and served: "served pl q (?m, p) s s1"
        by (rule serve_run [OF _ Suc.prems(2) _ refl, of p r q]) (use Suc.prems(4) ports in auto)
      let ?s2 = "s1\<lparr>ad_localBuffer := remove_first ?m (ad_localBuffer s1)\<rparr>"
      let ?sp = "if sp1 = None then sp else sp1"
      have "serve_loop pl (Suc k) ports sp s = serve_loop pl k (ports' @ [(r, q)]) ?sp ?s2"
        using False serving p s1 by (simp add: ports bindS_def thenS_def Let_def)
      moreover have "\<exists>sp' t. serve_loop pl k (ports' @ [(r, q)]) ?sp ?s2 = Inr (sp', t)
          \<and> ports_done pl (ports' @ [(r, q)]) ?s2 t"
      proof (rule Suc.IH)
        show "length (ad_localBuffer ?s2) + length (ports' @ [(r, q)]) \<le> k"
          using Suc.prems(1) served length_remove_first [OF p] by (simp add: ports served_def)
        show "traceable ?s2" using Suc.prems(2) served by (simp add: served_def same_setup_def) (simp add: traceable_def)
        show "set (ports' @ [(r, q)]) \<subseteq> set (ad_interface ?s2)"
          using Suc.prems(4) served by (auto simp: ports served_def same_setup_def)
        show "\<forall>e \<in> set (ad_localBuffer ?s2). sendable (snd e)"
          using Suc.prems(3) served set_remove_first [of ?m "ad_localBuffer s"] by (auto simp: served_def)
      qed
      ultimately obtain sp' t where t: "serve_loop pl (Suc k) ports sp s = Inr (sp', t)"
        "ports_done pl (ports' @ [(r, q)]) ?s2 t" by auto
      have "ports_done pl (ports' @ [(r, q)]) s t"
        using ports_done_take [OF served _ p t(2)] serving by simp
      then have "ports_done pl ports s t" by (simp add: ports_done_def ports)
      with t(1) show ?thesis by blast
    qed
  qed
qed

text \<open>
  C7. Serving the ports ends. When the buffered packets are requests, the loop of an update returns
  with every port busy with a packet to retry or its master out of buffered packets. It sends the
  packets of each master in the order the manager gave them. Each packet for the memory system is
  handed to it exactly once, on a port of the packet's master, with the command of the packet and the request the packet stands
  for: its address, size, requestor and stream, as the callback of its stream changes them. A port
  that waits for a retry is left alone.
\<close>

theorem ports_are_served:
  assumes "traceable s" and "\<forall>e \<in> set (ad_localBuffer s). sendable (snd e)"
  shows "\<exists>sp t taken sent. serve_ports pl s = Inr (sp, t)
    \<and> (\<forall>(r, q) \<in> set (ad_interface s). busy t q \<or> packets_of (pl_requestorName pl r) (ad_localBuffer t) = [])
    \<and> (\<forall>m. packets_of m (ad_localBuffer s) = packets_of m taken @ packets_of m (ad_localBuffer t))
    \<and> ad_attempts t = ad_attempts s @ sent
    \<and> list_all2 (attempt_of pl s) (filter (\<lambda>e. to_memory pl s (snd e)) taken) sent
    \<and> (\<forall>q. busy s q \<longrightarrow> busy t q)"
proof -
  obtain sp t where t: "serve_ports pl s = Inr (sp, t)" "ports_done pl (ad_interface s) s t"
    using serve_loop_run [OF order_refl assms order_refl, of pl None]
    by (auto simp: serve_ports_def bindS_def)
  then show ?thesis by (auto simp: ports_done_def packets_of_Nil comp_def)
qed

section \<open>Time\<close>

text \<open>What gem5 and the other parts of the system do to an adaptor.\<close>

datatype 'c adapter_input =
    Clock u64
  | UpdateDue nat
  | WatchdogDue
  | Retry nat
  | Response response
  | Drain
  | Activate u64 "'c option" "(request \<Rightarrow> request) option" bool
  | InitStream string string u64 u64 u64 u64 u32
  | Unserialize u64 u64

definition silent :: "('s, 'a) comp \<Rightarrow> ('s, unit) comp" where
  "silent m = bindS m (\<lambda>_. returnS ())"

fun adapter_op :: "platform \<Rightarrow> ('c \<Rightarrow> ('c, 'z, unit) adapting) \<Rightarrow> 'c adapter_input \<Rightarrow> ('c, 'z, unit) adapting" where
  "adapter_op pl run (Clock t) = modifyS (\<lambda>s. s\<lparr>ad_tick := t\<rparr>)"
| "adapter_op pl run (UpdateDue n) = update pl run n"
| "adapter_op pl run WatchdogDue = watchDog"
| "adapter_op pl run (Retry q) = recvReqRetry pl q"
| "adapter_op pl run (Response p) = silent (recvTimingResp pl p)"
| "adapter_op pl run Drain = silent drain"
| "adapter_op pl run (Activate i c b r) = activateStream pl i c b r"
| "adapter_op pl run (InitStream m rt a b c d k) = initStream pl m rt a b c d k"
| "adapter_op pl run (Unserialize e p) = unserialize pl (e, p)"

definition adapter_step :: "platform \<Rightarrow> ('c \<Rightarrow> ('c, 'z, unit) adapting) \<Rightarrow> 'c adapter_input \<Rightarrow>
    ('c, 'z) adapter_scheme \<Rightarrow> ('c, 'z) adapter_scheme res" where
  "adapter_step pl run x s = map_sum id snd (adapter_op pl run x s)"

text \<open>No time of the manager is kept while an update is scheduled.\<close>

definition fresh_time :: "('c, 'z) adapter_scheme \<Rightarrow> bool" where
  "fresh_time s \<longleftrightarrow> (ad_updateEvent s \<noteq> None \<longrightarrow> ad_nextAtpTime s = MaxTick)"

definition fresh :: "('c, 'z) adapter_scheme \<Rightarrow> ('c, 'z) adapter_scheme \<Rightarrow> bool" where
  "fresh s t \<longleftrightarrow> (fresh_time s \<longrightarrow> fresh_time t)"

interpretation fresh: step_relation fresh
  by unfold_locales (auto simp: fresh_def)

lemma fresh_modify: "(\<And>s. fresh_time s \<Longrightarrow> fresh_time (h s)) \<Longrightarrow> keeps fresh (modifyS h)"
  by (rule fresh.keeps_modify) (simp add: fresh_def)

lemma fresh_same:
  "(\<And>s. ad_updateEvent (h s) = ad_updateEvent s) \<Longrightarrow> (\<And>s. ad_nextAtpTime (h s) = ad_nextAtpTime s) \<Longrightarrow>
    keeps fresh (modifyS h)"
  by (rule fresh_modify) (simp add: fresh_time_def)

lemma fresh_engine: "keeps fresh (on_engine m)"
  by (auto simp: keeps_def on_engine_def fresh_def fresh_time_def split: sum.splits)

lemma fresh_scheduleUpdate: "keeps fresh (scheduleUpdate pl w)"
  unfolding scheduleUpdate_def by (rule fresh_modify) (auto simp: fresh_time_def split: option.split)

lemmas fresh_rules = fresh.keeps_return fresh.keeps_fail fresh.keeps_get fresh.keeps_read fresh.keeps_lift
  fresh.keeps_bind fresh.keeps_then fresh.keeps_when fresh.keeps_if fresh.keeps_option fresh.keeps_prod
  fresh.keeps_each fresh_engine fresh_scheduleUpdate

lemma fresh_sends:
  "keeps fresh (getAtpTime pl)" "keeps fresh (buildGEM5Packet pl p)" "keeps fresh (addRoutingEntry pl p)"
  "keeps fresh (sendTimingReq pl q g)" "keeps fresh (traceM3iPacket pl g)" "keeps fresh (exitSimLoop f)"
  "keeps fresh (scheduleNow pl)" "keeps fresh (lookupAndRemoveRoutingEntry r)"
  unfolding getAtpTime_def buildGEM5Packet_def addRoutingEntry_def sendTimingReq_def traceM3iPacket_def
    exitSimLoop_def scheduleNow_def lookupAndRemoveRoutingEntry_def fatal_def Let_def
  by (auto intro!: fresh_rules fresh_same)

lemma fresh_buildATPPacket: "keeps fresh (buildATPPacket pl r)"
  unfolding buildATPPacket_def by (intro fresh_rules fresh_sends)

lemma fresh_serve: "keeps fresh (serve pl q p)"
  unfolding serve_def by (intro fresh_rules fresh_sends fresh_same) simp_all

lemma fresh_serve_loop: "keeps fresh (serve_loop pl n ports sp)"
proof (induction n arbitrary: ports sp)
  case 0
  show ?case
    by (cases ports; simp only: serve_loop.simps split_paired_all nat.case; intro fresh_rules)
next
  case (Suc n)
  show ?case
    by (cases ports; simp only: serve_loop.simps split_paired_all nat.case Let_def;
        intro fresh_rules fresh_serve fresh_same Suc) simp_all
qed

lemma fresh_serve_ports: "keeps fresh (serve_ports pl)"
  unfolding serve_ports_def by (intro fresh_rules fresh_serve_loop)

lemma fresh_activateStream: "keeps fresh (activateStream pl i c b r)"
  unfolding activateStream_def by (intro fresh_rules fresh_sends fresh_same) simp_all

lemma fresh_initStream: "keeps fresh (initStream pl m rt a b c d k)"
  unfolding initStream_def adapter_uniqueStream_def configureStream_def
  by (intro fresh_rules fresh_activateStream)

lemma fresh_streams_loop:
  assumes "\<And>c. keeps fresh (run c)"
  shows "keeps fresh (streams_loop pl run n i)"
proof (induction n arbitrary: i)
  case 0
  show ?case by (cases i) (simp_all only: streams_loop.simps fresh.keeps_return fresh.keeps_fail)
next
  case (Suc n)
  have t: "keeps fresh (run_terminate pl run i)" for i
    unfolding run_terminate_def Let_def by (intro fresh_rules fresh_same assms) simp_all
  show ?case
    by (cases i; simp only: streams_loop.simps; intro fresh_rules fresh_same Suc t) simp_all
qed

text \<open>Before the manager answers, the event of the update is gone; it is scheduled anew after that.\<close>

definition same_event :: "('c, 'z) adapter_scheme \<Rightarrow> ('c, 'z) adapter_scheme \<Rightarrow> bool" where
  "same_event s t \<longleftrightarrow> ad_updateEvent t = ad_updateEvent s"

interpretation same_event: step_relation same_event
  by unfold_locales (auto simp: same_event_def)

lemma same_event_request: "keeps same_event (request_packets pl)"
  unfolding request_packets_def request_at_def getAtpTime_def getSimTicks_def
  by (intro same_event.keeps_all same_event.keeps_modify)
    (auto simp: same_event_def keeps_def on_engine_def split: sum.splits)

lemma fresh_update:
  assumes "\<And>c. keeps fresh (run c)"
  shows "keeps fresh (update pl run n)"
proof (rule keepsI)
  fix s x t
  assume "update pl run n s = Inr (x, t)"
  then obtain u v where u: "request_packets pl (s\<lparr>ad_updateEvent := None\<rparr>) = Inr (v, u)"
    and t: "bindS (serve_ports pl) (\<lambda>suppressed.
     bindS (getAtpTime pl) (\<lambda>t.
     thenS (on_engine (setTime t))
     (thenS (terminated_streams pl run n)
     (thenS (bindS getS (\<lambda>s. whenS (ad_nextPacketTick s \<noteq> MaxTick) (scheduleUpdate pl (ad_nextPacketTick s))))
     (thenS exit_on_master
     (thenS (exit_when_done suppressed) watchdog)))))) u = Inr (x, t)" (is "?m u = _")
    unfolding update_def by (auto elim!: thenSE)
  from u have "fresh_time u"
    using keepsD [OF same_event_request u] by (simp add: same_event_def fresh_time_def)
  moreover have "keeps fresh ?m"
    unfolding terminated_streams_def exit_on_master_def exit_when_done_def watchdog_def Let_def
    by (intro fresh_rules fresh_serve_ports fresh_sends fresh_streams_loop assms fresh_same) simp_all
  ultimately show "fresh s t" using keepsD [where m = "?m" and R = fresh, OF _ t] by (simp add: fresh_def)
qed

lemma fresh_op:
  assumes "\<And>c. keeps fresh (run c)"
  shows "keeps fresh (adapter_op pl run x)"
proof (cases x)
  case (UpdateDue n)
  then show ?thesis using fresh_update [OF assms] by simp
next
  case (Clock t)
  then show ?thesis by (auto intro!: fresh_same)
next
  case WatchdogDue
  then show ?thesis unfolding watchDog_def
    by (auto intro!: fresh_rules fresh_same fresh_sends simp: watchDog_def)
next
  case (Retry q)
  then show ?thesis by (auto intro!: fresh_rules fresh_same fresh_sends simp: recvReqRetry_def)
next
  case (Response p)
  then show ?thesis
    by (auto intro!: fresh_rules fresh_sends fresh_buildATPPacket simp: silent_def recvTimingResp_def)
next
  case Drain
  then show ?thesis
    by (auto intro!: fresh_rules fresh_modify simp: silent_def drain_def) (simp_all add: fresh_time_def)
next
  case (Activate i c b r)
  then show ?thesis using fresh_activateStream by simp
next
  case (InitStream m rt a b c d k)
  then show ?thesis using fresh_initStream by simp
next
  case (Unserialize e p)
  then show ?thesis by (auto intro!: fresh_rules fresh_same simp: unserialize_def)
qed


lemma adapter_system:
  assumes "\<And>c. keeps fresh (run c)"
  shows "guarded_system (adapter_step pl run) (\<lambda>_ _. True) fresh_time"
proof (unfold_locales, goal_cases)
  case (1 s x t)
  then obtain u where "adapter_op pl run x s = Inr (u, t)"
    by (auto simp: adapter_step_def map_sum_def split: sum.splits)
  with 1 show ?case using keepsD [OF fresh_op [OF assms]] by (auto simp: fresh_def)
qed

lemma admissible_always: "admissible_run (\<lambda>_ _. True) step xs s"
  by (induction xs arbitrary: s) (auto split: sum.split)

text \<open>
  C30. The adaptor asks the manager for packets of the present. After any sequence of events in which
  the callbacks respect the schedule, an update that is due converts the current tick and asks for
  packets at that time, or at the time of the manager when that is later: a time kept from an
  earlier answer of the manager is never used, and the manager is never driven backwards.
\<close>

theorem updates_ask_for_the_present:
  assumes "fresh_time s" and "\<forall>c. keeps fresh (run c)"
    and "foldR (adapter_step pl run) xs s = Inr t" and "ad_updateEvent t = Some w"
    and "to_atp pl (ad_timeUnit t) (ad_tick t) = Inr v"
  shows "ad_nextAtpTime t = MaxTick
    \<and> (\<exists>now. now \<ge> v \<and> now \<ge> tp_time (ad_tpm t) \<and> (now = v \<or> now = tp_time (ad_tpm t))
         \<and> request_packets pl t = request_at pl now t)"
proof -
  have "fresh_time t"
    using guarded_system.run_inv [OF adapter_system assms(1) admissible_always assms(3)] assms(2) by blast
  with assms(4) have n: "ad_nextAtpTime t = MaxTick" by (simp add: fresh_time_def)
  then have "request_packets pl t = request_at pl (max v (tp_time (ad_tpm t))) t"
    by (simp add: request_packets_def getAtpTime_def bindS_def assms(5))
  with n show ?thesis
    by (intro conjI exI [of _ "max v (tp_time (ad_tpm t))"]) (auto simp: max_def)
qed

section \<open>Instances\<close>

theorem routing_table_is_queues_witness:
  "\<exists>t u. addRoutingEntry demo_platform (demo_read 4096) demo_device = Inr ((), t)
    \<and> lookupAndRemoveRoutingEntry (demo_response 4096) t = Inr (4096, u) \<and> (\<forall>k. routes_of u k = [])"
proof -
  have c: "getAtpCommand (demo_response 4096) = Inr READ_RESP" by (simp add: getAtpCommand_def demo_response_def)
  have e: "routes_of demo_device = (\<lambda>_. [])" by (simp add: fun_eq_iff routes_of_def demo_device_def)
  from routing_table_is_queues [OF c, of demo_platform "demo_read 4096" demo_device]
  obtain t where t: "addRoutingEntry demo_platform (demo_read 4096) demo_device = Inr ((), t)"
    "routes_of t = (\<lambda>_. [])((7, 4096, READ_RESP) := [4096])"
    by (auto simp: e Let_def demo_platform_def demo_read_def new_packet_def response_command_def)
  from routing_table_is_queues [OF c, of demo_platform "demo_read 4096" t] t(2)
  obtain u where "lookupAndRemoveRoutingEntry (demo_response 4096) t = Inr (4096, u)" "routes_of u = (\<lambda>_. [])"
    by (auto simp: demo_response_def fun_upd_idem)
  with t(1) show ?thesis by auto
qed

definition demo_buffer :: device where
  "demo_buffer = demo_device\<lparr>ad_localBuffer := [(''cpu'', demo_read 4096), (''cpu'', demo_read 4160)]\<rparr>"

lemma demo_buffer_run: "case serve_ports demo_platform demo_buffer of Inl e \<Rightarrow> False
    | Inr (sp, t) \<Rightarrow> length (ad_localBuffer t) = 0 \<and> ad_attempts demo_buffer = []"
  by code_simp

theorem ports_are_served_witness:
  "\<exists>sp t. serve_ports demo_platform demo_buffer = Inr (sp, t)
    \<and> map (\<lambda>(q, a). (q, gp_cmd a, rq_addr (gp_req a))) (ad_attempts t) = [(0, ReadReq, 4096), (0, ReadReq, 4160)]"
proof -
  have tr: "traceable demo_buffer" and i: "ad_interface demo_buffer = [(7, 0)]"
    and ok: "\<forall>e \<in> set (ad_localBuffer demo_buffer). sendable (snd e)"
    by (simp_all add: demo_buffer_def demo_device_def traceable_def sendable_def demo_read_def new_packet_def)
  from ports_are_served [OF tr ok, of demo_platform] obtain sp t taken sent where
    t: "serve_ports demo_platform demo_buffer = Inr (sp, t)"
    and p: "\<forall>m. packets_of m (ad_localBuffer demo_buffer) = packets_of m taken @ packets_of m (ad_localBuffer t)"
    and a: "ad_attempts t = ad_attempts demo_buffer @ sent"
      "list_all2 (attempt_of demo_platform demo_buffer) (filter (\<lambda>e. to_memory demo_platform demo_buffer (snd e)) taken) sent"
    by blast
  with demo_buffer_run have e: "ad_localBuffer t = []" "ad_attempts demo_buffer = []"
    by simp_all
  have b: "ad_localBuffer demo_buffer = [(''cpu'', demo_read 4096), (''cpu'', demo_read 4160)]" by (simp add: demo_buffer_def)
  have "fst x = ''cpu''" if "x \<in> set taken" for x
  proof (rule ccontr)
    assume x: "fst x \<noteq> ''cpu''"
    have "packets_of (fst x) taken = []" using spec [OF p, of "fst x"] x by (simp add: b e(1))
    then have "\<forall>y \<in> set taken. fst y \<noteq> fst x" by (simp add: filter_empty_conv)
    with that show False by blast
  qed
  then have "packets_of ''cpu'' taken = taken" by simp
  with spec [OF p, of "''cpu''"] have taken: "taken = ad_localBuffer demo_buffer" by (simp add: b e(1))
  have "to_memory demo_platform demo_buffer (demo_read 4096)" "to_memory demo_platform demo_buffer (demo_read 4160)"
    by (simp_all add: to_memory_def demo_platform_def demo_read_def new_packet_def)
  with a(2) obtain x y where "sent = [x, y]" "attempt_of demo_platform demo_buffer (''cpu'', demo_read 4096) x"
    "attempt_of demo_platform demo_buffer (''cpu'', demo_read 4160) y"
    by (auto simp: taken b list_all2_Cons1)
  moreover have "stream_request demo_platform demo_buffer (demo_read n) = plain_request demo_platform (demo_read n)" for n
    by (simp add: stream_request_def demo_buffer_def demo_device_def)
  ultimately show ?thesis using t a(1) e(2) i
    by (cases x; cases y) (auto simp: attempt_of_def getGem5Command_def plain_request_def demo_read_def new_packet_def)
qed

definition restart :: "u64 \<times> u32 \<Rightarrow> (u64 \<times> u32, 'z, unit) adapting" where
  "restart c = activateStream demo_platform (fst c) (Some c) None False"

lemma demo_activated: "case foldR (adapter_step demo_platform restart) [Activate 0 (Some (0, 1)) None False] demo_device of
    Inr t \<Rightarrow> ad_updateEvent t = Some 5000 \<and> ad_timeUnit t = PS \<and> ad_tick t = 5000 | Inl e \<Rightarrow> False"
  by code_simp

lemma demo_time: "to_atp demo_platform PS 5000 = Inr 5"
  using rnd64_int [of 5000] rnd64_int [of 5]
  by (simp add: to_atp_def demo_platform_def fl_of_u64_def fl_div_def fl_to_u64_def)

theorem updates_ask_for_the_present_witness:
  "\<exists>t now. foldR (adapter_step demo_platform restart) [Activate 0 (Some (0, 1)) None False] demo_device = Inr t
    \<and> 5 \<le> now \<and> request_packets demo_platform t = request_at demo_platform now t"
proof -
  obtain t where t: "foldR (adapter_step demo_platform restart) [Activate 0 (Some (0, 1)) None False] demo_device = Inr t"
    "ad_updateEvent t = Some 5000" "to_atp demo_platform (ad_timeUnit t) (ad_tick t) = Inr 5"
    using demo_activated demo_time by (auto split: sum.splits)
  have f: "fresh_time demo_device" by (simp add: fresh_time_def demo_device_def)
  have "\<forall>c. keeps fresh (restart c :: (device, unit) comp)" by (simp add: restart_def fresh_activateStream)
  from updates_ask_for_the_present [OF f this t] t(1) show ?thesis by blast
qed

end
