(* ===== verification/Device_Laws.thy ===== *)
theory Device_Laws
  imports Adapter_Laws
begin

text \<open>
  The programmable device implements queues of requests: one queue for each stream, whose requests
  are played in order, and one queue of completions, whose head is published to the software. The
  specification is a step relation on these queues; every run of the device is a run of it.
\<close>

section \<open>The specification\<close>

type_synonym queues = "(u64 \<Rightarrow> u32 list) \<times> u32 list"

datatype queue_event = Accept u64 u32 | Finish u64 | Acknowledge

inductive queue_step :: "queues \<Rightarrow> queue_event \<Rightarrow> queues \<Rightarrow> bool" where
  accept: "queue_step (l, out) (Accept i r) (l(i := l i @ [r]), out)"
| finish: "l i = r # rs \<Longrightarrow> queue_step (l, out) (Finish i) (l(i := rs), out @ [r])"
| acknowledge: "queue_step (l, out) Acknowledge (l, tl out)"

inductive_cases AcceptE: "queue_step a (Accept i r) b"
inductive_cases FinishE: "queue_step a (Finish i) b"
inductive_cases AcknowledgeE: "queue_step a Acknowledge b"

inductive queue_run :: "queues \<Rightarrow> queue_event list \<Rightarrow> queues \<Rightarrow> bool" where
  Nil: "queue_run a [] a"
| Cons: "queue_step a e b \<Longrightarrow> queue_run b es c \<Longrightarrow> queue_run a (e # es) c"

lemma queue_run_append: "queue_run a es b \<Longrightarrow> queue_run b fs c \<Longrightarrow> queue_run a (es @ fs) c"
  by (induction rule: queue_run.induct) (auto intro: queue_run.Cons)

lemma queue_run_one: "queue_step a e b \<Longrightarrow> queue_run a [e] b"
  by (blast intro: queue_run.intros)

section \<open>The queues of a device\<close>

definition in_play :: "(u64 \<times> u32, 'z) adapter_scheme \<Rightarrow> u64 \<Rightarrow> u32 list" where
  "in_play s i = (if i \<in> set (ad_activeStreams s)
     then (case map_of (ad_onTerminate s) i of Some (_, Some (_, r)) \<Rightarrow> [r] | _ \<Rightarrow> []) else [])"

definition waiting_play :: "'z device_scheme \<Rightarrow> u64 \<Rightarrow> u32 list" where
  "waiting_play s i = (case map_of (dv_streams s) i of None \<Rightarrow> [] | Some str \<Rightarrow> map pq_id (st_pending str))"

definition completions :: "'z device_scheme \<Rightarrow> u32 list" where
  "completions s = (if dv_intAckPending s then [rg_outRequestId (dv_regs s)] else []) @ dv_servedRequests s"

definition queues_of :: "'z device_scheme \<Rightarrow> queues" where
  "queues_of s = (\<lambda>i. in_play s i @ waiting_play s i, completions s)"

definition playing :: "'z device_scheme \<Rightarrow> u64 \<Rightarrow> bool" where
  "playing s i \<longleftrightarrow> (\<exists>str. map_of (dv_streams s) i = Some str \<and> st_active str)"

text \<open>
  What holds between the operations: the interrupt is up exactly while a completion is published,
  completions wait only behind a published one, the adaptor runs exactly the streams in play, each
  with the callback of its request and without automatic reset, and only these have requests waiting.
\<close>

definition device_ok :: "'z device_scheme \<Rightarrow> bool" where
  "device_ok s \<longleftrightarrow> dv_interrupt s = dv_intAckPending s
    \<and> (dv_servedRequests s \<noteq> [] \<longrightarrow> dv_intAckPending s)
    \<and> distinct (ad_activeStreams s)
    \<and> (\<forall>i. i \<in> set (ad_activeStreams s) \<longleftrightarrow> playing s i)
    \<and> (\<forall>i. playing s i \<longrightarrow> (\<exists>r. map_of (ad_onTerminate s) i = Some (False, Some (i, r))))
    \<and> (\<forall>i str. map_of (dv_streams s) i = Some str \<longrightarrow> \<not> st_active str \<longrightarrow> st_pending str = [])"

text \<open>The fields these depend on.\<close>

definition same_view :: "'z device_scheme \<Rightarrow> 'z device_scheme \<Rightarrow> bool" where
  "same_view s t \<longleftrightarrow> dv_streams t = dv_streams s \<and> dv_servedRequests t = dv_servedRequests s
    \<and> rg_outRequestId (dv_regs t) = rg_outRequestId (dv_regs s) \<and> dv_intAckPending t = dv_intAckPending s
    \<and> dv_interrupt t = dv_interrupt s \<and> ad_activeStreams t = ad_activeStreams s
    \<and> ad_onTerminate t = ad_onTerminate s"

interpretation view: step_relation same_view
  by unfold_locales (auto simp: same_view_def)

lemma same_view_ok: "same_view s t \<Longrightarrow> device_ok t = device_ok s \<and> queues_of t = queues_of s"
  by (simp add: same_view_def device_ok_def queues_of_def in_play_def waiting_play_def completions_def
      playing_def fun_eq_iff)

lemma view_engine: "keeps same_view (on_engine m)"
  by (auto simp: keeps_def on_engine_def same_view_def split: sum.splits)

lemma view_modify: "(\<And>s. same_view s (h s)) \<Longrightarrow> keeps same_view (modifyS h)"
  by (rule view.keeps_modify)

lemma view_scheduleUpdate: "keeps same_view (scheduleUpdate pl w)"
  unfolding scheduleUpdate_def by (rule view_modify) (auto simp: same_view_def split: option.split)

lemmas view_rules = view.keeps_return view.keeps_fail view.keeps_get view.keeps_read view.keeps_lift
  view.keeps_bind view.keeps_then view.keeps_when view.keeps_if view.keeps_option view.keeps_prod
  view.keeps_each view_engine view_scheduleUpdate view_modify

lemma view_sends:
  "keeps same_view (getAtpTime pl)" "keeps same_view (getSimTicks pl u)" "keeps same_view (buildGEM5Packet pl p)"
  "keeps same_view (addRoutingEntry pl p)" "keeps same_view (sendTimingReq pl q g)"
  "keeps same_view (traceM3iPacket pl g)" "keeps same_view (exitSimLoop f)" "keeps same_view (scheduleNow pl)"
  "keeps same_view (lookupAndRemoveRoutingEntry r)" "keeps same_view watchdog"
  unfolding getAtpTime_def getSimTicks_def buildGEM5Packet_def addRoutingEntry_def sendTimingReq_def traceM3iPacket_def
    exitSimLoop_def scheduleNow_def lookupAndRemoveRoutingEntry_def fatal_def watchdog_def Let_def
  by (intro view_rules; simp add: same_view_def)+

lemma view_configureStream: "keeps same_view (configureStream i a b ty)"
  unfolding configureStream_def by (intro view_rules)

lemma view_serve: "keeps same_view (serve pl q p)"
  unfolding serve_def by (intro view_rules view_sends) (simp_all add: same_view_def)

lemma view_serve_loop: "keeps same_view (serve_loop pl n ports sp)"
proof (induction n arbitrary: ports sp)
  case 0
  show ?case
    by (cases ports; simp only: serve_loop.simps split_paired_all nat.case; intro view_rules)
next
  case (Suc n)
  show ?case
    by (cases ports; simp only: serve_loop.simps split_paired_all nat.case Let_def;
        intro view_rules view_serve Suc) (simp_all add: same_view_def)
qed

lemma view_serve_ports: "keeps same_view (serve_ports pl)"
  unfolding serve_ports_def by (intro view_rules view_serve_loop)

lemma view_request_packets: "keeps same_view (request_packets pl)"
  unfolding request_packets_def request_at_def
  by (intro view_rules view_sends) (simp_all add: same_view_def)

section \<open>Streams\<close>

lemma activateStream_run:
  assumes "activateStream pl i c b False s = Inr (u, t)"
  shows "dv_streams t = dv_streams s \<and> dv_servedRequests t = dv_servedRequests s \<and> dv_regs t = dv_regs s
    \<and> dv_intAckPending t = dv_intAckPending s \<and> dv_interrupt t = dv_interrupt s
    \<and> ad_activeStreams t = emplace pl i (ad_activeStreams s)
    \<and> ad_onTerminate t = AList.update i (False, c) (ad_onTerminate s)"
  using assms by (auto simp: activateStream_def thenS_def bindS_def on_engine_def scheduleNow_def
      scheduleUpdate_def split: sum.splits option.splits if_splits)

lemma set_emplace [simp]: "set (emplace pl x xs) = insert x (set xs)"
proof -
  have "set (take k xs) \<union> set (drop k xs) = set xs" for k
    by (metis append_take_drop_id set_append)
  then show ?thesis by (auto simp: emplace_def Let_def)
qed

lemma distinct_emplace [simp]: "distinct (emplace pl x xs) = distinct xs"
proof -
  have "distinct (ys @ x # zs) \<longleftrightarrow> x \<notin> set (ys @ zs) \<and> distinct (ys @ zs)" for ys zs
    by auto
  then show ?thesis by (simp add: emplace_def Let_def del: distinct_append set_append)
qed

lemma successor_set: "successor x xs = Some y \<Longrightarrow> y \<in> set xs"
  by (induction xs) (auto split: if_splits list.splits)

lemma successor_distinct: "distinct xs \<Longrightarrow> successor x xs = Some y \<Longrightarrow> y \<noteq> x"
  by (induction xs) (auto split: if_splits list.splits)

definition plays :: "platform \<Rightarrow> u64 \<Rightarrow> u32 \<Rightarrow> stream \<Rightarrow> 'z device_scheme \<Rightarrow> 'z device_scheme \<Rightarrow> bool" where
  "plays pl i r str s t \<longleftrightarrow> dv_streams t = AList.update i (str\<lparr>st_active := True\<rparr>) (dv_streams s)
    \<and> dv_servedRequests t = dv_servedRequests s
    \<and> rg_outRequestId (dv_regs t) = rg_outRequestId (dv_regs s) \<and> dv_intAckPending t = dv_intAckPending s
    \<and> dv_interrupt t = dv_interrupt s \<and> ad_activeStreams t = emplace pl i (ad_activeStreams s)
    \<and> ad_onTerminate t = AList.update i (False, Some (i, r)) (ad_onTerminate s)"

lemma view_configureDmaOp: "keeps same_view (configureDmaOp i req)"
  unfolding configureDmaOp_def by (intro view_rules view_configureStream)

lemma stream_at_run: "stream_at i s = Inr (str, t) \<longleftrightarrow> map_of (dv_streams s) i = Some str \<and> t = s"
  by (auto simp: stream_at_def bindS_def split: option.splits)

lemma serveRequest_run:
  assumes "serveRequest pl i req s = Inr (u, t)" and str: "map_of (dv_streams s) i = Some str"
  shows "plays pl i (pq_id req) str s t"
proof -
  from assms(1) obtain v s1 w s2 x where s1: "configureDmaOp i req s = Inr (v, s1)"
    and s2: "activateStream pl i (Some (i, pq_id req))
       (Some (annotateRequest (dv_sid s1) (dv_ssid s1) (pq_taskId req))) False s1 = Inr (w, s2)"
    and t: "map_of (dv_streams s2) i = Some x"
      "t = s2\<lparr>dv_streams := AList.update i (x\<lparr>st_active := True\<rparr>) (dv_streams s2)\<rparr>"
    unfolding serveRequest_def by (elim thenSE bindSE) (auto simp: stream_at_run set_stream_def)
  from keepsD [OF view_configureDmaOp s1] activateStream_run [OF s2] t str
  show ?thesis by (auto simp: plays_def same_view_def)
qed

text \<open>A request that is played on a stream at rest.\<close>

lemma plays_ok:
  assumes ok: "device_ok s" and str: "map_of (dv_streams s) i = Some str" and rest: "\<not> st_active str"
    and t: "plays pl i r str s t"
  shows "device_ok t \<and> queue_step (queues_of s) (Accept i r) (queues_of t)"
proof -
  have i: "i \<notin> set (ad_activeStreams s)" "st_pending str = []"
    using ok str rest by (auto simp: device_ok_def playing_def)
  have p: "playing t j \<longleftrightarrow> j = i \<or> playing s j" for j using t by (auto simp: plays_def playing_def)
  have "device_ok t"
    unfolding device_ok_def
  proof (intro conjI allI impI)
    fix j str'
    assume "map_of (dv_streams t) j = Some str'" "\<not> st_active str'"
    with t ok show "st_pending str' = []" by (auto simp: plays_def device_ok_def split: if_splits)
  qed (use t ok p in \<open>auto simp: plays_def device_ok_def\<close>)
  moreover have "queues_of t = ((fst (queues_of s))(i := fst (queues_of s) i @ [r]), snd (queues_of s))"
    using t i str by (auto simp: queues_of_def in_play_def waiting_play_def completions_def plays_def fun_eq_iff)
  ultimately show ?thesis using queue_step.accept [of "fst (queues_of s)" "snd (queues_of s)" i r] by simp
qed

text \<open>The callback of a stream in play: the state in which the adaptor calls it.\<close>

definition completing :: "u64 \<Rightarrow> u32 \<Rightarrow> 'z device_scheme \<Rightarrow> 'z device_scheme \<Rightarrow> bool" where
  "completing i r s s' \<longleftrightarrow> dv_streams s' = dv_streams s \<and> dv_servedRequests s' = dv_servedRequests s
    \<and> rg_outRequestId (dv_regs s') = rg_outRequestId (dv_regs s) \<and> dv_intAckPending s' = dv_intAckPending s
    \<and> dv_interrupt s' = dv_interrupt s \<and> ad_activeStreams s' = remove1 i (ad_activeStreams s)
    \<and> ad_onTerminate s' = AList.update i (False, Some (i, r)) (ad_onTerminate s)"

definition finish_request :: "u32 \<Rightarrow> ('z, unit) device_op" where
  "finish_request r = bindS getS (\<lambda>s. if \<not> dv_intAckPending s \<and> dv_servedRequests s = [] then notifyServedRequest r
     else modifyS (\<lambda>s. s\<lparr>dv_servedRequests := dv_servedRequests s @ [r]\<rparr>))"

text \<open>The completion is published when no other one is, and waits otherwise.\<close>

lemma finish_request_run:
  assumes "finish_request r s = Inr (u, t)" and "dv_interrupt s = dv_intAckPending s"
    and "dv_servedRequests s \<noteq> [] \<longrightarrow> dv_intAckPending s"
  shows "completions t = completions s @ [r] \<and> dv_intAckPending t \<and> dv_interrupt t
    \<and> dv_streams t = dv_streams s \<and> ad_activeStreams t = ad_activeStreams s \<and> ad_onTerminate t = ad_onTerminate s"
  using assms by (auto simp: finish_request_def bindS_def notifyServedRequest_def completions_def split: if_splits)

lemma servedRequestHandler_run:
  assumes "servedRequestHandler pl (i, r) s = Inr (u, t)" and str: "map_of (dv_streams s) i = Some str"
  shows "\<exists>v s2. finish_request r (s\<lparr>dv_streams := AList.update i (str\<lparr>st_active := False\<rparr>) (dv_streams s)\<rparr>) = Inr (v, s2)
    \<and> (st_pending str = [] \<longrightarrow> t = s2)
    \<and> (\<forall>req reqs. st_pending str = req # reqs \<longrightarrow> (\<exists>w s3 str'. serveRequest pl i req s2 = Inr (w, s3)
         \<and> map_of (dv_streams s3) i = Some str'
         \<and> t = s3\<lparr>dv_streams := AList.update i (str'\<lparr>st_pending := tl (st_pending str')\<rparr>) (dv_streams s3)\<rparr>))"
proof -
  from assms have h: "thenS (finish_request r)
      (case st_pending str of [] \<Rightarrow> returnS ()
       | req # _ \<Rightarrow> thenS (serveRequest pl i req)
          (bindS (stream_at i) (\<lambda>str. set_stream i (str\<lparr>st_pending := tl (st_pending str)\<rparr>))))
      (s\<lparr>dv_streams := AList.update i (str\<lparr>st_active := False\<rparr>) (dv_streams s)\<rparr>) = Inr (u, t)"
    by (simp add: servedRequestHandler_def finish_request_def stream_at_def set_stream_def bindS_def thenS_def)
  then obtain v s2 where s2: "finish_request r (s\<lparr>dv_streams := AList.update i (str\<lparr>st_active := False\<rparr>) (dv_streams s)\<rparr>) = Inr (v, s2)"
    and rest: "(case st_pending str of [] \<Rightarrow> returnS ()
       | req # _ \<Rightarrow> thenS (serveRequest pl i req)
          (bindS (stream_at i) (\<lambda>str. set_stream i (str\<lparr>st_pending := tl (st_pending str)\<rparr>)))) s2 = Inr (u, t)"
    by (rule thenSE)
  moreover have "st_pending str = [] \<longrightarrow> t = s2" using rest by auto
  moreover have "\<exists>w s3 str'. serveRequest pl i req s2 = Inr (w, s3) \<and> map_of (dv_streams s3) i = Some str'
         \<and> t = s3\<lparr>dv_streams := AList.update i (str'\<lparr>st_pending := tl (st_pending str')\<rparr>) (dv_streams s3)\<rparr>"
    if "st_pending str = req # reqs" for req reqs
  proof -
    from rest that have "thenS (serveRequest pl i req)
        (bindS (stream_at i) (\<lambda>str. set_stream i (str\<lparr>st_pending := tl (st_pending str)\<rparr>))) s2 = Inr (u, t)" by simp
    then show ?thesis by (elim thenSE bindSE) (auto simp: stream_at_run set_stream_def)
  qed
  ultimately show ?thesis by blast
qed

text \<open>A finished request without a successor leaves its stream idle.\<close>

lemma no_request_left:
  assumes ok: "device_ok s" and i: "i \<in> set (ad_activeStreams s)"
    and str: "map_of (dv_streams s) i = Some str" "st_pending str = []"
    and t: "completions t = completions s @ [r]" "dv_intAckPending t" "dv_interrupt t"
      "dv_streams t = AList.update i (str\<lparr>st_active := False\<rparr>) (dv_streams s)"
      "ad_activeStreams t = remove1 i (ad_activeStreams s)"
      "ad_onTerminate t = AList.update i (False, Some (i, r)) (ad_onTerminate s)"
  shows "device_ok t \<and> queues_of t = ((fst (queues_of s))(i := []), snd (queues_of s) @ [r])"
proof
  from ok have act: "distinct (ad_activeStreams s)" "\<And>j. j \<in> set (ad_activeStreams s) \<longleftrightarrow> playing s j"
    and idle: "\<And>j x. map_of (dv_streams s) j = Some x \<Longrightarrow> \<not> st_active x \<Longrightarrow> st_pending x = []"
    and cbs: "\<And>j. playing s j \<Longrightarrow> \<exists>r. map_of (ad_onTerminate s) j = Some (False, Some (j, r))"
    unfolding device_ok_def by blast+
  have p: "playing t j \<longleftrightarrow> j \<noteq> i \<and> playing s j" for j by (simp add: t playing_def)
  show "device_ok t" unfolding device_ok_def
  proof (intro conjI allI impI)
    show "st_pending x = []" if "map_of (dv_streams t) j = Some x" "\<not> st_active x" for j x
      using that str(2) idle [of j x] by (auto simp: t split: if_splits)
    show "\<exists>r. map_of (ad_onTerminate t) j = Some (False, Some (j, r))" if "playing t j" for j
      using that cbs [of j] p [of j] by (auto simp: t)
    show "j \<in> set (ad_activeStreams t) \<longleftrightarrow> playing t j" for j
      using act(1) act(2) [of j] p [of j] by (auto simp: t)
  qed (use act(1) in \<open>simp_all add: t\<close>)
  show "queues_of t = ((fst (queues_of s))(i := []), snd (queues_of s) @ [r])"
    using act(1) str i by (auto simp: queues_of_def in_play_def waiting_play_def fun_eq_iff t)
qed

text \<open>Otherwise the first of the requests that wait is played next.\<close>

lemma next_request_plays:
  assumes ok: "device_ok s" and i: "i \<in> set (ad_activeStreams s)"
    and str: "map_of (dv_streams s) i = Some str" "st_active str" "st_pending str = req # reqs"
    and t: "completions t = completions s @ [r]" "dv_intAckPending t" "dv_interrupt t"
      "map_of (dv_streams t) = (map_of (dv_streams s))(i \<mapsto> str\<lparr>st_active := True, st_pending := reqs\<rparr>)"
      "set (ad_activeStreams t) = set (ad_activeStreams s)" "distinct (ad_activeStreams t)"
      "map_of (ad_onTerminate t) = (map_of (ad_onTerminate s))(i \<mapsto> (False, Some (i, pq_id req)))"
  shows "device_ok t
    \<and> queues_of t = ((fst (queues_of s))(i := map pq_id (st_pending str)), snd (queues_of s) @ [r])"
proof
  from ok have act: "\<And>j. j \<in> set (ad_activeStreams s) \<longleftrightarrow> playing s j"
    and idle: "\<And>j x. map_of (dv_streams s) j = Some x \<Longrightarrow> \<not> st_active x \<Longrightarrow> st_pending x = []"
    and cbs: "\<And>j. playing s j \<Longrightarrow> \<exists>r. map_of (ad_onTerminate s) j = Some (False, Some (j, r))"
    unfolding device_ok_def by blast+
  have p: "playing t j \<longleftrightarrow> playing s j" for j using str by (simp add: playing_def t)
  show "device_ok t" unfolding device_ok_def
  proof (intro conjI allI impI)
    show "st_pending x = []" if "map_of (dv_streams t) j = Some x" "\<not> st_active x" for j x
      using that idle [of j x] by (auto simp: t split: if_splits)
    show "\<exists>r. map_of (ad_onTerminate t) j = Some (False, Some (j, r))" if "playing t j" for j
      using that cbs [of j] by (auto simp: p t)
    show "j \<in> set (ad_activeStreams t) \<longleftrightarrow> playing t j" for j by (simp add: p t act)
  qed (simp_all add: t)
  show "queues_of t = ((fst (queues_of s))(i := map pq_id (st_pending str)), snd (queues_of s) @ [r])"
    using i str by (auto simp: queues_of_def in_play_def waiting_play_def fun_eq_iff t)
qed

lemma completing_handler:
  assumes ok: "device_ok s" and i: "i \<in> set (ad_activeStreams s)"
    and cb: "map_of (ad_onTerminate s) i = Some (False, Some (i, r))" and c: "completing i r s s'"
    and h: "servedRequestHandler pl (i, r) s' = Inr (u, t)"
  shows "device_ok t \<and> queue_step (queues_of s) (Finish i) (queues_of t)
    \<and> set (ad_activeStreams s) - {i} \<subseteq> set (ad_activeStreams t)"
proof -
  from ok i obtain str where str: "map_of (dv_streams s) i = Some str" "st_active str"
    by (auto simp: device_ok_def playing_def)
  with c have str': "map_of (dv_streams s') i = Some str" by (simp add: completing_def)
  from servedRequestHandler_run [OF h str']
  obtain v s2 where s2: "finish_request r (s'\<lparr>dv_streams := AList.update i (str\<lparr>st_active := False\<rparr>) (dv_streams s')\<rparr>) = Inr (v, s2)"
    and t0: "st_pending str = [] \<longrightarrow> t = s2"
    and t1: "\<forall>req reqs. st_pending str = req # reqs \<longrightarrow> (\<exists>w s3 str'. serveRequest pl i req s2 = Inr (w, s3)
      \<and> map_of (dv_streams s3) i = Some str'
      \<and> t = s3\<lparr>dv_streams := AList.update i (str'\<lparr>st_pending := tl (st_pending str')\<rparr>) (dv_streams s3)\<rparr>)"
    by blast
  have f: "completions s2 = completions s @ [r]" "dv_intAckPending s2" "dv_interrupt s2"
    "dv_streams s2 = AList.update i (str\<lparr>st_active := False\<rparr>) (dv_streams s)"
    "ad_activeStreams s2 = remove1 i (ad_activeStreams s)"
    "ad_onTerminate s2 = AList.update i (False, Some (i, r)) (ad_onTerminate s)"
    using finish_request_run [OF s2] c ok by (auto simp: completing_def device_ok_def completions_def)
  have d: "distinct (ad_activeStreams s)" using ok by (simp add: device_ok_def)
  have line: "fst (queues_of s) i = r # map pq_id (st_pending str)"
    using i cb str by (simp add: queues_of_def in_play_def waiting_play_def)
  note step = queue_step.finish [of "fst (queues_of s)" i r "map pq_id (st_pending str)" "snd (queues_of s)"]
  show ?thesis
  proof (cases "st_pending str")
    case Nil
    with no_request_left [OF ok i str(1) Nil f] t0 line step f(5) d show ?thesis by auto
  next
    case (Cons req reqs)
    from t1 Cons obtain w s3 str3 where s3: "serveRequest pl i req s2 = Inr (w, s3)"
      and str3: "map_of (dv_streams s3) i = Some str3"
      and t: "t = s3\<lparr>dv_streams := AList.update i (str3\<lparr>st_pending := tl (st_pending str3)\<rparr>) (dv_streams s3)\<rparr>" by blast
    have pl: "plays pl i (pq_id req) (str\<lparr>st_active := False\<rparr>) s2 s3"
      by (rule serveRequest_run [OF s3]) (simp add: f)
    with str3 have x: "str3 = str\<lparr>st_active := True\<rparr>" by (simp add: plays_def)
    have a: "set (ad_activeStreams t) = set (ad_activeStreams s)" "distinct (ad_activeStreams t)"
      using d i pl by (auto simp: t plays_def f)
    have "device_ok t
      \<and> queues_of t = ((fst (queues_of s))(i := map pq_id (st_pending str)), snd (queues_of s) @ [r])"
    proof (rule next_request_plays [OF ok i str Cons _ _ _ _ a])
      show "map_of (dv_streams t) = (map_of (dv_streams s))(i \<mapsto> str\<lparr>st_active := True, st_pending := reqs\<rparr>)"
        using pl by (auto simp: t x plays_def f Cons fun_eq_iff)
      show "map_of (ad_onTerminate t) = (map_of (ad_onTerminate s))(i \<mapsto> (False, Some (i, pq_id req)))"
        using pl by (simp add: t plays_def f)
    qed (use pl f in \<open>simp_all add: t plays_def completions_def\<close>)
    with line step a show ?thesis by auto
  qed
qed

section \<open>The adaptor\<close>

text \<open>What the adaptor does to the device is to finish requests.\<close>

definition finishes :: "queue_event list \<Rightarrow> bool" where
  "finishes es \<longleftrightarrow> (\<forall>e \<in> set es. case e of Finish i \<Rightarrow> True | _ \<Rightarrow> False)"

definition finishing :: "'z device_scheme \<Rightarrow> 'z device_scheme \<Rightarrow> bool" where
  "finishing s t \<longleftrightarrow> (device_ok s \<longrightarrow> device_ok t \<and> (\<exists>es. finishes es \<and> queue_run (queues_of s) es (queues_of t)))"

lemma finishes_append: "finishes (es @ fs) \<longleftrightarrow> finishes es \<and> finishes fs"
  and finishes_Nil: "finishes []"
  by (auto simp: finishes_def)

lemma finishing_trans: "finishing s t \<Longrightarrow> finishing t u \<Longrightarrow> finishing s u"
  unfolding finishing_def by (blast intro: queue_run_append finishes_append [THEN iffD2])

lemma finishing_refl: "finishing s s"
  unfolding finishing_def by (blast intro: queue_run.Nil finishes_Nil)

interpretation finishing: step_relation finishing
  by unfold_locales (rule finishing_refl, rule finishing_trans)

lemma same_view_finishing: "same_view s t \<Longrightarrow> finishing s t"
  using same_view_ok [of s t] finishing.R_refl [of s] by (simp add: finishing_def)

lemma finishing_view: "keeps same_view m \<Longrightarrow> keeps finishing m"
  by (rule keeps_mono [OF same_view_finishing])

lemma streams_loop_finishes:
  assumes "device_ok s" and "\<forall>i. cur = Some i \<longrightarrow> i \<in> set (ad_activeStreams s)"
    and "streams_loop pl (servedRequestHandler pl) n cur s = Inr (u, t)"
  shows "finishing s t"
  using assms
proof (induction n arbitrary: cur s)
  case 0
  then have "t = s" by (cases cur) auto
  then show ?case by (simp add: finishing.R_refl)
next
  case (Suc n)
  show ?case
  proof (cases cur)
    case None
    with Suc.prems have "t = s" by simp
    then show ?thesis by (simp add: finishing.R_refl)
  next
    case (Some i)
    from Suc.prems(3) obtain b s1 where s1: "on_engine (streamTerminated i) s = Inr (b, s1)"
      and rest: "(if b then bindS (readS (\<lambda>s. successor i (ad_activeStreams s))) (\<lambda>next.
      thenS (modifyS (\<lambda>s. s\<lparr>ad_activeStreams := remove1 i (ad_activeStreams s)\<rparr>))
      (thenS (run_terminate pl (servedRequestHandler pl) i) (streams_loop pl (servedRequestHandler pl) n next)))
    else bindS (readS (\<lambda>s. successor i (ad_activeStreams s))) (streams_loop pl (servedRequestHandler pl) n)) s1 = Inr (u, t)"
      by (auto simp: Some elim!: bindSE)
    have v: "same_view s s1" by (rule keepsD [OF view_engine s1])
    note ok1 = same_view_ok [OF v]
    have fin: "finishing s s1" by (rule same_view_finishing [OF v])
    have act: "ad_activeStreams s1 = ad_activeStreams s" using v by (simp add: same_view_def)
    have i: "i \<in> set (ad_activeStreams s1)" using Suc.prems(2) Some by (simp add: act)
    show ?thesis
    proof (cases b)
      case False
      with rest have "streams_loop pl (servedRequestHandler pl) n (successor i (ad_activeStreams s1)) s1 = Inr (u, t)"
        by (simp add: bindS_def)
      then have "finishing s1 t" using ok1 Suc.prems(1) by (intro Suc.IH) (auto dest: successor_set)
      with fin show ?thesis by (rule finishing_trans)
    next
      case True
      from ok1 Suc.prems(1) have ok: "device_ok s1" by simp
      with i obtain r where r: "map_of (ad_onTerminate s1) i = Some (False, Some (i, r))"
        and d: "distinct (ad_activeStreams s1)"
        by (auto simp: device_ok_def)
      from True rest obtain w s2 where s2: "run_terminate pl (servedRequestHandler pl) i
            (s1\<lparr>ad_activeStreams := remove1 i (ad_activeStreams s1)\<rparr>) = Inr (w, s2)"
        and s3: "streams_loop pl (servedRequestHandler pl) n (successor i (ad_activeStreams s1)) s2 = Inr (u, t)"
        by (auto simp: bindS_def elim!: thenSE)
      let ?s1 = "s1\<lparr>ad_activeStreams := remove1 i (ad_activeStreams s1),
        ad_onTerminate := AList.update i (False, Some (i, r)) (ad_onTerminate s1)\<rparr>"
      have c: "completing i r s1 ?s1" by (simp add: completing_def)
      have h: "servedRequestHandler pl (i, r) ?s1 = Inr (w, s2)"
        using s2 r by (simp add: run_terminate_def bindS_def thenS_def)
      note ch = completing_handler [OF ok i r c h]
      then have "finishing s1 s2"
        by (auto simp: finishing_def finishes_def intro!: exI [of _ "[Finish i]"] queue_run_one)
      moreover have "finishing s2 t"
        using ch successor_set [of i "ad_activeStreams s1"] successor_distinct [OF d]
        by (intro Suc.IH [OF _ _ s3]) auto
      ultimately show ?thesis using fin by (blast intro: finishing_trans)
    qed
  qed
qed

lemma finishing_terminated_streams: "keeps finishing (terminated_streams pl (servedRequestHandler pl) n)"
proof (rule keepsI)
  fix s x t
  assume "terminated_streams pl (servedRequestHandler pl) n s = Inr (x, t)"
  then have "device_ok s \<Longrightarrow> finishing s t"
    by (intro streams_loop_finishes [where u = x]) (auto simp: terminated_streams_def bindS_def split: list.splits)
  then show "finishing s t" by (auto simp: finishing_def)
qed

lemma finishing_update: "keeps finishing (update pl (servedRequestHandler pl) n)"
  unfolding update_def exit_on_master_def exit_when_done_def Let_def
  by (intro finishing.keeps_all finishing_terminated_streams finishing_view view_rules view_sends
      view_request_packets view_serve_ports) (simp_all add: same_view_def)

section \<open>Inputs\<close>

text \<open>
  What happens to a device: accesses of the software, the end of a DMA operation, and the events of
  its adaptor. Streams of the adaptor that are not the device's are not considered.
\<close>

datatype device_input = MmioRead u64 nat | MmioWrite u64 nat u64 | DmaDone string
  | Engine "(u64 \<times> u32) adapter_input"

fun device_do :: "platform \<Rightarrow> device_input \<Rightarrow> ('z, unit) device_op" where
  "device_do pl (MmioRead a n) = silent (mmio_read a n)"
| "device_do pl (MmioWrite a n d) = mmio_write pl a n d"
| "device_do pl (DmaDone b) = dma_done pl b"
| "device_do pl (Engine x) = adapter_op pl (servedRequestHandler pl) x"

definition device_step :: "platform \<Rightarrow> device_input \<Rightarrow> 'z device_scheme \<Rightarrow> 'z device_scheme res" where
  "device_step pl x s = map_sum id snd (device_do pl x s)"

fun own_input :: "device_input \<Rightarrow> 'z device_scheme \<Rightarrow> bool" where
  "own_input (Engine (Activate i c b r)) s = False"
| "own_input (Engine (InitStream m rt a b c d k)) s = False"
| "own_input (DmaDone b) s = (case dv_dma s of None \<Rightarrow> False | Some (a, n) \<Rightarrow> n = of_nat (length b))"
| "own_input x s = True"

text \<open>What the software asks for when it writes to CONTROL.\<close>

definition asks :: "device_input \<Rightarrow> 'z device_scheme \<Rightarrow> queue_event list" where
  "asks x s = (case x of
     MmioWrite a n d \<Rightarrow>
       if decode_offset (a - dv_pioAddr s) \<noteq> Some CONTROL then []
       else if bit d 2 \<and> \<not> bit d 3 then [Accept (rg_streamId (dv_regs s)) (rg_inRequestId (dv_regs s))]
       else if \<not> bit d 2 \<and> bit d 3 then [Acknowledge]
       else []
   | _ \<Rightarrow> [])"

fun all_asks :: "platform \<Rightarrow> device_input list \<Rightarrow> 'z device_scheme \<Rightarrow> queue_event list" where
  "all_asks pl [] s = []"
| "all_asks pl (x # xs) s = asks x s @ (case device_step pl x s of Inl e \<Rightarrow> [] | Inr t \<Rightarrow> all_asks pl xs t)"

definition visible :: "queue_event list \<Rightarrow> queue_event list" where
  "visible es = filter (\<lambda>e. case e of Finish i \<Rightarrow> False | _ \<Rightarrow> True) es"

definition refines_queues :: "queue_event list \<Rightarrow> 'z device_scheme \<Rightarrow> 'z device_scheme \<Rightarrow> bool" where
  "refines_queues vs s t \<longleftrightarrow> device_ok t \<and> (\<exists>es. visible es = vs \<and> queue_run (queues_of s) es (queues_of t))"

lemma visible_append: "visible (es @ fs) = visible es @ visible fs"
  by (simp add: visible_def)

lemma visible_finishes: "finishes es \<Longrightarrow> visible es = []"
  by (auto simp: visible_def finishes_def filter_empty_conv split: queue_event.splits)

lemma finishing_refines: "finishing s t \<Longrightarrow> device_ok s \<Longrightarrow> refines_queues [] s t"
  by (auto simp: finishing_def refines_queues_def intro: visible_finishes)

lemma view_refines: "same_view s t \<Longrightarrow> device_ok s \<Longrightarrow> refines_queues [] s t"
  by (rule finishing_refines [OF same_view_finishing])

lemma intAckHandler_refines:
  assumes "device_ok s" and "intAckHandler s = Inr (u, t)"
  shows "refines_queues [Acknowledge] s t"
proof -
  have t: "completions t = tl (completions s) \<and> dv_streams t = dv_streams s \<and> ad_activeStreams t = ad_activeStreams s
      \<and> ad_onTerminate t = ad_onTerminate s \<and> dv_interrupt t = dv_intAckPending t
      \<and> (dv_servedRequests t \<noteq> [] \<longrightarrow> dv_intAckPending t)"
    using assms by (auto simp: device_ok_def intAckHandler_def thenS_def bindS_def notifyServedRequest_def
        completions_def split: list.splits)
  then have "device_ok t" using assms(1) by (simp add: device_ok_def playing_def)
  moreover have "queues_of t = (fst (queues_of s), tl (snd (queues_of s)))"
    using t by (simp add: queues_of_def in_play_def waiting_play_def fun_eq_iff)
  ultimately show ?thesis
    using queue_step.acknowledge [of "fst (queues_of s)" "snd (queues_of s)"]
    by (auto simp: refines_queues_def visible_def intro!: exI [of _ "[Acknowledge]"] queue_run_one)
qed

text \<open>A request for a stream in play waits behind the others.\<close>

lemma waits_ok:
  assumes ok: "device_ok s" and str: "map_of (dv_streams s) i = Some str" "st_active str"
    and t: "t = s\<lparr>dv_streams := AList.update i (str\<lparr>st_pending := st_pending str @ [req]\<rparr>) (dv_streams s)\<rparr>"
  shows "device_ok t \<and> queue_step (queues_of s) (Accept i (pq_id req)) (queues_of t)"
proof -
  have p: "playing t j = playing s j" for j using str by (auto simp: t playing_def)
  have "device_ok t" unfolding device_ok_def
  proof (intro conjI allI impI)
    show "st_pending x = []" if "map_of (dv_streams t) j = Some x" "\<not> st_active x" for j x
      using that ok str(2) by (auto simp: t device_ok_def split: if_splits)
  qed (use ok p in \<open>auto simp: t device_ok_def\<close>)
  moreover have "queues_of t = ((fst (queues_of s))(i := fst (queues_of s) i @ [pq_id req]), snd (queues_of s))"
    using str by (auto simp: t queues_of_def in_play_def waiting_play_def completions_def fun_eq_iff)
  ultimately show ?thesis using queue_step.accept [of "fst (queues_of s)" "snd (queues_of s)" i "pq_id req"] by simp
qed

lemma playStreamHandler_refines:
  assumes ok: "device_ok s" and h: "playStreamHandler pl s = Inr (u, t)"
  shows "refines_queues [Accept (rg_streamId (dv_regs s)) (rg_inRequestId (dv_regs s))] s t"
proof -
  let ?i = "rg_streamId (dv_regs s)"
  from h obtain str where str: "map_of (dv_streams s) ?i = Some str"
    by (auto simp: playStreamHandler_def bindS_def Let_def fatal_def split: option.splits)
  with h obtain dmaop v s1 where s1: "submit pl ?i str (request_of (dv_regs s) dmaop) s = Inr (v, s1)"
    and t: "t = s1\<lparr>dv_regs := (dv_regs s1)\<lparr>rg_status := 1\<rparr>\<rparr>"
    by (auto simp: playStreamHandler_def Let_def set_regs_def bindS_eq_Inr thenS_eq_Inr liftS_eq_Inr)
  let ?req = "request_of (dv_regs s) dmaop"
  have req: "pq_id ?req = rg_inRequestId (dv_regs s)" by (simp add: request_of_def)
  have v: "same_view s1 t" by (simp add: t same_view_def)
  have "device_ok s1 \<and> queue_step (queues_of s) (Accept ?i (pq_id ?req)) (queues_of s1)"
  proof (cases "st_active str")
    case True
    with s1 show ?thesis by (intro waits_ok [OF ok str True]) (simp add: set_stream_def submit_def)
  next
    case False
    with s1 have "serveRequest pl ?i ?req s = Inr (v, s1)" by (simp add: submit_def)
    from plays_ok [OF ok str False serveRequest_run [OF this str]] show ?thesis .
  qed
  with same_view_ok [OF v] req show ?thesis
    by (auto simp: refines_queues_def visible_def intro!: exI [of _ "[Accept ?i (pq_id ?req)]"] queue_run_one)
qed

lemma control_refines:
  assumes "device_ok s" and "rg_control (dv_regs s) = ucast (d :: u64)" and "control_handler pl s = Inr (u, t)"
  shows "refines_queues (if bit d 2 \<and> \<not> bit d 3 then [Accept (rg_streamId (dv_regs s)) (rg_inRequestId (dv_regs s))]
    else if \<not> bit d 2 \<and> bit d 3 then [Acknowledge] else []) s t"
proof -
  have b: "bit (ucast d :: 8 word) k = bit d k" if "k < 8" for k using that by (simp add: bit_ucast_iff)
  have view: "refines_queues [] s t" if "same_view s t" using view_refines [OF that assms(1)] .
  consider (play) "bit d 2" "\<not> bit d 3" | (ack) "\<not> bit d 2" "bit d 3" | (other) "bit d 2 = bit d 3" by blast
  then show ?thesis
  proof cases
    case play
    with assms have "playStreamHandler pl s = Inr (u, t)" by (simp add: control_handler_def bindS_def Let_def b)
    from playStreamHandler_refines [OF assms(1) this] play show ?thesis by simp
  next
    case ack
    with assms have "intAckHandler s = Inr (u, t)" by (simp add: control_handler_def bindS_def Let_def b)
    from intAckHandler_refines [OF assms(1) this] ack show ?thesis by simp
  next
    case other
    have "same_view s t"
      using assms(3) assms(2) other
      by (auto simp: control_handler_def bindS_def Let_def b uniqueStreamHandler_def same_view_def split: if_splits)
    with other view show ?thesis by auto
  qed
qed

lemma view_set_regs:
  "(\<And>g. rg_outRequestId (f g) = rg_outRequestId g) \<Longrightarrow> keeps same_view (set_regs f)"
  unfolding set_regs_def by (rule view_modify) (simp add: same_view_def)

lemma view_warning: "keeps same_view (warning f a)"
  unfolding warning_def by (rule view_modify) (simp add: same_view_def)

lemma view_sized: "keeps same_view m \<Longrightarrow> keeps same_view (sized n k m)"
  by (auto simp: sized_def view.keeps_fail)

lemma write_refines:
  assumes ok: "device_ok s" and w: "mmio_write pl a n d s = Inr (u, t)"
  shows "refines_queues (asks (MmioWrite a n d) s) s t"
proof (cases "decode_offset (a - dv_pioAddr s) = Some CONTROL")
  case True
  with w have c: "control_handler pl (s\<lparr>dv_regs := (dv_regs s)\<lparr>rg_control := ucast d\<rparr>\<rparr>) = Inr (u, t)"
    by (auto simp: mmio_write_def write_register_def bindS_def thenS_def Let_def sized_def set_regs_def split: if_splits)
  let ?s = "s\<lparr>dv_regs := (dv_regs s)\<lparr>rg_control := ucast d\<rparr>\<rparr>"
  have "same_view s ?s" by (simp add: same_view_def)
  note v = same_view_ok [OF this]
  from v ok have ok': "device_ok ?s" by simp
  have "rg_control (dv_regs ?s) = ucast d" by simp
  from control_refines [OF ok' this c] True have "refines_queues (asks (MmioWrite a n d) s) ?s t"
    by (auto simp: asks_def split: if_splits)
  with v show ?thesis by (simp add: refines_queues_def)
next
  case False
  have "keeps same_view (write_register pl (a - dv_pioAddr s) (decode_offset (a - dv_pioAddr s)) n d)"
    using False by (auto simp: write_register_def readOnly_def unexpectedAddr_def split: option.split offset.split
        intro!: view_rules view_warning view_sized view_set_regs)
  moreover from w have "write_register pl (a - dv_pioAddr s) (decode_offset (a - dv_pioAddr s)) n d s = Inr (u, t)"
    by (simp add: mmio_write_def bindS_def)
  ultimately have "same_view s t" by (rule keepsD)
  with False show ?thesis by (simp add: asks_def view_refines [OF _ ok])
qed

lemma mmio_read_view: "keeps same_view (mmio_read a n)"
  unfolding mmio_read_def Let_def
  by (auto intro!: view_rules view_warning view_sized simp: unexpectedAddr_def writeOnly_def
      split: option.split offset.split)

lemma dma_done_refines:
  assumes ok: "device_ok s" and d: "dma_done pl b s = Inr (u, t)"
  shows "refines_queues [] s t"
proof -
  from d obtain v s1 i where s1: "adapter_uniqueStream pl (dv_atpId s) b (s\<lparr>dv_streamNameBuffer := b, dv_dma := None\<rparr>) = Inr (i, s1)"
    and t: "t = s1\<lparr>dv_regs := (dv_regs s1)\<lparr>rg_streamId := i, rg_status := 1\<rparr>,
      dv_streams := (if map_of (dv_streams s1) i = None
        then (i, \<lparr>st_active = False, st_pending = []\<rparr>) # dv_streams s1 else dv_streams s1),
      dv_streamNameBuffer := ''''\<rparr>"
    by (auto simp: dma_done_def streamNameHandler_def thenS_def bindS_def split: sum.splits)
  have "keeps same_view (adapter_uniqueStream pl (dv_atpId s) b)"
    unfolding adapter_uniqueStream_def by (intro view_rules)
  from keepsD [OF this s1] have "same_view s s1" by (simp add: same_view_def)
  with same_view_ok [OF this] ok have ok1: "device_ok s1" and q: "queues_of s1 = queues_of s" by simp_all
  have p: "playing t j = playing s1 j" for j by (auto simp: t playing_def)
  have "device_ok t" unfolding device_ok_def
  proof (intro conjI allI impI)
    show "st_pending x = []" if "map_of (dv_streams t) j = Some x" "\<not> st_active x" for j x
      using that ok1 by (auto simp: t device_ok_def split: if_splits)
  qed (use ok1 p in \<open>auto simp: t device_ok_def\<close>)
  moreover have "queues_of t = queues_of s1"
    by (auto simp: t queues_of_def in_play_def waiting_play_def completions_def fun_eq_iff)
  ultimately show ?thesis using queue_run.Nil [of "queues_of s"]
    by (auto simp: refines_queues_def q visible_def intro!: exI [of _ "[]"])
qed

lemma view_inputs:
  "keeps same_view (modifyS (\<lambda>s. s\<lparr>ad_tick := n\<rparr>))" "keeps same_view watchDog" "keeps same_view (recvReqRetry pl q)"
  "keeps same_view (silent (recvTimingResp pl p))" "keeps same_view (silent drain)" "keeps same_view (unserialize pl cp)"
  unfolding watchDog_def recvReqRetry_def recvTimingResp_def buildATPPacket_def drain_def unserialize_def silent_def
  by (intro view_rules view_sends; simp add: same_view_def)+

lemma engine_refines:
  assumes ok: "device_ok s" and x: "own_input (Engine x) s"
    and t: "adapter_op pl (servedRequestHandler pl) x s = Inr (u, t)"
  shows "refines_queues [] s t"
proof -
  have "keeps finishing (adapter_op pl (servedRequestHandler pl) x)"
  proof (cases x)
    case (UpdateDue n)
    then show ?thesis by (simp only: adapter_op.simps finishing_update)
  next
    case (Activate i c b r)
    with x show ?thesis by simp
  next
    case (InitStream m rt a b c d k)
    with x show ?thesis by simp
  qed (simp_all only: adapter_op.simps view_inputs finishing_view)
  from finishing_refines [OF keepsD [OF this t] ok] show ?thesis .
qed

lemma device_step_refines:
  assumes ok: "device_ok s" and "own_input x s" and "device_step pl x s = Inr t"
  shows "refines_queues (asks x s) s t"
proof -
  from assms(3) obtain u where u: "device_do pl x s = Inr (u, t)"
    by (cases "device_do pl x s") (auto simp: device_step_def)
  show ?thesis
  proof (cases x)
    case (MmioRead a n)
    have "keeps same_view (silent (mmio_read a n) :: ('a, unit) device_op)"
      unfolding silent_def by (intro view_rules mmio_read_view)
    with u MmioRead show ?thesis by (auto simp: asks_def dest!: keepsD intro: view_refines [OF _ ok])
  next
    case (MmioWrite a n d)
    with u write_refines [OF ok] show ?thesis by simp
  next
    case (DmaDone b)
    with u dma_done_refines [OF ok] show ?thesis by (simp add: asks_def)
  next
    case (Engine y)
    with u engine_refines [OF ok] assms(2) show ?thesis by (simp add: asks_def)
  qed
qed

lemma run_refines_queues:
  assumes "device_ok s" and "admissible_run own_input (device_step pl) xs s"
    and "foldR (device_step pl) xs s = Inr t"
  shows "device_ok t \<and> (\<exists>es. visible es = all_asks pl xs s \<and> queue_run (queues_of s) es (queues_of t))"
  using assms
proof (induction xs arbitrary: s)
  case Nil
  then show ?case using queue_run.Nil [of "queues_of s"] by (auto simp: visible_def intro!: exI [of _ "[]"])
next
  case (Cons x xs)
  then obtain s1 where s1: "device_step pl x s = Inr s1" "foldR (device_step pl) xs s1 = Inr t"
    by (auto simp: bindR_eq_Inr)
  with Cons.prems device_step_refines [of s x pl s1] obtain es
    where es: "device_ok s1" "visible es = asks x s" "queue_run (queues_of s) es (queues_of s1)"
    by (auto simp: refines_queues_def)
  with Cons.IH [of s1] Cons.prems s1 obtain fs where "device_ok t" "visible fs = all_asks pl xs s1"
      "queue_run (queues_of s1) fs (queues_of t)"
    by auto
  with es s1 show ?case
    by (auto simp: visible_append intro!: exI [of _ "es @ fs"] intro: queue_run_append)
qed

text \<open>
  C2. The device implements its queues. In every run of a device, whatever order the accesses of the
  software, the ends of DMA operations, retries, responses and updates come in, the queues change as
  the specification allows: a request the software plays goes to the end of the queue of its
  stream, the head of such a queue may move to the end of the queue of completions, and an
  acknowledgment takes the head of that queue; the first two kinds of step on the side of the
  software occur exactly when the software asks for them.
\<close>

theorem device_refines_queues:
  assumes "device_ok s" and "admissible_run own_input (device_step pl) xs s"
    and "foldR (device_step pl) xs s = Inr t"
  shows "device_ok t \<and> (\<exists>es. visible es = all_asks pl xs s \<and> queue_run (queues_of s) es (queues_of t))"
  by (rule run_refines_queues [OF assms])

section \<open>Conservation\<close>

fun accepted :: "queue_event list \<Rightarrow> (u64 \<times> u32) list" where
  "accepted [] = []"
| "accepted (Accept i r # es) = (i, r) # accepted es"
| "accepted (e # es) = accepted es"

fun acknowledgments :: "queue_event list \<Rightarrow> nat" where
  "acknowledgments [] = 0"
| "acknowledgments (Acknowledge # es) = Suc (acknowledgments es)"
| "acknowledgments (e # es) = acknowledgments es"

lemma accepted_visible: "accepted (visible es) = accepted es"
  and acknowledgments_visible: "acknowledgments (visible es) = acknowledgments es"
proof (induction es)
  case (Cons e es)
  { case 1 from Cons show ?case by (cases e) (simp_all add: visible_def) }
  { case 2 from Cons show ?case by (cases e) (simp_all add: visible_def) }
qed (simp_all add: visible_def)

lemma sum_update:
  "finite I \<Longrightarrow> i \<in> I \<Longrightarrow> (\<Sum>j \<in> I. mset ((l(i := x)) j)) + mset (l i) = (\<Sum>j \<in> I. mset (l j)) + mset x"
  by (simp add: sum.remove [of I i] algebra_simps)

lemma queue_run_conserves:
  assumes "queue_run a es b" and "finite I" and "\<forall>i. i \<notin> I \<longrightarrow> fst a i = []" and "fst ` set (accepted es) \<subseteq> I"
  shows "\<exists>gone. mset (map snd (accepted es)) + (\<Sum>i \<in> I. mset (fst a i)) + mset (snd a)
      = (\<Sum>i \<in> I. mset (fst b i)) + mset (snd b) + mset gone \<and> length gone \<le> acknowledgments es"
  using assms
proof (induction rule: queue_run.induct)
  case (Cons a e b es c)
  from Cons.prems(3) have es: "fst ` set (accepted es) \<subseteq> I" by (cases e) auto
  from Cons.hyps(1) show ?case
  proof cases
    case (accept l out i r)
    with Cons.prems have i: "i \<in> I" by simp
    from Cons.prems(2) have "\<forall>j. j \<notin> I \<longrightarrow> fst b j = []" using accept i by auto
    from Cons.IH [OF Cons.prems(1) this es] obtain gone where gone:
      "mset (map snd (accepted es)) + (\<Sum>i \<in> I. mset (fst b i)) + mset (snd b)
        = (\<Sum>i \<in> I. mset (fst c i)) + mset (snd c) + mset gone" "length gone \<le> acknowledgments es" by blast
    have "(\<Sum>j \<in> I. mset (fst b j)) = (\<Sum>j \<in> I. mset (fst a j)) + {#r#}"
      using sum_update [OF Cons.prems(1) i, of l "l i @ [r]"] accept by (simp add: algebra_simps)
    with gone accept show ?thesis by (intro exI [of _ gone]) (simp add: algebra_simps)
  next
    case (finish l i r rs out)
    with Cons.prems(2) have i: "i \<in> I" by auto
    from Cons.prems(2) have "\<forall>j. j \<notin> I \<longrightarrow> fst b j = []" using finish i by auto
    from Cons.IH [OF Cons.prems(1) this es] obtain gone where gone:
      "mset (map snd (accepted es)) + (\<Sum>i \<in> I. mset (fst b i)) + mset (snd b)
        = (\<Sum>i \<in> I. mset (fst c i)) + mset (snd c) + mset gone" "length gone \<le> acknowledgments es" by blast
    have "(\<Sum>j \<in> I. mset (fst a j)) = (\<Sum>j \<in> I. mset (fst b j)) + {#r#}"
      using sum_update [OF Cons.prems(1) i, of l rs] finish by (simp add: algebra_simps)
    with gone finish show ?thesis by (intro exI [of _ gone]) (simp add: algebra_simps)
  next
    case (acknowledge l out)
    with Cons.prems(2) have "\<forall>j. j \<notin> I \<longrightarrow> fst b j = []" by simp
    from Cons.IH [OF Cons.prems(1) this es] obtain gone where gone:
      "mset (map snd (accepted es)) + (\<Sum>i \<in> I. mset (l i)) + mset (tl out)
        = (\<Sum>i \<in> I. mset (fst c i)) + mset (snd c) + mset gone" "length gone \<le> acknowledgments es"
      using acknowledge by auto
    show ?thesis
    proof (cases out)
      case Nil
      with gone acknowledge show ?thesis by (intro exI [of _ gone]) simp
    next
      case (Cons r rs)
      with gone acknowledge show ?thesis by (intro exI [of _ "r # gone"]) simp
    qed
  qed
qed (auto intro!: exI [of _ "[]"])

lemma device_new_ok:
  "ad_activeStreams a = [] \<Longrightarrow> device_ok (device_new pio dev sid ssid g a)
    \<and> queues_of (device_new pio dev sid ssid g a) = (\<lambda>_. [], [])"
  by (auto simp: device_new_def adapter.defs device_ok_def playing_def queues_of_def in_play_def
      waiting_play_def completions_def fun_eq_iff)

text \<open>
  C8. No request is lost and none is completed twice. From the construction of the device on, the
  ids of the requests the software has played are, as a multiset, those of the requests in play or
  waiting for their streams, those of the completions that wait or are published, and at most one
  for each acknowledgment; the interrupt is up exactly while a completion is published, in
  OUT_REQUEST_ID.
\<close>

theorem requests_are_conserved:
  assumes "ad_activeStreams a = []" and "s = device_new pio dev sid ssid g a"
    and "admissible_run own_input (device_step pl) xs s" and "foldR (device_step pl) xs s = Inr t"
  shows "\<exists>gone. mset (map snd (accepted (all_asks pl xs s)))
        = (\<Sum>i \<in> fst ` set (accepted (all_asks pl xs s)). mset (in_play t i @ waiting_play t i))
          + mset (completions t) + mset gone
      \<and> length gone \<le> acknowledgments (all_asks pl xs s)
    \<and> (dv_interrupt t \<longleftrightarrow> completions t \<noteq> [])
    \<and> (dv_interrupt t \<longrightarrow> hd (completions t) = rg_outRequestId (dv_regs t))"
proof -
  from device_new_ok [OF assms(1)] have ok: "device_ok s" and q: "queues_of s = (\<lambda>_. [], [])"
    by (simp_all add: assms(2))
  from run_refines_queues [OF ok assms(3,4)] obtain es
    where t: "device_ok t" and es: "visible es = all_asks pl xs s" "queue_run (queues_of s) es (queues_of t)"
    by blast
  have a: "accepted es = accepted (all_asks pl xs s)" "acknowledgments es = acknowledgments (all_asks pl xs s)"
    using accepted_visible [of es] acknowledgments_visible [of es] es(1) by simp_all
  have "\<exists>gone. mset (map snd (accepted (all_asks pl xs s)))
        = (\<Sum>i \<in> fst ` set (accepted (all_asks pl xs s)). mset (in_play t i @ waiting_play t i))
          + mset (completions t) + mset gone \<and> length gone \<le> acknowledgments (all_asks pl xs s)"
    using queue_run_conserves [OF es(2), of "fst ` set (accepted es)"] by (simp add: q a) (simp add: queues_of_def)
  with t show ?thesis by (auto simp: device_ok_def completions_def)
qed

text \<open>
  C39. Callbacks are well typed. In every run of a device each stream that the adaptor runs has a
  callback without automatic reset that names that stream, the device knows the stream and holds it
  as active, so the handler the callback calls finds it instead of raising an exception; requests
  wait for active streams only.
\<close>

theorem callbacks_find_their_stream:
  assumes "ad_activeStreams a = []" and "admissible_run own_input (device_step pl) xs (device_new pio dev sid ssid g a)"
    and "foldR (device_step pl) xs (device_new pio dev sid ssid g a) = Inr t"
  shows "(i \<in> set (ad_activeStreams t) \<longrightarrow>
      (\<exists>r str. map_of (ad_onTerminate t) i = Some (False, Some (i, r)) \<and> stream_at i t = Inr (str, t) \<and> st_active str))
    \<and> (i \<notin> set (ad_activeStreams t) \<longrightarrow> waiting_play t i = [])"
proof -
  have ok: "device_ok t" using run_refines_queues [OF _ assms(2,3)] device_new_ok [OF assms(1)] by blast
  then show ?thesis
    by (auto simp: device_ok_def playing_def stream_at_def bindS_def getS_def waiting_play_def split: option.split)
qed

section \<open>A session\<close>

text \<open>
  The software creates the stream of the master, plays it as request 5, and the traffic runs: an
  update, a response to each of the two packets, and the updates they cause.
\<close>

definition demo_unique :: "device_input list" where
  "demo_unique = [MmioWrite 65544 8 3, MmioWrite 65604 1 12, DmaDone ''cpu'']"

definition demo_play :: "u64 \<Rightarrow> device_input list" where
  "demo_play r = [MmioWrite 65552 8 4096, MmioWrite 65560 8 128, MmioWrite 65584 8 0,
     MmioWrite 65596 4 r, MmioWrite 65604 1 4]"

definition demo_traffic :: "device_input list" where
  "demo_traffic = [Engine (UpdateDue 5), Engine (Response (demo_response 4096)), Engine (UpdateDue 5),
     Engine (Response (demo_response 4160)), Engine (UpdateDue 5)]"

definition demo_session :: "device_input list" where
  "demo_session = demo_unique @ demo_play 5 @ demo_traffic"

lemma demo_session_run: "case foldR (device_step demo_bus) demo_session demo_start of
    Inr t \<Rightarrow> completions t = [5] \<and> length (ad_attempts t) = 2 \<and> dv_interrupt t | Inl e \<Rightarrow> False"
  by code_simp

lemma demo_session_own: "admissible_run own_input (device_step demo_bus) demo_session demo_start"
  by code_simp

lemma demo_session_asks: "all_asks demo_bus demo_session demo_start = [Accept 0 5]"
  by code_simp

lemma demo_start_idle: "ad_activeStreams demo_adapter = []"
  by (simp add: demo_adapter_def adapter.defs demo_device_def)

theorem device_refines_queues_witness:
  "\<exists>t es. foldR (device_step demo_bus) demo_session demo_start = Inr t \<and> snd (queues_of t) = [5]
    \<and> visible es = [Accept 0 5] \<and> queue_run (\<lambda>_. [], []) es (queues_of t)"
proof -
  obtain t where t: "foldR (device_step demo_bus) demo_session demo_start = Inr t" "completions t = [5]"
    using demo_session_run by (auto split: sum.splits)
  from device_new_ok [OF demo_start_idle] have s: "device_ok demo_start" "queues_of demo_start = (\<lambda>_. [], [])"
    by (simp_all add: demo_start_def)
  from device_refines_queues [OF s(1) demo_session_own t(1)] t s(2) demo_session_asks
  show ?thesis by (auto simp: queues_of_def)
qed

theorem requests_are_conserved_witness:
  "\<exists>t. foldR (device_step demo_bus) demo_session demo_start = Inr t \<and> completions t = [5]
    \<and> hd (completions t) = rg_outRequestId (dv_regs t)"
proof -
  obtain t where t: "foldR (device_step demo_bus) demo_session demo_start = Inr t" "completions t = [5]"
    using demo_session_run by (auto split: sum.splits)
  from requests_are_conserved [OF demo_start_idle demo_start_def demo_session_own t(1)] t show ?thesis by auto
qed

theorem callbacks_find_their_stream_witness:
  "\<exists>t. foldR (device_step demo_bus) (demo_unique @ demo_play 5) demo_start = Inr t \<and> ad_activeStreams t = [0]
    \<and> (\<exists>r. map_of (ad_onTerminate t) 0 = Some (False, Some (0, r)))"
proof -
  obtain t where t: "foldR (device_step demo_bus) (demo_unique @ demo_play 5) demo_start = Inr t" "ad_activeStreams t = [0]"
  proof -
    have "case foldR (device_step demo_bus) (demo_unique @ demo_play 5) demo_start of
        Inr t \<Rightarrow> ad_activeStreams t = [0] | Inl e \<Rightarrow> False"
      by code_simp
    then show thesis using that by (auto split: sum.splits)
  qed
  have own: "admissible_run own_input (device_step demo_bus) (demo_unique @ demo_play 5) demo_start" by code_simp
  from callbacks_find_their_stream [OF demo_start_idle own [unfolded demo_start_def] t(1) [unfolded demo_start_def], of 0] t
  show ?thesis by auto
qed

end
