(* ===== verification/Replay_Laws.thy ===== *)
theory Replay_Laws
  imports Device_Laws Engine_Laws
begin

text \<open>
  What no later operation takes back. While the manager sends, receives and activates profiles, terminated profiles stay
  terminated, masters that have sent all their packets send no other, and known streams keep their
  members. So a stream of the device can be played once: a later request for it completes at the next
  update and moves no data.
\<close>

section \<open>What the engine does not take back\<close>

text \<open>
  \<open>stays p q\<close>: a profile that has terminated stays so, and a master that has sent all its packets
  sends no other. \<open>lasting\<close>: so it is with every profile, and the streams that are known keep their members and
  their last profiles.
\<close>

definition stays :: "profile \<Rightarrow> profile \<Rightarrow> bool" where
  "stays p q \<longleftrightarrow> (pr_terminated p \<longrightarrow> pr_terminated q)
    \<and> (\<forall>a b d. profile_counts (Some p) = Some (a, b, a, d) \<and> a \<noteq> 0
         \<longrightarrow> (\<exists>b' d'. profile_counts (Some q) = Some (a, b', a, d')))"

definition streams_stay :: "tpm \<Rightarrow> tpm \<Rightarrow> bool" where
  "streams_stay s t \<longleftrightarrow> (\<forall>i. map_of (tp_streamCache s) i \<noteq> None \<longrightarrow>
     map_of (tp_streamCache t) i = map_of (tp_streamCache s) i
     \<and> map_of (tp_streamLeavesCache t) i = map_of (tp_streamLeavesCache s) i)"

definition lasting :: "tpm \<Rightarrow> tpm \<Rightarrow> bool" where
  "lasting s t \<longleftrightarrow> list_all2 (rel_option stays) (tp_profiles s) (tp_profiles t) \<and> streams_stay s t"

lemma stays_refl [simp]: "stays p p"
  by (simp add: stays_def)

lemma stays_trans: "stays p q \<Longrightarrow> stays q r \<Longrightarrow> stays p r"
  unfolding stays_def by blast

lemma stays_same: "same_profile p q \<Longrightarrow> stays p q"
  by (auto simp: stays_def same_profile_def same_ident_def)

lemma streams_stay_trans: "streams_stay s t \<Longrightarrow> streams_stay t u \<Longrightarrow> streams_stay s u"
  unfolding streams_stay_def by metis

interpretation lasting: step_relation lasting
  by unfold_locales
     (auto simp: lasting_def streams_stay_def [of s s for s] intro: pairs_refl pairs_trans [OF stays_trans] streams_stay_trans)

lemma lasting_still: "still s t \<Longrightarrow> tp_streamCache t = tp_streamCache s \<Longrightarrow>
    tp_streamLeavesCache t = tp_streamLeavesCache s \<Longrightarrow> lasting s t"
  by (auto simp: lasting_def streams_stay_def still_def elim!: list_all2_mono option.rel_mono_strong intro: stays_same)

lemma lasting_same: "tp_profiles t = tp_profiles s \<Longrightarrow> tp_streamCache t = tp_streamCache s \<Longrightarrow>
    tp_streamLeavesCache t = tp_streamLeavesCache s \<Longrightarrow> lasting s t"
  by (simp add: lasting_def streams_stay_def pairs_refl)

lemma lasting_modify:
  "(\<And>s. tp_profiles (h s) = tp_profiles s) \<Longrightarrow> (\<And>s. tp_streamCache (h s) = tp_streamCache s) \<Longrightarrow>
    (\<And>s. tp_streamLeavesCache (h s) = tp_streamLeavesCache s) \<Longrightarrow> keeps lasting (modifyS h)"
  by (rule lasting.keeps_modify) (rule lasting_same; simp)

lemma lasting_setp:
  assumes "\<And>p. stays p (f p)"
  shows "keeps lasting (setp i f)"
proof (rule keepsI)
  fix s x t
  assume "setp i f s = Inr (x, t)"
  moreover have "rel_option stays x (map_option f x)" for x
    using assms by (cases x) simp_all
  ultimately show "lasting s t"
    by (auto simp: lasting_def streams_stay_def setp_run intro!: list_all2_update_self option.rel_refl)
qed

lemma lasting_quiet: "keeps (\<lambda>s t. view s = view t) m \<Longrightarrow> keeps lasting m"
proof (rule keepsI)
  fix s x t
  assume q: "keeps (\<lambda>s t. view s = view t) m" and t: "m s = Inr (x, t)"
  from q t have v: "view s = view t" by (rule keepsD [where R = "\<lambda>s t. view s = view t"])
  from arg_cong [OF v, of tp_streamCache] arg_cong [OF v, of tp_streamLeavesCache] keepsD [OF still_quiet [OF q] t]
  show "lasting s t" by (intro lasting_still) (simp_all add: view_def)
qed

lemma lasting_prof: "keeps lasting (prof i)"
  and lasting_at: "keeps lasting (master_at i)" "keeps lasting (slave_at i)" "keeps lasting (delay_at i)"
  unfolding master_at_def slave_at_def delay_at_def
  by (auto simp: keeps_def prof_eq_Inr bindS_eq_Inr lasting.R_refl split: body.split_asm)

lemma lasting_catch: "keeps lasting m \<Longrightarrow> keeps lasting (catch_oor f m)"
  by (auto simp: keeps_def catch_oor_eq_Inr)

lemma lasting_getTime: "keeps lasting getTime"
  by (simp add: getTime_def lasting.keeps_read)

lemma lasting_getProfile: "keeps lasting (getProfile i)"
  unfolding getProfile_def by (intro lasting_catch lasting_prof)

lemma lasting_wait: "keeps lasting (wait pid t uid ty)"
  and lasting_signal: "keeps lasting (signal pid uid ty)"
  unfolding wait_def signal_def by (rule lasting_modify; simp)+

lemma lasting_tag: "keeps lasting (tag pk)"
  by (rule keepsI) (auto simp: tag_def split: prod.splits intro: lasting_same)

lemma lasting_body:
  "(\<And>m. keeps lasting (f m)) \<Longrightarrow> (\<And>v. keeps lasting (g v)) \<Longrightarrow> keeps lasting c \<Longrightarrow> (\<And>d. keeps lasting (h d)) \<Longrightarrow>
    keeps lasting (case b of Master m \<Rightarrow> f m | Slave v \<Rightarrow> g v | Checker \<Rightarrow> c | Delay d \<Rightarrow> h d)"
  by (cases b) simp_all

lemma lasting_list:
  "keeps lasting m \<Longrightarrow> (\<And>x xs. keeps lasting (f x xs)) \<Longrightarrow> keeps lasting (case rs of [] \<Rightarrow> m | x # xs \<Rightarrow> f x xs)"
  by (cases rs) simp_all

lemma lasting_latency:
  "keeps lasting m \<Longrightarrow> (\<And>x. keeps lasting (f x)) \<Longrightarrow> (\<And>g u. keeps lasting (h g u)) \<Longrightarrow>
    keeps lasting (case l of LatencyUnset \<Rightarrow> m | LatencyStatic x \<Rightarrow> f x | LatencyRandom g u \<Rightarrow> h g u)"
  by (cases l) simp_all

lemma lasting_by_type:
  "keeps lasting m \<Longrightarrow> keeps lasting n \<Longrightarrow> keeps lasting (case ty of REQUEST \<Rightarrow> m | RESPONSE \<Rightarrow> n | NO_TYPE \<Rightarrow> failS e)"
  by (cases ty) (simp_all only: packet_type.case lasting.keeps_fail)

lemma lasting_pending:
  "keeps lasting m \<Longrightarrow> (\<And>k. keeps lasting (f k)) \<Longrightarrow> keeps lasting n \<Longrightarrow>
    keeps lasting (case x of PNull \<Rightarrow> m | PLive k \<Rightarrow> f k | PDangling \<Rightarrow> n)"
  by (cases x) simp_all

lemma lasting_collect:
  assumes "\<And>x. keeps lasting (f x)"
  shows "keeps lasting (collectS f xs)"
proof (induction xs)
  case (Cons x xs)
  show ?case unfolding collectS.simps by (intro lasting.keeps_all assms Cons)
qed (simp only: collectS.simps lasting.keeps_return)

lemma stays_fields [simp]:
  "stays p (p\<lparr>pr_ot := n\<rparr>)" "stays p (p\<lparr>pr_fifo := f\<rparr>)" "stays p (p\<lparr>pr_stats := st\<rparr>)" "stays p (p\<lparr>pr_tagger := tg\<rparr>)"
  "stays p (p\<lparr>pr_terminated := True\<rparr>)" "stays p (p\<lparr>pr_terminated := True, pr_stats := st\<rparr>)"
  "stays p (p\<lparr>pr_em := m\<rparr>)" "stays p (p\<lparr>pr_started := b\<rparr>)" "stays p (on_slave g p)" "stays p (on_delay h p)"
  "stays p (p\<lparr>pr_streamId := k, pr_tagger := tg\<rparr>)"
  by (simp_all add: stays_same) (auto simp: stays_def profile_counts.simps split: body.splits)

lemma stays_on_master:
  "(\<And>m. ms_toSend (g m) = ms_toSend m \<and> ms_sent (g m) = ms_sent m) \<Longrightarrow>
    stays p q \<Longrightarrow> stays p (on_master g q)"
  by (fastforce simp: stays_def on_master_def profile_counts.simps split: body.splits)

lemma stays_on_delay: "stays p q \<Longrightarrow> stays p (on_delay h q)"
  by (auto simp: stays_def on_delay_def profile_counts.simps split: body.splits)

lemmas lasting_rules = lasting.keeps_all lasting_prof lasting_at lasting_setp lasting_modify lasting_getTime
  lasting_getProfile lasting_wait lasting_signal lasting_tag lasting_body lasting_list lasting_latency lasting_by_type
  lasting_pending lasting_collect lasting_quiet [OF quiet_emitEvent] lasting_quiet [OF quiet_activate] lasting_quiet [OF quiet_fifo_event]

lemma lasting_fifo:
  "keeps lasting (fifo_send_call i t d)" "keeps lasting (fifo_receive_call i t d)" "keeps lasting (fifo_stats i u ov)"
  unfolding fifo_send_call_def fifo_receive_call_def fifo_stats_def by (intro lasting_rules; simp)+

section \<open>Masters\<close>

lemma lasting_master_active: "keeps lasting (master_active i)"
  unfolding master_active_def terminate_master_def Let_def by (intro lasting_rules) (simp add: stays_on_master)

text \<open>A master that has sent all its packets is not active, so it sends none.\<close>

lemma ended_not_active:
  assumes "master_active i s = Inr ((act, locked), t)" and "master_at i s = Inr ((p, m), s)" and "endOfData m"
  shows "\<not> act"
proof -
  from assms(1) have "\<exists>x u. bindS (master_at i) (\<lambda>(q, n).
        let locked = master_locked x q n; isActive = (\<not> (locked \<or> (endOfData m \<or> endOfTime (tp_time s) p m)))
        in thenS (whenS (isActive \<and> \<not> pr_started q) (activate tpm_event i))
           (returnS (isActive, locked))) u = Inr ((act, locked), t)"
    unfolding master_active_def Let_def bindS_run [where m = "master_at i", OF assms(2)] split
      bindS_run [where m = getTime, OF getTime_run]
    by (elim thenSE) blast
  with assms(3) show ?thesis by (auto simp: Let_def bindS_eq_Inr thenS_eq_Inr)
qed

lemma ended_sends_nothing:
  assumes "master_send rng i s = Inr ((ok, locked, pk, next), t)" and "master_at i s = Inr ((p, m), s)" and "endOfData m"
  shows "\<not> ok"
proof -
  obtain act u v where 1: "master_active i s = Inr ((act, locked), u)"
    and 2: "(if act then master_try rng i (tp_time s)
           else bindS (master_at i) (\<lambda>(p, m).
             returnS (None, if \<not> locked \<and> \<not> ms_halted m \<and> \<not> pr_terminated p
               then tp_time s + snd (fifo_getRate (pr_fifo p)) else 0))) u = Inr ((pk, next), v)"
    and 3: "bindS (prof i) (\<lambda>p. thenS (whenS (\<not> pr_terminated p)
      (emitEvent tpm_event i (if pk \<noteq> None then PROFILE_UNLOCKED else PROFILE_LOCKED)))
      (returnS (pk \<noteq> None, locked, pk, next))) v = Inr ((ok, locked, pk, next), t)"
    using assms(1) unfolding master_send_def
    by (elim bindSE) (auto elim!: bindSE thenSE simp: bindS_eq_Inr thenS_eq_Inr)
  from ended_not_active [OF 1 assms(2,3)] 2 have "pk = None" by (auto elim!: bindSE simp: master_at_eq)
  with 3 show ?thesis by (auto elim!: bindSE thenSE)
qed

lemma streams_modify: "(\<And>s. tp_streamCache (h s) = tp_streamCache s) \<Longrightarrow>
    (\<And>s. tp_streamLeavesCache (h s) = tp_streamLeavesCache s) \<Longrightarrow> keeps streams_stay (modifyS h)"
  by (auto simp: keeps_def streams_stay_def)

lemma streams_setp: "keeps streams_stay (setp i f)"
  by (auto simp: keeps_def streams_stay_def setp_run)

interpretation streams_stay: step_relation streams_stay
  by unfold_locales (auto simp: streams_stay_def [of s s for s] intro: streams_stay_trans)

lemma streams_lasting: "keeps lasting m \<Longrightarrow> keeps streams_stay m"
  by (auto simp: keeps_def lasting_def)

lemma streams_master_send: "keeps streams_stay (master_send rng i)"
proof -
  note last = streams_lasting [OF lasting_prof] streams_lasting [OF lasting_at(1)] streams_lasting [OF lasting_getTime]
    streams_lasting [OF lasting_quiet [OF quiet_emitEvent]] streams_lasting [OF lasting_master_active]
    streams_lasting [OF lasting_fifo(1)] streams_lasting [OF lasting_fifo(2)] streams_lasting [OF lasting_fifo(3)]
    streams_lasting [OF lasting_tag] streams_lasting [OF lasting_wait] streams_lasting [OF lasting_getProfile]
  have next_packet: "keeps streams_stay (next_packet rng i t)" for t
    unfolding next_packet_def
    by (rule streams_lasting, intro lasting_rules) (simp_all add: stays_on_master)
  show ?thesis
    unfolding master_send_def master_try_def send_pending_def count_sent_def transmit_def tag_packet_def start_checkers_def
      activateFifo_def discard_def
    by (intro streams_stay.keeps_all last streams_setp next_packet)
qed

lemma lasting_master_send: "keeps lasting (master_send rng i)"
proof (rule keepsI)
  fix s r t
  assume r: "master_send rng i s = Inr (r, t)"
  obtain ok locked pk nx where b: "r = (ok, locked, pk, nx)" by (cases r)
  have l: "later s t" by (rule keepsD [OF later_master_send r])
  have "\<exists>p m. master_at i s = Inr ((p, m), s)"
    using r by (auto simp: master_send_def master_active_def Let_def master_at_eq elim!: bindSE)
  then obtain p m where m: "master_at i s = Inr ((p, m), s)" by blast
  have c: "master_counts i s = Some (ms_toSend m, ms_maxOt m, ms_sent m, pr_ot p)" by (rule master_counts_at [OF m])
  from master_send_counts [OF r [unfolded b] m] have one: "one_more i ok s t" by blast
  have ended: "endOfData m \<Longrightarrow> \<not> ok" using ended_sends_nothing [OF r [unfolded b] m] by blast
  have "rel_option stays (tp_profiles s ! j) (tp_profiles t ! j)" if j: "j < length (tp_profiles s)" for j
  proof -
    from l j have j': "j < length (tp_profiles t)" and i: "rel_option same_ident (tp_profiles s ! j) (tp_profiles t ! j)"
      by (auto simp: later_def list_all2_conv_all_nth)
    have cs: "counts s ! j = profile_counts (tp_profiles s ! j)" "counts t ! j = profile_counts (tp_profiles t ! j)"
      using j j' by (simp_all add: counts_def)
    have "profile_counts (tp_profiles t ! j) = Some (a, b, a, d)"
      if "profile_counts (tp_profiles s ! j) = Some (a, b, a, d)" "a \<noteq> 0" for a b d
    proof -
      from c have "counts s ! unat i = Some (ms_toSend m, ms_maxOt m, ms_sent m, pr_ot p)"
        by (auto simp: master_counts_def split: if_splits)
      with that cs have "j = unat i \<Longrightarrow> endOfData m" by (auto simp: endOfData_def word_gt_0)
      with ended have "ok \<Longrightarrow> unat i \<noteq> j" by blast
      with one have "counts t ! j = counts s ! j" by (cases ok) (auto simp: one_more_def c)
      with cs that show ?thesis by simp
    qed
    with i show ?thesis
      by (cases rule: option.rel_cases) (auto simp: stays_def same_ident_def)
  qed
  with l keepsD [OF streams_master_send r] show "lasting s t"
    by (auto simp: lasting_def later_def list_all2_conv_all_nth)
qed


section \<open>The rest of the engine\<close>

lemma lasting_profile_send: "keeps lasting (profile_send rng i pk)"
  unfolding profile_send_def slave_send_def checker_send_def checker_active_def delay_send_def delay_active_def Let_def
  by (intro lasting_rules lasting_fifo lasting_master_send) (simp_all add: stays_on_delay)

lemma lasting_profile_receive: "keeps lasting (profile_receive rng i pk dl)"
  unfolding profile_receive_def master_receive_def slave_receive_def checker_receive_def checker_active_def
    response_latency_def slave_active_def first_response_def Let_def
  by (intro lasting_rules lasting_fifo lasting_master_active) simp_all

lemma lasting_updateCheckers: "keeps lasting (updateCheckers rng i pk dl)"
  unfolding updateCheckers_def update_checker_def
  by (intro lasting_rules lasting_profile_send lasting_profile_receive)

lemma lasting_send_profile: "keeps lasting (send_profile rng i)"
  unfolding send_profile_def push_next_def
  by (intro lasting_rules lasting_profile_send lasting_updateCheckers) simp_all

lemma lasting_kronos: "keeps lasting ensureKronos" "keeps lasting (schedule e)"
  unfolding ensureKronos_def initKronos_def autoKronosConfiguration_def slave_load_def schedule_def Let_def
  by (intro lasting_rules; simp)+

lemma lasting_tpm_receive: "keeps lasting (tpm_receive rng t pk)"
  unfolding tpm_receive_def push_next_def Let_def
  by (intro lasting_rules lasting_profile_receive lasting_updateCheckers lasting_kronos; simp)

lemma lasting_handle: "keeps lasting (handle rng e)"
  unfolding handle_def route_def
  by (intro lasting_rules lasting_catch lasting_kronos lasting_send_profile lasting_tpm_receive) simp_all

lemma lasting_dispatch: "keeps lasting (dispatch rng i pk)"
  unfolding dispatch_def route_def
  by (intro lasting_rules lasting_kronos lasting_send_profile lasting_tpm_receive) simp_all

lemma lasting_burst: "keeps lasting (burst rng n i)"
  by (induction n) (simp_all only: burst.simps, (intro lasting_rules lasting_send_profile lasting_dispatch | assumption)+)

lemma lasting_active_loop: "keeps lasting (active_loop rng b n k)"
  by (induction n arbitrary: k)
     (simp_all only: active_loop.simps Let_def, (intro lasting_rules lasting_burst | assumption)+)

text \<open>A stream that is not known yet does not touch the known ones.\<close>

definition others_stay :: "u64 \<Rightarrow> tpm \<Rightarrow> tpm \<Rightarrow> bool" where
  "others_stay rt s t \<longleftrightarrow> list_all2 (rel_option stays) (tp_profiles s) (tp_profiles t) \<and> (\<forall>i. i \<noteq> rt \<longrightarrow>
    map_of (tp_streamCache t) i = map_of (tp_streamCache s) i
    \<and> map_of (tp_streamLeavesCache t) i = map_of (tp_streamLeavesCache s) i)"

interpretation others_stay: step_relation "others_stay rt" for rt
  by unfold_locales (auto simp: others_stay_def intro: pairs_refl pairs_trans [OF stays_trans])

lemma others_modify: "(\<And>s. others_stay rt s (h s)) \<Longrightarrow> keeps (others_stay rt) (modifyS h)"
  by (auto simp: keeps_def)

lemma others_addToStream: "keeps (others_stay rt) (addToStream rt i)"
proof -
  have "keeps lasting (addToStream rt i)" unfolding addToStream_def by (intro lasting_rules) simp
  moreover have "tp_streamCache t = tp_streamCache s \<and> tp_streamLeavesCache t = tp_streamLeavesCache s"
    if "addToStream rt i s = Inr (u, t)" for s u t
    using that by (auto simp: addToStream_def bindS_eq_Inr prof_eq_Inr setp_run split: if_splits)
  ultimately show ?thesis by (auto simp: keeps_def lasting_def others_stay_def)
qed

lemma others_stream_loop: "keeps (others_stay rt) (stream_loop n rt queue visited)"
proof (induction n arbitrary: queue visited)
  case 0
  show ?case by (cases queue) (simp_all only: stream_loop.simps others_stay.keeps_return others_stay.keeps_fail)
next
  case (Suc n)
  show ?case
  proof (cases queue)
    case Nil
    then show ?thesis by (simp only: stream_loop.simps others_stay.keeps_return)
  next
    case (Cons i rest)
    show ?thesis unfolding Cons stream_loop.simps Let_def
      by (intro others_stay.keeps_all others_addToStream others_modify Suc) (simp add: others_stay_def pairs_refl)
  qed
qed

lemma known_stream: "map_of (tp_streamCache s) i = Some xs \<Longrightarrow>
    getStream i s = (if length (tp_profiles s) \<le> unat i then Inl (ErrorExit ''TrafficProfileManager::getStream'') else Inr (xs, s))"
  by (simp add: getStream_def bindS_def thenS_def)

lemma lasting_getStream: "keeps lasting (getStream rt)"
proof (rule keepsI)
  fix s x t
  assume t: "getStream rt s = Inr (x, t)"
  show "lasting s t"
  proof (cases "map_of (tp_streamCache s) rt")
    case None
    have "keeps (others_stay rt) (getStream rt)"
      unfolding getStream_def
      by (intro others_stay.keeps_all others_stream_loop others_modify) (simp add: others_stay_def pairs_refl)
    from keepsD [OF this t] have "others_stay rt s t" .
    moreover have "i \<noteq> rt" if "map_of (tp_streamCache s) i \<noteq> None" for i using that None by auto
    ultimately show ?thesis by (simp add: others_stay_def lasting_def streams_stay_def)
  next
    case (Some xs)
    with t have "t = s" by (simp add: known_stream split: if_splits)
    then show ?thesis by (simp add: lasting.R_refl)
  qed
qed

lemma lasting_cacheUpdate: "keeps lasting streamCacheUpdate"
  unfolding streamCacheUpdate_def update_root_def by (intro lasting_rules lasting_getStream)

lemma lasting_tpm_send: "keeps lasting (tpm_send rng n t)"
  unfolding tpm_send_def
  by (intro lasting_rules lasting_cacheUpdate lasting_handle lasting_active_loop) simp_all

lemma lasting_streamTerminated: "keeps lasting (streamTerminated rt)"
  unfolding streamTerminated_def by (intro lasting_rules lasting_getStream)

lemma lasting_reconfigure: "keeps lasting (reconfigure_nodes type limit base used nodes)"
proof (induction nodes arbitrary: base used)
  case (Cons node nodes)
  obtain i leaf where n: "node = (i, leaf)" by (cases node)
  show ?case unfolding n reconfigure_nodes.simps
    by (intro lasting_rules Cons) (simp_all add: stays_on_master)
qed (simp only: reconfigure_nodes.simps lasting.keeps_return)

lemma lasting_setTime: "keeps lasting (setTime t)"
  unfolding setTime_def by (rule lasting.keeps_modify) (auto intro: lasting_same)


section \<open>Streams that have ended\<close>

text \<open>All last profiles of the stream have terminated.\<close>

definition played_out :: "u64 \<Rightarrow> tpm \<Rightarrow> bool" where
  "played_out i s \<longleftrightarrow> map_of (tp_streamCache s) i \<noteq> None \<and> streamTerminated i s = Inr (True, s)"

lemma collect_reads:
  assumes "\<And>x y t. f x s = Inr (y, t) \<longleftrightarrow> t = s \<and> P x y"
  shows "collectS f xs s = Inr (ys, t) \<longleftrightarrow> t = s \<and> list_all2 P xs ys"
proof (induction xs arbitrary: ys)
  case (Cons x xs)
  have "collectS f (x # xs) s = Inr (ys, t) \<longleftrightarrow> (\<exists>y zs. P x y \<and> collectS f xs s = Inr (zs, t) \<and> ys = y # zs)"
    by (auto simp: bindS_eq_Inr assms)
  with Cons show ?case by (auto simp: list_all2_Cons1)
qed auto

definition ended_at :: "tpm \<Rightarrow> u64 \<Rightarrow> bool" where
  "ended_at s l \<longleftrightarrow> (\<exists>p. prof l s = Inr (p, s) \<and> pr_terminated p)"

lemma collect_terminated:
  "collectS (\<lambda>l. bindS (prof l) (\<lambda>p. returnS (pr_terminated p))) ls s = Inr (ts, t)
    \<longleftrightarrow> t = s \<and> list_all2 (\<lambda>l b. \<exists>p. prof l s = Inr (p, s) \<and> b = pr_terminated p) ls ts"
  by (rule collect_reads) (auto simp: bindS_eq_Inr prof_eq_Inr)

lemma all_terminated:
  "(\<exists>ts. list_all2 (\<lambda>l b. \<exists>p. prof l s = Inr (p, s) \<and> b = pr_terminated p) ls ts \<and> list_all (\<lambda>t. t) ts)
    \<longleftrightarrow> (\<forall>l \<in> set ls. ended_at s l)"
proof
  assume "\<forall>l \<in> set ls. ended_at s l"
  then have "list_all2 (\<lambda>l b. \<exists>p. prof l s = Inr (p, s) \<and> b = pr_terminated p) ls (map (\<lambda>_. True) ls)"
    by (auto simp: list_all2_conv_all_nth ended_at_def)
  moreover have "list_all (\<lambda>t. t) (map (\<lambda>_. True) ls)" by (simp add: list.pred_map list.pred_True o_def)
  ultimately show "\<exists>ts. list_all2 (\<lambda>l b. \<exists>p. prof l s = Inr (p, s) \<and> b = pr_terminated p) ls ts \<and> list_all (\<lambda>t. t) ts"
    by blast
next
  have "\<forall>l \<in> set ls. ended_at s l"
    if "list_all2 (\<lambda>l b. \<exists>p. prof l s = Inr (p, s) \<and> b = pr_terminated p) ls ts" "list_all (\<lambda>t. t) ts" for ts
    using that by (induction rule: list_all2_induct) (auto simp: ended_at_def)
  then show "\<exists>ts. list_all2 (\<lambda>l b. \<exists>p. prof l s = Inr (p, s) \<and> b = pr_terminated p) ls ts \<and> list_all (\<lambda>t. t) ts
    \<Longrightarrow> \<forall>l \<in> set ls. ended_at s l" by blast
qed

lemma played_out_iff:
  "played_out i s \<longleftrightarrow> map_of (tp_streamCache s) i \<noteq> None \<and> unat i < length (tp_profiles s)
    \<and> (\<exists>ls. map_of (tp_streamLeavesCache s) i = Some ls \<and> (\<forall>l \<in> set ls. ended_at s l))"
proof (cases "map_of (tp_streamCache s) i")
  case (Some xs)
  have "streamTerminated i s = Inr (True, s) \<longleftrightarrow> unat i < length (tp_profiles s)
    \<and> (\<exists>ls. map_of (tp_streamLeavesCache s) i = Some ls
         \<and> bindS (collectS (\<lambda>l. bindS (prof l) (\<lambda>p. returnS (pr_terminated p))) ls)
             (\<lambda>ts. returnS (list_all (\<lambda>t. t) ts)) s = Inr (True, s))"
    unfolding streamTerminated_def bindS_eq_Inr [where m = "getStream i"] known_stream [OF Some]
    by (auto simp: bindS_def [where m = getS] split: option.splits)
  also have "\<dots> \<longleftrightarrow> unat i < length (tp_profiles s)
    \<and> (\<exists>ls. map_of (tp_streamLeavesCache s) i = Some ls \<and> (\<forall>l \<in> set ls. ended_at s l))"
    unfolding all_terminated [symmetric] bindS_eq_Inr [where m = "collectS f xs" for f xs] collect_terminated by auto
  finally show ?thesis using Some by (simp add: played_out_def)
qed (simp add: played_out_def)

lemma known_terminated:
  "map_of (tp_streamCache s) i \<noteq> None \<Longrightarrow> streamTerminated i s = Inr (b, t) \<Longrightarrow> t = s"
  by (auto simp: streamTerminated_def known_stream bindS_eq_Inr collect_terminated split: option.splits if_splits)

lemma lasting_played_out:
  assumes "played_out i s" and "lasting s t"
  shows "played_out i t"
proof -
  from assms(2) have "ended_at s l \<Longrightarrow> ended_at t l" for l
    by (auto simp: ended_at_def prof_eq_Inr lasting_def list_all2_conv_all_nth stays_def elim!: option.rel_cases)
  moreover have "length (tp_profiles t) = length (tp_profiles s)"
    using assms(2) by (auto simp: lasting_def dest: list_all2_lengthD)
  ultimately show ?thesis using assms unfolding played_out_iff lasting_def streams_stay_def by auto
qed

lemma lasting_ended:
  assumes "lasting s t" and "master_at j s = Inr ((p, m), s)" and "endOfData m"
  shows "\<exists>q n. master_at j t = Inr ((q, n), t) \<and> ms_sent n = ms_sent m \<and> endOfData n"
proof -
  from assms have m: "unat j < length (tp_profiles t)" "tp_profiles s ! unat j = Some p" "pr_body p = Master m"
    by (auto simp: master_at_eq lasting_def dest: list_all2_lengthD)
  with assms(1,2) obtain q where q: "tp_profiles t ! unat j = Some q" "stays p q"
    by (auto simp: lasting_def list_all2_conv_all_nth master_at_eq elim!: option.rel_cases)
  with m assms(3) show ?thesis
    by (auto simp: stays_def profile_counts.simps endOfData_def master_at_eq split: body.splits)
qed

section \<open>The adaptor and the device\<close>

definition engine_lasts :: "'z device_scheme \<Rightarrow> 'z device_scheme \<Rightarrow> bool" where
  "engine_lasts s t \<longleftrightarrow> lasting (ad_tpm s) (ad_tpm t)"

interpretation engine_lasts: step_relation engine_lasts
  by unfold_locales (auto simp: engine_lasts_def intro: lasting.R_refl lasting.R_trans)

lemma lasts_engine: "keeps lasting m \<Longrightarrow> keeps engine_lasts (on_engine m)"
  by (auto simp: keeps_def on_engine_def engine_lasts_def split: sum.splits)

lemma lasts_modify: "(\<And>s. ad_tpm (h s) = ad_tpm s) \<Longrightarrow> keeps engine_lasts (modifyS h)"
  by (rule engine_lasts.keeps_modify) (simp add: engine_lasts_def lasting.R_refl)

lemmas lasts_rules = engine_lasts.keeps_all lasts_modify

lemma lasts_scheduleUpdate: "keeps engine_lasts (scheduleUpdate pl w)"
  unfolding scheduleUpdate_def by (rule lasts_modify) (simp split: option.split)

lemma lasts_sends:
  "keeps engine_lasts (getAtpTime pl)" "keeps engine_lasts (getSimTicks pl u)" "keeps engine_lasts (buildGEM5Packet pl p)"
  "keeps engine_lasts (addRoutingEntry pl p)" "keeps engine_lasts (sendTimingReq pl q g)"
  "keeps engine_lasts (traceM3iPacket pl g)" "keeps engine_lasts (exitSimLoop f)" "keeps engine_lasts (scheduleNow pl)"
  "keeps engine_lasts watchdog"
  unfolding getAtpTime_def getSimTicks_def buildGEM5Packet_def addRoutingEntry_def sendTimingReq_def traceM3iPacket_def
    exitSimLoop_def scheduleNow_def watchdog_def Let_def
  by (intro lasts_rules lasts_scheduleUpdate; simp)+

lemma lasts_serve: "keeps engine_lasts (serve pl q p)"
  unfolding serve_def by (intro lasts_rules lasts_sends) simp_all

lemma lasts_serve_loop: "keeps engine_lasts (serve_loop pl n ports sp)"
proof (induction n arbitrary: ports sp)
  case 0
  show ?case
    by (cases ports; simp only: serve_loop.simps split_paired_all nat.case; intro lasts_rules)
next
  case (Suc n)
  show ?case
    by (cases ports; simp only: serve_loop.simps split_paired_all nat.case Let_def;
        intro lasts_rules lasts_serve Suc) simp_all
qed

lemma lasts_serve_ports: "keeps engine_lasts (serve_ports pl)"
  unfolding serve_ports_def by (intro lasts_rules lasts_serve_loop)

lemma lasts_request_packets: "keeps engine_lasts (request_packets pl)"
  unfolding request_packets_def request_at_def
  by (intro lasts_rules lasts_sends lasts_engine lasting_tpm_send) simp_all

lemma lasts_exits: "keeps engine_lasts exit_on_master" "keeps engine_lasts (exit_when_done sp)"
proof -
  have "keeps lasting (masterId m)" for m
    by (auto simp: keeps_def masterId_def lasting.R_refl split: option.splits)
  then have "keeps lasting (isTerminated m)" for m unfolding isTerminated_def by (intro lasting_rules)
  then show "keeps engine_lasts exit_on_master" "keeps engine_lasts (exit_when_done sp)"
    unfolding exit_on_master_def exit_when_done_def Let_def
    by (intro lasts_rules lasts_sends lasts_engine; simp)+
qed

lemma lasts_serveRequest: "keeps engine_lasts (serveRequest pl i req)"
proof -
  have "keeps lasting (bindS (getProfile i) (\<lambda>p. activate tpm_event i))"
    by (intro lasting_rules)
  moreover have "keeps lasting (addressStreamReconfigure i b l ty)" for b l ty
    unfolding addressStreamReconfigure_def by (intro lasting_rules lasting_getStream lasting_reconfigure)
  ultimately show ?thesis
    unfolding serveRequest_def configureDmaOp_def configureStream_def activateStream_def stream_at_def set_stream_def
    by (intro lasts_rules lasts_sends lasts_engine) simp_all
qed

lemma lasts_handler: "keeps engine_lasts (servedRequestHandler pl c)"
proof -
  have pending: "keeps engine_lasts (case rs of [] \<Rightarrow> returnS () | req # x \<Rightarrow> f req)" if "\<And>r. keeps engine_lasts (f r)"
    for rs :: "play_request list" and f :: "play_request \<Rightarrow> ('a, unit) device_op"
    using that by (cases rs) (simp_all add: engine_lasts.keeps_return)
  show ?thesis
    unfolding servedRequestHandler_def stream_at_def set_stream_def notifyServedRequest_def
    by (intro lasts_rules pending lasts_serveRequest) simp_all
qed

section \<open>The loop over the active streams\<close>

text \<open>The loop still has the stream before it.\<close>

definition ahead_of :: "u64 option \<Rightarrow> u64 list \<Rightarrow> u64 \<Rightarrow> bool" where
  "ahead_of cur xs i \<longleftrightarrow> (case cur of None \<Rightarrow> False | Some c \<Rightarrow> i \<in> set (dropWhile (\<lambda>x. x \<noteq> c) xs))"

lemma ahead_insert:
  "i \<in> set (dropWhile (\<lambda>x. x \<noteq> d) xs) \<Longrightarrow> c \<noteq> d \<Longrightarrow> i \<in> set (dropWhile (\<lambda>x. x \<noteq> d) (take k xs @ c # drop k xs))"
proof (induction xs arbitrary: k)
  case (Cons x xs)
  have "set (take n xs) \<union> set (drop n xs) = set xs" for n by (metis append_take_drop_id set_append)
  with Cons show ?case by (cases k) auto
qed simp

lemma ahead_emplace: "ahead_of cur xs i \<Longrightarrow> cur \<noteq> Some c \<Longrightarrow> ahead_of cur (emplace pl c xs) i"
  by (auto simp: ahead_of_def emplace_def Let_def ahead_insert split: option.splits)

lemma ahead_next:
  "i \<in> set (dropWhile (\<lambda>x. x \<noteq> c) xs) \<Longrightarrow> i \<noteq> c \<Longrightarrow> distinct xs \<Longrightarrow> ahead_of (successor c xs) xs i"
proof (induction xs)
  case (Cons x xs)
  show ?case
  proof (cases "x = c")
    case True
    with Cons.prems show ?thesis by (cases xs) (auto simp: ahead_of_def)
  next
    case False
    with Cons show ?thesis by (auto simp: ahead_of_def split: option.splits dest: successor_set)
  qed
qed simp

lemma ahead_remove: "ahead_of cur xs i \<Longrightarrow> cur \<noteq> Some c \<Longrightarrow> i \<noteq> c \<Longrightarrow> ahead_of cur (remove1 c xs) i"
proof (induction xs)
  case (Cons x xs)
  then show ?case by (auto simp: ahead_of_def split: option.splits if_splits)
qed simp


text \<open>What the callback of a stream leaves of the others.\<close>

lemma handler_order:
  assumes "servedRequestHandler pl (c, r) s = Inr (u, t)" and "map_of (dv_streams s) c = Some str"
    and "dv_interrupt s = dv_intAckPending s" and "dv_servedRequests s \<noteq> [] \<longrightarrow> dv_intAckPending s"
  shows "ad_activeStreams t \<in> {ad_activeStreams s, emplace pl c (ad_activeStreams s)}
    \<and> (\<forall>i. i \<noteq> c \<longrightarrow> map_of (ad_onTerminate t) i = map_of (ad_onTerminate s) i)
    \<and> completions t = completions s @ [r]"
proof -
  let ?s = "s\<lparr>dv_streams := AList.update c (str\<lparr>st_active := False\<rparr>) (dv_streams s)\<rparr>"
  from servedRequestHandler_run [OF assms(1,2)] obtain v s2 where s2: "finish_request r ?s = Inr (v, s2)"
    and t0: "st_pending str = [] \<longrightarrow> t = s2"
    and t1: "\<forall>req reqs. st_pending str = req # reqs \<longrightarrow> (\<exists>w s3 str'. serveRequest pl c req s2 = Inr (w, s3)
         \<and> map_of (dv_streams s3) c = Some str'
         \<and> t = s3\<lparr>dv_streams := AList.update c (str'\<lparr>st_pending := tl (st_pending str')\<rparr>) (dv_streams s3)\<rparr>)"
    by blast
  from finish_request_run [OF s2] assms(3,4) have f: "completions s2 = completions s @ [r]"
    "dv_streams s2 = AList.update c (str\<lparr>st_active := False\<rparr>) (dv_streams s)"
    "ad_activeStreams s2 = ad_activeStreams s" "ad_onTerminate s2 = ad_onTerminate s"
    by (auto simp: completions_def split: if_splits)
  show ?thesis
  proof (cases "st_pending str")
    case Nil
    with t0 f show ?thesis by simp
  next
    case (Cons req reqs)
    with t1 obtain w s3 str3 where s3: "serveRequest pl c req s2 = Inr (w, s3)"
      and t: "t = s3\<lparr>dv_streams := AList.update c (str3\<lparr>st_pending := tl (st_pending str3)\<rparr>) (dv_streams s3)\<rparr>" by blast
    have "plays pl c (pq_id req) (str\<lparr>st_active := False\<rparr>) s2 s3"
      by (rule serveRequest_run [OF s3]) (simp add: f)
    with f show ?thesis by (auto simp: t plays_def completions_def)
  qed
qed

text \<open>One round of the loop, at the stream \<open>c\<close>.\<close>

lemma streams_loop_round:
  assumes ok: "device_ok s" and cs: "c \<in> set (ad_activeStreams s)"
    and run: "streams_loop pl (servedRequestHandler pl) (Suc n) (Some c) s = Inr (u, t)"
  shows "\<exists>s2. device_ok s2 \<and> lasting (ad_tpm s) (ad_tpm s2)
    \<and> streams_loop pl (servedRequestHandler pl) n (successor c (ad_activeStreams s)) s2 = Inr (u, t)
    \<and> (\<not> played_out c (ad_tpm s) \<and> ad_activeStreams s2 = ad_activeStreams s
         \<and> ad_onTerminate s2 = ad_onTerminate s \<and> completions s2 = completions s
     \<or> (\<exists>q. map_of (ad_onTerminate s) c = Some (False, Some (c, q))
         \<and> ad_activeStreams s2 \<in> {remove1 c (ad_activeStreams s), emplace pl c (remove1 c (ad_activeStreams s))}
         \<and> (\<forall>j. j \<noteq> c \<longrightarrow> map_of (ad_onTerminate s2) j = map_of (ad_onTerminate s) j)
         \<and> completions s2 = completions s @ [q]))"
proof -
  from run obtain b s1 where s1: "on_engine (streamTerminated c) s = Inr (b, s1)"
    and rest: "(if b then bindS (readS (\<lambda>s. successor c (ad_activeStreams s))) (\<lambda>next.
      thenS (modifyS (\<lambda>s. s\<lparr>ad_activeStreams := remove1 c (ad_activeStreams s)\<rparr>))
      (thenS (run_terminate pl (servedRequestHandler pl) c) (streams_loop pl (servedRequestHandler pl) n next)))
    else bindS (readS (\<lambda>s. successor c (ad_activeStreams s))) (streams_loop pl (servedRequestHandler pl) n)) s1 = Inr (u, t)"
    by (auto elim!: bindSE)
  have v: "same_view s s1" by (rule keepsD [OF view_engine s1])
  then have s1': "ad_activeStreams s1 = ad_activeStreams s" "ad_onTerminate s1 = ad_onTerminate s" "completions s1 = completions s"
    by (simp_all add: same_view_def completions_def)
  have ok1: "device_ok s1" using same_view_ok [OF v] ok by simp
  have l1: "lasting (ad_tpm s) (ad_tpm s1)"
    using keepsD [OF lasts_engine [OF lasting_streamTerminated] s1] by (simp add: engine_lasts_def)
  show ?thesis
  proof (cases b)
    case False
    from s1 False have "\<not> played_out c (ad_tpm s)" by (auto simp: played_out_def on_engine_def)
    moreover from False rest have "streams_loop pl (servedRequestHandler pl) n (successor c (ad_activeStreams s)) s1 = Inr (u, t)"
      by (simp add: bindS_def s1')
    ultimately show ?thesis using ok1 l1 s1' by blast
  next
    case True
    from ok1 cs obtain q where q: "map_of (ad_onTerminate s1) c = Some (False, Some (c, q))"
      by (auto simp: device_ok_def s1')
    from True rest obtain w s2 where s2: "run_terminate pl (servedRequestHandler pl) c
          (s1\<lparr>ad_activeStreams := remove1 c (ad_activeStreams s1)\<rparr>) = Inr (w, s2)"
      and s3: "streams_loop pl (servedRequestHandler pl) n (successor c (ad_activeStreams s)) s2 = Inr (u, t)"
      by (auto simp: bindS_def s1' elim!: thenSE)
    let ?s1 = "s1\<lparr>ad_activeStreams := remove1 c (ad_activeStreams s1),
      ad_onTerminate := AList.update c (False, Some (c, q)) (ad_onTerminate s1)\<rparr>"
    have h: "servedRequestHandler pl (c, q) ?s1 = Inr (w, s2)"
      using s2 q by (simp add: run_terminate_def bindS_def thenS_def)
    have ok2: "device_ok s2"
      using completing_handler [OF ok1 _ q _ h] cs by (auto simp: completing_def s1')
    from ok1 cs obtain str where str: "map_of (dv_streams ?s1) c = Some str" by (auto simp: device_ok_def playing_def s1')
    have "dv_interrupt ?s1 = dv_intAckPending ?s1" "dv_servedRequests ?s1 \<noteq> [] \<longrightarrow> dv_intAckPending ?s1"
      using ok1 by (simp_all add: device_ok_def)
    moreover have "completions ?s1 = completions s1" by (simp add: completions_def)
    ultimately have "ad_activeStreams s2 \<in> {remove1 c (ad_activeStreams s), emplace pl c (remove1 c (ad_activeStreams s))}"
      "\<forall>j. j \<noteq> c \<longrightarrow> map_of (ad_onTerminate s2) j = map_of (ad_onTerminate s) j" "completions s2 = completions s @ [q]"
      using handler_order [OF h str] by (simp_all add: s1')
    moreover have "lasting (ad_tpm s) (ad_tpm s2)"
      using keepsD [OF lasts_handler h] l1 by (auto simp: engine_lasts_def intro: lasting.R_trans)
    ultimately show ?thesis using ok2 s3 q by (auto simp: s1')
  qed
qed

lemma streams_loop_lasts:
  assumes "device_ok s" and "\<forall>c. cur = Some c \<longrightarrow> c \<in> set (ad_activeStreams s)"
    and "streams_loop pl (servedRequestHandler pl) n cur s = Inr (u, t)"
  shows "lasting (ad_tpm s) (ad_tpm t) \<and> (\<exists>out. completions t = completions s @ out)"
  using assms
proof (induction n arbitrary: cur s)
  case 0
  then show ?case by (cases cur) (simp_all add: lasting.R_refl)
next
  case (Suc n)
  show ?case
  proof (cases cur)
    case None
    with Suc.prems show ?thesis by (simp add: lasting.R_refl)
  next
    case (Some c)
    with Suc.prems have cs: "c \<in> set (ad_activeStreams s)" and d: "distinct (ad_activeStreams s)" by (auto simp: device_ok_def)
    from streams_loop_round [OF Suc.prems(1) cs Suc.prems(3) [unfolded Some]] obtain s2
      where s2: "device_ok s2" "lasting (ad_tpm s) (ad_tpm s2)"
        "streams_loop pl (servedRequestHandler pl) n (successor c (ad_activeStreams s)) s2 = Inr (u, t)"
        "\<exists>out. completions s2 = completions s @ out" "set (ad_activeStreams s) - {c} \<subseteq> set (ad_activeStreams s2)"
      using d by fastforce
    have "\<forall>j. successor c (ad_activeStreams s) = Some j \<longrightarrow> j \<in> set (ad_activeStreams s2)"
      using s2(5) successor_set [of c "ad_activeStreams s"] successor_distinct [OF d] by auto
    from Suc.IH [OF s2(1) this s2(3)] s2(2,4) show ?thesis by (auto intro: lasting.R_trans)
  qed
qed

lemma streams_loop_completes:
  assumes "device_ok s" and "played_out i (ad_tpm s)" and "ahead_of cur (ad_activeStreams s) i"
    and "map_of (ad_onTerminate s) i = Some (False, Some (i, r))"
    and "streams_loop pl (servedRequestHandler pl) n cur s = Inr (u, t)"
  shows "\<exists>out. completions t = completions s @ out \<and> r \<in> set out"
  using assms
proof (induction n arbitrary: cur s)
  case 0
  then show ?case by (cases cur) (simp_all add: ahead_of_def)
next
  case (Suc n)
  from Suc.prems(3) obtain c where c: "cur = Some c" "i \<in> set (dropWhile (\<lambda>x. x \<noteq> c) (ad_activeStreams s))"
    by (auto simp: ahead_of_def split: option.splits)
  from c(2) have cs: "c \<in> set (ad_activeStreams s)"
    by (metis (mono_tags, lifting) dropWhile_eq_Nil_conv empty_iff list.set(1))
  have d: "distinct (ad_activeStreams s)" using Suc.prems(1) by (simp add: device_ok_def)
  let ?next = "successor c (ad_activeStreams s)"
  have n: "?next \<noteq> Some c" using successor_distinct [OF d] by blast
  from streams_loop_round [OF Suc.prems(1) cs Suc.prems(5) [unfolded c]] obtain s2
    where ok2: "device_ok s2" and l: "lasting (ad_tpm s) (ad_tpm s2)"
      and s3: "streams_loop pl (servedRequestHandler pl) n ?next s2 = Inr (u, t)"
      and o: "\<not> played_out c (ad_tpm s) \<and> ad_activeStreams s2 = ad_activeStreams s
         \<and> ad_onTerminate s2 = ad_onTerminate s \<and> completions s2 = completions s
     \<or> (\<exists>q. map_of (ad_onTerminate s) c = Some (False, Some (c, q))
         \<and> ad_activeStreams s2 \<in> {remove1 c (ad_activeStreams s), emplace pl c (remove1 c (ad_activeStreams s))}
         \<and> (\<forall>j. j \<noteq> c \<longrightarrow> map_of (ad_onTerminate s2) j = map_of (ad_onTerminate s) j)
         \<and> completions s2 = completions s @ [q])" by blast
  show ?case
  proof (cases "i = c")
    case True
    with Suc.prems(2,4) o have "completions s2 = completions s @ [r]"
      and sub: "set (ad_activeStreams s) - {c} \<subseteq> set (ad_activeStreams s2)" using d by auto
    moreover have "\<forall>j. ?next = Some j \<longrightarrow> j \<in> set (ad_activeStreams s2)"
      using sub successor_set [of c "ad_activeStreams s"] n by auto
    ultimately show ?thesis using streams_loop_lasts [OF ok2 _ s3] by fastforce
  next
    case False
    have a: "ahead_of ?next (ad_activeStreams s) i" using c(2) d False by (intro ahead_next)
    then have "ahead_of ?next (remove1 c (ad_activeStreams s)) i" using n False by (rule ahead_remove)
    with a o n have "ahead_of ?next (ad_activeStreams s2) i" by (auto intro: ahead_emplace)
    from Suc.IH [OF ok2 lasting_played_out [OF Suc.prems(2) l] this _ s3] o False Suc.prems(4) show ?thesis by auto
  qed
qed

section \<open>A stream is played once\<close>

text \<open>The update, from the moment the request is in play.\<close>

definition set_clock :: "platform \<Rightarrow> ('z, unit) device_op" where
  "set_clock pl = bindS (getAtpTime pl) (\<lambda>t. on_engine (setTime t))"

definition after_streams :: "platform \<Rightarrow> u64 option \<Rightarrow> ('z, unit) device_op" where
  "after_streams pl sp = thenS (bindS getS (\<lambda>s. whenS (ad_nextPacketTick s \<noteq> MaxTick) (scheduleUpdate pl (ad_nextPacketTick s))))
     (thenS exit_on_master (thenS (exit_when_done sp) watchdog))"

lemma update_parts: "update pl (run :: u64 \<times> u32 \<Rightarrow> ('z, unit) device_op) n = thenS (modifyS (\<lambda>s. s\<lparr>ad_updateEvent := None\<rparr>))
    (thenS (request_packets pl) (bindS (serve_ports pl) (\<lambda>sp. thenS (set_clock pl)
      (thenS (terminated_streams pl run n) (after_streams pl sp)))))"
proof -
  have "bindS (getAtpTime pl) (\<lambda>t. thenS (on_engine (setTime t)) m) = thenS (set_clock pl) m" for m :: "('z, unit) device_op"
    by (auto simp: set_clock_def thenS_def bindS_def split: sum.split)
  then show ?thesis unfolding update_def after_streams_def by simp
qed

lemma clock_and_after:
  "keeps same_view (set_clock pl)" "keeps engine_lasts (set_clock pl)"
  "keeps same_view (after_streams pl sp)" "keeps engine_lasts (after_streams pl sp)"
proof -
  show "keeps same_view (set_clock pl)" "keeps engine_lasts (set_clock pl)"
    unfolding set_clock_def by (intro view_rules view_sends) (intro lasts_rules lasts_sends lasts_engine lasting_setTime)
  show "keeps same_view (after_streams pl sp)"
    unfolding after_streams_def exit_on_master_def exit_when_done_def Let_def by (intro view_rules view_sends)
  show "keeps engine_lasts (after_streams pl sp)"
    unfolding after_streams_def by (intro lasts_rules lasts_scheduleUpdate lasts_sends lasts_exits)
qed

lemma update_completes:
  assumes ok: "device_ok s" and po: "played_out i (ad_tpm s)" and act: "i \<in> set (ad_activeStreams s)"
    and cb: "map_of (ad_onTerminate s) i = Some (False, Some (i, r))"
    and u: "update pl (servedRequestHandler pl) n s = Inr (x, u)"
  shows "(\<exists>out. completions u = completions s @ out \<and> r \<in> set out) \<and> lasting (ad_tpm s) (ad_tpm u)"
proof -
  from u obtain y1 s1 sp s2 y3 s3 y4 s4 where
    1: "request_packets pl (s\<lparr>ad_updateEvent := None\<rparr>) = Inr (y1, s1)" and 2: "serve_ports pl s1 = Inr (sp, s2)"
    and 3: "set_clock pl s2 = Inr (y3, s3)"
    and 4: "terminated_streams pl (servedRequestHandler pl) n s3 = Inr (y4, s4)" and 5: "after_streams pl sp s4 = Inr (x, u)"
    unfolding update_parts by (elim thenSE bindSE) auto
  have "same_view s s3"
    using keepsD [OF view_request_packets 1] keepsD [OF view_serve_ports 2] keepsD [OF clock_and_after(1) 3] by (simp add: same_view_def)
  then have s3: "device_ok s3" "ad_activeStreams s3 = ad_activeStreams s" "ad_onTerminate s3 = ad_onTerminate s"
    "completions s3 = completions s"
    using ok same_view_ok [of s s3] by (simp_all add: same_view_def completions_def)
  have l: "lasting (ad_tpm s) (ad_tpm s3)"
    using keepsD [OF lasts_request_packets 1] keepsD [OF lasts_serve_ports 2] keepsD [OF clock_and_after(2) 3]
    by (auto simp: engine_lasts_def intro: lasting.R_trans)
  let ?cur = "case ad_activeStreams s3 of [] \<Rightarrow> None | j # js \<Rightarrow> Some j"
  have run: "streams_loop pl (servedRequestHandler pl) n ?cur s3 = Inr (y4, s4)"
    using 4 by (simp add: terminated_streams_def bindS_def)
  have "ahead_of ?cur (ad_activeStreams s3) i"
    using act by (cases "ad_activeStreams s") (auto simp: s3 ahead_of_def)
  from streams_loop_completes [OF s3(1) lasting_played_out [OF po l] this _ run] cb
  obtain out where out: "completions s4 = completions s @ out" "r \<in> set out" by (auto simp: s3)
  moreover have "completions u = completions s4" using keepsD [OF clock_and_after(3) 5] by (simp add: same_view_def completions_def)
  moreover have "lasting (ad_tpm s3) (ad_tpm s4)"
    using streams_loop_lasts [OF s3(1) _ run] by (auto split: list.splits)
  ultimately show ?thesis
    using l keepsD [OF clock_and_after(4) 5] by (auto simp: engine_lasts_def intro: lasting.R_trans)
qed


text \<open>The access that plays a stream at rest.\<close>

lemma play_at_rest:
  assumes ok: "device_ok s" and w: "mmio_write pl a k d s = Inr (x, t)" and ask: "asks (MmioWrite a k d) s = [Accept i r]"
    and rest: "i \<notin> set (ad_activeStreams s)"
  shows "device_ok t \<and> i \<in> set (ad_activeStreams t) \<and> map_of (ad_onTerminate t) i = Some (False, Some (i, r))
    \<and> completions t = completions s \<and> lasting (ad_tpm s) (ad_tpm t)"
proof -
  from ask have c: "decode_offset (a - dv_pioAddr s) = Some CONTROL" and b: "bit d 2" "\<not> bit d 3"
    and i: "i = rg_streamId (dv_regs s)" "r = rg_inRequestId (dv_regs s)"
    by (auto simp: asks_def split: if_splits)
  let ?s = "s\<lparr>dv_regs := (dv_regs s)\<lparr>rg_control := ucast d\<rparr>\<rparr>"
  from w c have "control_handler pl ?s = Inr (x, t)"
    by (auto simp: mmio_write_def write_register_def bindS_def thenS_def Let_def sized_def set_regs_def split: if_splits)
  with b have h: "playStreamHandler pl ?s = Inr (x, t)"
    by (simp add: control_handler_def bindS_def Let_def bit_ucast_iff)
  have v: "same_view s ?s" by (simp add: same_view_def)
  with ok have ok': "device_ok ?s" using same_view_ok [OF v] by simp
  from h obtain str where str: "map_of (dv_streams ?s) i = Some str"
    by (auto simp: playStreamHandler_def bindS_def Let_def fatal_def i split: option.splits)
  with rest ok have idle: "\<not> st_active str" by (auto simp: device_ok_def playing_def)
  from h str obtain dmaop y s1 where s1: "submit pl i str (request_of (dv_regs ?s) dmaop) ?s = Inr (y, s1)"
    and t: "t = s1\<lparr>dv_regs := (dv_regs s1)\<lparr>rg_status := 1\<rparr>\<rparr>"
    by (auto simp: playStreamHandler_def Let_def set_regs_def bindS_eq_Inr thenS_eq_Inr liftS_eq_Inr i)
  from s1 idle have sr: "serveRequest pl i (request_of (dv_regs ?s) dmaop) ?s = Inr (y, s1)" by (simp add: submit_def)
  have p: "plays pl i r str ?s s1" using serveRequest_run [OF sr str] by (simp add: request_of_def i)
  have "same_view s1 t" by (simp add: t same_view_def)
  then have "device_ok t" using plays_ok [OF ok' str idle p] same_view_ok by blast
  moreover have "lasting (ad_tpm s) (ad_tpm t)"
    using keepsD [OF lasts_serveRequest sr] by (simp add: engine_lasts_def t)
  ultimately show ?thesis using p by (auto simp: plays_def t completions_def)
qed

text \<open>
  C31. A stream is played once. Take a device after any run from its construction, and a stream that is not in
  play and whose last profiles have all terminated. When the software plays it, the update that follows reports
  the request as completed, whatever its memory and whatever else happens in that update, and a master that
  has sent all its packets has sent no other. The stream is then as before, so the same holds of every
  later request for it: the device activates streams without automatic reset, and activation leaves
  terminated profiles terminated.
\<close>

theorem replayed_stream_moves_no_data:
  assumes "ad_activeStreams a = []" and "admissible_run own_input (device_step pl) xs (device_new pio dev sid ssid g a)"
    and "foldR (device_step pl) xs (device_new pio dev sid ssid g a) = Inr s"
    and "played_out i (ad_tpm s)" and "i \<notin> set (ad_activeStreams s)"
    and "asks (MmioWrite addr len d) s = [Accept i r]" and "device_step pl (MmioWrite addr len d) s = Inr t"
    and "device_step pl (Engine (UpdateDue n)) t = Inr u"
  shows "(\<exists>out. completions u = completions s @ out \<and> r \<in> set out) \<and> played_out i (ad_tpm u)
    \<and> (\<forall>j p m. master_at j (ad_tpm s) = Inr ((p, m), ad_tpm s) \<and> endOfData m \<longrightarrow>
         (\<exists>q m'. master_at j (ad_tpm u) = Inr ((q, m'), ad_tpm u) \<and> ms_sent m' = ms_sent m))"
proof -
  have ok: "device_ok s" using run_refines_queues [OF _ assms(2,3)] device_new_ok [OF assms(1)] by blast
  from assms(7) obtain x where w: "mmio_write pl addr len d s = Inr (x, t)"
    by (cases "mmio_write pl addr len d s") (auto simp: device_step_def)
  from assms(8) obtain y where up: "update pl (servedRequestHandler pl) n t = Inr (y, u)"
    by (cases "update pl (servedRequestHandler pl) n t") (auto simp: device_step_def)
  from play_at_rest [OF ok w assms(6,5)] have t: "device_ok t" "i \<in> set (ad_activeStreams t)"
    "map_of (ad_onTerminate t) i = Some (False, Some (i, r))" "completions t = completions s"
    and l: "lasting (ad_tpm s) (ad_tpm t)" by blast+
  from update_completes [OF t(1) lasting_played_out [OF assms(4) l] t(2,3) up]
  have c: "\<exists>out. completions u = completions t @ out \<and> r \<in> set out" and l': "lasting (ad_tpm t) (ad_tpm u)" by blast+
  have "lasting (ad_tpm s) (ad_tpm u)" using l l' by (rule lasting.R_trans)
  then show ?thesis using c t(4) lasting_played_out [OF assms(4)] lasting_ended by fastforce
qed

text \<open>The session of the last theory, up to the last access that plays the stream a second time, as request 6.\<close>

definition demo_replay :: "device_input list" where
  "demo_replay = demo_session @ butlast (demo_play 6)"

lemma demo_replay_run: "case foldR (device_step demo_bus) demo_replay demo_start of Inl e \<Rightarrow> False
    | Inr s \<Rightarrow> completions s = [5] \<and> map_of (tp_streamCache (ad_tpm s)) 0 \<noteq> None \<and> 0 \<notin> set (ad_activeStreams s)
      \<and> (case streamTerminated 0 (ad_tpm s) of Inr (b, s') \<Rightarrow> b | _ \<Rightarrow> False)
      \<and> asks (MmioWrite 65604 1 4) s = [Accept 0 6]
      \<and> (case device_step demo_bus (MmioWrite 65604 1 4) s of Inl e \<Rightarrow> False
         | Inr t \<Rightarrow> (case device_step demo_bus (Engine (UpdateDue 5)) t of Inl e \<Rightarrow> False | Inr u \<Rightarrow> True))"
  by code_simp

lemma demo_replay_own: "admissible_run own_input (device_step demo_bus) demo_replay demo_start"
  by code_simp

theorem replayed_stream_moves_no_data_witness:
  "\<exists>s t u. foldR (device_step demo_bus) demo_replay demo_start = Inr s \<and> completions s = [5]
    \<and> device_step demo_bus (MmioWrite 65604 1 4) s = Inr t
    \<and> device_step demo_bus (Engine (UpdateDue 5)) t = Inr u \<and> 6 \<in> set (completions u) \<and> played_out 0 (ad_tpm u)"
proof -
  obtain s t u b s' where s: "foldR (device_step demo_bus) demo_replay demo_start = Inr s" "completions s = [5]"
    "map_of (tp_streamCache (ad_tpm s)) 0 \<noteq> None" "0 \<notin> set (ad_activeStreams s)"
    and e: "streamTerminated 0 (ad_tpm s) = Inr (b, s')" "b"
    and t: "asks (MmioWrite 65604 1 4) s = [Accept 0 6]" "device_step demo_bus (MmioWrite 65604 1 4) s = Inr t"
      "device_step demo_bus (Engine (UpdateDue 5)) t = Inr u"
    using demo_replay_run by (auto split: sum.splits)
  have po: "played_out 0 (ad_tpm s)" using known_terminated [OF s(3) e(1)] s(3) e by (simp add: played_out_def)
  note run = demo_replay_own [unfolded demo_start_def] s(1) [unfolded demo_start_def]
  from replayed_stream_moves_no_data [OF demo_start_idle run po s(4) t] s t show ?thesis by auto
qed

end
