(* ===== verification/Linux_Driver.thy ===== *)
theory Linux_Driver
  imports Demo_Device
begin

text \<open>
  The Linux driver of the programmable device (\<^verbatim>\<open>linux/atp_device.c\<close>, \<^verbatim>\<open>linux/atp_device.h\<close>,
  \<^verbatim>\<open>linux/atp_device_user.h\<close>) on top of the model of the device: its register accesses are the
  accesses of theory \<open>Atp_Device\<close>. The record \<open>driver\<close> extends the device with \<^verbatim>\<open>struct atp_device_data\<close>;
  its requests are an association list from addresses in the heap to objects, in the order of the
  kernel's list. A critical section runs without interruption, so it is one computation.

  The kernel is not part of the repository. The record \<open>kernel\<close> stands for what the driver calls: an
  allocation may fail, a buffer is looked up, attached and mapped by the DMA-buffer framework, a
  process sleeps until its request is completed or a signal comes, and \<open>kn_meanwhile\<close> is what the rest
  of the system does between two reads of STATUS. Results of system calls are \<open>int\<close>, negative
  for an error.
\<close>

section \<open>State\<close>

record play_stream_request =
  rp_id :: u32
  rp_raddr :: u64
  rp_rrange :: u64
  rp_waddr :: u64
  rp_wrange :: u64
  rp_stream_id :: u64
  rp_flow_id :: u32
  rp_completed :: bool

text \<open>What a probed device holds of the kernel.\<close>

datatype holding = DeviceData | InterruptLine | RegisterMapping | DeviceName | MiscDevice

record driver = device +
  dr_atp_id :: string
  dr_play_requests :: "(nat \<times> play_stream_request) list"
  dr_next_play_request_id :: u32
  dr_mmio :: u64
  dr_allocations :: nat
  dr_held :: "holding list"

type_synonym ('z, 'a) driver_op = "('z driver_scheme, 'a) comp"

datatype direction = DMA_TO_DEVICE | DMA_FROM_DEVICE

record 's kernel =
  kn_platform :: platform
  kn_alloc :: "nat \<Rightarrow> bool"
  kn_dma_buf_get :: "int \<Rightarrow> ('s, int + nat) comp"
  kn_dma_buf_put :: "nat \<Rightarrow> ('s, unit) comp"
  kn_dma_buf_attach :: "nat \<Rightarrow> nat \<Rightarrow> ('s, int + nat) comp"
  kn_dma_buf_detach :: "nat \<Rightarrow> nat \<Rightarrow> ('s, unit) comp"
  kn_attachments :: "nat \<Rightarrow> 's \<Rightarrow> (nat \<times> nat) list"
  kn_size :: "nat \<Rightarrow> 's \<Rightarrow> u64"
  kn_map_attachment :: "nat \<Rightarrow> direction \<Rightarrow> ('s, int + u64) comp"
  kn_map_single :: "string \<Rightarrow> ('s, int + u64) comp"
  kn_unmap_single :: "u64 \<Rightarrow> ('s, unit) comp"
  kn_wait :: "nat \<Rightarrow> ('s, int) comp"
  kn_meanwhile :: "nat \<Rightarrow> ('s, unit) comp"
  kn_polls :: nat

definition EINVAL :: int where "EINVAL = 22"
definition EFAULT :: int where "EFAULT = 14"

text \<open>The offsets of the driver's own header.\<close>

fun atp_device_offset :: "offset \<Rightarrow> u64" where
  "atp_device_offset STREAM_NAME_BASE = 0x00"
| "atp_device_offset STREAM_NAME_RANGE = 0x08"
| "atp_device_offset READ_BASE = 0x10"
| "atp_device_offset READ_RANGE = 0x18"
| "atp_device_offset WRITE_BASE = 0x20"
| "atp_device_offset WRITE_RANGE = 0x28"
| "atp_device_offset STREAM_ID = 0x30"
| "atp_device_offset TASK_ID = 0x38"
| "atp_device_offset IN_REQUEST_ID = 0x3c"
| "atp_device_offset OUT_REQUEST_ID = 0x40"
| "atp_device_offset CONTROL = 0x44"
| "atp_device_offset STATUS = 0x45"

definition CTRL_DMA_W :: "8 word" where "CTRL_DMA_W = 0x1"
definition CTRL_DMA_RW :: "8 word" where "CTRL_DMA_RW = 0x3"
definition CTRL_PLAY :: "8 word" where "CTRL_PLAY = 0x4"
definition CTRL_INT_ACK :: "8 word" where "CTRL_INT_ACK = 0x8"
definition CTRL_UNIQUE :: "8 word" where "CTRL_UNIQUE = 0xC"

definition io_write :: "platform \<Rightarrow> nat \<Rightarrow> u64 \<Rightarrow> offset \<Rightarrow> ('z, unit) driver_op" where
  "io_write pl len v r = bindS getS (\<lambda>s. mmio_write pl (dr_mmio s + atp_device_offset r) len v)"

definition io_read :: "nat \<Rightarrow> offset \<Rightarrow> ('z, u64) driver_op" where
  "io_read len r = bindS getS (\<lambda>s. mmio_read (dr_mmio s + atp_device_offset r) len)"

section \<open>Requests\<close>

text \<open>\<^verbatim>\<open>kzalloc\<close>; the driver uses the object without a check, so a failure has no meaning.\<close>

definition kzalloc :: "'z driver_scheme kernel \<Rightarrow> ('z, nat) driver_op" where
  "kzalloc kn = bindS getS (\<lambda>s.
    thenS (modifyS (\<lambda>s. s\<lparr>dr_allocations := Suc (dr_allocations s)\<rparr>))
    (if kn_alloc kn (dr_allocations s) then returnS (dr_allocations s)
     else failS (Undefined ''null pointer'')))"

definition request_get_play_stream :: "'z driver_scheme kernel \<Rightarrow> u64 \<Rightarrow> u32 \<Rightarrow> ('z, nat) driver_op" where
  "request_get_play_stream kn stream_id flow_id =
    bindS (kzalloc kn) (\<lambda>ptr.
    thenS (modifyS (\<lambda>s. s\<lparr>
      dr_play_requests := (ptr, \<lparr>rp_id = dr_next_play_request_id s, rp_raddr = 0, rp_rrange = 0, rp_waddr = 0,
        rp_wrange = 0, rp_stream_id = stream_id, rp_flow_id = flow_id, rp_completed = False\<rparr>) # dr_play_requests s,
      dr_next_play_request_id := dr_next_play_request_id s + 1\<rparr>))
    (returnS ptr))"

definition request_get_play_stream_by_id :: "u32 \<Rightarrow> 'z driver_scheme \<Rightarrow> nat option" where
  "request_get_play_stream_by_id req_id s =
    map_option fst (List.find (\<lambda>(ptr, r). rp_id r = req_id) (dr_play_requests s))"

text \<open>Deleting from the list and freeing an object that is not there has no meaning.\<close>

definition request_put_play_stream :: "nat \<Rightarrow> ('z, unit) driver_op" where
  "request_put_play_stream ptr = bindS getS (\<lambda>s.
    if map_of (dr_play_requests s) ptr = None then failS (Undefined ''list_del'')
    else modifyS (\<lambda>s. s\<lparr>dr_play_requests := AList.delete ptr (dr_play_requests s)\<rparr>))"

definition set_request :: "nat \<Rightarrow> (play_stream_request \<Rightarrow> play_stream_request) \<Rightarrow> ('z, unit) driver_op" where
  "set_request ptr f = modifyS (\<lambda>s. s\<lparr>dr_play_requests := AList.map_ran (\<lambda>p r. if p = ptr then f r else r) (dr_play_requests s)\<rparr>)"

section \<open>Programming the device\<close>

text \<open>
  The wait for a non-zero STATUS. Nothing in the driver bounds it; \<open>n\<close> bounds the reads.
\<close>

fun poll_status :: "'z driver_scheme kernel \<Rightarrow> nat \<Rightarrow> ('z, unit) driver_op" where
  "poll_status kn 0 = failS OutOfFuel"
| "poll_status kn (Suc n) = bindS (io_read 1 STATUS) (\<lambda>status.
    if status \<noteq> 0 then returnS () else thenS (kn_meanwhile kn n) (poll_status kn n))"

definition play_control :: "play_stream_request \<Rightarrow> 8 word" where
  "play_control r = (let c = CTRL_PLAY;
     c = (if rp_wrange r \<noteq> 0 then or c CTRL_DMA_W else c)
   in if rp_rrange r \<noteq> 0 \<and> rp_wrange r \<noteq> 0 then or c CTRL_DMA_RW else c)"

definition atp_device_mmio_play_stream :: "'z driver_scheme kernel \<Rightarrow> play_stream_request \<Rightarrow> ('z, unit) driver_op" where
  "atp_device_mmio_play_stream kn r = (let pl = kn_platform kn in
    thenS (whenS (rp_rrange r \<noteq> 0) (thenS (io_write pl 8 (rp_raddr r) READ_BASE) (io_write pl 8 (rp_rrange r) READ_RANGE)))
    (thenS (whenS (rp_wrange r \<noteq> 0) (thenS (io_write pl 8 (rp_waddr r) WRITE_BASE) (io_write pl 8 (rp_wrange r) WRITE_RANGE)))
    (thenS (io_write pl 8 (rp_stream_id r) STREAM_ID)
    (thenS (io_write pl 4 (ucast (rp_flow_id r)) TASK_ID)
    (thenS (io_write pl 4 (ucast (rp_id r)) IN_REQUEST_ID)
    (thenS (io_write pl 1 (ucast (play_control r)) CONTROL)
    (thenS (poll_status kn (kn_polls kn))
    (io_write pl 1 0 STATUS))))))))"

definition atp_device_mmio_unique_stream :: "'z driver_scheme kernel \<Rightarrow> u64 \<Rightarrow> u64 \<Rightarrow> ('z, u64) driver_op" where
  "atp_device_mmio_unique_stream kn stream_name_addr stream_name_range = (let pl = kn_platform kn in
    thenS (io_write pl 8 stream_name_addr STREAM_NAME_BASE)
    (thenS (io_write pl 8 stream_name_range STREAM_NAME_RANGE)
    (thenS (io_write pl 1 (ucast CTRL_UNIQUE) CONTROL)
    (thenS (poll_status kn (kn_polls kn))
    (thenS (io_write pl 1 0 STATUS)
    (io_read 8 STREAM_ID))))))"

section \<open>Interrupts\<close>

datatype irqreturn = IRQ_NONE | IRQ_HANDLED

definition atp_device_isr :: "'z driver_scheme kernel \<Rightarrow> ('z, irqreturn) driver_op" where
  "atp_device_isr kn =
    bindS (io_read 4 OUT_REQUEST_ID) (\<lambda>req_id.
    thenS (io_write (kn_platform kn) 1 (ucast CTRL_INT_ACK) CONTROL)
    (bindS (readS (request_get_play_stream_by_id (ucast req_id))) (\<lambda>found.
     case found of
       None \<Rightarrow> returnS IRQ_NONE
     | Some ptr \<Rightarrow> thenS (set_request ptr (\<lambda>r. r\<lparr>rp_completed := True\<rparr>)) (returnS IRQ_HANDLED))))"

section \<open>System calls\<close>

record play_stream_data =
  pd_atp_stream_id :: u64
  pd_flow_id :: u32
  pd_read_fd :: int
  pd_write_fd :: int

text \<open>
  The argument of each call as \<^verbatim>\<open>copy_from_user\<close> returns it, None for a fault; for a unique stream
  the name as \<^verbatim>\<open>strndup_user\<close> returns it, and whether the result can be copied back.
\<close>

datatype ioctl_call =
    ATP_ATTACH_BUFFER "int option"
  | ATP_DETACH_BUFFER "int option"
  | ATP_PLAY_STREAM "play_stream_data option"
  | ATP_UNIQUE_STREAM "string option option" bool

definition dev_id :: nat where "dev_id = 0"

text \<open>\<^verbatim>\<open>handle_error\<close> is the pattern \<^verbatim>\<open>if (IS_ERR(x)) return PTR_ERR(x)\<close>.\<close>

definition handle_error :: "('s, int + 'a) comp \<Rightarrow> ('a \<Rightarrow> ('s, int + 'b) comp) \<Rightarrow> ('s, int + 'b) comp" where
  "handle_error m f = bindS m (\<lambda>r. case r of Inl e \<Rightarrow> returnS (Inl e) | Inr x \<Rightarrow> f x)"

definition atp_device_attachment_get :: "'s kernel \<Rightarrow> nat \<Rightarrow> ('s, int + nat) comp" where
  "atp_device_attachment_get kn buf = readS (\<lambda>s.
    case List.find (\<lambda>(att, dev). dev = dev_id) (kn_attachments kn buf s) of
      None \<Rightarrow> Inl (- EINVAL) | Some (att, dev) \<Rightarrow> Inr att)"

definition atp_device_attachment_map :: "'s kernel \<Rightarrow> int \<Rightarrow> direction \<Rightarrow> ('s, int + u64 \<times> u64) comp" where
  "atp_device_attachment_map kn buf_fd dir =
    handle_error (kn_dma_buf_get kn buf_fd) (\<lambda>buf.
    thenS (kn_dma_buf_put kn buf)
    (handle_error (atp_device_attachment_get kn buf) (\<lambda>att.
     handle_error (kn_map_attachment kn att dir) (\<lambda>addr.
     readS (\<lambda>s. Inr (addr, kn_size kn buf s))))))"

definition result_code :: "int + unit \<Rightarrow> int" where
  "result_code r = (case r of Inl e \<Rightarrow> e | Inr u \<Rightarrow> 0)"

definition ioctl_attach :: "'s kernel \<Rightarrow> int \<Rightarrow> ('s, int + unit) comp" where
  "ioctl_attach kn fd =
    handle_error (kn_dma_buf_get kn fd) (\<lambda>buf.
    bindS (kn_dma_buf_attach kn buf dev_id) (\<lambda>r. case r of
      Inl e \<Rightarrow> thenS (kn_dma_buf_put kn buf) (returnS (Inl e))
    | Inr att \<Rightarrow> returnS (Inr ())))"

definition ioctl_detach :: "'s kernel \<Rightarrow> int \<Rightarrow> ('s, int + unit) comp" where
  "ioctl_detach kn fd =
    handle_error (kn_dma_buf_get kn fd) (\<lambda>buf.
    thenS (kn_dma_buf_put kn buf)
    (handle_error (atp_device_attachment_get kn buf) (\<lambda>att.
     thenS (kn_dma_buf_detach kn buf att) (thenS (kn_dma_buf_put kn buf) (returnS (Inr ()))))))"

definition map_buffer :: "'z driver_scheme kernel \<Rightarrow> int \<Rightarrow> direction \<Rightarrow>
    (u64 \<times> u64 \<Rightarrow> play_stream_request \<Rightarrow> play_stream_request) \<Rightarrow> nat \<Rightarrow> ('z, int + unit) driver_op" where
  "map_buffer kn fd dir upd ptr =
    (if fd = -1 then returnS (Inr ())
     else handle_error (atp_device_attachment_map kn fd dir) (\<lambda>m.
       thenS (set_request ptr (upd m)) (returnS (Inr ()))))"

text \<open>The body of the call between getting and putting the request; every error goes to the end.\<close>

definition play_body :: "'z driver_scheme kernel \<Rightarrow> play_stream_data \<Rightarrow> nat \<Rightarrow> ('z, int + unit) driver_op" where
  "play_body kn d ptr =
    handle_error (map_buffer kn (pd_read_fd d) DMA_TO_DEVICE
      (\<lambda>(a, n) r. r\<lparr>rp_raddr := a, rp_rrange := n\<rparr>) ptr) (\<lambda>_.
    handle_error (map_buffer kn (pd_write_fd d) DMA_FROM_DEVICE
      (\<lambda>(a, n) r. r\<lparr>rp_waddr := a, rp_wrange := n\<rparr>) ptr) (\<lambda>_.
    bindS (readS (\<lambda>s. map_of (dr_play_requests s) ptr)) (\<lambda>r.
    case r of None \<Rightarrow> failS (Undefined ''use after free'') | Some r \<Rightarrow>
    thenS (atp_device_mmio_play_stream kn r)
    (bindS (kn_wait kn ptr) (\<lambda>e. returnS (if e = 0 then Inr () else Inl e))))))"

definition ioctl_play :: "'z driver_scheme kernel \<Rightarrow> play_stream_data \<Rightarrow> ('z, int) driver_op" where
  "ioctl_play kn d =
    (if pd_read_fd d = -1 \<and> pd_write_fd d = -1 then returnS (- EINVAL)
     else bindS (request_get_play_stream kn (pd_atp_stream_id d) (pd_flow_id d)) (\<lambda>ptr.
       bindS (play_body kn d ptr) (\<lambda>res.
       thenS (request_put_play_stream ptr) (returnS (result_code res)))))"

text \<open>The result of \<open>ioctl_unique\<close> is the code and the stream id that was copied back.\<close>

definition ioctl_unique :: "'z driver_scheme kernel \<Rightarrow> string \<Rightarrow> bool \<Rightarrow> ('z, int \<times> u64 option) driver_op" where
  "ioctl_unique kn stream_name copied =
    bindS (kn_map_single kn stream_name) (\<lambda>m. case m of
      Inl e \<Rightarrow> returnS (e, None)
    | Inr addr \<Rightarrow>
        bindS (atp_device_mmio_unique_stream kn addr (of_nat (length stream_name))) (\<lambda>i.
        thenS (kn_unmap_single kn addr)
        (returnS (if copied then (0, Some i) else (- EFAULT, None)))))"

definition atp_device_ioctl :: "'z driver_scheme kernel \<Rightarrow> ioctl_call \<Rightarrow> ('z, int \<times> u64 option) driver_op" where
  "atp_device_ioctl kn c = (case c of
     ATP_ATTACH_BUFFER None \<Rightarrow> returnS (- EFAULT, None)
   | ATP_ATTACH_BUFFER (Some fd) \<Rightarrow> bindS (ioctl_attach kn fd) (\<lambda>r. returnS (result_code r, None))
   | ATP_DETACH_BUFFER None \<Rightarrow> returnS (- EFAULT, None)
   | ATP_DETACH_BUFFER (Some fd) \<Rightarrow> bindS (ioctl_detach kn fd) (\<lambda>r. returnS (result_code r, None))
   | ATP_PLAY_STREAM None \<Rightarrow> returnS (- EFAULT, None)
   | ATP_PLAY_STREAM (Some d) \<Rightarrow> bindS (ioctl_play kn d) (\<lambda>e. returnS (e, None))
   | ATP_UNIQUE_STREAM None copied \<Rightarrow> returnS (- EFAULT, None)
   | ATP_UNIQUE_STREAM (Some name) copied \<Rightarrow>
       bindS (kzalloc kn) (\<lambda>req. case name of
         None \<Rightarrow> failS (Undefined ''strlen'')
       | Some n \<Rightarrow> ioctl_unique kn n copied))"

section \<open>Discovery and removal\<close>

text \<open>
  The answers of the kernel while it discovers a device, zero or a value for success, and the size of
  the object that an allocation of a size returns.
\<close>

record discovery =
  dc_atp_id :: "int + string"
  dc_dma_mask :: int
  dc_irq :: int
  dc_resource :: bool
  dc_request_irq :: int
  dc_ioremap :: "int + u64"
  dc_misc_register :: int
  dc_ksize :: "nat \<Rightarrow> nat"

definition EIO :: int where "EIO = 5"

definition hold :: "holding \<Rightarrow> ('z, unit) driver_op" where
  "hold h = modifyS (\<lambda>s. s\<lparr>dr_held := h # dr_held s\<rparr>)"

definition release :: "holding \<Rightarrow> ('z, unit) driver_op" where
  "release h = bindS getS (\<lambda>s. if h \<in> set (dr_held s) then modifyS (\<lambda>s. s\<lparr>dr_held := remove1 h (dr_held s)\<rparr>)
     else failS (Undefined ''kfree''))"

text \<open>The labels \<^verbatim>\<open>err\<close>, \<^verbatim>\<open>err1\<close> and \<^verbatim>\<open>err2\<close>.\<close>

definition err :: "int \<Rightarrow> ('z, int) driver_op" where
  "err e = thenS (release DeviceData) (returnS e)"

definition err1 :: "int \<Rightarrow> ('z, int) driver_op" where
  "err1 e = thenS (release InterruptLine) (err e)"

definition err2 :: "int \<Rightarrow> ('z, int) driver_op" where
  "err2 e = thenS (release DeviceName) (thenS (release RegisterMapping) (err1 e))"

text \<open>
  The name is allocated without room for the terminating zero, so writing it is within the object
  only when the allocator returned more than it was asked for.
\<close>

definition atp_device_probe :: "'z driver_scheme kernel \<Rightarrow> discovery \<Rightarrow> ('z, int) driver_op" where
  "atp_device_probe kn d =
    bindS (kzalloc kn) (\<lambda>_. thenS (hold DeviceData)
    (case dc_atp_id d of Inl e \<Rightarrow> err e | Inr i \<Rightarrow>
     thenS (modifyS (\<lambda>s. s\<lparr>dr_atp_id := i, dr_play_requests := [], dr_next_play_request_id := 1\<rparr>))
     (if dc_dma_mask d \<noteq> 0 then err (dc_dma_mask d)
      else if dc_irq d < 0 then err (dc_irq d)
      else if \<not> dc_resource d then err (- EIO)
      else if dc_request_irq d \<noteq> 0 then err (dc_request_irq d)
      else thenS (hold InterruptLine)
      (case dc_ioremap d of Inl e \<Rightarrow> err1 e | Inr a \<Rightarrow>
       thenS (thenS (hold RegisterMapping) (modifyS (\<lambda>s. s\<lparr>dr_mmio := a\<rparr>)))
       (bindS (kzalloc kn) (\<lambda>_. thenS (hold DeviceName)
        (if dc_ksize d (length ''atp'' + length i) < length (''atp'' @ i) + 1 then failS (Undefined ''strcat'')
         else if dc_misc_register d \<noteq> 0 then err2 (dc_misc_register d)
         else thenS (hold MiscDevice) (returnS 0))))))))"

definition atp_device_remove :: "('z, int) driver_op" where
  "atp_device_remove =
    thenS (release MiscDevice) (thenS (release DeviceName) (thenS (release RegisterMapping)
    (thenS (release InterruptLine)
    (thenS (bindS getS (\<lambda>s. eachS (\<lambda>(ptr, r). request_put_play_stream ptr) (dr_play_requests s)))
    (thenS (release DeviceData) (returnS 0))))))"

end
