(* ===== verification/Driver_Laws.thy ===== *)
theory Driver_Laws
  imports Linux_Driver Device_Laws
begin

text \<open>
  The driver and the device together: a request goes through the registers unchanged, one with both
  directions does not, interrupts complete the requests in the order of the device, a stream is
  created through the registers, and a failed discovery holds nothing.
\<close>

section \<open>Registers\<close>

text \<open>Both headers give every register the same offset, and the device recognises it.\<close>

lemma offsets_agree: "atp_device_offset r = offset_addr r"
  by (cases r) simp_all

lemma decode_offset_addr [simp]: "decode_offset (offset_addr r) = Some r"
  by (cases r) (simp_all add: decode_offset_def)

definition mapped :: "'z driver_scheme \<Rightarrow> bool" where
  "mapped s \<longleftrightarrow> dr_mmio s = dv_pioAddr s"

lemma io_write_run: "mapped s \<Longrightarrow> io_write pl len v r s = write_register pl (offset_addr r) (Some r) len v s"
  by (simp add: io_write_def mmio_write_def bindS_def mapped_def offsets_agree)

lemma io_read_run:
  "mapped s \<Longrightarrow> io_read 8 STREAM_ID s = Inr (rg_streamId (dv_regs s), s)"
  "mapped s \<Longrightarrow> io_read 4 OUT_REQUEST_ID s = Inr (ucast (rg_outRequestId (dv_regs s)), s)"
  "mapped s \<Longrightarrow> io_read 1 STATUS s = Inr (ucast (rg_status (dv_regs s)), s)"
  using decode_offset_addr [of STREAM_ID] decode_offset_addr [of OUT_REQUEST_ID] decode_offset_addr [of STATUS]
  by (simp_all add: io_read_def mmio_read_def bindS_def mapped_def sized_def Let_def)

section \<open>Playing a stream\<close>

definition same_bus :: "'z driver_scheme \<Rightarrow> 'z driver_scheme \<Rightarrow> bool" where
  "same_bus s t \<longleftrightarrow> dv_pioAddr t = dv_pioAddr s \<and> dr_mmio t = dr_mmio s \<and> dv_regs t = dv_regs s
    \<and> dr_play_requests t = dr_play_requests s"

interpretation bus: step_relation same_bus
  by unfold_locales (auto simp: same_bus_def)

lemma bus_engine: "keeps same_bus (on_engine m)"
  by (auto simp: keeps_def on_engine_def same_bus_def split: sum.splits)

lemma bus_scheduleUpdate: "keeps same_bus (scheduleUpdate pl w)"
  unfolding scheduleUpdate_def by (rule bus.keeps_modify) (auto simp: same_bus_def split: option.split)

lemmas bus_rules = bus.keeps_all bus_engine bus_scheduleUpdate bus.keeps_modify

lemma bus_submit: "keeps same_bus (submit pl i str req)"
  unfolding submit_def serveRequest_def configureDmaOp_def configureStream_def activateStream_def
    set_stream_def stream_at_def scheduleNow_def
  by (intro bus_rules) (simp_all add: same_bus_def)

text \<open>The registers after the driver has written a request, and the kind of the request.\<close>

definition programmed :: "play_stream_request \<Rightarrow> registers \<Rightarrow> registers" where
  "programmed r g =
    (let g = (if rp_rrange r \<noteq> 0 then g\<lparr>rg_readBase := rp_raddr r, rg_readRange := rp_rrange r\<rparr> else g);
         g = (if rp_wrange r \<noteq> 0 then g\<lparr>rg_writeBase := rp_waddr r, rg_writeRange := rp_wrange r\<rparr> else g)
     in g\<lparr>rg_streamId := rp_stream_id r, rg_taskId := rp_flow_id r, rg_inRequestId := rp_id r,
          rg_control := play_control r\<rparr>)"

lemma program_run:
  assumes "mapped s"
  shows "atp_device_mmio_play_stream kn r s =
    thenS (control_handler (kn_platform kn)) (thenS (poll_status kn (kn_polls kn)) (io_write (kn_platform kn) 1 0 STATUS))
      (s\<lparr>dv_regs := programmed r (dv_regs s)\<rparr>)"
  using assms
  by (simp add: atp_device_mmio_play_stream_def Let_def thenS_def bindS_def io_write_run mapped_def
      write_register_def sized_def set_regs_def programmed_def unsigned_ucast_eq take_bit_word_eq_self)

lemma play_control_bits:
  "bit (play_control r) 2" "\<not> bit (play_control r) 3"
  "bit (play_control r) 0 \<longleftrightarrow> rp_wrange r \<noteq> 0" "bit (play_control r) (Suc 0) \<longleftrightarrow> rp_rrange r \<noteq> 0 \<and> rp_wrange r \<noteq> 0"
  by (simp_all add: play_control_def Let_def CTRL_PLAY_def CTRL_DMA_W_def CTRL_DMA_RW_def bit_or_iff bit_simps)

lemma programmed_fields:
  "rg_streamId (programmed r g) = rp_stream_id r" "rg_control (programmed r g) = play_control r"
  "rg_inRequestId (programmed r g) = rp_id r" "rg_taskId (programmed r g) = rp_flow_id r"
  by (simp_all add: programmed_def Let_def)

lemma poll_ready:
  "mapped s \<Longrightarrow> rg_status (dv_regs s) = 1 \<Longrightarrow> 0 < n \<Longrightarrow> poll_status kn n s = Inr ((), s)"
  using io_read_run(3) [of s] by (cases n) (simp_all add: bindS_def)

text \<open>
  C6. Programming the registers is the same as handing the request over. For a request with one
  buffer on a known stream, what the driver writes and reads amounts to submitting, to the stream it
  names, a request with its id, its flow id, its direction and the address and range of its buffer;
  one look at STATUS is enough, and STATUS is clear afterwards.
\<close>

theorem driver_play_is_submit:
  assumes "mapped s" and "map_of (dv_streams s) (rp_stream_id r) = Some str"
    and "(rp_rrange r = 0) \<noteq> (rp_wrange r = 0)" and "0 < kn_polls kn"
  shows "\<exists>req g. pq_id req = rp_id r \<and> pq_taskId req = rp_flow_id r
    \<and> (rp_wrange r = 0 \<longrightarrow> pq_dmaOp req = DMA_READ \<and> pq_readBase req = rp_raddr r \<and> pq_readRange req = rp_rrange r)
    \<and> (rp_rrange r = 0 \<longrightarrow> pq_dmaOp req = DMA_WRITE \<and> pq_writeBase req = rp_waddr r \<and> pq_writeRange req = rp_wrange r)
    \<and> atp_device_mmio_play_stream kn r s =
        (case submit (kn_platform kn) (rp_stream_id r) str req (s\<lparr>dv_regs := g\<rparr>) of
           Inl e \<Rightarrow> Inl e | Inr (u, t) \<Rightarrow> Inr ((), t\<lparr>dv_regs := g\<lparr>rg_status := 0\<rparr>\<rparr>))"
proof -
  let ?g = "programmed r (dv_regs s)" and ?op = "if rp_wrange r = 0 then DMA_READ else DMA_WRITE"
  let ?s = "s\<lparr>dv_regs := ?g\<rparr>" and ?req = "request_of ?g ?op" and ?pl = "kn_platform kn"
  have op: "extractDmaOp (play_control r) = Inr ?op"
    using assms(3) by (auto simp: extractDmaOp_def play_control_bits)
  have "control_handler ?pl ?s = thenS (submit ?pl (rp_stream_id r) str ?req) (set_regs (\<lambda>g. g\<lparr>rg_status := 1\<rparr>)) ?s"
    by (simp add: control_handler_def bindS_def Let_def programmed_fields play_control_bits playStreamHandler_def
        assms(2) op)
  then have run: "atp_device_mmio_play_stream kn r s =
    thenS (thenS (submit ?pl (rp_stream_id r) str ?req) (set_regs (\<lambda>g. g\<lparr>rg_status := 1\<rparr>)))
      (thenS (poll_status kn (kn_polls kn)) (io_write ?pl 1 0 STATUS)) ?s"
    by (simp add: program_run [OF assms(1)] thenS_def bindS_def)
  have "atp_device_mmio_play_stream kn r s = (case submit ?pl (rp_stream_id r) str ?req ?s of
           Inl e \<Rightarrow> Inl e | Inr (u, t) \<Rightarrow> Inr ((), t\<lparr>dv_regs := ?g\<lparr>rg_status := 0\<rparr>\<rparr>))"
  proof (cases "submit ?pl (rp_stream_id r) str ?req ?s")
    case (Inl e)
    then show ?thesis by (simp add: run thenS_def bindS_def)
  next
    case (Inr ut)
    then obtain u t where t: "submit ?pl (rp_stream_id r) str ?req ?s = Inr (u, t)" by (cases ut) auto
    let ?t = "t\<lparr>dv_regs := (dv_regs t)\<lparr>rg_status := 1\<rparr>\<rparr>"
    from keepsD [OF bus_submit t] assms(1) have m: "mapped ?t" and g: "dv_regs t = ?g"
      by (auto simp: same_bus_def mapped_def)
    have p: "poll_status kn (kn_polls kn) ?t = Inr ((), ?t)" by (rule poll_ready [OF m _ assms(4)]) simp
    show ?thesis
      by (simp add: run t thenS_def bindS_def set_regs_def p io_write_run [OF m] write_register_def sized_def)
        (simp add: g)
  qed
  then show ?thesis
    using assms(3) by (intro exI [of _ ?req] exI [of _ ?g])
      (auto simp: request_of_def programmed_def Let_def)
qed

text \<open>
  C32. A request with a buffer to read and a buffer to write ends the simulation. The driver sets both
  bits of the direction in CONTROL; the device takes the upper bit alone for both directions and
  calls the value of the driver invalid, whatever the request.
\<close>

theorem read_write_request_is_fatal:
  assumes "mapped s" and "map_of (dv_streams s) (rp_stream_id r) = Some str"
    and "rp_rrange r \<noteq> 0" and "rp_wrange r \<noteq> 0"
  shows "atp_device_mmio_play_stream kn r s = Inl (ErrorExit ''ATP::Device::extractDmaOp'')"
proof -
  have "extractDmaOp (play_control r) = Inl (ErrorExit ''ATP::Device::extractDmaOp'')"
    using assms(3,4) by (simp add: extractDmaOp_def play_control_bits)
  then show ?thesis
    by (simp add: program_run [OF assms(1)] control_handler_def thenS_def bindS_def Let_def programmed_fields
        play_control_bits playStreamHandler_def assms(2))
qed

section \<open>Interrupts\<close>

definition complete :: "u32 \<Rightarrow> play_stream_request \<Rightarrow> play_stream_request" where
  "complete i r = (if rp_id r = i then r\<lparr>rp_completed := True\<rparr> else r)"

abbreviation ids :: "'z driver_scheme \<Rightarrow> u32 list" where
  "ids s \<equiv> map (rp_id \<circ> snd) (dr_play_requests s)"

lemma find_by_id:
  assumes "distinct (map fst xs)" and "distinct (map (rp_id \<circ> snd) xs)"
  shows "case List.find (\<lambda>(p, r). rp_id r = i) xs of
      None \<Rightarrow> map (\<lambda>(p, r). (p, complete i r)) xs = xs
    | Some (q, r) \<Rightarrow> AList.map_ran (\<lambda>p r. if p = q then r\<lparr>rp_completed := True\<rparr> else r) xs = map (\<lambda>(p, r). (p, complete i r)) xs"
proof -
  have "map (\<lambda>(p, r). (p, complete i r)) xs = xs" if "List.find (\<lambda>(p, r). rp_id r = i) xs = None"
    using that by (auto simp: find_None_iff complete_def intro!: map_idI)
  moreover have "AList.map_ran (\<lambda>p r. if p = q then r\<lparr>rp_completed := True\<rparr> else r) xs = map (\<lambda>(p, r). (p, complete i r)) xs"
    if "List.find (\<lambda>(p, r). rp_id r = i) xs = Some (q, r)" for q r
  proof -
    from that have q: "(q, r) \<in> set xs" "rp_id r = i" by (auto simp: find_Some_iff in_set_conv_nth)
    have "p = q \<longleftrightarrow> rp_id r' = i" if "(p, r') \<in> set xs" for p r'
      using q that assms by (auto simp: distinct_map inj_on_def) fastforce+
    then show ?thesis by (auto simp: map_ran_def complete_def)
  qed
  ultimately show ?thesis by (auto split: option.split)
qed

definition interrupted :: "u32 list \<Rightarrow> 'z driver_scheme \<Rightarrow> bool" where
  "interrupted cs s \<longleftrightarrow> mapped s \<and> completions s = cs \<and> dv_interrupt s = (cs \<noteq> [])
    \<and> dv_intAckPending s = (cs \<noteq> []) \<and> distinct (map fst (dr_play_requests s)) \<and> distinct (ids s)"

lemma interrupted_requests:
  "interrupted cs s \<Longrightarrow> map fst ys = map fst (dr_play_requests s) \<Longrightarrow> map (rp_id \<circ> snd) ys = ids s \<Longrightarrow>
    interrupted cs (s\<lparr>dr_play_requests := ys\<rparr>)"
  unfolding interrupted_def by (cases "dv_intAckPending s") (simp_all add: mapped_def completions_def)

lemma isr_run:
  assumes "interrupted (c # cs) s"
  shows "\<exists>t r. atp_device_isr kn s = Inr (r, t) \<and> interrupted cs t
    \<and> (r = IRQ_HANDLED \<longleftrightarrow> c \<in> set (ids s))
    \<and> dr_play_requests t = map (\<lambda>(p, r). (p, complete c r)) (dr_play_requests s)"
proof -
  let ?s = "s\<lparr>dv_regs := (dv_regs s)\<lparr>rg_control := 8\<rparr>\<rparr>"
  from assms have m: "mapped s" and c: "rg_outRequestId (dv_regs s) = c" "dv_servedRequests s = cs"
    and d: "distinct (map fst (dr_play_requests s))" "distinct (ids s)"
    by (auto simp: interrupted_def completions_def)
  obtain s1 where s1: "intAckHandler ?s = Inr ((), s1)" and q: "interrupted cs s1"
    and p: "dr_play_requests s1 = dr_play_requests s"
    using assms c by (cases cs) (auto simp: intAckHandler_def thenS_def bindS_def notifyServedRequest_def
        interrupted_def mapped_def completions_def)
  have w: "io_write (kn_platform kn) 1 (ucast CTRL_INT_ACK) CONTROL s = Inr ((), s1)"
    by (simp add: io_write_run [OF m] write_register_def sized_def set_regs_def thenS_def bindS_def
        control_handler_def CTRL_INT_ACK_def Let_def s1 bit_numeral_rec)
  have f: "request_get_play_stream_by_id c s1 = map_option fst (List.find (\<lambda>(p, r). rp_id r = c) (dr_play_requests s))"
    by (simp add: request_get_play_stream_by_id_def p)
  have r: "atp_device_isr kn s = (case request_get_play_stream_by_id c s1 of None \<Rightarrow> Inr (IRQ_NONE, s1)
      | Some ptr \<Rightarrow> Inr (IRQ_HANDLED, s1\<lparr>dr_play_requests :=
          AList.map_ran (\<lambda>p r. if p = ptr then r\<lparr>rp_completed := True\<rparr> else r) (dr_play_requests s)\<rparr>))"
    using io_read_run(2) [OF m] w
    by (auto simp: atp_device_isr_def bindS_def thenS_def c unsigned_ucast_eq take_bit_word_eq_self p set_request_def split: option.split)
  have i: "interrupted cs (s1\<lparr>dr_play_requests := map (\<lambda>(p, r). (p, complete c r)) (dr_play_requests s)\<rparr>)"
    by (rule interrupted_requests [OF q]) (auto simp: p complete_def)
  show ?thesis
  proof (cases "List.find (\<lambda>(p, r). rp_id r = c) (dr_play_requests s)")
    case None
    with find_by_id [OF d, of c] have "map (\<lambda>(p, r). (p, complete c r)) (dr_play_requests s) = dr_play_requests s" by simp
    moreover from None have "c \<notin> set (ids s)" by (fastforce simp: find_None_iff)
    ultimately show ?thesis using None r f q p by simp
  next
    case (Some x)
    obtain ptr y where x: "x = (ptr, y)" by (cases x)
    with find_by_id [OF d, of c] Some have "AList.map_ran (\<lambda>p r. if p = ptr then r\<lparr>rp_completed := True\<rparr> else r) (dr_play_requests s)
      = map (\<lambda>(p, r). (p, complete c r)) (dr_play_requests s)" by simp
    moreover from Some x have "c \<in> set (ids s)" by (force simp: find_Some_iff intro: rev_image_eqI nth_mem)
    ultimately show ?thesis using Some r f i x by simp
  qed
qed

lemma isrs_run:
  assumes "interrupted cs s" and "length xs = length cs"
  shows "\<exists>t. eachS (\<lambda>_. silent (atp_device_isr kn)) (xs :: nat list) s = Inr ((), t) \<and> interrupted [] t
      \<and> dr_play_requests t = map (\<lambda>(p, r). (p, r\<lparr>rp_completed := rp_completed r \<or> rp_id r \<in> set cs\<rparr>)) (dr_play_requests s)"
  using assms
proof (induction cs arbitrary: xs s)
  case Nil
  then show ?case by (auto intro!: map_idI [symmetric])
next
  case (Cons c cs)
  then obtain x ys where xs: "xs = x # ys" "length ys = length cs" by (cases xs) auto
  from isr_run [OF Cons.prems(1), of kn] obtain s1 r where s1: "atp_device_isr kn s = Inr (r, s1)"
    "interrupted cs s1" "dr_play_requests s1 = map (\<lambda>(p, r). (p, complete c r)) (dr_play_requests s)" by blast
  from Cons.IH [OF s1(2) xs(2)] obtain t where "eachS (\<lambda>_. silent (atp_device_isr kn)) ys s1 = Inr ((), t)"
    "interrupted [] t" and p: "dr_play_requests t =
      map (\<lambda>(p, r). (p, r\<lparr>rp_completed := rp_completed r \<or> rp_id r \<in> set cs\<rparr>)) (dr_play_requests s1)" by blast
  moreover have "silent (atp_device_isr kn) s = Inr ((), s1)" by (simp add: silent_def bindS_def s1(1))
  ultimately show ?case using s1(3)
    by (auto simp: xs(1) thenS_eq_Inr complete_def)
qed

text \<open>
  C33. Interrupts complete every request the device has finished, in its order. The interrupt stays up
  as long as completions are left; as many calls of the service routine as there are completions
  mark exactly the requests with these ids as completed, whose sleepers are woken, and leave the
  interrupt down.
\<close>

theorem interrupts_complete_requests:
  assumes "device_ok s" and "mapped s" and "distinct (map fst (dr_play_requests s))" and "distinct (ids s)"
  shows "\<exists>t. eachS (\<lambda>_. silent (atp_device_isr kn)) [0..<length (completions s)] s = Inr ((), t)
    \<and> completions t = [] \<and> \<not> dv_interrupt t
    \<and> dr_play_requests t = map (\<lambda>(p, r). (p, r\<lparr>rp_completed := rp_completed r \<or> rp_id r \<in> set (completions s)\<rparr>))
        (dr_play_requests s)"
proof -
  have "interrupted (completions s) s"
    using assms by (auto simp: interrupted_def device_ok_def completions_def)
  from isrs_run [OF this, of "[0..<length (completions s)]" kn] show ?thesis by (auto simp: interrupted_def)
qed

section \<open>Calls\<close>

text \<open>
  A call shares the list of requests with the other play calls, which add and remove theirs while it maps
  its buffers, polls the device and sleeps. For a set \<open>Q\<close> of requests of calls that go on, the
  list holds these requests as they were, but for the mark of completion that the interrupt sets; of the requests outside of
  \<open>Q\<close> it says nothing.
\<close>

definition same_requests :: "nat set \<Rightarrow> 'z driver_scheme \<Rightarrow> 'z driver_scheme \<Rightarrow> bool" where
  "same_requests Q s t \<longleftrightarrow> (\<forall>q \<in> Q. map_option (\<lambda>r. r\<lparr>rp_completed := True\<rparr>) (map_of (dr_play_requests t) q)
     = map_option (\<lambda>r. r\<lparr>rp_completed := True\<rparr>) (map_of (dr_play_requests s) q))"

interpretation requests: step_relation "same_requests Q" for Q
  by unfold_locales (auto simp: same_requests_def)

lemmas requests_rules = requests.keeps_all requests.keeps_modify

lemma requests_bus: "keeps same_bus m \<Longrightarrow> keeps (same_requests Q) m"
  by (rule keeps_mono) (simp_all add: same_bus_def same_requests_def)

lemma requests_control: "keeps (same_requests Q) (control_handler pl)"
  unfolding control_handler_def playStreamHandler_def intAckHandler_def notifyServedRequest_def
    uniqueStreamHandler_def set_regs_def fatal_def Let_def
  by (intro requests_rules requests_bus [OF bus_submit])
    (auto simp: same_requests_def split: list.split intro!: requests_rules)

lemma requests_sized: "keeps (same_requests Q) m \<Longrightarrow> keeps (same_requests Q) (sized n k m)"
  by (auto simp: sized_def requests.keeps_fail)

lemma requests_set_regs: "keeps (same_requests Q) (set_regs f)"
  and requests_warning: "keeps (same_requests Q) (warning f' a)"
  unfolding set_regs_def warning_def by (rule requests.keeps_modify; simp add: same_requests_def)+

lemma requests_io:
  "keeps (same_requests Q) (io_write pl n v r)" "keeps (same_requests Q) (io_read n r)"
  unfolding io_write_def mmio_write_def write_register_def io_read_def mmio_read_def Let_def
  by (auto intro!: requests_rules requests_sized requests_set_regs requests_warning requests_control
      simp: readOnly_def writeOnly_def unexpectedAddr_def split: option.split offset.split)

lemma requests_set_request:
  assumes "p \<notin> Q"
  shows "keeps (same_requests Q) (set_request p f)"
proof -
  have "q \<in> Q \<Longrightarrow> q \<noteq> p" for q using assms by blast
  then show ?thesis unfolding set_request_def
    by (intro requests.keeps_modify) (simp add: same_requests_def map_ran_conv option.map_comp comp_def)
qed

text \<open>
  Whatever runs while the kernel works for the driver, or while the process polls or sleeps, leaves the requests in
  \<open>Q\<close> to the calls they belong to.
\<close>

definition others_keep :: "nat set \<Rightarrow> 'z driver_scheme kernel \<Rightarrow> bool" where
  "others_keep Q kn \<longleftrightarrow> (\<forall>fd. keeps (same_requests Q) (kn_dma_buf_get kn fd))
    \<and> (\<forall>b. keeps (same_requests Q) (kn_dma_buf_put kn b)) \<and> (\<forall>a d. keeps (same_requests Q) (kn_map_attachment kn a d))
    \<and> (\<forall>p. keeps (same_requests Q) (kn_wait kn p)) \<and> (\<forall>n. keeps (same_requests Q) (kn_meanwhile kn n))"

lemma requests_handle_error:
  "keeps (same_requests Q) m \<Longrightarrow> (\<And>x. keeps (same_requests Q) (f x)) \<Longrightarrow> keeps (same_requests Q) (handle_error m f)"
  unfolding handle_error_def by (intro requests.keeps_bind) (auto split: sum.split intro: requests.keeps_return)

lemma requests_poll:
  assumes "others_keep Q kn"
  shows "keeps (same_requests Q) (poll_status kn n)"
proof (induction n)
  case 0
  show ?case by (simp only: poll_status.simps requests.keeps_fail)
next
  case (Suc n)
  with assms show ?case
    by (simp only: poll_status.simps, intro requests_rules requests_io) (simp_all add: others_keep_def)
qed

lemma requests_mmio_play: "others_keep Q kn \<Longrightarrow> keeps (same_requests Q) (atp_device_mmio_play_stream kn r)"
  unfolding atp_device_mmio_play_stream_def Let_def by (intro requests_rules requests_io requests_poll)

lemma requests_map_buffer: "others_keep Q kn \<Longrightarrow> p \<notin> Q \<Longrightarrow> keeps (same_requests Q) (map_buffer kn fd dir upd p)"
  unfolding map_buffer_def atp_device_attachment_map_def atp_device_attachment_get_def
  by (intro requests_rules requests_handle_error requests_set_request) (auto simp: others_keep_def)

lemma requests_play_body: "others_keep Q kn \<Longrightarrow> p \<notin> Q \<Longrightarrow> keeps (same_requests Q) (play_body kn d p)"
  unfolding play_body_def
  by (intro requests_rules requests_handle_error requests_map_buffer requests_mmio_play)
    (simp_all add: others_keep_def)

text \<open>
  C34. A play call leaves no request behind and touches no other. Whether a buffer cannot be mapped, the wait is
  interrupted, the request is completed or no buffer was given, a call that returns has its request off the
  list, although other play calls add and remove theirs in the meantime. The request of any call that still goes on
  is in the list as it was when this call began, but for the mark of completion. The new request is at a fresh
  address.
\<close>

theorem play_call_leaves_no_request:
  assumes "dr_allocations s \<notin> set (map fst (dr_play_requests s))" and "dr_allocations s \<notin> Q"
    and "others_keep Q kn" and "ioctl_play kn d s = Inr (e, t)"
  shows "dr_allocations s \<notin> set (map fst (dr_play_requests t))
    \<and> (\<forall>q \<in> Q. map_option (\<lambda>r. r\<lparr>rp_completed := True\<rparr>) (map_of (dr_play_requests t) q)
         = map_option (\<lambda>r. r\<lparr>rp_completed := True\<rparr>) (map_of (dr_play_requests s) q))"
proof (cases "pd_read_fd d = -1 \<and> pd_write_fd d = -1")
  case True
  with assms(1,4) show ?thesis by (simp add: ioctl_play_def)
next
  case False
  let ?p = "dr_allocations s"
  from assms(4) have "bindS (request_get_play_stream kn (pd_atp_stream_id d) (pd_flow_id d)) (\<lambda>ptr.
      bindS (play_body kn d ptr) (\<lambda>res. thenS (request_put_play_stream ptr) (returnS (result_code res)))) s = Inr (e, t)"
    unfolding ioctl_play_def if_not_P [OF False] .
  then obtain ptr s1 where s1: "request_get_play_stream kn (pd_atp_stream_id d) (pd_flow_id d) s = Inr (ptr, s1)"
    and rest: "bindS (play_body kn d ptr) (\<lambda>res. thenS (request_put_play_stream ptr) (returnS (result_code res))) s1 = Inr (e, t)"
    by (rule bindSE)
  from s1 have ptr: "ptr = ?p" and get: "same_requests Q s s1"
    using assms(2) by (auto simp: request_get_play_stream_def kzalloc_def thenS_def bindS_def same_requests_def split: if_splits)
  from rest obtain r s2 where s2: "play_body kn d ?p s1 = Inr (r, s2)"
    and put: "thenS (request_put_play_stream ?p) (returnS (result_code r)) s2 = Inr (e, t)"
    unfolding ptr by (rule bindSE)
  from put have t: "t = s2\<lparr>dr_play_requests := AList.delete ?p (dr_play_requests s2)\<rparr>"
    by (auto simp: thenS_eq_Inr request_put_play_stream_def bindS_def split: if_splits)
  then have "same_requests Q s2 t" using assms(2) by (auto simp: same_requests_def)
  with get keepsD [OF requests_play_body [OF assms(3,2)] s2] have "same_requests Q s t"
    by (blast intro: requests.R_trans)
  moreover have "?p \<notin> set (map fst (dr_play_requests t))" by (auto simp: t AList.delete_eq)
  ultimately show ?thesis by (simp only: same_requests_def simp_thms)
qed

section \<open>Creating a stream\<close>

lemma on_engine_run: "on_engine m s = Inr (x, t) \<longleftrightarrow> (\<exists>q. m (ad_tpm s) = Inr (x, q) \<and> t = s\<lparr>ad_tpm := q\<rparr>)"
  by (auto simp: on_engine_def split: sum.splits)

lemma adapter_uniqueStream_run:
  assumes "bindS (profileId name) (\<lambda>rt. bindS (masterId dev) (uniqueStream (pl_rng pl) rt)) (ad_tpm s) = Inr (i, e)"
  shows "adapter_uniqueStream pl dev name s = Inr (i, s\<lparr>ad_tpm := e\<rparr>)"
  using assms by (auto simp: adapter_uniqueStream_def on_engine_run elim!: bindSE intro!: bindS_eq_Inr [THEN iffD2])

text \<open>
  C35. A stream is created through the registers. When the DMA operation that the driver starts ends
  between its first two reads of STATUS with the bytes of the name that was mapped, the driver gets
  the id under which the engine knows the new stream, and the device knows it too, as one that is
  not in play.
\<close>

theorem unique_stream_through_registers:
  assumes "mapped s" and "rg_status (dv_regs s) = 0" and "dv_dma s = None"
    and "kn_polls kn = Suc (Suc n)" and "kn_meanwhile kn (Suc n) = dma_done (kn_platform kn) name"
    and "map_of (dv_streams s) i = None"
    and "bindS (profileId name) (\<lambda>rt. bindS (masterId (dv_atpId s)) (uniqueStream (pl_rng (kn_platform kn)) rt)) (ad_tpm s) = Inr (i, e)"
  shows "\<exists>t. atp_device_mmio_unique_stream kn addr (of_nat (length name)) s = Inr (i, t)
    \<and> map_of (dv_streams t) i = Some \<lparr>st_active = False, st_pending = []\<rparr> \<and> dv_dma t = None
    \<and> ad_tpm t = e \<and> rg_status (dv_regs t) = 0"
proof -
  let ?pl = "kn_platform kn"
  let ?g = "(dv_regs s)\<lparr>rg_streamNameBase := addr, rg_streamNameRange := of_nat (length name), rg_control := CTRL_UNIQUE\<rparr>"
  obtain b where s1: "thenS (io_write ?pl 8 addr STREAM_NAME_BASE)
    (thenS (io_write ?pl 8 (of_nat (length name)) STREAM_NAME_RANGE)
      (io_write ?pl 1 (ucast CTRL_UNIQUE) CONTROL)) s
    = Inr ((), s\<lparr>dv_regs := ?g, dv_streamNameBuffer := b, dv_dma := Some (addr, of_nat (length name))\<rparr>)" (is "_ = Inr ((), ?s1)")
    using assms(1,3)
    by (simp add: thenS_def bindS_def io_write_run mapped_def write_register_def sized_def set_regs_def
        control_handler_def uniqueStreamHandler_def CTRL_UNIQUE_def Let_def bit_numeral_rec)
  have m1: "mapped ?s1" using assms(1) by (simp add: mapped_def)
  let ?t = "?s1\<lparr>ad_tpm := e, dv_regs := ?g\<lparr>rg_streamId := i, rg_status := 1\<rparr>,
      dv_streams := (i, \<lparr>st_active = False, st_pending = []\<rparr>) # dv_streams s, dv_streamNameBuffer := '''', dv_dma := None\<rparr>"
  have "adapter_uniqueStream ?pl (dv_atpId s) name (?s1\<lparr>dv_streamNameBuffer := name, dv_dma := None\<rparr>)
      = Inr (i, ?s1\<lparr>dv_streamNameBuffer := name, dv_dma := None, ad_tpm := e\<rparr>)"
    by (rule adapter_uniqueStream_run) (simp add: assms(7))
  then have d: "dma_done ?pl name ?s1 = Inr ((), ?t)"
    using assms(6) by (simp add: dma_done_def streamNameHandler_def thenS_def bindS_def)
  have mt: "mapped ?t" using assms(1) by (simp add: mapped_def)
  have "poll_status kn (Suc n) ?t = Inr ((), ?t)" by (rule poll_ready [OF mt]) simp_all
  then have p: "poll_status kn (kn_polls kn) ?s1 = Inr ((), ?t)"
    using io_read_run(3) [OF m1] by (simp add: assms(2,4,5) bindS_def thenS_def d)
  have "atp_device_mmio_unique_stream kn addr (of_nat (length name)) s
      = thenS (poll_status kn (kn_polls kn)) (thenS (io_write ?pl 1 0 STATUS) (io_read 8 STREAM_ID)) ?s1"
    using s1 by (auto simp: atp_device_mmio_unique_stream_def Let_def thenS_def bindS_def split: sum.splits)
  also have "\<dots> = Inr (i, ?t\<lparr>dv_regs := ?g\<lparr>rg_streamId := i, rg_status := 0\<rparr>\<rparr>)" (is "_ = Inr (i, ?u)")
  proof -
    have w: "io_write ?pl 1 0 STATUS ?t = Inr ((), ?u)"
      unfolding io_write_run [OF mt] by (simp add: write_register_def sized_def set_regs_def thenS_def bindS_def)
    have "mapped ?u" using assms(1) by (simp add: mapped_def)
    from io_read_run(1) [OF this] have r: "io_read 8 STREAM_ID ?u = Inr (i, ?u)" by simp
    show ?thesis
      unfolding thenS_run [where m = "poll_status kn (kn_polls kn)", OF p]
        thenS_run [where m = "io_write ?pl 1 0 STATUS", OF w] by (rule r)
  qed
  finally show ?thesis by simp
qed

section \<open>Discovery\<close>

lemma put_all:
  assumes "distinct (map fst rs)" and "dr_play_requests s = rs"
  shows "eachS (\<lambda>(ptr, r). request_put_play_stream ptr) rs s = Inr ((), s\<lparr>dr_play_requests := []\<rparr>)"
  using assms
proof (induction rs arbitrary: s)
  case Nil
  then show ?case by simp
next
  case (Cons x rs)
  obtain p r where x: "x = (p, r)" by (cases x)
  with Cons.prems have d: "AList.delete p (dr_play_requests s) = rs"
    by (force simp: AList.delete_eq intro!: filter_True)
  have "request_put_play_stream p s = Inr ((), s\<lparr>dr_play_requests := rs\<rparr>)"
    using Cons.prems by (simp add: request_put_play_stream_def bindS_def d) (simp add: x)
  with Cons show ?case by (simp add: x thenS_def bindS_def)
qed

lemma remove_run:
  assumes "dr_held s = [MiscDevice, DeviceName, RegisterMapping, InterruptLine, DeviceData] @ h"
    and "distinct (map fst (dr_play_requests s))"
  shows "\<exists>u. atp_device_remove s = Inr (0, u) \<and> dr_held u = h \<and> dr_play_requests u = []"
  using assms by (simp add: atp_device_remove_def release_def thenS_def bindS_def put_all)

text \<open>
  C36. A discovery that fails holds nothing, and removal gives everything back. Probing returns an
  error with no more held than before, or it holds the memory, the interrupt, the mapping, the name
  and the misc device and has an empty list of requests; removing the device then releases what
  probing held, whatever requests are left.
\<close>

theorem probe_releases_on_error:
  assumes "atp_device_probe kn d s = Inr (e, t)"
  shows "(e \<noteq> 0 \<longrightarrow> dr_held t = dr_held s)
    \<and> (dr_held t \<noteq> dr_held s \<longrightarrow> e = 0 \<and> dr_next_play_request_id t = 1 \<and> dr_play_requests t = []
         \<and> (\<forall>rs. distinct (map fst rs) \<longrightarrow> (\<exists>u. atp_device_remove (t\<lparr>dr_play_requests := rs\<rparr>) = Inr (0, u)
              \<and> dr_held u = dr_held s \<and> dr_play_requests u = [])))"
proof -
  have "dr_held t = dr_held s \<or> e = 0 \<and> dr_next_play_request_id t = 1 \<and> dr_play_requests t = []
      \<and> dr_held t = [MiscDevice, DeviceName, RegisterMapping, InterruptLine, DeviceData] @ dr_held s"
    using assms by (auto simp: atp_device_probe_def kzalloc_def hold_def release_def err_def err1_def err2_def
        thenS_def bindS_def split: sum.splits if_splits)
  moreover have "e = 0" if "dr_held t = [MiscDevice, DeviceName, RegisterMapping, InterruptLine, DeviceData] @ dr_held s"
    using calculation that by auto
  ultimately show ?thesis
    using remove_run [of "t\<lparr>dr_play_requests := _\<rparr>" "dr_held s"] by auto
qed

text \<open>
  The name of the device is one byte too long for its memory. When the allocator returns an
  object of exactly the size asked for, as it does for a device id of five letters and objects of
  eight bytes, a discovery that gets as far as the name writes behind the object.
\<close>

theorem device_name_overflows:
  assumes "dc_atp_id d = Inr i" and "dc_ksize d (length ''atp'' + length i) = length ''atp'' + length i"
    and "dc_dma_mask d = 0" and "0 \<le> dc_irq d" and "dc_resource d" and "dc_request_irq d = 0"
    and "dc_ioremap d = Inr a" and "\<forall>k. kn_alloc kn k"
  shows "atp_device_probe kn d s = Inl (Undefined ''strcat'')"
  using assms by (simp add: atp_device_probe_def kzalloc_def hold_def thenS_def bindS_def)

section \<open>Instances\<close>

definition demo_kernel :: "driver kernel" where
  "demo_kernel = \<lparr>kn_platform = demo_bus, kn_alloc = (\<lambda>k. True), kn_dma_buf_get = (\<lambda>fd. returnS (Inr 1)),
     kn_dma_buf_put = (\<lambda>b. returnS ()), kn_dma_buf_attach = (\<lambda>b d. returnS (Inr 2)),
     kn_dma_buf_detach = (\<lambda>b a. returnS ()), kn_attachments = (\<lambda>b s. [(2, dev_id)]), kn_size = (\<lambda>b s. 128),
     kn_map_attachment = (\<lambda>a d. returnS (Inr 4096)), kn_map_single = (\<lambda>n. returnS (Inr 64)),
     kn_unmap_single = (\<lambda>a. returnS ()), kn_wait = (\<lambda>p. returnS 0),
     kn_meanwhile = (\<lambda>n. dma_done demo_bus ''cpu''), kn_polls = 2\<rparr>"

definition demo_driver :: driver where
  "demo_driver = device.extend (demo_start\<lparr>dv_streams := [(0, \<lparr>st_active = False, st_pending = []\<rparr>)]\<rparr>)
     \<lparr>dr_atp_id = ''cpu'', dr_play_requests = [], dr_next_play_request_id = 1, dr_mmio = 65536,
      dr_allocations = 0, dr_held = []\<rparr>"

definition demo_request :: "u32 \<Rightarrow> u64 \<Rightarrow> u64 \<Rightarrow> play_stream_request" where
  "demo_request i rd wr = \<lparr>rp_id = i, rp_raddr = 4096, rp_rrange = rd, rp_waddr = 8192, rp_wrange = wr,
     rp_stream_id = 0, rp_flow_id = 9, rp_completed = False\<rparr>"

lemmas demo_driver_defs = demo_driver_def device.defs demo_start_def device_new_def adapter.defs demo_adapter_def

lemma demo_driver_mapped: "mapped demo_driver"
  and demo_driver_streams: "map_of (dv_streams demo_driver) 0 = Some \<lparr>st_active = False, st_pending = []\<rparr>"
  by (simp_all add: mapped_def demo_driver_defs)

theorem driver_play_is_submit_witness:
  "\<exists>req g. pq_id req = 1 \<and> pq_dmaOp req = DMA_READ \<and> pq_readBase req = 4096 \<and> pq_readRange req = 128
    \<and> atp_device_mmio_play_stream demo_kernel (demo_request 1 128 0) demo_driver =
        (case submit demo_bus 0 \<lparr>st_active = False, st_pending = []\<rparr> req (demo_driver\<lparr>dv_regs := g\<rparr>) of
           Inl e \<Rightarrow> Inl e | Inr (u, t) \<Rightarrow> Inr ((), t\<lparr>dv_regs := g\<lparr>rg_status := 0\<rparr>\<rparr>))"
  using driver_play_is_submit [OF demo_driver_mapped, of "demo_request 1 128 0"
      "\<lparr>st_active = False, st_pending = []\<rparr>" demo_kernel] demo_driver_streams
  by (auto simp: demo_request_def demo_kernel_def)

theorem read_write_request_is_fatal_witness:
  "atp_device_mmio_play_stream demo_kernel (demo_request 1 128 128) demo_driver
    = Inl (ErrorExit ''ATP::Device::extractDmaOp'')"
  using demo_driver_streams
  by (intro read_write_request_is_fatal [OF demo_driver_mapped, where str = "\<lparr>st_active = False, st_pending = []\<rparr>"])
    (simp_all add: demo_request_def)

definition demo_finished :: driver where
  "demo_finished = demo_driver\<lparr>dv_regs := demo_registers\<lparr>rg_outRequestId := 5\<rparr>, dv_intAckPending := True,
     dv_interrupt := True, dv_servedRequests := [7],
     dr_play_requests := [(1, demo_request 7 128 0), (0, demo_request 5 128 0)]\<rparr>"

theorem interrupts_complete_requests_witness:
  "\<exists>t. eachS (\<lambda>_. silent (atp_device_isr demo_kernel)) [0..<2] demo_finished = Inr ((), t) \<and> \<not> dv_interrupt t
    \<and> dr_play_requests t = [(1, (demo_request 7 128 0)\<lparr>rp_completed := True\<rparr>), (0, (demo_request 5 128 0)\<lparr>rp_completed := True\<rparr>)]"
proof -
  have "device_ok demo_finished" "mapped demo_finished" "completions demo_finished = [5, 7]"
    and r: "dr_play_requests demo_finished = [(1, demo_request 7 128 0), (0, demo_request 5 128 0)]"
    by (auto simp: demo_finished_def mapped_def completions_def device_ok_def playing_def demo_driver_defs demo_device_def)
  with interrupts_complete_requests [of demo_finished demo_kernel] show ?thesis
    by (auto simp: demo_request_def eval_nat_numeral)
qed

definition demo_fresh :: driver where
  "demo_fresh = demo_driver\<lparr>dv_streams := []\<rparr>"

lemma demo_engine_unique:
  "case bindS (profileId ''cpu'') (\<lambda>rt. bindS (masterId ''cpu'') (uniqueStream low_rng rt)) demo_alone of
    Inr (i, e) \<Rightarrow> i = 0 | Inl e \<Rightarrow> False"
  by code_simp

theorem unique_stream_through_registers_witness:
  "\<exists>t. atp_device_mmio_unique_stream demo_kernel 64 3 demo_fresh = Inr (0, t)
    \<and> map_of (dv_streams t) 0 = Some \<lparr>st_active = False, st_pending = []\<rparr>"
proof -
  obtain e where e: "bindS (profileId ''cpu'') (\<lambda>rt. bindS (masterId ''cpu'') (uniqueStream low_rng rt)) demo_alone = Inr (0, e)"
    using demo_engine_unique by (auto split: sum.splits)
  have "mapped demo_fresh" "rg_status (dv_regs demo_fresh) = 0" "dv_dma demo_fresh = None"
    "map_of (dv_streams demo_fresh) 0 = None" "dv_atpId demo_fresh = ''cpu''" "ad_tpm demo_fresh = demo_alone"
    by (simp_all add: demo_fresh_def mapped_def demo_driver_defs demo_registers_def)
  with e unique_stream_through_registers [of demo_fresh demo_kernel 0 "''cpu''" 0 e 64] show ?thesis
    by (auto simp: demo_kernel_def demo_bus_def demo_platform_def)
qed

definition demo_discovery :: discovery where
  "demo_discovery = \<lparr>dc_atp_id = Inr ''VIDEO'', dc_dma_mask = 0, dc_irq = 3, dc_resource = True, dc_request_irq = 0,
     dc_ioremap = Inr 65536, dc_misc_register = 0, dc_ksize = (\<lambda>n. n)\<rparr>"

theorem probe_releases_on_error_witness:
  "\<exists>t u. atp_device_probe demo_kernel (demo_discovery\<lparr>dc_ksize := (\<lambda>n. 16)\<rparr>) demo_driver = Inr (0, t)
    \<and> dr_held t \<noteq> [] \<and> atp_device_remove t = Inr (0, u) \<and> dr_held u = []"
proof -
  obtain t where t: "atp_device_probe demo_kernel (demo_discovery\<lparr>dc_ksize := (\<lambda>n. 16)\<rparr>) demo_driver = Inr (0, t)"
    "dr_held t \<noteq> []"
    by (simp add: atp_device_probe_def demo_discovery_def demo_kernel_def kzalloc_def hold_def thenS_def bindS_def)
  have h: "dr_held demo_driver = []" by (simp add: demo_driver_defs)
  with probe_releases_on_error [OF t(1)] t(2) have "dr_play_requests t = []"
    and "\<exists>u. atp_device_remove (t\<lparr>dr_play_requests := []\<rparr>) = Inr (0, u) \<and> dr_held u = []"
    by (auto dest!: spec [of _ "[]"])
  moreover from this(1) have "t\<lparr>dr_play_requests := []\<rparr> = t" by (cases t) simp
  ultimately show ?thesis using t by auto
qed

theorem device_name_overflows_witness:
  "atp_device_probe demo_kernel demo_discovery demo_driver = Inl (Undefined ''strcat'')"
  by (rule device_name_overflows [where i = "''VIDEO''" and a = 65536]) (simp_all add: demo_discovery_def demo_kernel_def)

definition demo_call :: play_stream_data where
  "demo_call = \<lparr>pd_atp_stream_id = 0, pd_flow_id = 9, pd_read_fd = 3, pd_write_fd = -1\<rparr>"

text \<open>
  While the process sleeps, another call at address 5 goes on, one at address 6 returns and a new one gets address 9.
\<close>

definition shared_driver :: driver where
  "shared_driver = demo_driver\<lparr>dr_allocations := 7, dr_play_requests := [(6, demo_request 6 0 64), (5, demo_request 5 64 0)]\<rparr>"

definition shared_kernel :: "driver kernel" where
  "shared_kernel = demo_kernel\<lparr>kn_meanwhile := (\<lambda>n. returnS ()),
     kn_wait := (\<lambda>p. thenS (modifyS (\<lambda>s. s\<lparr>dr_play_requests := (9, demo_request 9 64 0) # AList.delete 6 (dr_play_requests s)\<rparr>))
       (returnS 0))\<rparr>"

lemma demo_call_run: "case ioctl_play shared_kernel demo_call shared_driver of
    Inr (e, t) \<Rightarrow> e = 0 \<and> map fst (dr_play_requests t) = [9, 5] | Inl e \<Rightarrow> False"
  by code_simp

theorem play_call_leaves_no_request_witness:
  "\<exists>t r. ioctl_play shared_kernel demo_call shared_driver = Inr (0, t) \<and> map fst (dr_play_requests t) = [9, 5]
    \<and> map_of (dr_play_requests t) 5 = Some r \<and> r\<lparr>rp_completed := False\<rparr> = demo_request 5 64 0"
proof -
  obtain t where t: "ioctl_play shared_kernel demo_call shared_driver = Inr (0, t)" "map fst (dr_play_requests t) = [9, 5]"
    using demo_call_run by (auto split: sum.splits)
  have k: "others_keep {5} shared_kernel"
    by (auto simp: others_keep_def shared_kernel_def demo_kernel_def keeps_def same_requests_def thenS_eq_Inr)
  from play_call_leaves_no_request [OF _ _ k t(1)]
  have "map_option (\<lambda>r. r\<lparr>rp_completed := True\<rparr>) (map_of (dr_play_requests t) 5) = Some ((demo_request 5 64 0)\<lparr>rp_completed := True\<rparr>)"
    by (simp add: shared_driver_def)
  then obtain r where r: "map_of (dr_play_requests t) 5 = Some r" "r\<lparr>rp_completed := True\<rparr> = (demo_request 5 64 0)\<lparr>rp_completed := True\<rparr>"
    by auto
  from arg_cong [OF r(2), of "\<lambda>r. r\<lparr>rp_completed := False\<rparr>"] have "r\<lparr>rp_completed := False\<rparr> = demo_request 5 64 0"
    by (simp add: demo_request_def)
  with t r(1) show ?thesis by (intro exI [of _ t] exI [of _ r]) simp
qed

end
