(* ===== verification/Buffer_Manager.thy ===== *)
theory Buffer_Manager
  imports Computations
begin

text \<open>
  The kernel module that allocates DMA buffers (\<^verbatim>\<open>linux/atp_buffer_manager.c\<close>): the pages of a
  buffer, the callbacks that the DMA-buffer framework calls, and the two system calls. The state is
  the list of pages that are allocated, the number of objects of the module in the kernel's heap, the
  buffers that were exported and the scatter tables of the attachments.

  The kernel is not part of the repository. The record \<open>memory\<close> stands for its allocators, which
  see the pages in use, and for the framework: whether a buffer can be exported, the descriptor it
  gets, and whether tables and mappings can be made. Freeing what is not allocated and using a null
  pointer have no meaning.
\<close>

section \<open>State\<close>

record buffer_data =
  bd_num_pages :: nat
  bd_pages :: "nat option list"
  bd_contig :: bool

record dma_buffer =
  bf_size :: u64
  bf_priv :: buffer_data
  bf_attachments :: "nat list"

record buffers =
  bm_pages :: "nat list"
  bm_objects :: nat
  bm_buffers :: "(nat \<times> dma_buffer) list"
  bm_tables :: "(nat \<times> nat option list) list"

record memory =
  mm_shift :: nat
  mm_alloc_page :: "nat list \<Rightarrow> nat option"
  mm_alloc_exact :: "nat list \<Rightarrow> nat \<Rightarrow> nat option"
  mm_iommu :: bool
  mm_export :: int
  mm_fd :: int
  mm_sg_alloc :: int
  mm_map_sg :: "nat \<Rightarrow> nat"
  mm_insert :: "nat \<Rightarrow> nat option \<Rightarrow> int"
  mm_kzalloc :: bool

type_synonym 'a buffer_op = "(buffers, 'a) comp"

definition ENOMEM :: int where "ENOMEM = 12"
definition ENODEV :: int where "ENODEV = 19"
definition EIO :: int where "EIO = 5"
definition EFAULT :: int where "EFAULT = 14"

section \<open>Pages\<close>

definition alloc_page :: "memory \<Rightarrow> nat option buffer_op" where
  "alloc_page mm = bindS getS (\<lambda>s. case mm_alloc_page mm (bm_pages s) of
     None \<Rightarrow> returnS None
   | Some p \<Rightarrow> thenS (modifyS (\<lambda>s. s\<lparr>bm_pages := p # bm_pages s\<rparr>)) (returnS (Some p)))"

definition free_page :: "nat option \<Rightarrow> unit buffer_op" where
  "free_page q = bindS getS (\<lambda>s. case q of
     None \<Rightarrow> failS (Undefined ''page_address'')
   | Some p \<Rightarrow> if p \<in> set (bm_pages s) then modifyS (\<lambda>s. s\<lparr>bm_pages := remove1 p (bm_pages s)\<rparr>)
       else failS (Undefined ''free_page''))"

definition alloc_pages_exact :: "memory \<Rightarrow> nat \<Rightarrow> nat option buffer_op" where
  "alloc_pages_exact mm n = bindS getS (\<lambda>s. case mm_alloc_exact mm (bm_pages s) n of
     None \<Rightarrow> returnS None
   | Some p \<Rightarrow> thenS (modifyS (\<lambda>s. s\<lparr>bm_pages := [p..<p + n] @ bm_pages s\<rparr>)) (returnS (Some p)))"

definition objects :: "(nat \<Rightarrow> nat) \<Rightarrow> unit buffer_op" where
  "objects f = modifyS (\<lambda>s. s\<lparr>bm_objects := f (bm_objects s)\<rparr>)"

section \<open>Export and release\<close>

definition num_pages :: "memory \<Rightarrow> u64 \<Rightarrow> nat" where
  "num_pages mm sz = unat (drop_bit (mm_shift mm) sz)"

text \<open>The label \<^verbatim>\<open>err\<close> frees the two objects of the module and nothing else.\<close>

definition export_err :: "int \<Rightarrow> (int + dma_buffer) buffer_op" where
  "export_err e = thenS (objects (\<lambda>n. n - 2)) (returnS (Inl e))"

definition dma_buf_export :: "memory \<Rightarrow> u64 \<Rightarrow> buffer_data \<Rightarrow> (int + dma_buffer) buffer_op" where
  "dma_buf_export mm sz d =
    (if mm_export mm \<noteq> 0 then export_err (mm_export mm)
     else returnS (Inr \<lparr>bf_size = sz, bf_priv = d, bf_attachments = []\<rparr>))"

text \<open>
  The loops over the pages count in an \<^verbatim>\<open>int\<close>, so they have no meaning for \<open>2 ^ 31\<close> pages or more: a buffer that
  was exported has fewer.
\<close>

definition int_counts :: "nat \<Rightarrow> unit buffer_op" where
  "int_counts n = whenS (2147483648 \<le> int n) (failS (Undefined ''signed overflow''))"

definition atp_buffer_manager_export :: "memory \<Rightarrow> u64 \<Rightarrow> bool \<Rightarrow> (int + dma_buffer) buffer_op" where
  "atp_buffer_manager_export mm sz contig = (let n = num_pages mm sz in
    thenS (objects (\<lambda>n. n + 2))
    (if \<not> mm_kzalloc mm then failS (Undefined ''null pointer'')
     else if contig then
       bindS (alloc_pages_exact mm n) (\<lambda>kvaddr. case kvaddr of
         None \<Rightarrow> export_err (- ENOMEM)
       | Some p \<Rightarrow> thenS (int_counts n)
           (dma_buf_export mm sz \<lparr>bd_num_pages = n, bd_pages = map Some [p..<p + n], bd_contig = contig\<rparr>))
     else if \<not> mm_iommu mm then export_err (- ENODEV)
     else thenS (int_counts n) (bindS (collectS (\<lambda>_. alloc_page mm) [0..<n]) (\<lambda>ps.
       dma_buf_export mm sz \<lparr>bd_num_pages = n, bd_pages = ps, bd_contig = contig\<rparr>))))"

definition atp_buffer_manager_release :: "memory \<Rightarrow> dma_buffer \<Rightarrow> unit buffer_op" where
  "atp_buffer_manager_release mm b = (let d = bf_priv b in
    thenS
      (if bd_contig d then
         (case bd_pages d of
            Some p # _ \<Rightarrow> eachS (\<lambda>q. free_page (Some q)) [p..<p + num_pages mm (bf_size b)]
          | _ \<Rightarrow> failS (Undefined ''page_address''))
       else thenS (int_counts (bd_num_pages d)) (eachS free_page (bd_pages d)))
      (objects (\<lambda>n. n - 2)))"

section \<open>Attachments\<close>

definition atp_buffer_manager_attach :: "memory \<Rightarrow> nat \<Rightarrow> dma_buffer \<Rightarrow> int buffer_op" where
  "atp_buffer_manager_attach mm att b =
    (if \<not> mm_kzalloc mm then returnS (- ENOMEM)
     else if mm_sg_alloc mm \<noteq> 0 then returnS (mm_sg_alloc mm)
     else thenS (modifyS (\<lambda>s. s\<lparr>bm_tables := AList.update att (bd_pages (bf_priv b)) (bm_tables s),
       bm_objects := bm_objects s + 1\<rparr>)) (returnS 0))"

definition atp_buffer_manager_detach :: "nat \<Rightarrow> unit buffer_op" where
  "atp_buffer_manager_detach att = bindS getS (\<lambda>s.
    if map_of (bm_tables s) att = None then failS (Undefined ''sg_free_table'')
    else modifyS (\<lambda>s. s\<lparr>bm_tables := AList.delete att (bm_tables s), bm_objects := bm_objects s - 1\<rparr>))"

definition atp_buffer_manager_map :: "memory \<Rightarrow> nat \<Rightarrow> (int + nat option list) buffer_op" where
  "atp_buffer_manager_map mm att = bindS getS (\<lambda>s. case map_of (bm_tables s) att of
     None \<Rightarrow> failS (Undefined ''dma_map_sg'')
   | Some sgt \<Rightarrow> returnS (if mm_map_sg mm (length sgt) = 0 then Inl (- EIO) else Inr sgt))"

section \<open>Mapping to user space\<close>

text \<open>The pages from index \<open>i\<close> on, page by page until the end of the area or an error.\<close>

fun mmap_loop :: "memory \<Rightarrow> nat \<Rightarrow> nat \<Rightarrow> nat option list \<Rightarrow> int \<times> (nat \<times> nat option) list" where
  "mmap_loop mm uvaddr vm_end [] = (0, [])"
| "mmap_loop mm uvaddr vm_end (p # ps) =
    (if vm_end \<le> uvaddr then (0, [])
     else let e = mm_insert mm uvaddr p in
       if e \<noteq> 0 then (e, [])
       else let (e', xs) = mmap_loop mm (uvaddr + 2 ^ mm_shift mm) vm_end ps in (e', (uvaddr, p) # xs))"

text \<open>
  The offset is cut to an \<^verbatim>\<open>int\<close>, and the comparison with the number of pages converts that to an \<^verbatim>\<open>unsigned long\<close>: a negative
  one becomes an index behind every page.
\<close>

definition page_index :: "u64 \<Rightarrow> nat" where
  "page_index vm_pgoff = (let i = ucast vm_pgoff :: u32 in unat (scast i :: u64))"

definition atp_buffer_manager_mmap :: "memory \<Rightarrow> dma_buffer \<Rightarrow> nat \<Rightarrow> nat \<Rightarrow> u64 \<Rightarrow> int \<times> (nat \<times> nat option) list" where
  "atp_buffer_manager_mmap mm b vm_start vm_end vm_pgoff =
    mmap_loop mm vm_start vm_end (drop (page_index vm_pgoff) (bd_pages (bf_priv b)))"

section \<open>System calls\<close>

definition page_align :: "memory \<Rightarrow> u64 \<Rightarrow> u64" where
  "page_align mm sz = (let p = 2 ^ mm_shift mm in and (sz + (p - 1)) (not (p - 1)))"

record get_buf_data =
  gb_size :: u64
  gb_contig :: bool
  gb_fd :: int

text \<open>
  The result is the code and, when it could be copied to the caller, the data. The new buffer is
  entered under the address \<open>addr\<close>; its descriptor holds a reference to it.
\<close>

definition ioctl_get_buf :: "memory \<Rightarrow> nat \<Rightarrow> get_buf_data option \<Rightarrow> bool \<Rightarrow> (int \<times> get_buf_data option) buffer_op" where
  "ioctl_get_buf mm addr arg copied = (case arg of
     None \<Rightarrow> returnS (- EFAULT, None)
   | Some d \<Rightarrow> let sz = page_align mm (gb_size d) in
       bindS (atp_buffer_manager_export mm sz (gb_contig d)) (\<lambda>r. case r of
         Inl e \<Rightarrow> returnS (e, None)
       | Inr b \<Rightarrow> thenS (modifyS (\<lambda>s. s\<lparr>bm_buffers := (addr, b) # bm_buffers s\<rparr>))
           (if copied then returnS (0, Some (d\<lparr>gb_size := sz, gb_fd := mm_fd mm\<rparr>))
            else thenS (atp_buffer_manager_release mm b) (returnS (- EFAULT, None)))))"

text \<open>The framework drops the last reference to a buffer.\<close>

definition last_put :: "memory \<Rightarrow> nat \<Rightarrow> unit buffer_op" where
  "last_put mm addr = bindS getS (\<lambda>s. case map_of (bm_buffers s) addr of
     None \<Rightarrow> failS (Undefined ''dma_buf_put'')
   | Some b \<Rightarrow> thenS (atp_buffer_manager_release mm b)
       (modifyS (\<lambda>s. s\<lparr>bm_buffers := AList.delete addr (bm_buffers s)\<rparr>)))"

text \<open>
  The caller's reference is taken and dropped again; \<open>buf\<close> is the look-up of the descriptor.
\<close>

definition ioctl_put_buf :: "int option \<Rightarrow> (int \<Rightarrow> int + nat) \<Rightarrow> int buffer_op" where
  "ioctl_put_buf arg buf = (case arg of
     None \<Rightarrow> returnS (- EFAULT)
   | Some fd \<Rightarrow> (case buf fd of
       Inl e \<Rightarrow> returnS e
     | Inr addr \<Rightarrow> bindS getS (\<lambda>s. case map_of (bm_buffers s) addr of
         None \<Rightarrow> failS (Undefined ''dma_buf_get'')
       | Some b \<Rightarrow>
           thenS (modifyS (\<lambda>s. s\<lparr>bm_buffers := AList.update addr (b\<lparr>bf_attachments := []\<rparr>) (bm_buffers s)\<rparr>))
           (thenS (eachS atp_buffer_manager_detach (bf_attachments b)) (returnS 0)))))"

end
