(* ===== verification/Buffer_Laws.thy ===== *)
theory Buffer_Laws
  imports Buffer_Manager
begin

text \<open>
  The pages of a buffer: releasing a buffer gives back what exporting it took, the error paths of
  the module do not, and a mapping shows the pages of the buffer in order.
\<close>

section \<open>Allocators\<close>

text \<open>What the kernel documents of its allocators: they return pages that are not in use.\<close>

definition allocators_ok :: "memory \<Rightarrow> bool" where
  "allocators_ok mm \<longleftrightarrow> (\<forall>used p. mm_alloc_page mm used = Some p \<longrightarrow> p \<notin> set used)
    \<and> (\<forall>used n p. mm_alloc_exact mm used n = Some p \<longrightarrow> set [p..<p + n] \<inter> set used = {})"

fun somes :: "'a option list \<Rightarrow> 'a list" where
  "somes [] = []"
| "somes (None # xs) = somes xs"
| "somes (Some x # xs) = x # somes xs"

lemma all_Some: "None \<notin> set xs \<Longrightarrow> map Some (somes xs) = xs"
  by (induction xs rule: somes.induct) auto

lemma somes_Cons: "somes (x # xs) = somes [x] @ somes xs"
  by (cases x) simp_all

lemma alloc_page_run:
  "allocators_ok mm \<Longrightarrow> distinct (bm_pages s) \<Longrightarrow> alloc_page mm s = Inr (q, t) \<Longrightarrow>
    t = s\<lparr>bm_pages := somes [q] @ bm_pages s\<rparr> \<and> distinct (bm_pages t)"
  by (cases q) (auto simp: alloc_page_def bindS_def thenS_def allocators_ok_def split: option.splits)

lemma alloc_pages_run:
  assumes "allocators_ok mm" and "distinct (bm_pages s)"
    and "collectS (\<lambda>_. alloc_page mm) xs s = Inr (ps, t)"
  shows "length ps = length xs \<and> distinct (bm_pages t)
    \<and> t = s\<lparr>bm_pages := rev (somes ps) @ bm_pages s\<rparr>"
  using assms(2,3)
proof (induction xs arbitrary: s ps)
  case (Cons x xs)
  then obtain q s1 qs where s1: "alloc_page mm s = Inr (q, s1)" and t: "collectS (\<lambda>_. alloc_page mm) xs s1 = Inr (qs, t)"
    and ps: "ps = q # qs"
    by (auto simp: bindS_eq_Inr)
  from alloc_page_run [OF assms(1) Cons.prems(1) s1]
  have s1': "s1 = s\<lparr>bm_pages := somes [q] @ bm_pages s\<rparr>" and d: "distinct (bm_pages s1)" by blast+
  from Cons.IH [OF d t] show ?case
    by (cases q) (auto simp: ps s1')
qed auto

lemma eachS_map: "eachS f (map g xs) = eachS (\<lambda>x. f (g x)) xs"
  by (induction xs) simp_all

lemma free_pages_run:
  assumes "distinct xs" and "set xs = set new" and "bm_pages s = new @ old" and "distinct (new @ old)"
  shows "eachS (\<lambda>q. free_page (Some q)) xs s = Inr ((), s\<lparr>bm_pages := old\<rparr>)"
  using assms
proof (induction xs arbitrary: new s)
  case Nil
  then show ?case by simp
next
  case (Cons x xs)
  let ?s = "s\<lparr>bm_pages := remove1 x new @ old\<rparr>"
  from Cons.prems have "x \<in> set new" by auto
  with Cons.prems have f: "free_page (Some x) s = Inr ((), ?s)"
    by (simp add: free_page_def bindS_def remove1_append)
  have "eachS (\<lambda>q. free_page (Some q)) xs ?s = Inr ((), ?s\<lparr>bm_pages := old\<rparr>)"
    using Cons.prems by (intro Cons.IH [of "remove1 x new"]) (auto dest: notin_set_remove1)
  with f show ?case by (simp add: thenS_def bindS_def)
qed

lemma free_page_twice: "p \<notin> set (bm_pages s) \<Longrightarrow> free_page (Some p) s = Inl (Undefined ''free_page'')"
  by (simp add: free_page_def bindS_def)

section \<open>Buffers\<close>

lemma int_counts_run:
  "int_counts n s = (if n < 2147483648 then Inr ((), s) else Inl (Undefined ''signed overflow''))"
  by (simp add: int_counts_def whenS_def)

text \<open>What a successful export leaves: the new pages in front of the old ones, all of them its own.\<close>

definition exported :: "memory \<Rightarrow> u64 \<Rightarrow> nat list \<Rightarrow> buffers \<Rightarrow> dma_buffer \<Rightarrow> buffers \<Rightarrow> bool" where
  "exported mm sz ps s b t \<longleftrightarrow> bd_pages (bf_priv b) = map Some ps \<and> bf_size b = sz \<and> length ps = num_pages mm sz
    \<and> bd_num_pages (bf_priv b) = num_pages mm sz \<and> num_pages mm sz < 2147483648 \<and> distinct ps \<and> (bd_contig (bf_priv b) \<longrightarrow> (\<exists>p. ps = [p..<p + num_pages mm sz]))
    \<and> (\<exists>new. set new = set ps \<and> distinct (new @ bm_pages s)
         \<and> t = s\<lparr>bm_pages := new @ bm_pages s, bm_objects := bm_objects s + 2\<rparr>)"

lemma exportedI:
  assumes "bd_pages (bf_priv b) = map Some ps" and "bf_size b = sz" and "length ps = num_pages mm sz"
    and "bd_num_pages (bf_priv b) = num_pages mm sz" and "num_pages mm sz < 2147483648" and "distinct ps" and "bd_contig (bf_priv b) \<Longrightarrow> \<exists>p. ps = [p..<p + num_pages mm sz]"
    and "set new = set ps" and "distinct (new @ bm_pages s)"
    and "t = s\<lparr>bm_pages := new @ bm_pages s, bm_objects := bm_objects s + 2\<rparr>"
  shows "exported mm sz ps s b t"
  using assms unfolding exported_def by blast

lemma export_run:
  assumes ok: "allocators_ok mm" "distinct (bm_pages s)"
    and e: "atp_buffer_manager_export mm sz contig s = Inr (Inr b, t)" and none: "None \<notin> set (bd_pages (bf_priv b))"
  shows "\<exists>ps. exported mm sz ps s b t"
proof (cases contig)
  case True
  with e obtain p where p: "mm_alloc_exact mm (bm_pages s) (num_pages mm sz) = Some p"
    and b: "b = \<lparr>bf_size = sz, bf_priv = \<lparr>bd_num_pages = num_pages mm sz,
        bd_pages = map Some [p..<p + num_pages mm sz], bd_contig = True\<rparr>, bf_attachments = []\<rparr>"
    and t: "t = s\<lparr>bm_pages := [p..<p + num_pages mm sz] @ bm_pages s, bm_objects := bm_objects s + 2\<rparr>"
    and n: "num_pages mm sz < 2147483648"
    by (auto simp: atp_buffer_manager_export_def Let_def int_counts_run thenS_def bindS_def objects_def alloc_pages_exact_def
        export_err_def dma_buf_export_def split: if_splits option.splits)
  from ok p have "set [p..<p + num_pages mm sz] \<inter> set (bm_pages s) = {}" by (auto simp: allocators_ok_def)
  with ok(2) have "exported mm sz [p..<p + num_pages mm sz] s b t"
    by (intro exportedI [where new = "[p..<p + num_pages mm sz]"]) (auto simp: b t n)
  then show ?thesis by blast
next
  case False
  with e obtain ps where ps: "collectS (\<lambda>_. alloc_page mm) [0..<num_pages mm sz] (s\<lparr>bm_objects := bm_objects s + 2\<rparr>) = Inr (ps, t)"
    and b: "b = \<lparr>bf_size = sz, bf_priv = \<lparr>bd_num_pages = num_pages mm sz, bd_pages = ps, bd_contig = False\<rparr>, bf_attachments = []\<rparr>"
    and n: "num_pages mm sz < 2147483648"
    by (auto simp: atp_buffer_manager_export_def Let_def int_counts_run thenS_def bindS_def objects_def
        export_err_def dma_buf_export_def split: if_splits option.splits sum.splits)
  let ?qs = "somes ps"
  from none have m: "map Some ?qs = ps" by (intro all_Some) (simp add: b)
  from alloc_pages_run [OF ok(1) _ ps] ok(2) have r: "length ps = num_pages mm sz" "distinct (bm_pages t)"
      "t = s\<lparr>bm_objects := bm_objects s + 2, bm_pages := rev ?qs @ bm_pages s\<rparr>" by auto
  from m have "length ?qs = length ps" by (metis length_map)
  with r m have "exported mm sz ?qs s b t"
    by (intro exportedI [where new = "rev ?qs"]) (auto simp: b n)
  then show ?thesis by blast
qed

lemma release_run:
  assumes "exported mm sz ps s b t" and "bm_pages u = bm_pages t" and "bd_contig (bf_priv b) \<Longrightarrow> num_pages mm sz \<noteq> 0"
  shows "atp_buffer_manager_release mm b u = Inr ((), u\<lparr>bm_pages := bm_pages s, bm_objects := bm_objects u - 2\<rparr>)"
proof -
  from assms(1) have ps: "distinct ps" "bd_pages (bf_priv b) = map Some ps" "bf_size b = sz" "length ps = num_pages mm sz"
    "bd_num_pages (bf_priv b) < 2147483648"
    by (simp_all add: exported_def)
  from assms(1) obtain new where new: "set new = set ps" "distinct (new @ bm_pages s)"
      "t = s\<lparr>bm_pages := new @ bm_pages s, bm_objects := bm_objects s + 2\<rparr>"
    unfolding exported_def by blast
  have f: "eachS (\<lambda>q. free_page (Some q)) ps u = Inr ((), u\<lparr>bm_pages := bm_pages s\<rparr>)"
    by (rule free_pages_run [OF ps(1) new(1) [symmetric] _ new(2)]) (simp add: assms(2) new(3))
  show ?thesis
  proof (cases "bd_contig (bf_priv b)")
    case True
    with assms(1) obtain p where p: "ps = [p..<p + num_pages mm sz]" by (auto simp: exported_def)
    with assms(3) [OF True] have "[p..<p + num_pages mm sz] = p # [Suc p..<p + num_pages mm sz]"
      by (simp add: upt_conv_Cons)
    with True ps p f show ?thesis
      by (simp add: atp_buffer_manager_release_def Let_def thenS_def bindS_def objects_def)
  next
    case False
    with ps f show ?thesis
      by (simp add: atp_buffer_manager_release_def Let_def thenS_def bindS_def objects_def eachS_map int_counts_run)
  qed
qed

text \<open>
  C15. Memory of a buffer is returned. When a buffer with at least one page was exported and each of
  its pages could be allocated, the release that the framework calls when the last reference goes
  frees exactly its pages and the objects of the module: the pages in use are again those from
  before, in the same order.
\<close>

theorem buffer_memory_is_returned:
  assumes "allocators_ok mm" and "distinct (bm_pages s)" and "num_pages mm sz \<noteq> 0"
    and "atp_buffer_manager_export mm sz contig s = Inr (Inr b, t)" and "None \<notin> set (bd_pages (bf_priv b))"
  shows "length (bm_pages t) = length (bm_pages s) + num_pages mm sz \<and> distinct (bm_pages t)
    \<and> atp_buffer_manager_release mm b t = Inr ((), s)"
proof -
  obtain ps where ps: "exported mm sz ps s b t" using export_run [OF assms(1,2,4,5)] by blast
  from ps obtain new where new: "length ps = num_pages mm sz" "distinct ps" "set new = set ps" "distinct (new @ bm_pages s)"
      "t = s\<lparr>bm_pages := new @ bm_pages s, bm_objects := bm_objects s + 2\<rparr>"
    unfolding exported_def by blast
  have "length new = length ps"
    using distinct_card [of new] distinct_card [of ps] new(2,3,4) by simp
  with new release_run [OF ps refl] assms(3) show ?thesis by simp
qed

text \<open>
  A failed export loses its pages. When the framework refuses a buffer whose pages have been
  allocated, the module returns the error and frees its own objects, but every page it allocated for
  the buffer stays allocated, and nothing refers to it.
\<close>

theorem failed_export_loses_pages:
  assumes "mm_export mm \<noteq> 0" and "mm_alloc_exact mm (bm_pages s) (num_pages mm sz) = Some p" and "mm_kzalloc mm"
    and "num_pages mm sz < 2147483648"
  shows "\<exists>t. atp_buffer_manager_export mm sz True s = Inr (Inl (mm_export mm), t)
    \<and> bm_pages t = [p..<p + num_pages mm sz] @ bm_pages s \<and> bm_objects t = bm_objects s
    \<and> bm_buffers t = bm_buffers s"
  using assms by (simp add: atp_buffer_manager_export_def Let_def thenS_def bindS_def objects_def alloc_pages_exact_def
      export_err_def dma_buf_export_def int_counts_run)

text \<open>
  C37. A buffer that cannot be reported is freed twice. When the result of the call that creates a
  buffer cannot be copied to the caller, the module releases the buffer itself and returns an error,
  although the descriptor still refers to it: the release that follows when the descriptor is closed
  frees pages that are free.
\<close>

theorem unreported_buffer_is_freed_twice:
  assumes "allocators_ok mm" and "distinct (bm_pages s)" and "num_pages mm (page_align mm (gb_size d)) \<noteq> 0"
    and "atp_buffer_manager_export mm (page_align mm (gb_size d)) (gb_contig d) s = Inr (Inr b, t)"
    and "None \<notin> set (bd_pages (bf_priv b))"
  shows "\<exists>u. ioctl_get_buf mm addr (Some d) False s = Inr ((- EFAULT, None), u)
    \<and> map_of (bm_buffers u) addr = Some b \<and> last_put mm addr u = Inl (Undefined ''free_page'')"
proof -
  let ?sz = "page_align mm (gb_size d)"
  obtain ps where ps: "exported mm ?sz ps s b t" using export_run [OF assms(1,2,4,5)] by blast
  let ?t = "t\<lparr>bm_buffers := (addr, b) # bm_buffers t\<rparr>"
  let ?u = "?t\<lparr>bm_pages := bm_pages s, bm_objects := bm_objects ?t - 2\<rparr>"
  have r: "atp_buffer_manager_release mm b ?t = Inr ((), ?u)"
    using assms(3) by (intro release_run [OF ps]) simp_all
  have i: "ioctl_get_buf mm addr (Some d) False s = Inr ((- EFAULT, None), ?u)"
    using assms(4) r by (simp add: ioctl_get_buf_def Let_def bindS_def thenS_def)
  from ps have p: "bd_pages (bf_priv b) = map Some ps" "length ps = num_pages mm ?sz" "bf_size b = ?sz"
      "bd_num_pages (bf_priv b) = num_pages mm ?sz" "num_pages mm ?sz < 2147483648"
      "bd_contig (bf_priv b) \<Longrightarrow> \<exists>p. ps = [p..<p + num_pages mm ?sz]"
    unfolding exported_def by blast+
  from ps have free: "\<forall>q \<in> set ps. q \<notin> set (bm_pages s)"
    unfolding exported_def distinct_append by blast
  obtain q qs where q: "ps = q # qs" using p(2) assms(3) by (cases ps) auto
  have f: "eachS free_page (map Some ps) ?u = Inl (Undefined ''free_page'')"
    using free by (simp add: q thenS_def bindS_def free_page_def)
  have "atp_buffer_manager_release mm b ?u = Inl (Undefined ''free_page'')"
  proof (cases "bd_contig (bf_priv b)")
    case True
    then obtain k where k: "ps = [k..<k + num_pages mm ?sz]" using p(6) by blast
    with q have "k = q" using assms(3) by (simp add: upt_conv_Cons)
    with k q have upt: "[q..<q + num_pages mm ?sz] = q # qs" by simp
    have pages: "bd_pages (bf_priv b) = Some q # map Some qs" by (simp add: p(1) q)
    have "eachS (\<lambda>x. free_page (Some x)) (q # qs) ?u = Inl (Undefined ''free_page'')"
      using f by (simp only: q eachS_map)
    with True p(3) upt show ?thesis
      by (simp add: atp_buffer_manager_release_def Let_def pages thenS_def bindS_def)
  next
    case False
    with f p(1,4,5) show ?thesis by (simp add: atp_buffer_manager_release_def Let_def thenS_def bindS_def int_counts_run)
  qed
  then have "last_put mm addr ?u = Inl (Undefined ''free_page'')"
    by (simp add: last_put_def bindS_def thenS_def)
  with i show ?thesis by (intro exI [of _ ?u]) simp
qed

section \<open>Mappings\<close>

lemma mmap_loop_run:
  "\<forall>a p. mm_insert mm a p = 0 \<Longrightarrow> mmap_loop mm a vm_end ps = (0, xs) \<Longrightarrow>
    (\<forall>k < length xs. xs ! k = (a + k * 2 ^ mm_shift mm, ps ! k) \<and> fst (xs ! k) < vm_end)
    \<and> length xs \<le> length ps
    \<and> (length xs < length ps \<longrightarrow> vm_end \<le> a + length xs * 2 ^ mm_shift mm)"
proof (induction ps arbitrary: a xs)
  case (Cons p ps)
  show ?case
  proof (cases "vm_end \<le> a")
    case True
    with Cons.prems show ?thesis by simp
  next
    case False
    with Cons.prems obtain ys where ys: "mmap_loop mm (a + 2 ^ mm_shift mm) vm_end ps = (0, ys)" "xs = (a, p) # ys"
      by (auto simp: Let_def split: prod.splits)
    from Cons.IH [OF Cons.prems(1) ys(1)] False show ?thesis
      by (auto simp: ys(2) nth_Cons algebra_simps split: nat.split)
  qed
qed simp

lemma wrap_around: "m \<le> x \<Longrightarrow> x < 2 * m \<Longrightarrow> x mod m = x - m" for x m :: int
  using minus_mod_self2 [of x m] mod_pos_pos_trivial [of "x - m" m] by linarith

lemma wrap_below: "- m \<le> x \<Longrightarrow> x < 0 \<Longrightarrow> x mod m = x + m" for x m :: int
  using mod_add_self2 [of x m] mod_pos_pos_trivial [of "x + m" m] by linarith

lemma sign_extended:
  fixes i :: u32
  shows "unat (scast i :: u64) = (if unat i < 2 ^ 31 then unat i else unat i + 2 ^ 64 - 2 ^ 32)"
proof -
  define n where "n = uint i"
  have n: "0 \<le> n" "n < 2 ^ 32" using uint_lt2p [of i] by (simp_all add: n_def)
  have u: "unat i = nat n" unfolding n_def by (rule unat_eq_nat_uint)
  have "sint i = (n + 2 ^ 31) mod 2 ^ 32 - 2 ^ 31"
    unfolding sint_uint signed_take_bit_eq_take_bit_shift take_bit_eq_mod n_def by simp
  moreover have "unat (scast i :: u64) = nat (sint i mod 2 ^ 64)"
    unfolding unat_eq_nat_uint scast_eq uint_word_of_int by simp
  ultimately have "unat (scast i :: u64) = nat ((((n + 2 ^ 31) mod 2 ^ 32) - 2 ^ 31) mod 2 ^ 64)"
    by (simp only:)
  moreover have "(((n + 2 ^ 31) mod 2 ^ 32) - 2 ^ 31) mod 2 ^ 64 = (if n < 2 ^ 31 then n else n + 2 ^ 64 - 2 ^ 32)"
  proof (cases "n < 2 ^ 31")
    case True
    with n show ?thesis by simp
  next
    case False
    with n have "(n + 2 ^ 31) mod 2 ^ 32 = n + 2 ^ 31 - 2 ^ 32" by (intro wrap_around) simp_all
    moreover from False n have "(n - 2 ^ 32) mod 2 ^ 64 = n - 2 ^ 32 + 2 ^ 64" by (intro wrap_below) simp_all
    ultimately show ?thesis using False by simp
  qed
  ultimately show ?thesis using n by (simp add: u nat_diff_distrib nat_add_distrib nat_less_iff)
qed

lemma page_index_small:
  "unat (ucast off :: u32) < 2 ^ 31 \<Longrightarrow> page_index off = unat (ucast off :: u32)"
  "\<not> unat (ucast off :: u32) < 2 ^ 31 \<Longrightarrow> 2 ^ 31 \<le> page_index off"
  unfolding page_index_def Let_def sign_extended by simp_all

text \<open>
  C38. A mapping shows the buffer in order. The offset of the area, in pages, is cut to an \<^verbatim>\<open>int\<close>. When the cut offset is
  not negative and no insertion fails, the area of a process receives the pages of the buffer from that offset on, one after
  the other at consecutive page addresses, and it ends at the last page of the buffer or at the end of the area, whichever
  comes first; when it is negative the area receives no page. So an offset of \<open>2 ^ 32\<close> shows the buffer from its
  first page. The buffer has fewer than \<open>2 ^ 31\<close> pages, as every exported one.
\<close>

theorem mmap_shows_pages_in_order:
  assumes "\<forall>a p. mm_insert mm a p = 0" and "length (bd_pages (bf_priv b)) < 2 ^ 31"
  shows "\<exists>xs. atp_buffer_manager_mmap mm b vm_start vm_end vm_pgoff = (0, xs)
    \<and> (let i = unat (ucast vm_pgoff :: u32); n = length (bd_pages (bf_priv b)) in
       if i < 2 ^ 31 then
         (\<forall>k < length xs. xs ! k = (vm_start + k * 2 ^ mm_shift mm, bd_pages (bf_priv b) ! (i + k)) \<and> fst (xs ! k) < vm_end)
         \<and> (length xs = n - i \<or> length xs < n - i \<and> vm_end \<le> vm_start + length xs * 2 ^ mm_shift mm)
       else xs = [])"
proof -
  let ?i = "page_index vm_pgoff"
  have "fst (mmap_loop mm a vm_end ps) = 0" for a ps
    using assms(1) by (induction ps arbitrary: a) (auto simp: Let_def split: prod.splits, metis fst_conv)
  then obtain xs where xs: "mmap_loop mm vm_start vm_end (drop ?i (bd_pages (bf_priv b))) = (0, xs)"
    by (metis prod.collapse)
  from mmap_loop_run [OF assms(1) xs] have r: "\<forall>k < length xs. xs ! k = (vm_start + k * 2 ^ mm_shift mm, bd_pages (bf_priv b) ! (?i + k))
      \<and> fst (xs ! k) < vm_end" "length xs \<le> length (bd_pages (bf_priv b)) - ?i"
    "length xs < length (bd_pages (bf_priv b)) - ?i \<longrightarrow> vm_end \<le> vm_start + length xs * 2 ^ mm_shift mm"
    by auto
  show ?thesis
  proof (cases "unat (ucast vm_pgoff :: u32) < 2 ^ 31")
    case True
    with r xs show ?thesis unfolding page_index_small(1) [OF True] atp_buffer_manager_mmap_def Let_def if_P [OF True]
      by (intro exI [of _ xs]) auto
  next
    case False
    with page_index_small(2) [OF False] r(2) assms(2) have "xs = []" by simp
    with xs show ?thesis unfolding atp_buffer_manager_mmap_def Let_def if_not_P [OF False] by simp
  qed
qed

section \<open>Instances\<close>

text \<open>Pages of 4096 bytes; the allocators take pages behind the last one in use.\<close>

definition demo_memory :: memory where
  "demo_memory = \<lparr>mm_shift = 12, mm_alloc_page = (\<lambda>used. Some (Suc (foldr max used 0))),
     mm_alloc_exact = (\<lambda>used n. Some (Suc (foldr max used 0))), mm_iommu = True, mm_export = 0, mm_fd = 4,
     mm_sg_alloc = 0, mm_map_sg = (\<lambda>n. n), mm_insert = (\<lambda>a p. 0), mm_kzalloc = True\<rparr>"

definition demo_buffers :: buffers where
  "demo_buffers = \<lparr>bm_pages = [7], bm_objects = 0, bm_buffers = [], bm_tables = []\<rparr>"

definition demo_get :: get_buf_data where
  "demo_get = \<lparr>gb_size = 8000, gb_contig = False, gb_fd = 0\<rparr>"

lemma demo_allocators: "allocators_ok demo_memory"
proof -
  have "x \<in> set used \<Longrightarrow> x \<le> foldr max used 0" for x and used :: "nat list" by (induction used) auto
  then show ?thesis by (fastforce simp: allocators_ok_def demo_memory_def)
qed

lemma demo_size: "page_align demo_memory 8000 = 8192" "num_pages demo_memory 8192 = 2"
  by code_simp+

lemma demo_export: "case atp_buffer_manager_export demo_memory 8192 False demo_buffers of
    Inr (Inr b, t) \<Rightarrow> bd_pages (bf_priv b) = [Some 8, Some 9] \<and> bm_pages t = [9, 8, 7] | _ \<Rightarrow> False"
  by code_simp

lemma demo_exported: "\<exists>b t. atp_buffer_manager_export demo_memory 8192 False demo_buffers = Inr (Inr b, t)
    \<and> bd_pages (bf_priv b) = [Some 8, Some 9] \<and> bm_pages t = [9, 8, 7]"
proof (cases "atp_buffer_manager_export demo_memory 8192 False demo_buffers")
  case (Inl e)
  with demo_export show ?thesis by simp
next
  case (Inr x)
  obtain a t where x: "x = (a, t)" by (cases x)
  with demo_export Inr show ?thesis by (cases a) auto
qed

theorem buffer_memory_is_returned_witness:
  "\<exists>b t. atp_buffer_manager_export demo_memory 8192 False demo_buffers = Inr (Inr b, t) \<and> bm_pages t = [9, 8, 7]
    \<and> atp_buffer_manager_release demo_memory b t = Inr ((), demo_buffers)"
proof -
  obtain b t where e: "atp_buffer_manager_export demo_memory 8192 False demo_buffers = Inr (Inr b, t)"
    "bd_pages (bf_priv b) = [Some 8, Some 9]" "bm_pages t = [9, 8, 7]"
    using demo_exported by blast
  have "distinct (bm_pages demo_buffers)" by (simp add: demo_buffers_def)
  from buffer_memory_is_returned [OF demo_allocators this _ e(1)] e show ?thesis
    by (auto simp: demo_size)
qed

theorem failed_export_loses_pages_witness:
  "\<exists>t. atp_buffer_manager_export (demo_memory\<lparr>mm_export := -12\<rparr>) 8192 True demo_buffers = Inr (Inl (-12), t)
    \<and> bm_pages t = [8, 9, 7]"
proof -
  have "num_pages (demo_memory\<lparr>mm_export := -12\<rparr>) 8192 = 2" by code_simp
  with failed_export_loses_pages [of "demo_memory\<lparr>mm_export := -12\<rparr>" demo_buffers 8192 8] show ?thesis
    by (auto simp: demo_memory_def demo_buffers_def upt_rec)
qed

theorem unreported_buffer_is_freed_twice_witness:
  "\<exists>u. ioctl_get_buf demo_memory 64 (Some demo_get) False demo_buffers = Inr ((- EFAULT, None), u)
    \<and> last_put demo_memory 64 u = Inl (Undefined ''free_page'')"
proof -
  obtain b t where e: "atp_buffer_manager_export demo_memory (page_align demo_memory (gb_size demo_get)) (gb_contig demo_get) demo_buffers = Inr (Inr b, t)"
    "bd_pages (bf_priv b) = [Some 8, Some 9]"
    using demo_exported by (auto simp: demo_get_def demo_size)
  from unreported_buffer_is_freed_twice [OF demo_allocators _ _ e(1), of 64] e(2) show ?thesis
    by (auto simp: demo_size demo_get_def demo_buffers_def)
qed

definition two_pages :: dma_buffer where
  "two_pages = \<lparr>bf_size = 8192, bf_priv = \<lparr>bd_num_pages = 2, bd_pages = [Some 8, Some 9], bd_contig = False\<rparr>,
     bf_attachments = []\<rparr>"

theorem mmap_shows_pages_in_order_witness:
  "\<exists>xs ys. atp_buffer_manager_mmap demo_memory two_pages 65536 131072 1 = (0, xs) \<and> length xs = 1
    \<and> atp_buffer_manager_mmap demo_memory two_pages 65536 131072 4294967297 = (0, ys) \<and> length ys = 1"
proof -
  have p: "length (bd_pages (bf_priv two_pages)) = 2" by (simp add: two_pages_def)
  have m: "\<forall>a p. mm_insert demo_memory a p = 0" "mm_shift demo_memory = 12" by (simp_all add: demo_memory_def)
  have i: "unat (ucast (1 :: u64) :: u32) = 1" "unat (ucast (4294967297 :: u64) :: u32) = 1" by simp_all
  note b = mmap_shows_pages_in_order [OF m(1), of two_pages 65536 131072]
  from b [of 1] obtain xs where xs: "atp_buffer_manager_mmap demo_memory two_pages 65536 131072 1 = (0, xs)" "length xs = 1"
    by (auto simp: p i m(2) Let_def)
  from b [of 4294967297] obtain ys where ys: "atp_buffer_manager_mmap demo_memory two_pages 65536 131072 4294967297 = (0, ys)"
      "length ys = 1"
    by (auto simp: p i m(2) Let_def)
  from xs ys show ?thesis by blast
qed

end
