(* ===== verification/User_Library.thy ===== *)
theory User_Library
  imports Linux_Driver Buffer_Manager
begin

text \<open>
  The user library (\<^verbatim>\<open>linux/uapi/atp.c\<close>): its calls on the models of the two modules, and the transfer
  of a descriptor over a socket. The argument of a call is in the memory of the caller, which the
  handlers can read; whether they can write it is \<open>copied\<close>. The C library and the sockets of the system
  are not part of the repository: \<open>ioctl_result\<close> is the documented result of \<^verbatim>\<open>ioctl\<close>, -1 for an error, and
  the record \<open>system\<close> holds the answers of the socket calls. The mapping calls of \<^verbatim>\<open>mmap\<close> and \<^verbatim>\<open>munmap\<close> only
  call the system.
\<close>

definition ioctl_result :: "int \<Rightarrow> int" where
  "ioctl_result e = (if e < 0 then -1 else e)"

section \<open>Buffers\<close>

definition atp_buffer_allocate :: "memory \<Rightarrow> nat \<Rightarrow> bool \<Rightarrow> u64 \<Rightarrow> bool \<Rightarrow> int buffer_op" where
  "atp_buffer_allocate mm addr copied sz contig =
    bindS (ioctl_get_buf mm addr (Some \<lparr>gb_size = sz, gb_contig = contig, gb_fd = 0\<rparr>) copied) (\<lambda>(e, d).
    returnS (if ioctl_result e \<noteq> 0 then ioctl_result e else gb_fd (the_default \<lparr>gb_size = sz, gb_contig = contig, gb_fd = 0\<rparr> d)))"

definition atp_buffer_get :: "memory \<Rightarrow> nat \<Rightarrow> bool \<Rightarrow> u64 \<Rightarrow> int buffer_op" where
  "atp_buffer_get mm addr copied sz = atp_buffer_allocate mm addr copied sz False"

definition atp_buffer_get_contig :: "memory \<Rightarrow> nat \<Rightarrow> bool \<Rightarrow> u64 \<Rightarrow> int buffer_op" where
  "atp_buffer_get_contig mm addr copied sz = atp_buffer_allocate mm addr copied sz True"

definition atp_buffer_put :: "(int \<Rightarrow> int + nat) \<Rightarrow> int \<Rightarrow> int buffer_op" where
  "atp_buffer_put buf buf_fd = bindS (ioctl_put_buf (Some buf_fd) buf) (\<lambda>e. returnS (ioctl_result e))"

text \<open>
  Cache maintenance around accesses of the processor: the flags go to the framework's own call
  \<open>sync\<close>. The constants are those of \<^verbatim>\<open>linux/dma-buf.h\<close>.
\<close>

definition atp_buffer_cpu_access :: "(int \<Rightarrow> u64 \<Rightarrow> int) \<Rightarrow> int \<Rightarrow> u64 \<Rightarrow> int" where
  "atp_buffer_cpu_access sync buf_fd access_flag = sync buf_fd (or access_flag 3)"

definition atp_buffer_cpu_begin :: "(int \<Rightarrow> u64 \<Rightarrow> int) \<Rightarrow> int \<Rightarrow> int" where
  "atp_buffer_cpu_begin sync buf_fd = atp_buffer_cpu_access sync buf_fd 0"

definition atp_buffer_cpu_end :: "(int \<Rightarrow> u64 \<Rightarrow> int) \<Rightarrow> int \<Rightarrow> int" where
  "atp_buffer_cpu_end sync buf_fd = atp_buffer_cpu_access sync buf_fd 4"

section \<open>Passing a buffer to another process\<close>

text \<open>
  The descriptors the process has open, and the control messages sent, by the path of the socket.
\<close>

record control_message =
  cm_len :: nat
  cm_level :: nat
  cm_type :: nat
  cm_data :: int

record sockets =
  sk_open :: "int list"
  sk_sent :: "(string \<times> control_message) list"

record system =
  sy_socket :: "int list \<Rightarrow> int"
  sy_connect :: "nat \<Rightarrow> int"
  sy_sendmsg :: int
  sy_bind :: int
  sy_listen :: int
  sy_accept :: "int list \<Rightarrow> int"
  sy_recvmsg :: "int \<times> control_message option"

type_synonym 'a socket_op = "(sockets, 'a) comp"

definition CMSG_LEN_int :: nat where "CMSG_LEN_int = 20"
definition SOL_SOCKET :: nat where "SOL_SOCKET = 1"
definition SCM_RIGHTS :: nat where "SCM_RIGHTS = 1"

text \<open>\<^verbatim>\<open>strncpy\<close> into the 108 bytes of an address, the last of which stays zero.\<close>

definition sun_path :: "string \<Rightarrow> string" where
  "sun_path fpath = take 107 fpath"

definition opened :: "(int list \<Rightarrow> int) \<Rightarrow> int socket_op" where
  "opened f = bindS getS (\<lambda>s. let d = f (sk_open s) in
     thenS (whenS (d \<noteq> -1) (modifyS (\<lambda>s. s\<lparr>sk_open := d # sk_open s\<rparr>))) (returnS d))"

definition close_fd :: "int \<Rightarrow> unit socket_op" where
  "close_fd d = modifyS (\<lambda>s. s\<lparr>sk_open := remove1 d (sk_open s)\<rparr>)"

text \<open>Connecting is tried until it succeeds; \<open>n\<close> bounds the attempts.\<close>

fun connect_loop :: "system \<Rightarrow> nat \<Rightarrow> nat \<Rightarrow> unit socket_op" where
  "connect_loop sy 0 k = failS OutOfFuel"
| "connect_loop sy (Suc n) k = (if sy_connect sy k = 0 then returnS () else connect_loop sy n (Suc k))"

definition atp_buffer_send :: "system \<Rightarrow> nat \<Rightarrow> string \<Rightarrow> int \<Rightarrow> int socket_op" where
  "atp_buffer_send sy n fpath buf_fd =
    bindS (opened (sy_socket sy)) (\<lambda>csocket.
    if csocket = -1 then returnS (-1)
    else thenS (connect_loop sy n 0)
      (thenS (whenS (0 \<le> sy_sendmsg sy) (modifyS (\<lambda>s. s\<lparr>sk_sent := sk_sent s @ [(sun_path fpath,
         \<lparr>cm_len = CMSG_LEN_int, cm_level = SOL_SOCKET, cm_type = SCM_RIGHTS, cm_data = buf_fd\<rparr>)]\<rparr>)))
      (thenS (close_fd csocket)
      (returnS (if sy_sendmsg sy < 0 then -2 else 0)))))"

definition extract_fd :: "control_message option \<Rightarrow> int" where
  "extract_fd hp = (case hp of
     None \<Rightarrow> -1
   | Some h \<Rightarrow> if cm_len h = CMSG_LEN_int \<and> cm_level h = SOL_SOCKET \<and> cm_type h = SCM_RIGHTS then cm_data h else -1)"

text \<open>The label \<^verbatim>\<open>atp_buffer_receive_close\<close> closes the listening socket only.\<close>

definition atp_buffer_receive :: "system \<Rightarrow> int socket_op" where
  "atp_buffer_receive sy =
    bindS (opened (sy_socket sy)) (\<lambda>ssocket.
    if ssocket = -1 then returnS (-1)
    else bindS
      (if sy_bind sy \<noteq> 0 then returnS (-1)
       else if sy_listen sy \<noteq> 0 then returnS (-1)
       else bindS (opened (sy_accept sy)) (\<lambda>conn_socket.
         if conn_socket = -1 then returnS (-1)
         else returnS (if fst (sy_recvmsg sy) \<le> 0 then -1 else extract_fd (snd (sy_recvmsg sy))))) (\<lambda>buf_fd.
    thenS (close_fd ssocket) (returnS buf_fd)))"

text \<open>
  What one process sends the other one receives; the sender closes its socket, the receiver leaves
  the connection open.
\<close>

lemma connect_loop_ends: "(\<forall>i < j. sy_connect sy (k + i) \<noteq> 0) \<Longrightarrow> sy_connect sy (k + j) = 0 \<Longrightarrow> j < n \<Longrightarrow>
    connect_loop sy n k s = Inr ((), s)"
proof (induction n arbitrary: j k)
  case (Suc n)
  show ?case
  proof (cases j)
    case (Suc j')
    have "sy_connect sy k \<noteq> 0" using Suc.prems(1) \<open>j = Suc j'\<close> by (metis add_0_right zero_less_Suc)
    moreover have "connect_loop sy n (Suc k) s = Inr ((), s)"
      using Suc.prems \<open>j = Suc j'\<close> by (intro Suc.IH [of j']) (auto simp flip: add_Suc_right)
    ultimately show ?thesis by simp
  qed (use Suc.prems in simp)
qed simp

lemma descriptor_is_passed:
  assumes "sy_socket a (sk_open s) = c" "c \<noteq> -1" "\<forall>i < j. sy_connect a i \<noteq> 0" "sy_connect a j = 0" "j < n" "0 \<le> sy_sendmsg a"
    and "sy_socket b (sk_open r) = l" "l \<noteq> -1" "sy_bind b = 0" "sy_listen b = 0"
    and "sy_accept b (l # sk_open r) = d" "d \<noteq> -1" "d \<noteq> l" "0 < fst (sy_recvmsg b)"
  shows "\<exists>m. atp_buffer_send a n fpath fd s = Inr (0, s\<lparr>sk_sent := sk_sent s @ [(sun_path fpath, m)]\<rparr>)
    \<and> (snd (sy_recvmsg b) = Some m \<longrightarrow> atp_buffer_receive b r = Inr (fd, r\<lparr>sk_open := d # sk_open r\<rparr>))"
proof -
  let ?m = "\<lparr>cm_len = CMSG_LEN_int, cm_level = SOL_SOCKET, cm_type = SCM_RIGHTS, cm_data = fd\<rparr>"
  have "atp_buffer_send a n fpath fd s = Inr (0, s\<lparr>sk_sent := sk_sent s @ [(sun_path fpath, ?m)]\<rparr>)"
    using assms(1-6) connect_loop_ends [of j a 0 n]
    by (simp add: atp_buffer_send_def opened_def close_fd_def comp_defs)
  moreover have "snd (sy_recvmsg b) = Some ?m \<Longrightarrow> atp_buffer_receive b r = Inr (fd, r\<lparr>sk_open := d # sk_open r\<rparr>)"
    using assms(7-14) by (simp add: atp_buffer_receive_def opened_def close_fd_def extract_fd_def comp_defs)
  ultimately show ?thesis by blast
qed

section \<open>Devices\<close>

definition atp_device_attach :: "'z driver_scheme kernel \<Rightarrow> int \<Rightarrow> ('z, int) driver_op" where
  "atp_device_attach kn buf_fd = bindS (atp_device_ioctl kn (ATP_ATTACH_BUFFER (Some buf_fd))) (\<lambda>(e, i). returnS (ioctl_result e))"

definition atp_device_detach :: "'z driver_scheme kernel \<Rightarrow> int \<Rightarrow> ('z, int) driver_op" where
  "atp_device_detach kn buf_fd = bindS (atp_device_ioctl kn (ATP_DETACH_BUFFER (Some buf_fd))) (\<lambda>(e, i). returnS (ioctl_result e))"

definition atp_device_play_stream :: "'z driver_scheme kernel \<Rightarrow> u64 \<Rightarrow> u32 \<Rightarrow> int \<Rightarrow> int \<Rightarrow> ('z, int) driver_op" where
  "atp_device_play_stream kn stream_id flow_id read_fd write_fd =
    bindS (atp_device_ioctl kn (ATP_PLAY_STREAM (Some \<lparr>pd_atp_stream_id = stream_id, pd_flow_id = flow_id,
      pd_read_fd = read_fd, pd_write_fd = write_fd\<rparr>))) (\<lambda>(e, i). returnS (ioctl_result e))"

text \<open>The result is the code and what is stored through \<^verbatim>\<open>stream_id\<close>, if anything.\<close>

definition atp_device_unique_stream :: "'z driver_scheme kernel \<Rightarrow> string \<Rightarrow> bool \<Rightarrow> ('z, int \<times> u64 option) driver_op" where
  "atp_device_unique_stream kn stream_name copied =
    bindS (atp_device_ioctl kn (ATP_UNIQUE_STREAM (Some (if length stream_name < 256 then Some stream_name else None)) copied))
    (\<lambda>(e, i). returnS (ioctl_result e, if ioctl_result e \<noteq> 0 then None else i))"

section \<open>A program\<close>

text \<open>
  The test of the library: create a stream, play it with one buffer to read. Only when the stream
  could be created is it played.
\<close>

definition create_and_play :: "'z driver_scheme kernel \<Rightarrow> string \<Rightarrow> u32 \<Rightarrow> int \<Rightarrow> ('z, int) driver_op" where
  "create_and_play kn name flow_id read_fd =
    bindS (atp_device_unique_stream kn name True) (\<lambda>(e, i). case i of
      None \<Rightarrow> returnS e
    | Some stream_id \<Rightarrow> atp_device_play_stream kn stream_id flow_id read_fd (-1))"

text \<open>
  The driver uses the result of \<^verbatim>\<open>strndup_user\<close> without a check, so a name of 256 or more
  characters makes it read the length of a string at an address that is an error code.
\<close>

lemma long_name_has_no_meaning:
  "256 \<le> length name \<Longrightarrow> kn_alloc kn (dr_allocations s) \<Longrightarrow>
    atp_device_unique_stream kn name copied s = Inl (Undefined ''strlen'')"
  by (simp add: atp_device_unique_stream_def atp_device_ioctl_def kzalloc_def bindS_def thenS_def)

end
