(* ===== verification/Unit_Tests.thy ===== *)
theory Unit_Tests
  imports Fifo_Model Kronos Tagger Statistics Utilities Computations
begin

text \<open>
  Unit tests of the repository (\<^verbatim>\<open>test_atp.cc\<close>) as programs over the model: a call in a test is the
  operation of the model, an assertion is \<open>CPPUNIT_ASSERT\<close>, and a test passes when it returns. They
  check the model against what the authors of the code expect of it. The objects of a test are a
  record of its own.
\<close>

definition CPPUNIT_ASSERT :: "('s \<Rightarrow> bool) \<Rightarrow> ('s, unit) comp" where
  "CPPUNIT_ASSERT b = bindS getS (\<lambda>s. if b s then returnS () else failS (Uncaught ''CPPUNIT_ASSERT''))"

fun script :: "('s, unit) comp list \<Rightarrow> ('s, unit) comp" where
  "script [] = returnS ()"
| "script (m # ms) = thenS m (script ms)"

definition passes :: "('s, unit) comp \<Rightarrow> 's \<Rightarrow> bool" where
  "passes m s \<longleftrightarrow> (case m s of Inl e \<Rightarrow> False | Inr r \<Rightarrow> True)"

section \<open>Evaluation of doubles\<close>

text \<open>Integers up to \<open>2 ^ 53\<close> are doubles.\<close>

lemma fl_of_u64_code [code]:
  "fl_of_u64 w = (let n = uint w in if n \<le> 9007199254740992 then of_int n else rnd64 (of_int n))"
proof -
  have "of_nat (unat w) = rat_of_int (uint w)" 
    unfolding unat_eq_nat_uint by (rule of_nat_nat) simp
  then show ?thesis using rnd64_int [of "uint w"] by (simp add: fl_of_u64_def Let_def)
qed

text \<open>The logarithm and the rounding of a fraction on its numerator and denominator.\<close>

function frac_up :: "int \<Rightarrow> int \<Rightarrow> int" where
  "frac_up p q = (if 0 < q \<and> 2 * q \<le> p then 1 + frac_up p (2 * q) else 0)"
  by pat_completeness auto
termination by (relation "measure (\<lambda>(p, q). nat (p - q))") auto

function frac_dn :: "int \<Rightarrow> int \<Rightarrow> int" where
  "frac_dn p q = (if 0 < p \<and> p < q then frac_dn (2 * p) q - 1 else 0)"
  by pat_completeness auto
termination by (relation "measure (\<lambda>(p, q). nat (q - p))") auto

declare frac_up.simps [simp del] frac_dn.simps [simp del]

lemma flog2_up_frac: "0 < q \<Longrightarrow> flog2_up (of_int p / of_int q) = frac_up p q"
proof (induction p q rule: frac_up.induct)
  case (1 p q)
  have "2 \<le> rat_of_int p / of_int q \<longleftrightarrow> rat_of_int (2 * q) \<le> of_int p" using 1(2) by (simp add: le_divide_eq)
  also have "\<dots> \<longleftrightarrow> 2 * q \<le> p" by (rule of_int_le_iff)
  finally have c: "2 \<le> rat_of_int p / of_int q \<longleftrightarrow> 2 * q \<le> p" .
  show ?case
    using 1 c by (simp add: flog2_up.simps [of "of_int p / of_int q"] frac_up.simps [of p q] mult.commute)
qed

lemma flog2_dn_frac: "0 < q \<Longrightarrow> flog2_dn (of_int p / of_int q) = frac_dn p q"
proof (induction p q rule: frac_dn.induct)
  case (1 p q)
  have c: "0 < rat_of_int p / of_int q \<longleftrightarrow> 0 < p" "rat_of_int p / of_int q < 1 \<longleftrightarrow> p < q"
    using 1(2) by (simp_all add: divide_less_eq zero_less_divide_iff)
  show ?case
    using 1 c by (simp add: flog2_dn.simps [of "of_int p / of_int q"] frac_dn.simps [of p q])
qed

lemma flog2_frac: "0 < q \<Longrightarrow> flog2 (of_int p / of_int q) = (if q \<le> p then frac_up p q else frac_dn p q)"
  by (simp add: flog2_def flog2_up_frac flog2_dn_frac le_divide_eq)

definition round_div :: "int \<Rightarrow> int \<Rightarrow> int" where
  "round_div a b = (let f = a div b; r = 2 * (a mod b)
     in if r < b then f else if b < r then f + 1 else if even f then f else f + 1)"

lemma round_even_div: "0 < b \<Longrightarrow> round_even (of_int a / of_int b) = round_div a b"
proof -
  assume b: "0 < b"
  have f: "\<lfloor>rat_of_int a / of_int b\<rfloor> = a div b" by (rule floor_divide_of_int_eq)
  have "rat_of_int a = of_int (b * (a div b) + a mod b)" by simp
  then have "rat_of_int a / of_int b - of_int (a div b) = of_int (a mod b) / of_int b"
    using b by (simp only: of_int_add of_int_mult) (simp add: field_simps)
  moreover have "rat_of_int (a mod b) / of_int b < 1 / 2 \<longleftrightarrow> rat_of_int (2 * (a mod b)) < of_int b"
    "1 / 2 < rat_of_int (a mod b) / of_int b \<longleftrightarrow> rat_of_int b < of_int (2 * (a mod b))"
    using b by (simp_all add: field_simps)
  ultimately show ?thesis unfolding round_even_def round_div_def Let_def f of_int_less_iff by simp
qed

definition rnd_frac :: "int \<Rightarrow> int \<Rightarrow> int \<times> int" where
  "rnd_frac p q = (let e = max ((if q \<le> p then frac_up p q else frac_dn p q) - 52) (- 1074)
     in if 0 \<le> e then (round_div p (q * 2 ^ nat e) * 2 ^ nat e, 1)
        else (round_div (p * 2 ^ nat (- e)) q, 2 ^ nat (- e)))"

lemma rnd_pos_frac:
  assumes q: "0 < q"
  shows "rnd_pos (of_int p / of_int q) = (case rnd_frac p q of (n, d) \<Rightarrow> of_int n / of_int d)"
proof -
  define x e where "x = rat_of_int p / of_int q" and "e = ulp_exp x"
  have e': "max ((if q \<le> p then frac_up p q else frac_dn p q) - 52) (- 1074) = e"
    by (simp add: e_def x_def ulp_exp_def flog2_frac [OF q])
  have "rnd_pos x = (case rnd_frac p q of (n, d) \<Rightarrow> of_int n / of_int d)"
  proof (cases "0 \<le> e")
    case True
    have "x / 2 powi e = of_int p / of_int (q * 2 ^ nat e)"
      using True by (simp add: x_def power_int_def)
    then have "round_even (x / 2 powi e) = round_div p (q * 2 ^ nat e)"
      using q by (simp only: round_even_div zero_less_mult_iff zero_less_power zero_less_numeral simp_thms)
    with True show ?thesis by (simp add: rnd_pos_def rnd_frac_def e' power_int_def flip: e_def)
  next
    case False
    define n where "n = nat (- e)"
    have p2: "(2 :: rat) powi e = 1 / 2 ^ n"
      using False by (simp add: n_def power_int_def power_inverse field_simps)
    have "x / 2 powi e = of_int (p * 2 ^ n) / of_int q"
      unfolding p2 by (simp add: x_def)
    then have "round_even (x / 2 powi e) = round_div (p * 2 ^ n) q"
      by (simp only: round_even_div [OF q])
    with False show ?thesis by (simp add: rnd_pos_def rnd_frac_def e' p2 n_def flip: e_def)
  qed
  then show ?thesis by (simp only: x_def)
qed

text \<open>
  The result is a quotient of two numbers and its argument is read once, so nested operations are
  evaluated in turn.
\<close>

lemma rnd64_code [code]:
  "rnd64 x = (case quotient_of x of (p, q) \<Rightarrow>
     if q = 1 \<and> 0 \<le> p \<and> p \<le> 9007199254740992 then of_int p
     else case rnd_frac \<bar>p\<bar> q of (n, d) \<Rightarrow> if p < 0 then of_int (- n) / of_int d else of_int n / of_int d)"
proof -
  obtain p q where pq: "quotient_of x = (p, q)" by (cases "quotient_of x")
  have q: "0 < q" using quotient_of_denom_pos [OF pq] .
  have x: "x = of_int p / of_int q" using quotient_of_div [OF pq] .
  show ?thesis
  proof (cases "q = 1 \<and> 0 \<le> p \<and> p \<le> 9007199254740992")
    case True
    then show ?thesis using rnd64_int [of p] by (simp add: pq x)
  next
    case False
    consider "p < 0" | "p = 0" | "0 < p" by linarith
    then show ?thesis
    proof cases
      case 1
      then have "x < 0" "- x = of_int \<bar>p\<bar> / of_int q" using q by (simp_all add: x divide_less_0_iff)
      moreover obtain n d where nd: "rnd_frac \<bar>p\<bar> q = (n, d)" by (cases "rnd_frac \<bar>p\<bar> q")
      ultimately have "rnd64 x = of_int (- n) / of_int d"
        using rnd_pos_frac [OF q, of "\<bar>p\<bar>"] unfolding rnd64_def by (simp only: prod.case) simp
      with 1 show ?thesis unfolding pq prod.case nd by simp
    next
      case 2
      with x pq have "quotient_of 0 = (p, q)" by simp
      then have "q = 1" by simp
      with 2 False show ?thesis by simp
    next
      case 3
      then have "0 < x" using q by (simp add: x)
      with 3 False rnd_pos_frac [OF q, of p] show ?thesis by (auto simp: rnd64_def pq simp flip: x)
    qed
  qed
qed

text \<open>The decimals of a number with the accumulators as arguments, so that they are evaluated in turn.\<close>

fun with_decimals :: "string \<Rightarrow> double \<Rightarrow> double \<Rightarrow> double \<times> double" where
  "with_decimals [] num scale = (num, scale)"
| "with_decimals (c # cs) num scale =
     with_decimals cs (fl_add (fl_mul num 10) (of_int (digit_value c))) (fl_mul scale 10)"

lemma fold_decimals:
  "fold (\<lambda>c (num, scale). (fl_add (fl_mul num 10) (of_int (digit_value c)), fl_mul scale 10)) cs (num, scale)
     = with_decimals cs num scale"
  by (induction cs arbitrary: num scale) simp_all

lemma toUnsignedWithScale_fl_code [code]:
  "toUnsignedWithScale_fl s = (case stoll (int_part s) of None \<Rightarrow> None
     | Some n \<Rightarrow> Some (with_decimals (decimals s) (rnd64 (of_int n)) 1))"
  by (simp add: toUnsignedWithScale_fl_def fold_decimals split: option.splits)

section \<open>Test 0: the FIFO\<close>

text \<open>The variables of the test; underrun and overrun are passed by reference and only ever set.\<close>

record fifo_test =
  ft_fifo :: fifo
  ft_underrun :: bool
  ft_overrun :: bool
  ft_next :: u64
  ft_ok :: bool

text \<open>\<^verbatim>\<open>init\<close> without a profile: no event manager is attached.\<close>

definition test_init :: "ptype \<Rightarrow> u64 \<Rightarrow> u64 \<Rightarrow> u64 \<Rightarrow> u64 \<Rightarrow> bool \<Rightarrow> (fifo_test, unit) comp" where
  "test_init t r p l m e = (if m < r \<and> 0 < m then failS (ErrorExit ''Fifo::setup'')
     else modifyS (\<lambda>s. s\<lparr>ft_fifo := fifo_reset ((ft_fifo s)\<lparr>ff_type := t, ff_rate := r, ff_period := p,
       ff_startupLevel := l, ff_level := l, ff_maxLevel := m, ff_trackerEnabled := e\<rparr>)\<rparr>))"

definition test_send :: "u64 \<Rightarrow> u64 \<Rightarrow> (fifo_test, unit) comp" where
  "test_send t d = bindS getS (\<lambda>s. bindS (liftS (fifo_send t d (ft_fifo s))) (\<lambda>(ok, u, ov, n, rt, f).
     modifyS (\<lambda>s. s\<lparr>ft_fifo := f, ft_underrun := (ft_underrun s \<or> u), ft_overrun := (ft_overrun s \<or> ov),
       ft_next := n, ft_ok := ok\<rparr>)))"

definition test_receive :: "u64 \<Rightarrow> u64 \<Rightarrow> (fifo_test, unit) comp" where
  "test_receive t d = bindS getS (\<lambda>s. bindS (liftS (fifo_receive t d (ft_fifo s))) (\<lambda>(whole, u, ov, f).
     modifyS (\<lambda>s. s\<lparr>ft_fifo := f, ft_underrun := (ft_underrun s \<or> u), ft_overrun := (ft_overrun s \<or> ov)\<rparr>)))"

definition ot_is :: "u64 \<Rightarrow> (fifo_test, unit) comp" where
  "ot_is n = CPPUNIT_ASSERT (\<lambda>s. fifo_getOt (ft_fifo s) = n)"

definition level_is :: "u64 \<Rightarrow> (fifo_test, unit) comp" where
  "level_is n = CPPUNIT_ASSERT (\<lambda>s. ff_level (ft_fifo s) = n)"

definition flags_are :: "bool \<Rightarrow> bool \<Rightarrow> (fifo_test, unit) comp" where
  "flags_are u ov = CPPUNIT_ASSERT (\<lambda>s. ft_underrun s = u \<and> ft_overrun s = ov)"

text \<open>An empty FIFO that is read, with several outstanding transactions and an underrun.\<close>

definition testAtp_fifo_read :: "(fifo_test, unit) comp" where
  "testAtp_fifo_read = script [
     test_init P_READ 1000 1 0 2000 True,
     eachS (\<lambda>i. script [test_send i 1000, ot_is 1, test_receive i 1000, ot_is 0]) [0, 1],
     level_is 1000,
     test_send 2 0, ot_is 0, test_receive 2 0, ot_is 0,
     level_is 0, flags_are False False,
     test_send 2 1000, test_send 3 1000, ot_is 2, test_receive 3 1000, test_receive 4 1000, ot_is 0,
     test_send 5 0, ot_is 0, test_receive 5 0, ot_is 0, flags_are True False]"

text \<open>A full FIFO that is written, with partial responses, an overrun and a reset.\<close>

definition testAtp_fifo_write :: "(fifo_test, unit) comp" where
  "testAtp_fifo_write = script [
     modifyS (\<lambda>s. s\<lparr>ft_underrun := False, ft_overrun := False\<rparr>),
     test_init P_WRITE 1000 1 2000 2000 True,
     eachS (\<lambda>i. script [test_send i 1000, ot_is 1, test_receive i 500, test_receive i 500, ot_is 0]) [0, 1],
     level_is 1000,
     test_send 2 0, ot_is 0, test_receive 2 0, ot_is 0,
     level_is 2000, flags_are False False,
     test_send 3 0, ot_is 0, test_receive 3 0, ot_is 0, flags_are False True, level_is 2000,
     test_send 3 1000, ot_is 1, level_is 2000, test_receive 3 1000, level_is 1000,
     modifyS (\<lambda>s. s\<lparr>ft_fifo := fifo_reset (ft_fifo s)\<rparr>),
     ot_is 0, level_is 2000]"

text \<open>Activation in the middle of a period; the loop of the code before this part has no round left.\<close>

definition testAtp_fifo_period :: "(fifo_test, unit) comp" where
  "testAtp_fifo_period = script [
     test_init P_READ 1000 10 2000 2000 True,
     test_send 13 1000, CPPUNIT_ASSERT (\<lambda>s. \<not> ft_ok s \<and> ft_next s = 23),
     test_send 21 1000, CPPUNIT_ASSERT (\<lambda>s. \<not> ft_ok s \<and> ft_next s = 23),
     test_send 23 1000, CPPUNIT_ASSERT (\<lambda>s. ft_ok s \<and> ft_next s = 0),
     test_receive 33 1000,
     test_send 33 1000, CPPUNIT_ASSERT ft_ok]"

definition fifo_test_new :: fifo_test where
  "fifo_test_new = \<lparr>ft_fifo = fifo_new, ft_underrun = False, ft_overrun = False, ft_next = 0, ft_ok = False\<rparr>"

lemma fifo_read_passes: "passes testAtp_fifo_read fifo_test_new"
  by code_simp

lemma fifo_write_passes: "passes testAtp_fifo_write fifo_test_new"
  by code_simp

lemma fifo_period_passes: "passes testAtp_fifo_period fifo_test_new"
  by code_simp

section \<open>Test 1: events\<close>

definition testAtp_event :: bool where
  "testAtp_event = (let ev1 = mk_event NO_EVENT AWAITED 0 0; ev2 = mk_event NO_EVENT AWAITED 0 0;
     ev3 = mk_event NO_EVENT TRIGGERED 0 0; ev4 = mk_event TERMINATION AWAITED 0 0;
     ev5 = mk_event NO_EVENT TRIGGERED 1 0
   in event_eq ev1 ev2 \<and> event_eq ev1 ev3 \<and> \<not> event_eq ev1 ev4 \<and> \<not> event_eq ev1 ev5
     \<and> event_parse NO_EVENT ''testAtp_event TERMINATION'' = (True, TERMINATION, ''testAtp_event'')
     \<and> \<not> fst (event_parse TERMINATION ''ERROR ERROR''))"

lemma event_passes: testAtp_event
  by code_simp

section \<open>Test 3: tagging of packets\<close>

definition untagged :: "packet \<Rightarrow> bool" where
  "untagged p \<longleftrightarrow> pk_flow_id p = None \<and> pk_iommu_id p = None \<and> pk_stream_id p = None"

definition tagged_with :: "u64 \<Rightarrow> u32 \<Rightarrow> u64 \<Rightarrow> packet \<Rightarrow> bool" where
  "tagged_with f i st p \<longleftrightarrow> pk_flow_id p = Some f \<and> pk_iommu_id p = Some i \<and> pk_stream_id p = Some st"

definition testAtp_packetTagger :: bool where
  "testAtp_packetTagger = (
     let g = tagger_new 0;
         ids = (\<lambda>f i st g. g\<lparr>tg_flow_id := f, tg_iommu_id := i, tg_stream_id := st\<rparr>);
         (p, g) = tagPacket new_packet g;
         (p0, g0) = tagPacket new_packet (ids 0 0 0 g);
         (p1, g1) = tagPacket new_packet (ids 1 1 1 g0);
         (p2, g2) = tagPacket new_packet (ids 2 2 2 g1);
         (p3, g3) = tagPacket p2 (ids (tg_flow_id g2 + 10) (tg_iommu_id g2 + 10) (tg_stream_id g2 + 10) g2);
         (p4, g4) = tagPacket new_packet (ids invalid_id invalid_id32 invalid_id g3)
     in untagged new_packet \<and> untagged p \<and> tagged_with 0 0 0 p0 \<and> tagged_with 1 1 1 p1 \<and> tagged_with 2 2 2 p2
       \<and> pk_flow_id p3 \<noteq> Some 2 \<and> pk_iommu_id p3 \<noteq> Some 2 \<and> pk_stream_id p3 \<noteq> Some 2
       \<and> tagged_with 12 12 12 p3 \<and> untagged p4)"

lemma packetTagger_passes: testAtp_packetTagger
  by code_simp

section \<open>Test 4: statistics\<close>

text \<open>Two objects print the same when the averages and counters that \<^verbatim>\<open>dump\<close> prints agree.\<close>

definition same_dump :: "stats \<Rightarrow> stats \<Rightarrow> bool" where
  "same_dump s t \<longleftrightarrow> st_sent s = st_sent t \<and> st_received s = st_received t \<and> st_dataSent s = st_dataSent t
    \<and> st_dataReceived s = st_dataReceived t \<and> sendRate s = sendRate t \<and> receiveRate s = receiveRate t
    \<and> avgLatency s = avgLatency t \<and> avgJitter s = avgJitter t \<and> avgOt s = avgOt t
    \<and> st_underruns s = st_underruns t \<and> st_overruns s = st_overruns t \<and> avgFifoLevel s = avgFifoLevel t
    \<and> stats_getStartTime s = stats_getStartTime t \<and> stats_getTime s = stats_getTime t"

definition sends :: "u64 list \<Rightarrow> stats \<Rightarrow> stats" where
  "sends ts s = fold (\<lambda>t. stats_send t 1000 0) ts s"

definition testAtp_stats :: bool where
  "testAtp_stats = (
     let s1 = sends [0, 2, 4, 6, 8, 10] stats_new;
         r1 = stats_reset s1;
         r2 = stats_receive 10 1000 0 (stats_receive 0 0 0 r1);
         a1 = sends [0, 2, 4, 6, 8, 10] (stats_reset r2);
         a2 = sends [12, 14, 16, 18, 20, 22] stats_new;
         a3 = sends [0, 2, 4, 6, 8, 10, 12, 14, 16, 18, 20, 22] stats_new
     in st_dataSent s1 = 6000 \<and> sendRate s1 = Some 600 \<and> st_sent s1 = 6 \<and> st_received s1 = 0 \<and> st_dataReceived s1 = 0
       \<and> st_dataSent r1 = 0
       \<and> st_dataReceived r2 = 1000 \<and> receiveRate r2 = Some 100 \<and> st_sent r2 = 0 \<and> st_received r2 = 2
       \<and> (case stats_plus a1 a2 of Inl e \<Rightarrow> False | Inr s4 \<Rightarrow> same_dump s4 a3)
       \<and> (case stats_plus a2 a1 of Inl e \<Rightarrow> False | Inr s4 \<Rightarrow> same_dump s4 a3))"

lemma stats_passes: testAtp_stats
  by code_simp

section \<open>Test 9: conversion of units\<close>

definition testAtp_unitConversion :: bool where
  "testAtp_unitConversion \<longleftrightarrow>
     (toLower ''aBcDEFg'' = ''abcdefg'' \<and> reduce_fraction 30 6 = Inr (5, 1)
     \<and> isNumber ''10'' \<and> \<not> isNumber ''a'' \<and> trim '' t e s t '' = ''test''
     \<and> toUnsignedWithScale ''1.34'' = Some (134, 100) \<and> toBytes ''512 Bytes'' = Inr 512)
     \<and> (toRate ''3    TiB@s'' = Inr (3, 1099511627776)
     \<and> toRate ''    5 Kibit/s'' = Inr (5, 128)
     \<and> toRate ''    12.3 GBps'' = Inr (123, 100000000)
     \<and> toRate ''    4.23 Bpus'' = Inr (423, 10000)
     \<and> toRate ''44  Bpps'' = Inr (44, 1000000000000)
     \<and> toRate ''16 Tbit ps'' = Inr (16, 125000000000))
     \<and> toHex 167489 = ''0x28e41'' \<and> nextPowerTwo 27004 = Inr 16384"

lemma toHex_example: "toHex 167489 = ''0x28e41''"
  by (simp add: toHex_def hex_digits.simps hex_char_def) code_simp

lemma nextPowerTwo_example: "nextPowerTwo 27004 = Inr 16384"
  by (simp add: nextPowerTwo_def shift_count.simps Let_def)

lemma unitConversion_passes: testAtp_unitConversion
  unfolding testAtp_unitConversion_def
  by (rule conjI, code_simp, rule conjI, code_simp) (simp only: toHex_example nextPowerTwo_example simp_thms)

section \<open>Test 10: Kronos\<close>

text \<open>The calendar, the time of the manager and the events of the last \<^verbatim>\<open>get\<close>.\<close>

record kronos_test =
  kt_kronos :: kronos
  kt_time :: u64
  kt_queue :: "event list"

definition test_schedule :: "event \<Rightarrow> (kronos_test, unit) comp" where
  "test_schedule ev = bindS getS (\<lambda>s. bindS (liftS (kronos_schedule ev (kt_kronos s))) (\<lambda>k.
     modifyS (\<lambda>s. s\<lparr>kt_kronos := k\<rparr>)))"

definition test_get :: "(kronos_test, unit) comp" where
  "test_get = bindS getS (\<lambda>s. bindS (liftS (kronos_get (kt_time s) (kt_kronos s))) (\<lambda>(q, k).
     modifyS (\<lambda>s. s\<lparr>kt_kronos := k, kt_queue := q\<rparr>)))"

definition next_is :: "u64 \<Rightarrow> (kronos_test, unit) comp" where
  "next_is t = CPPUNIT_ASSERT (\<lambda>s. kronos_next (kt_kronos s) = Inr t)"

text \<open>A width of 3 and a calendar of 15 units of time.\<close>

definition testAtp_kronos :: "(kronos_test, unit) comp" where
  "testAtp_kronos = script [
     CPPUNIT_ASSERT (\<lambda>s. \<not> k_initialized (kt_kronos s)),
     bindS getS (\<lambda>s. bindS (liftS (kronos_init (3, 15) (kt_kronos s))) (\<lambda>k. modifyS (\<lambda>s. s\<lparr>kt_kronos := k\<rparr>))),
     CPPUNIT_ASSERT (\<lambda>s. k_initialized (kt_kronos s)), next_is 0,
     eachS (\<lambda>i. script [test_schedule (mk_event TICK TRIGGERED i i),
       CPPUNIT_ASSERT (\<lambda>s. getCounter (kt_kronos s) = (i + 3) div 3)]) [0, 3, 6, 9, 12, 15, 18, 21, 24, 27],
     eachS (\<lambda>i. script [modifyS (\<lambda>s. s\<lparr>kt_time := i\<rparr>), test_get,
       CPPUNIT_ASSERT (\<lambda>s. length (kt_queue s) = 2 \<and> list_all (\<lambda>ev. ev_action ev = TRIGGERED
         \<and> (ev_time ev = i \<or> ev_time ev = i - 3) \<and> (ev_id ev = i \<or> ev_id ev = i - 3)) (kt_queue s)),
       CPPUNIT_ASSERT (\<lambda>s. getCounter (kt_kronos s) = 0 \<or> kronos_next (kt_kronos s) = Inr (i + 3))]) [3, 9, 15, 21, 27],
     next_is 0]"

lemma kronos_passes: "passes testAtp_kronos \<lparr>kt_kronos = kronos_new, kt_time = 0, kt_queue = []\<rparr>"
  by code_simp

end
