(* ===== verification/System_Tests.thy ===== *)
theory System_Tests
  imports Unit_Tests Config Routing
begin

text \<open>
  The unit tests of \<^verbatim>\<open>test_atp.cc\<close> that build profiles: the packet descriptor, delays and slaves.
  The generator of random numbers is arbitrary, for none of them draws one. \<^verbatim>\<open>makeProfile\<close> reads
  the ids of a description, which only one test sets; they are taken to be 0, that is absent.
\<close>

definition test_profile :: "string \<Rightarrow> profile_conf" where
  "test_profile n = \<lparr>pf_type = Some P_READ, pf_master_id = Some n, pf_fifo = None, pf_slave = None,
     pf_delay = None, pf_wait_for = [], pf_pattern = None, pf_name = Some n, pf_check = [],
     pf_iommu_id = None, pf_flow_id = None\<rparr>"

definition test_fifo :: "u64 \<Rightarrow> u64 \<Rightarrow> u64 \<Rightarrow> string \<Rightarrow> fifo_conf" where
  "test_fifo full ot txns rate = \<lparr>fc_start_fifo_level = Some LEVEL_EMPTY, fc_start = None,
     fc_full_level = Some full, fc_full = None, fc_ot_limit = Some ot, fc_txnlimit = None,
     fc_total_txn = Some txns, fc_framesize = None, fc_frametime = None, fc_rate = rate\<rparr>"

section \<open>Test 2: the packet descriptor\<close>

record desc_test =
  dt_desc :: packet_desc
  dt_tagger :: "tagger option"
  dt_packet :: packet

definition desc_init :: "rng \<Rightarrow> pattern_conf \<Rightarrow> (desc_test, unit) comp" where
  "desc_init rng c = bindS getS (\<lambda>s. bindS (liftS (pd_init rng 0 c (dt_tagger s) (dt_desc s))) (\<lambda>(d, g).
     modifyS (\<lambda>s. s\<lparr>dt_desc := d, dt_tagger := g\<rparr>)))"

definition desc_send :: "rng \<Rightarrow> (desc_test, unit) comp" where
  "desc_send rng = bindS getS (\<lambda>s. bindS (liftS (pd_send rng 0 (dt_desc s) (dt_tagger s))) (\<lambda>(p, d, g).
     case p of None \<Rightarrow> failS (Uncaught ''CPPUNIT_ASSERT'')
     | Some p \<Rightarrow> modifyS (\<lambda>s. s\<lparr>dt_packet := p, dt_desc := d, dt_tagger := g\<rparr>)))"

text \<open>The packet becomes its own response.\<close>

definition desc_receive :: "(desc_test, unit) comp" where
  "desc_receive = bindS getS (\<lambda>s.
     bindS (liftS (pd_receive ((dt_packet s)\<lparr>pk_cmd := READ_RESP\<rparr>) (dt_desc s))) (\<lambda>ok.
     CPPUNIT_ASSERT (\<lambda>s. ok)))"

definition address_is :: "u64 \<Rightarrow> (desc_test, unit) comp" where
  "address_is a = CPPUNIT_ASSERT (\<lambda>s. pk_addr (dt_packet s) = a)"

definition auto_range_is :: "u64 \<Rightarrow> bool \<Rightarrow> u64 \<Rightarrow> (desc_test, unit) comp" where
  "auto_range_is n force r = bindS getS (\<lambda>s. bindS (liftS (autoRange n force (dt_desc s))) (\<lambda>(v, d).
     thenS (modifyS (\<lambda>s. s\<lparr>dt_desc := d\<rparr>)) (CPPUNIT_ASSERT (\<lambda>s. v = r))))"

definition test_pattern :: "u64 \<Rightarrow> stride_conf option \<Rightarrow> pattern_conf" where
  "test_pattern inc st = empty_pattern\<lparr>pt_cmd := Some READ_REQ, pt_wait_for := Some READ_RESP,
     pt_size := Some 64, pt_lowid := Some 10, pt_highid := Some 11, pt_stride := st,
     pt_address := Some \<lparr>ac_base = 0, ac_increment = Some inc, ac_range = None, ac_yrange = None, ac_start = 0\<rparr>\<rparr>"

definition test_stride :: stride_conf where
  "test_stride = \<lparr>sc_n = 0, sc_increment = Some 64, sc_stride = None, sc_range = Some ''640'', sc_xrange = None\<rparr>"

definition testAtp_packetDesc_linear :: "rng \<Rightarrow> (desc_test, unit) comp" where
  "testAtp_packetDesc_linear rng = script [
     desc_init rng (test_pattern 0x1FBE None),
     CPPUNIT_ASSERT (\<lambda>s. pd_initialized (dt_desc s)), CPPUNIT_ASSERT (\<lambda>s. pd_waitFor (dt_desc s) = READ_RESP),
     eachS (\<lambda>i. script [desc_send rng,
       CPPUNIT_ASSERT (\<lambda>s. pk_id (dt_packet s) = Some (if 11 < 10 + i then 10 else 10 + i)), desc_receive]) [0, 1, 2],
     bindS getS (\<lambda>s. bindS (liftS (addressReconfigure 0xBEEF 0x3F7C (dt_desc s))) (\<lambda>d.
       modifyS (\<lambda>s. s\<lparr>dt_desc := d\<rparr>))),
     eachS (\<lambda>a. script [desc_send rng, address_is a, desc_receive]) [0xBEEF, 0xDEAD, 0xBEEF],
     auto_range_is 1023 False 0x3F7C, auto_range_is 1023 True 0x7ED842,
     eachS (\<lambda>a. script [desc_send rng, address_is a, desc_receive]) [0xDEAD, 0xFE6B],
     modifyS (\<lambda>s. s\<lparr>dt_desc := pd_reset (dt_desc s)\<rparr>),
     desc_send rng, address_is 0xBEEF, desc_receive]"

definition testAtp_packetDesc_stride :: "rng \<Rightarrow> (desc_test, unit) comp" where
  "testAtp_packetDesc_stride rng = script [
     desc_init rng (test_pattern 10 (Some test_stride)), auto_range_is 100 False 6400,
     desc_init rng (test_pattern 640 (Some test_stride)),
     bindS getS (\<lambda>s. bindS (liftS (autoRange 100 False (dt_desc s))) (\<lambda>(v, d). modifyS (\<lambda>s. s\<lparr>dt_desc := d\<rparr>))),
     eachS (\<lambda>i. script [desc_send rng, address_is (of_nat i * 64)]) [0..<100]]"

definition testAtp_packetDesc :: "rng \<Rightarrow> (desc_test, unit) comp" where
  "testAtp_packetDesc rng = script [testAtp_packetDesc_linear rng, testAtp_packetDesc_stride rng]"

definition desc_test_new :: desc_test where
  "desc_test_new = \<lparr>dt_desc = packet_desc_new, dt_tagger = Some (tagger_new 0), dt_packet = new_packet\<rparr>"

lemma packetDesc_passes: "passes (testAtp_packetDesc rng) desc_test_new"
  by code_simp

section \<open>Test 8: delays\<close>

text \<open>The manager of the test with the variables \<^verbatim>\<open>locked\<close>, \<^verbatim>\<open>next\<close>, \<^verbatim>\<open>time\<close> and \<^verbatim>\<open>p\<close>.\<close>

record system_test =
  sy_tpm :: tpm
  sy_locked :: bool
  sy_next :: u64
  sy_time :: u64
  sy_packet :: "packet option"

definition on_tpm :: "(tpm, 'a) comp \<Rightarrow> (system_test, 'a) comp" where
  "on_tpm m = bindS getS (\<lambda>s. bindS (liftS (m (sy_tpm s))) (\<lambda>(x, t).
     thenS (modifyS (\<lambda>s. s\<lparr>sy_tpm := t\<rparr>)) (returnS x)))"

definition test_configure :: "rng \<Rightarrow> profile_conf \<Rightarrow> (system_test, unit) comp" where
  "test_configure rng c = on_tpm (configureProfile rng c (1, 1) False 0 invalid_id)"

text \<open>\<^verbatim>\<open>tpm->send\<close>, which sends nothing in this test; eight rounds are enough for each of its loops.\<close>

definition sends_nothing :: "rng \<Rightarrow> (system_test, unit) comp" where
  "sends_nothing rng = bindS getS (\<lambda>s. bindS (on_tpm (tpm_send rng 8 (sy_time s))) (\<lambda>(ps, l, n).
     thenS (modifyS (\<lambda>s. s\<lparr>sy_locked := l, sy_next := n\<rparr>)) (CPPUNIT_ASSERT (\<lambda>s. ps = []))))"

definition terminated_is :: "string \<Rightarrow> bool \<Rightarrow> (system_test, unit) comp" where
  "terminated_is m b = bindS (on_tpm (isTerminated m)) (\<lambda>t. CPPUNIT_ASSERT (\<lambda>s. t = b))"

definition delay_conf :: "string \<Rightarrow> string \<Rightarrow> profile_conf" where
  "delay_conf n t = (test_profile n)\<lparr>pf_delay := Some t\<rparr>"

text \<open>The delay \<open>n\<close> is active until the time \<open>t\<close>.\<close>

definition pauses_until :: "rng \<Rightarrow> string \<Rightarrow> u64 \<Rightarrow> (system_test, unit) comp" where
  "pauses_until rng n t = script [sends_nothing rng, terminated_is n False, CPPUNIT_ASSERT (\<lambda>s. sy_next s = t),
     modifyS (\<lambda>s. s\<lparr>sy_time := sy_next s\<rparr>), sends_nothing rng]"

definition testAtp_trafficProfileDelay :: "rng \<Rightarrow> (system_test, unit) comp" where
  "testAtp_trafficProfileDelay rng = script [
     test_configure rng (delay_conf ''testAtp_trafficProfileDelay_pause'' ''2s''),
     pauses_until rng ''testAtp_trafficProfileDelay_pause'' 2000000000000,
     terminated_is ''testAtp_trafficProfileDelay_pause'' True,
     test_configure rng (delay_conf ''testAtp_trafficProfileDelay_pause_2'' ''3.7ns''),
     pauses_until rng ''testAtp_trafficProfileDelay_pause_2'' 2000000003700,
     terminated_is ''testAtp_trafficProfileDelay_pause_2'' True,
     on_tpm (bindS (profileId ''testAtp_trafficProfileDelay_pause_2'') profile_reset),
     pauses_until rng ''testAtp_trafficProfileDelay_pause_2'' 2000000007400,
     test_configure rng (delay_conf ''testAtp_trafficProfileDelay_pause_3'' ''0.191       us''),
     pauses_until rng ''testAtp_trafficProfileDelay_pause_3'' 2000000198400,
     terminated_is ''testAtp_trafficProfileDelay_pause_3'' True]"

definition system_test_new :: system_test where
  "system_test_new = \<lparr>sy_tpm = tpm_new 0, sy_locked = False, sy_next = 0, sy_time = 0, sy_packet = None\<rparr>"

text \<open>The test of the packet descriptor also registers a profile with its pattern.\<close>

definition testAtp_packetDesc_profile :: "rng \<Rightarrow> (system_test, unit) comp" where
  "testAtp_packetDesc_profile rng = test_configure rng ((test_profile ''testAtp_packetDesc_profile'')
     \<lparr>pf_fifo := Some (test_fifo 0 0 0 ''0''), pf_pattern := Some (test_pattern 0x1FBE None)\<rparr>)"

lemma desc_profile_passes: "passes (testAtp_packetDesc_profile rng) system_test_new"
  by code_simp

lemma delay_passes: "passes (testAtp_trafficProfileDelay rng) system_test_new"
  by code_simp

section \<open>Test 11: slaves\<close>

definition slave_conf_16 :: "string \<Rightarrow> profile_conf" where
  "slave_conf_16 n = (test_profile n)\<lparr>pf_slave := Some \<lparr>sl_rate = ''32GBps'', sl_latency = Some ''80ns'',
     sl_random_latency = None, sl_random_latency_unit = [], sl_ot_limit = Some 6, sl_txnlimit = None,
     sl_granularity = Some 16, sl_txnsize = None, sl_master = [], sl_low_address = None,
     sl_high_address = None, sl_address_range = None\<rparr>\<rparr>"

definition slave_accepts :: "rng \<Rightarrow> u64 \<Rightarrow> u64 \<Rightarrow> bool \<Rightarrow> (system_test, unit) comp" where
  "slave_accepts rng i n b =
     bindS (on_tpm (profile_receive rng i (new_packet\<lparr>pk_cmd := READ_REQ, pk_addr := 0, pk_size := n\<rparr>) 0))
       (\<lambda>(ok, t). CPPUNIT_ASSERT (\<lambda>s. ok = b))"

definition slave_responds :: "rng \<Rightarrow> u64 \<Rightarrow> (system_test, bool) comp" where
  "slave_responds rng i = bindS (on_tpm (profile_send rng i None)) (\<lambda>(ok, l, p, t). returnS ok)"

definition testAtp_trafficProfileSlave :: "rng \<Rightarrow> (system_test, unit) comp" where
  "testAtp_trafficProfileSlave rng = script [
     test_configure rng (slave_conf_16 ''testAtp_testAtp_trafficProfileSlave''),
     eachS (\<lambda>i. slave_accepts rng 0 33 (i < (2 :: nat))) [0..<6],
     test_configure rng (slave_conf_16 ''testAtp_testAtp_trafficProfileSlave_2''),
     eachS (\<lambda>i. slave_accepts rng 1 16 (i < (6 :: nat))) [0..<7],
     on_tpm (profile_reset 1), slave_accepts rng 1 16 True,
     on_tpm (setTime 80000),
     eachS (\<lambda>i. bindS (slave_responds rng 1) (\<lambda>ok. CPPUNIT_ASSERT (\<lambda>s. i = (0 :: nat) \<or> \<not> ok))) [0..<6]]"

lemma slave_passes: "passes (testAtp_trafficProfileSlave rng) system_test_new"
  by code_simp

section \<open>Test 5: master and checker profiles\<close>

definition read_pattern :: "u64 \<Rightarrow> u64 \<Rightarrow> stride_conf option \<Rightarrow> pattern_conf" where
  "read_pattern n inc st = empty_pattern\<lparr>pt_cmd := Some READ_REQ, pt_wait_for := Some READ_RESP,
     pt_size := Some n, pt_stride := st,
     pt_address := Some \<lparr>ac_base = 0, ac_increment = Some inc, ac_range = None, ac_yrange = None, ac_start = 0\<rparr>\<rparr>"

text \<open>A call of \<^verbatim>\<open>send\<close> on the profile \<open>i\<close> and its expected results; a profile that sends sets the packet.\<close>

definition profile_sends :: "rng \<Rightarrow> u64 \<Rightarrow> bool \<Rightarrow> bool option \<Rightarrow> (system_test, unit) comp" where
  "profile_sends rng i b l = bindS getS (\<lambda>s. bindS (on_tpm (profile_send rng i (sy_packet s))) (\<lambda>(ok, locked, q, t).
     thenS (modifyS (\<lambda>s. if ok then s\<lparr>sy_packet := q\<rparr> else s))
     (CPPUNIT_ASSERT (\<lambda>s. ok = b \<and> (l = None \<or> l = Some locked)))))"

definition master_is :: "u64 \<Rightarrow> bool \<Rightarrow> bool \<Rightarrow> (system_test, unit) comp" where
  "master_is i a l = bindS (on_tpm (master_active i)) (\<lambda>(act, locked). CPPUNIT_ASSERT (\<lambda>s. act = a \<and> locked = l))"

definition checker_is :: "u64 \<Rightarrow> bool \<Rightarrow> (system_test, unit) comp" where
  "checker_is i a = bindS (on_tpm (checker_active i)) (\<lambda>act. CPPUNIT_ASSERT (\<lambda>s. act = a))"

definition profile_receives :: "rng \<Rightarrow> u64 \<Rightarrow> (system_test, unit) comp" where
  "profile_receives rng i = bindS getS (\<lambda>s. case sy_packet s of
       None \<Rightarrow> failS (Uncaught ''null packet'')
     | Some p \<Rightarrow> bindS (on_tpm (profile_receive rng i p 0)) (\<lambda>(ok, t). CPPUNIT_ASSERT (\<lambda>s. ok)))"

text \<open>The request becomes a partial response.\<close>

definition make_response :: "u64 \<Rightarrow> (system_test, unit) comp" where
  "make_response n = modifyS (\<lambda>s. s\<lparr>sy_packet := map_option (\<lambda>p. p\<lparr>pk_cmd := READ_RESP, pk_size := n\<rparr>) (sy_packet s)\<rparr>)"

definition profile_config :: profile_conf where
  "profile_config = (test_profile ''testAtp_trafficProfile'')
     \<lparr>pf_fifo := Some (test_fifo 1000 1 1 ''10''), pf_pattern := Some (read_pattern 64 0 None)\<rparr>"

definition testAtp_trafficProfile :: "rng \<Rightarrow> (system_test, unit) comp" where
  "testAtp_trafficProfile rng = script [
     test_configure rng profile_config,
     test_configure rng (profile_config\<lparr>pf_name := Some ''testAtp_trafficProfile_to_play'',
       pf_wait_for := [''testAtp_trafficProfile_to_play ACTIVATION'']\<rparr>),
     test_configure rng (profile_config\<lparr>pf_name := Some ''testAtp_trafficProfile_checker'', pf_pattern := None,
       pf_check := [''testAtp_trafficProfile'']\<rparr>),
     profile_sends rng 0 True None, profile_sends rng 2 True None,
     master_is 0 False True, profile_sends rng 0 False None,
     make_response 32, profile_receives rng 0, profile_receives rng 0, profile_receives rng 2,
     master_is 0 False False, checker_is 2 False,
     on_tpm (profile_reset 2), checker_is 2 True,
     profile_sends rng 1 False (Some True),
     bindS (on_tpm (receiveEvent tpm_event 1 (mk_event ACTIVATION TRIGGERED 1 0))) (\<lambda>b. CPPUNIT_ASSERT (\<lambda>s. b)),
     profile_sends rng 1 True (Some False)]"

lemma trafficProfile_passes: "passes (testAtp_trafficProfile rng) system_test_new"
  by code_simp

section \<open>Test 6: creation of the packet tagger\<close>

text \<open>
  The test asks for the IOMMU id 0, which \<^verbatim>\<open>makeProfile\<close> takes for no id at all; its assertion
  holds because 0 is also what an absent field reads as.
\<close>

definition tags :: "u64 \<Rightarrow> (packet \<Rightarrow> bool) \<Rightarrow> (system_test, unit) comp" where
  "tags i f = bindS (on_tpm (getProfile i)) (\<lambda>p. case pr_tagger p of
       None \<Rightarrow> failS (Uncaught ''CPPUNIT_ASSERT'')
     | Some g \<Rightarrow> (case tagPacket new_packet g of (q, g') \<Rightarrow>
         thenS (on_tpm (setp i (\<lambda>p. p\<lparr>pr_tagger := Some g'\<rparr>)))
         (CPPUNIT_ASSERT (\<lambda>s. the_default 0 (pk_iommu_id q) = 0 \<and> pk_flow_id q = Some 1 \<and> f q))))"

definition testAtp_packetTaggerCreation :: "rng \<Rightarrow> (system_test, unit) comp" where
  "testAtp_packetTaggerCreation rng = script [
     test_configure rng ((test_profile ''testAtp_tagger_creation_1'')\<lparr>pf_flow_id := Some 1,
       pf_fifo := Some (test_fifo 1000 1 1 ''10''), pf_pattern := Some (read_pattern 64 0 None)\<rparr>),
     bindS (on_tpm (getProfile 0)) (\<lambda>p. CPPUNIT_ASSERT (\<lambda>s. \<not> isValid (pr_streamId p))),
     tags 0 (\<lambda>q. pk_stream_id q = None),
     on_tpm (addToStream 2 0),
     bindS (on_tpm (getProfile 0)) (\<lambda>p. CPPUNIT_ASSERT (\<lambda>s. isValid (pr_streamId p) \<and> pr_streamId p = 2)),
     tags 0 (\<lambda>q. pk_stream_id q = Some 2)]"

lemma taggerCreation_passes: "passes (testAtp_packetTaggerCreation rng) system_test_new"
  by code_simp

section \<open>Test 7: the manager\<close>

text \<open>Both profiles send four packets of 32 bytes, the second when the first has terminated.\<close>

definition tpm_profile :: "string \<Rightarrow> string list \<Rightarrow> profile_conf" where
  "tpm_profile n ws = (test_profile n)\<lparr>pf_wait_for := ws, pf_fifo := Some (test_fifo 1000 1 4 ''10''),
     pf_pattern := Some (read_pattern 32 64 (Some \<lparr>sc_n = 0, sc_increment = Some 1, sc_stride = None,
       sc_range = Some ''3B'', sc_xrange = None\<rparr>))\<rparr>"

text \<open>A packet of the master \<open>n\<close> that is sent and answered.\<close>

definition exchange :: "rng \<Rightarrow> string \<Rightarrow> u64 \<Rightarrow> ((string \<times> packet) list \<Rightarrow> tpm \<Rightarrow> bool) \<Rightarrow> (system_test, unit) comp" where
  "exchange rng n a check = bindS getS (\<lambda>s. bindS (on_tpm (tpm_send rng 8 (sy_time s))) (\<lambda>(ps, locked, t).
     case map_of ps n of None \<Rightarrow> failS (Uncaught ''CPPUNIT_ASSERT'')
     | Some p \<Rightarrow> thenS (CPPUNIT_ASSERT (\<lambda>s. locked \<and> check ps (sy_tpm s) \<and> pk_addr p = a))
         (bindS (on_tpm (tpm_receive rng 0 (p\<lparr>pk_cmd := READ_RESP\<rparr>))) (\<lambda>ok.
          modifyS (\<lambda>s. s\<lparr>sy_locked := locked, sy_next := t\<rparr>)))))"

definition plays_stream :: "rng \<Rightarrow> (system_test, unit) comp" where
  "plays_stream rng = script [
     eachS (\<lambda>a. exchange rng ''testAtp_tpm_profile_0'' a (\<lambda>ps s. length ps = 1)) [0, 1, 2, 64],
     eachS (\<lambda>a. exchange rng ''testAtp_tpm_profile_1'' a (\<lambda>ps s. tpm_waiting s)) [0, 1, 2, 64]]"

definition stream_is_terminated :: "bool \<Rightarrow> (system_test, unit) comp" where
  "stream_is_terminated b = bindS (on_tpm (bindS (profileId ''testAtp_tpm_profile_0'') streamTerminated))
     (\<lambda>t. CPPUNIT_ASSERT (\<lambda>s. t = b))"

definition two_profiles :: "rng \<Rightarrow> (system_test, unit) comp" where
  "two_profiles rng = script [
     test_configure rng (tpm_profile ''testAtp_tpm_profile_0'' []),
     test_configure rng (tpm_profile ''testAtp_tpm_profile_1'' [''testAtp_tpm_profile_0''])]"

definition testAtp_tpm_stream :: "rng \<Rightarrow> (system_test, unit) comp" where
  "testAtp_tpm_stream rng = script [
     two_profiles rng,
     CPPUNIT_ASSERT (\<lambda>s. getMasters (sy_tpm s) = {''testAtp_tpm_profile_0'', ''testAtp_tpm_profile_1''}),
     bindS (on_tpm getMasterSlaves) (\<lambda>ms. CPPUNIT_ASSERT (\<lambda>s. ms = [])),
     plays_stream rng,
     CPPUNIT_ASSERT (\<lambda>s. \<not> tpm_waiting (sy_tpm s)), sends_nothing rng,
     stream_is_terminated True,
     on_tpm (bindS (profileId ''testAtp_tpm_profile_0'') streamReset),
     stream_is_terminated False]"

lemma tpm_stream_passes: "passes (testAtp_tpm_stream rng) system_test_new"
  by code_simp

text \<open>Four profiles in the shape of a diamond get consecutive ranges of 65 bytes.\<close>

definition testAtp_tpm_range :: "rng \<Rightarrow> (system_test, unit) comp" where
  "testAtp_tpm_range rng = script [
     on_tpm (tpm_reset rng), two_profiles rng,
     test_configure rng ((tpm_profile ''testAtp_tpm_profile_2'' [''testAtp_tpm_profile_0''])\<lparr>pf_type := Some P_WRITE\<rparr>),
     test_configure rng (tpm_profile ''testAtp_tpm_profile_3'' [''testAtp_tpm_profile_1'', ''testAtp_tpm_profile_2'']),
     bindS (on_tpm (bindS (profileId ''testAtp_tpm_profile_0'') (\<lambda>i. addressStreamReconfigure i 0x00FF 388 P_NONE)))
       (\<lambda>r. CPPUNIT_ASSERT (\<lambda>s. r = 260))]"

lemma tpm_range_passes: "passes (testAtp_tpm_range rng) system_test_new"
  by code_simp

text \<open>The first caller gets the stream itself and every other one a clone of its own.\<close>

definition unique_is :: "rng \<Rightarrow> u64 \<Rightarrow> nat \<Rightarrow> nat \<Rightarrow> (system_test, unit) comp" where
  "unique_is rng i streams profiles =
     bindS (on_tpm (bindS (profileId ''testAtp_tpm_profile_0'') (\<lambda>k. uniqueStream rng k invalid_id)))
       (\<lambda>r. CPPUNIT_ASSERT (\<lambda>s. r = i \<and> length (tp_streamCache (sy_tpm s)) = streams
          \<and> length (tp_profileMap (sy_tpm s)) = profiles))"

definition testAtp_tpm_unique :: "rng \<Rightarrow> (system_test, unit) comp" where
  "testAtp_tpm_unique rng = script [
     on_tpm (tpm_reset rng),
     test_configure rng (tpm_profile ''testAtp_tpm_profile_0'' [''testAtp_tpm_profile_0 ACTIVATION'']),
     test_configure rng (tpm_profile ''testAtp_tpm_profile_1'' [''testAtp_tpm_profile_0'']),
     on_tpm streamCacheUpdate,
     unique_is rng 0 1 2, unique_is rng 2 2 4, unique_is rng 4 3 6]"

lemma tpm_unique_passes: "passes (testAtp_tpm_unique rng) system_test_new"
  by code_simp

section \<open>Test 12: routing\<close>

definition routing_pair :: "rng \<Rightarrow> u64 \<Rightarrow> (system_test, unit) comp" where
  "routing_pair rng i = (let m = ''testAtp_trafficProfileManagerRouting_master'' @ to_string i;
       sl = slave_conf_16 (''testAtp_trafficProfileManagerRouting_slave'' @ to_string i)
     in script [
       test_configure rng ((test_profile m)\<lparr>pf_fifo := Some (test_fifo 1000 2 10 ''2''),
         pf_pattern := Some (read_pattern 64 64 None)\<rparr>),
       test_configure rng (sl\<lparr>pf_slave := map_option (\<lambda>c. c\<lparr>sl_master := [m]\<rparr>) (pf_slave sl)\<rparr>)])"

text \<open>
  The pairs are registered as they were configured. The test has ten of them, of which the lemma
  evaluates three; the run of the loop that follows is not part of this script.
\<close>

definition testAtp_trafficProfileManagerRouting :: "rng \<Rightarrow> u64 list \<Rightarrow> (system_test, unit) comp" where
  "testAtp_trafficProfileManagerRouting rng pairs = script [
     eachS (routing_pair rng) pairs,
     bindS (on_tpm getMasterSlaves) (\<lambda>ms. CPPUNIT_ASSERT (\<lambda>s. set ms = set (map (\<lambda>i.
       (''testAtp_trafficProfileManagerRouting_master'' @ to_string i,
        ''testAtp_trafficProfileManagerRouting_slave'' @ to_string i)) pairs)))]"

lemma routing_passes: "passes (testAtp_trafficProfileManagerRouting rng [0, 1, 2]) system_test_new"
  by code_simp

end
