(* ===== verification/Spec2Isabelle.thy ===== *)
theory Spec2Isabelle
  imports Event_Manager Kronos_Laws Utilities Packet_Desc Statistics Fifo_Laws Tpm_Cascade Tpm_Registry_Laws Declaration_Laws
    Engine_Laws Stream_Laws Slave_Laws Config_Laws Shell_Laws Tracer_Laws Adapter_Laws Device_Laws Replay_Laws
    Driver_Laws Buffer_Laws User_Library System_Tests
begin

text \<open>
  AMBA ATP Engine: a model of the engine and its laws.

  \<^bold>\<open>The program.\<close> The engine generates synthetic memory traffic. A configuration
  (\<^verbatim>\<open>proto/tp_config.proto\<close>) describes traffic profiles: masters that send requests at the pace of
  a FIFO model, slaves that answer them after a latency, checkers that watch other profiles, and
  delays. \<^verbatim>\<open>TrafficProfileManager\<close> owns the profiles. A host calls \<^verbatim>\<open>send\<close> with the current time
  and gets the packets that leave now and the time to call again; it calls \<^verbatim>\<open>receive\<close> with
  responses. Profiles wait for each other through events that the manager delivers; chains of
  TERMINATION events form streams, which can be reset, cloned and moved to other addresses.
  Without a host \<^verbatim>\<open>loop\<close> routes packets between internal masters and slaves and takes its
  time from the calendar queue Kronos. A shell drives all of this interactively.
  For the simulator gem5 an adaptor feeds the memory ports of a simulated system from the engine,
  and a programmable device plays streams on request of software; a Linux driver, a buffer manager
  and a user library are that software.

  \<^bold>\<open>How code is modelled.\<close> An operation is a computation from a state to an error or a result with
  the next state (theory \<open>Prelude\<close>): \<open>ErrorExit f\<close> is the macro \<^verbatim>\<open>ERROR\<close> in function \<open>f\<close>, which
  ends the program by default, \<open>Uncaught\<close> an exception nobody catches, \<open>Undefined\<close> an
  execution without meaning in C++, \<open>OutOfFuel\<close> a loop cut by the model. 64-bit and 32-bit
  integers are words, so sums wrap as in the code; a \<^verbatim>\<open>double\<close> is a rational rounded to binary64
  after each operation (\<open>Doubles\<close>); a record has the fields of its class, a map is an association list,
  a pointer to a profile is the id of the profile.

  \<^bold>\<open>The parts.\<close>
  \<^item> \<open>Events\<close>, \<open>Event_Manager\<close>: \<^verbatim>\<open>event.cc\<close>, \<^verbatim>\<open>event_manager.cc\<close>. The type, category, text and
    equality of events; the waits, emissions and counters of one profile (record \<open>em\<close>;
    \<open>em_wait\<close>, \<open>em_emit\<close>, \<open>em_receive\<close>).
  \<^item> \<open>Kronos\<close>, \<open>Kronos_Laws\<close>: \<^verbatim>\<open>kronos.cc\<close>. The calendar queue: buckets of a fixed width, an
    overflow bucket, \<open>kronos_schedule\<close>, \<open>kronos_get\<close>, \<open>kronos_next\<close>. Refinement of a time-ordered
    multiset of events.
  \<^item> \<open>Doubles\<close>, \<open>Utilities\<close>: \<^verbatim>\<open>utilities.hh\<close>, \<^verbatim>\<open>utilities.cc\<close>. Units, rates, times, greatest common
    divisors, texts.
  \<^item> \<open>Proto\<close>: the messages. \<open>Tagger\<close>: \<^verbatim>\<open>packet_tagger.cc\<close>. \<open>Random_Generator\<close>:
    \<^verbatim>\<open>random_generator.cc\<close>, with the pseudo random numbers of the C++ library as the parameter \<open>rng\<close>.
    \<open>Packet_Desc\<close>: \<^verbatim>\<open>packet_desc.cc\<close>, the addresses and sizes of the packets of a master.
  \<^item> \<open>Statistics\<close>: \<^verbatim>\<open>stats.cc\<close>.
  \<^item> \<open>Fifo_Model\<close>, \<open>Fifo_Laws\<close>: \<^verbatim>\<open>fifo.cc\<close>. The FIFO fills or drains at its rate; \<open>fifo_send\<close> reserves
    space or data and forecasts the next time, \<open>fifo_receive\<close> books responses.
  \<^item> \<open>Tpm_State\<close>: the record \<open>tpm\<close> of the manager's fields and the record \<open>profile\<close>, whose field
    \<open>pr_body\<close> holds what a subclass adds. \<open>Computations\<close>: rules for computations.
  \<^item> \<open>Tpm_Events\<close>, \<open>Tpm_Cascade\<close>: subscription, emission and delivery of events
    (\<^verbatim>\<open>TrafficProfileManager::event\<close>, \<^verbatim>\<open>subscribe\<close>, the \<^verbatim>\<open>receiveEvent\<close> of every class).
  \<^item> \<open>Tpm_Registry\<close>, \<open>Tpm_Registry_Laws\<close>: the tables of names, times, waits and address ranges.
    \<open>Declaration_Laws\<close>: profiles that are named before they are declared, over whole configurations.
  \<^item> \<open>Profiles\<close>, \<open>Profile_Laws\<close>, \<open>Slave_Laws\<close>: \<^verbatim>\<open>active\<close>, \<^verbatim>\<open>send\<close>, \<^verbatim>\<open>receive\<close>, \<^verbatim>\<open>reset\<close> of
    \<^verbatim>\<open>traffic_profile_master.cc\<close>, \<^verbatim>\<open>_slave.cc\<close>, \<^verbatim>\<open>_checker.cc\<close>, \<^verbatim>\<open>_delay.cc\<close>.
  \<^item> \<open>Streams\<close>, \<open>Stream_Laws\<close>: \<^verbatim>\<open>getStream\<close> and the operations on streams.
  \<^item> \<open>Config\<close>, \<open>Config_Laws\<close>: the constructors, \<^verbatim>\<open>createProfile\<close>, \<^verbatim>\<open>loadConfiguration\<close>, \<^verbatim>\<open>reset\<close>,
    \<^verbatim>\<open>cloneStream\<close>.
  \<^item> \<open>Routing\<close>: \<^verbatim>\<open>send\<close>, \<^verbatim>\<open>receive\<close>, \<^verbatim>\<open>route\<close>, \<^verbatim>\<open>handle\<close>, \<^verbatim>\<open>tick\<close>, \<^verbatim>\<open>loop\<close> of the manager.
  \<^item> \<open>Engine_Laws\<close>: the interface as a set of calls (\<open>call\<close>, \<open>invoke\<close>) and the invariants of every
    sequence of calls. \<open>Demo\<close>: the system the witnesses run.
  \<^item> \<open>Logger\<close>, \<open>Shell_Line\<close>, \<open>Shell\<close>, \<open>Shell_Commands\<close>, \<open>Shell_Laws\<close>: \<^verbatim>\<open>logger.hh\<close>, \<^verbatim>\<open>shell.cc\<close> and
    the functions of \<^verbatim>\<open>test_atp.cc\<close> it calls.
  \<^item> \<open>Tracer\<close>, \<open>Tracer_Laws\<close>: \<^verbatim>\<open>packet_tracer.cc\<close>, the lines a packet adds to the trace files of its
    master. A trace is a stream that is opened once for a master id and keeps its file and position;
    \<open>trace\<close> reads the manager; the engine loop of this model does not call it.
  \<^item> \<open>Adapter\<close>, \<open>Adapter_Update\<close>, \<open>Adapter_Laws\<close>: class \<^verbatim>\<open>ProfileGen\<close> of \<^verbatim>\<open>gem5/profile_gen.cc\<close>. The record
    \<open>adapter\<close> holds the manager, the buffered packets, the packets to retry, the routing table of
    responses and the scheduled events; \<open>update\<close>, \<open>recvReqRetry\<close>, \<open>recvTimingResp\<close> are its handlers.
  \<^item> \<open>Atp_Device\<close>, \<open>Device_Laws\<close>: \<^verbatim>\<open>gem5/atp_device.cc\<close>. The record \<open>device\<close> extends the adaptor with
    registers, the streams with their pending requests and the completions; \<open>mmio_read\<close> and
    \<open>mmio_write\<close> are the accesses of software. \<open>Replay_Laws\<close>: what happens to a stream that is played
    again. \<open>Demo_Device\<close>: the device the witnesses run.
  \<^item> \<open>Linux_Driver\<close>, \<open>Driver_Laws\<close>: \<^verbatim>\<open>linux/atp_device.c\<close>. The record \<open>driver\<close> extends the device, so
    that register accesses of the driver run the device. \<open>Buffer_Manager\<close>, \<open>Buffer_Laws\<close>:
    \<^verbatim>\<open>linux/atp_buffer_manager.c\<close>, pages and buffers; the counters of its loops are of type \<^verbatim>\<open>int\<close>. \<open>User_Library\<close>: \<^verbatim>\<open>linux/uapi/atp.c\<close> on both.
  \<^item> \<open>Unit_Tests\<close>, \<open>System_Tests\<close>: the unit tests of \<^verbatim>\<open>test_atp.cc\<close> as programs over the model, and code
    equations that evaluate doubles on numerators and denominators.

  \<^bold>\<open>Interfaces.\<close> \<open>step_relation\<close> (a reflexive, transitive relation between states that all
  combinators respect) carries the frame arguments: its instances are \<open>quiet\<close> (nothing but waits,
  activation and halting changes), \<open>still\<close> (no counts change), \<open>later\<close> (counts grow within
  limits), \<open>idle\<close>, \<open>same\<close>. \<open>guarded_system\<close> and \<open>live_system\<close> give invariants of all admissible
  runs; their instances are the FIFO and the engine. \<open>wait_set\<close>, \<open>future_event_list\<close>,
  \<open>id_table\<close> are the contracts of the event manager, of Kronos and of the two name tables.
  \<open>fresh\<close>, \<open>same_event\<close>, \<open>view\<close>, \<open>finishing\<close> and \<open>engine_lasts\<close> are the instances of \<open>step_relation\<close> for the
  adaptor and the device: what a computation may do to the schedule, to the queues, to the completions and
  to what has ended.

  \<^bold>\<open>What is shown.\<close> Every sequence of interface calls keeps each profile under its id and each
  master within its limits of packets and outstanding transactions, and the clock never goes
  back without a reset. Kronos returns every event once, in time order. A FIFO reserves the
  space of what is in flight, keeps its rate exactly over whole periods and forecasts the next
  transmission exactly. A slave is a queue of timed responses. Event cascades end and streams
  are found completely. Names, ids, ranges and waits form correct tables, and the counter of forward
  declarations is the number of profiles that are named and not declared. Random and linear
  addresses stay where they are configured. The line editor refines a buffer split at the cursor.
  The routing table of the adaptor is a queue of ids for each requestor, address and kind of
  response, serving the ports ends and hands over each packet once, and updates ask for packets
  of the present. The device implements its queues of requests and completions in every order of
  events, and no request is lost. Programming the device through the driver is handing over the
  request; interrupts complete every request that is finished; play calls leave nothing behind while
  other calls add and remove requests during their sleep, nor do failed discoveries and released buffers.
  Unit tests of the repository, as far as they are programs of \<open>Unit_Tests\<close> and \<open>System_Tests\<close>, are
  evaluated on the model as a check of the definitions.
  Where the code does not do what it means to, the theorem states what it does: duplicate waits
  stay locked, events scheduled behind the calendar's position are skipped, the common divisor is
  wrong above 53 bits, enclosing ranges are accepted, a reset keeps the ranges, addresses can pass
  the range of a stride, the shell hangs at the end of its input, tracing ends the program on a
  response nobody waits for, a request to read and write ends the simulation, a stream played
  again completes at once, a trace stays in the file it was opened for, the name of the misc device is written behind its memory, failed exports
  lose pages and unreported buffers are freed twice.

  \<^bold>\<open>Bounds and fuel.\<close> The depth of an event cascade is bounded by the number of profiles
  (\<open>tpm_event\<close> takes that fuel, proved enough), and so is a traversal of a stream. The common
  divisor takes 130 rounds, proved enough for 64-bit words; the carry of a FIFO takes as many
  rounds as it has to move. The loops of \<^verbatim>\<open>send\<close> and \<^verbatim>\<open>loop\<close> may not end (a master without rate,
  limits or end of data keeps sending), so \<open>burst\<close>, \<open>active_loop\<close> and \<open>tick_loop\<close> take the bound
  as an argument and fail with \<open>OutOfFuel\<close>. The loops of the shell are partial functions with the
  value None for not returning. The loop over the ports takes as many rounds as there are buffered
  packets and masters, proved enough; the loop over the active streams takes its bound as an
  argument, because callbacks may add streams, and so do the waits of the driver for STATUS
  (\<open>kn_polls\<close>) and the attempts of the user library to connect, which the code does not bound.

  \<^bold>\<open>Not modelled.\<close> The log file and the debug output (output only), the text format of protocol
  buffers (an external library: a parsed configuration is the input), the Python tools. Of the unit
  tests, the runs of the test of the manager after its first stream (\<^verbatim>\<open>testAtp_tpm\<close>), seven of the ten pairs
  of the routing test and its loop are left out: they repeat steps of the other tests at a length that is
  slow to evaluate. Where the standard leaves an order open, the model takes that of libstdc++ (a search in
  a multimap finds the oldest of equal keys) or a parameter (\<open>pl_slot\<close>, the order of hash sets); the waiters of a
  terminated profile are read before the first of them is alerted. gem5 and the Linux kernel are not part of the repository: the records \<open>platform\<close>, \<open>kernel\<close>,
  \<open>memory\<close> and \<open>system\<close> are their parameters, and the packet trace of gem5, the registration of gem5
  statistics, the removal of mappings and \<^verbatim>\<open>mmap\<close> of the user library, which only call them, are left
  out. One device is attached to an adaptor. In the shell, what the engine does after one of its
  errors is left out, because its operations stop at an error in this model.
\<close>

end
